(* ===== verification/Prelude.thy ===== *)
theory Prelude
  imports Main "HOL-Library.Word"
begin

text \<open>
  The computation model shared by all components.

  A Rust function that takes mutable references is a function from the state to an outcome and
  the new state.  An outcome is the value, an error value (the state keeps what was changed
  before the \<open>?\<close> that returned it), a panic (failed assertion, \<open>unwrap\<close> of \<open>None\<close>, index out
  of range, arithmetic overflow, \<open>unreachable!\<close>) or \<open>Hang\<close>, which stands for a recursion that
  does not end.  Unsigned integers of the code are natural numbers, and every operation that can
  leave the range of \<open>u64\<close> is a checked operation that panics, as the code does when it is built
  with overflow checks (the default profile and the test profile of cargo).  Where a theorem
  shows that a run does not panic, the wrapping of a release build cannot occur either.
\<close>

type_synonym byte = "8 word"

datatype ('e, 'a) res = Ok 'a | Err 'e | Panic | Hang

type_synonym ('s, 'e, 'a) prog = "'s \<Rightarrow> ('e, 'a) res \<times> 's"

named_theorems keeps_intros \<open>rules that decompose an invariance goal along a program\<close>
named_theorems stable_intros \<open>rules that decompose a frame goal along a program\<close>

section \<open>Combinators\<close>

definition ret :: "'a \<Rightarrow> ('s, 'e, 'a) prog" where
  "ret a = (\<lambda>s. (Ok a, s))"

definition fail :: "'e \<Rightarrow> ('s, 'e, 'a) prog" where
  "fail e = (\<lambda>s. (Err e, s))"

definition panic :: "('s, 'e, 'a) prog" where
  "panic = (\<lambda>s. (Panic, s))"

definition hang :: "('s, 'e, 'a) prog" where
  "hang = (\<lambda>s. (Hang, s))"

definition bnd :: "('s, 'e, 'a) prog \<Rightarrow> ('a \<Rightarrow> ('s, 'e, 'b) prog) \<Rightarrow> ('s, 'e, 'b) prog" where
  "bnd m f = (\<lambda>s. case m s of
     (Ok a, s') \<Rightarrow> f a s'
   | (Err e, s') \<Rightarrow> (Err e, s')
   | (Panic, s') \<Rightarrow> (Panic, s')
   | (Hang, s') \<Rightarrow> (Hang, s'))"

definition andthen :: "('s, 'e, 'a) prog \<Rightarrow> ('s, 'e, 'b) prog \<Rightarrow> ('s, 'e, 'b) prog" where
  "andthen m n = bnd m (\<lambda>_. n)"

definition gets :: "('s \<Rightarrow> 'a) \<Rightarrow> ('s, 'e, 'a) prog" where
  "gets f = (\<lambda>s. (Ok (f s), s))"

definition modify :: "('s \<Rightarrow> 's) \<Rightarrow> ('s, 'e, unit) prog" where
  "modify f = (\<lambda>s. (Ok (), f s))"

text \<open>A fallible function that does not change the state.\<close>

definition lift_res :: "('e, 'a) res \<Rightarrow> ('s, 'e, 'a) prog" where
  "lift_res r = (\<lambda>s. (r, s))"

definition query :: "('s \<Rightarrow> ('e, 'a) res) \<Rightarrow> ('s, 'e, 'a) prog" where
  "query f = (\<lambda>s. (f s, s))"

fun res_bnd :: "('e, 'a) res \<Rightarrow> ('a \<Rightarrow> ('e, 'b) res) \<Rightarrow> ('e, 'b) res" where
  "res_bnd (Ok a) f = f a"
| "res_bnd (Err e) f = Err e"
| "res_bnd Panic f = Panic"
| "res_bnd Hang f = Hang"

text \<open>The conversion that \<open>?\<close> applies to an error.\<close>

fun res_map_err :: "('e \<Rightarrow> 'f) \<Rightarrow> ('e, 'a) res \<Rightarrow> ('f, 'a) res" where
  "res_map_err g (Ok a) = Ok a"
| "res_map_err g (Err e) = Err (g e)"
| "res_map_err g Panic = Panic"
| "res_map_err g Hang = Hang"

definition map_err :: "('e \<Rightarrow> 'f) \<Rightarrow> ('s, 'e, 'a) prog \<Rightarrow> ('s, 'f, 'a) prog" where
  "map_err g m = (\<lambda>s. case m s of (r, s') \<Rightarrow> (res_map_err g r, s'))"

text \<open>
  A value that is dropped when its scope is left, normally or through \<open>?\<close>: the drop action runs
  after the body and does not change the outcome.
\<close>

definition dropping :: "('s \<Rightarrow> 's) \<Rightarrow> ('s, 'e, 'a) prog \<Rightarrow> ('s, 'e, 'a) prog" where
  "dropping d m = (\<lambda>s. case m s of
     (Ok a, s') \<Rightarrow> (Ok a, d s')
   | (Err e, s') \<Rightarrow> (Err e, d s')
   | (Panic, s') \<Rightarrow> (Panic, s')
   | (Hang, s') \<Rightarrow> (Hang, s'))"

text \<open>A result that is inspected instead of propagated (\<open>if let Ok(x) = ...\<close>).\<close>

definition attempt :: "('s, 'e, 'a) prog \<Rightarrow> ('s, 'e, 'a option) prog" where
  "attempt m = (\<lambda>s. case m s of
     (Ok a, s') \<Rightarrow> (Ok (Some a), s')
   | (Err e, s') \<Rightarrow> (Ok None, s')
   | (Panic, s') \<Rightarrow> (Panic, s')
   | (Hang, s') \<Rightarrow> (Hang, s'))"

definition assert_that :: "bool \<Rightarrow> ('s, 'e, unit) prog" where
  "assert_that b = (if b then ret () else panic)"

definition index :: "'a list \<Rightarrow> nat \<Rightarrow> ('s, 'e, 'a) prog" where
  "index xs i = (if i < length xs then ret (xs ! i) else panic)"

definition unwrap :: "'a option \<Rightarrow> ('s, 'e, 'a) prog" where
  "unwrap x = (case x of None \<Rightarrow> panic | Some a \<Rightarrow> ret a)"

section \<open>Checked arithmetic on \<open>u64\<close> (\<open>usize\<close> is 64 bits wide as well)\<close>

abbreviation u64_limit :: nat where
  "u64_limit \<equiv> 18446744073709551616"

definition ck_add :: "nat \<Rightarrow> nat \<Rightarrow> ('s, 'e, nat) prog" where
  "ck_add a b = (if a + b < u64_limit then ret (a + b) else panic)"

definition ck_sub :: "nat \<Rightarrow> nat \<Rightarrow> ('s, 'e, nat) prog" where
  "ck_sub a b = (if b \<le> a then ret (a - b) else panic)"

definition ck_mul :: "nat \<Rightarrow> nat \<Rightarrow> ('s, 'e, nat) prog" where
  "ck_mul a b = (if a * b < u64_limit then ret (a * b) else panic)"

definition ck_div :: "nat \<Rightarrow> nat \<Rightarrow> ('s, 'e, nat) prog" where
  "ck_div a b = (if b = 0 then panic else ret (a div b))"

definition ck_mod :: "nat \<Rightarrow> nat \<Rightarrow> ('s, 'e, nat) prog" where
  "ck_mod a b = (if b = 0 then panic else ret (a mod b))"

definition ck_pow :: "nat \<Rightarrow> nat \<Rightarrow> ('s, 'e, nat) prog" where
  "ck_pow a n = (if a ^ n < u64_limit then ret (a ^ n) else panic)"

text \<open>The cast \<open>x as i64\<close> of an unsigned 64-bit value.\<close>

definition as_i64 :: "nat \<Rightarrow> int" where
  "as_i64 n = (let m = n mod u64_limit in
     if m < 9223372036854775808 then int m else int m - 18446744073709551616)"

section \<open>Execution rules\<close>

lemma ret_apply [simp]: "ret a s = (Ok a, s)"
  by (simp add: ret_def)

lemma fail_apply [simp]: "fail e s = (Err e, s)"
  by (simp add: fail_def)

lemma panic_apply [simp]: "panic s = (Panic, s)"
  by (simp add: panic_def)

lemma hang_apply [simp]: "hang s = (Hang, s)"
  by (simp add: hang_def)

lemma gets_apply [simp]: "gets f s = (Ok (f s), s)"
  by (simp add: gets_def)

lemma modify_apply [simp]: "modify f s = (Ok (), f s)"
  by (simp add: modify_def)

lemma lift_res_apply [simp]: "lift_res r s = (r, s)"
  by (simp add: lift_res_def)

lemma query_apply [simp]: "query f s = (f s, s)"
  by (simp add: query_def)

lemma bnd_ret [simp]: "bnd (ret a) f = f a"
  by (simp add: bnd_def ret_def)

lemma bnd_fail [simp]: "bnd (fail e) f = fail e"
  by (simp add: bnd_def fail_def)

lemma bnd_panic [simp]: "bnd panic f = panic"
  by (simp add: bnd_def panic_def)

lemma bnd_hang [simp]: "bnd hang f = hang"
  by (simp add: bnd_def hang_def)

lemma bnd_gets [simp]: "bnd (gets g) f s = f (g s) s"
  by (simp add: bnd_def)

lemma bnd_modify [simp]: "bnd (modify g) f s = f () (g s)"
  by (simp add: bnd_def)

lemma bnd_lift_Ok [simp]: "bnd (lift_res (Ok a)) f = f a"
  by (simp add: bnd_def lift_res_def)

lemma bnd_lift_Err [simp]: "bnd (lift_res (Err e)) f = fail e"
  by (simp add: bnd_def lift_res_def fail_def)

lemma bnd_Ok: "m s = (Ok a, s') \<Longrightarrow> bnd m f s = f a s'"
  by (simp add: bnd_def)

lemma bnd_Err: "m s = (Err e, s') \<Longrightarrow> bnd m f s = (Err e, s')"
  by (simp add: bnd_def)

lemma bnd_Panic: "m s = (Panic, s') \<Longrightarrow> bnd m f s = (Panic, s')"
  by (simp add: bnd_def)

lemma bnd_Hang: "m s = (Hang, s') \<Longrightarrow> bnd m f s = (Hang, s')"
  by (simp add: bnd_def)

lemma bnd_query_Ok: "g s = Ok a \<Longrightarrow> bnd (query g) f s = f a s"
  by (simp add: bnd_def)

lemma bnd_assoc: "bnd (bnd m f) g = bnd m (\<lambda>a. bnd (f a) g)"
  by (rule ext) (simp add: bnd_def split: prod.split res.split)

lemma bnd_ret_right [simp]: "bnd m ret = m"
  by (rule ext) (simp add: bnd_def split: prod.split res.split)

lemma bnd_eq_Ok:
  "bnd m f s = (Ok b, t) \<longleftrightarrow> (\<exists>a s'. m s = (Ok a, s') \<and> f a s' = (Ok b, t))"
  by (auto simp: bnd_def split: prod.splits res.splits)

lemma andthen_Ok: "m s = (Ok a, s') \<Longrightarrow> andthen m n s = n s'"
  by (simp add: andthen_def bnd_Ok)

lemma andthen_eq_Ok:
  "andthen m n s = (Ok b, t) \<longleftrightarrow> (\<exists>a s'. m s = (Ok a, s') \<and> n s' = (Ok b, t))"
  by (simp add: andthen_def bnd_eq_Ok)

lemma andthen_simps [simp]:
  "andthen (ret a) n = n" "andthen (fail e) n' = fail e" "andthen panic n'' = panic"
  by (simp_all add: andthen_def)

lemma andthen_modify [simp]: "andthen (modify g) n s = n (g s)"
  by (simp add: andthen_def)

lemma map_err_Ok: "m s = (Ok a, s') \<Longrightarrow> map_err g m s = (Ok a, s')"
  by (simp add: map_err_def)

lemma map_err_Err: "m s = (Err e, s') \<Longrightarrow> map_err g m s = (Err (g e), s')"
  by (simp add: map_err_def)

lemma res_map_err_Ok [simp]: "res_map_err g r = Ok a \<longleftrightarrow> r = Ok a"
  by (cases r) auto

lemma map_err_eq_Ok [simp]: "map_err g m s = (Ok a, s') \<longleftrightarrow> m s = (Ok a, s')"
  by (auto simp: map_err_def split: prod.splits)

lemma dropping_Ok: "m s = (Ok a, s') \<Longrightarrow> dropping d m s = (Ok a, d s')"
  by (simp add: dropping_def)

lemma dropping_Err: "m s = (Err e, s') \<Longrightarrow> dropping d m s = (Err e, d s')"
  by (simp add: dropping_def)

lemma dropping_eq_Ok:
  "dropping d m s = (Ok a, t) \<longleftrightarrow> (\<exists>s'. m s = (Ok a, s') \<and> t = d s')"
  by (auto simp: dropping_def split: prod.splits res.splits)

lemma assert_that_simps [simp]:
  "assert_that True = ret ()" "assert_that False = panic"
  by (simp_all add: assert_that_def)

lemma ck_add_ok [simp]: "a + b < u64_limit \<Longrightarrow> ck_add a b = ret (a + b)"
  by (simp add: ck_add_def)

lemma ck_sub_ok [simp]: "b \<le> a \<Longrightarrow> ck_sub a b = ret (a - b)"
  by (simp add: ck_sub_def)

lemma ck_sub_panic [simp]: "a < b \<Longrightarrow> ck_sub a b = panic"
  by (simp add: ck_sub_def)

lemma ck_mul_ok [simp]: "a * b < u64_limit \<Longrightarrow> ck_mul a b = ret (a * b)"
  by (simp add: ck_mul_def)

lemma ck_div_ok [simp]: "b \<noteq> 0 \<Longrightarrow> ck_div a b = ret (a div b)"
  by (simp add: ck_div_def)

lemma ck_mod_ok [simp]: "b \<noteq> 0 \<Longrightarrow> ck_mod a b = ret (a mod b)"
  by (simp add: ck_mod_def)

lemma ck_pow_ok [simp]: "a ^ n < u64_limit \<Longrightarrow> ck_pow a n = ret (a ^ n)"
  by (simp add: ck_pow_def)

lemma index_ok [simp]: "i < length xs \<Longrightarrow> index xs i = ret (xs ! i)"
  by (simp add: index_def)

lemma index_panic: "length xs \<le> i \<Longrightarrow> index xs i = panic"
  by (simp add: index_def)

lemma unwrap_simps [simp]: "unwrap (Some a) = ret a" "unwrap None = panic"
  by (simp_all add: unwrap_def)

lemma as_i64_small [simp]: "n < 9223372036854775808 \<Longrightarrow> as_i64 n = int n"
  by (simp add: as_i64_def Let_def)

lemma as_i64_neg: "9223372036854775808 \<le> n \<Longrightarrow> n < u64_limit \<Longrightarrow> as_i64 n < 0"
  by (simp add: as_i64_def Let_def)

section \<open>Invariance and frame\<close>

text \<open>\<open>keeps P m\<close>: every outcome of \<open>m\<close>, errors and panics included, leaves a state with \<open>P\<close>.\<close>

definition keeps :: "('s \<Rightarrow> bool) \<Rightarrow> ('s, 'e, 'a) prog \<Rightarrow> bool" where
  "keeps P m \<longleftrightarrow> (\<forall>s. P s \<longrightarrow> P (snd (m s)))"

text \<open>\<open>stable g m\<close>: no outcome of \<open>m\<close> changes the part \<open>g\<close> of the state.\<close>

definition stable :: "('s \<Rightarrow> 'b) \<Rightarrow> ('s, 'e, 'a) prog \<Rightarrow> bool" where
  "stable g m \<longleftrightarrow> (\<forall>s. g (snd (m s)) = g s)"

lemma stableD: "stable g m \<Longrightarrow> m s = (r, s') \<Longrightarrow> g s' = g s"
  unfolding stable_def by (metis snd_conv)

lemma keepsD: "keeps P m \<Longrightarrow> P s \<Longrightarrow> m s = (r, s') \<Longrightarrow> P s'"
  unfolding keeps_def by (metis snd_conv)

lemma stable_bnd [stable_intros]:
  "stable g m \<Longrightarrow> (\<And>a. stable g (f a)) \<Longrightarrow> stable g (bnd m f)"
  by (auto simp: stable_def bnd_def split: prod.split res.split) (metis snd_conv)+

lemma keeps_bnd [keeps_intros]:
  "keeps P m \<Longrightarrow> (\<And>a. keeps P (f a)) \<Longrightarrow> keeps P (bnd m f)"
  by (auto simp: keeps_def bnd_def split: prod.split res.split)

lemma stable_andthen [stable_intros]:
  "stable g m \<Longrightarrow> stable g n \<Longrightarrow> stable g (andthen m n)"
  by (simp add: andthen_def stable_bnd)

lemma keeps_andthen [keeps_intros]:
  "keeps P m \<Longrightarrow> keeps P n \<Longrightarrow> keeps P (andthen m n)"
  by (simp add: andthen_def keeps_bnd)

lemma stable_map_err [stable_intros]: "stable g m \<Longrightarrow> stable g (map_err h m)"
  by (auto simp: stable_def map_err_def split: prod.split) (metis snd_conv)

lemma keeps_map_err [keeps_intros]: "keeps P m \<Longrightarrow> keeps P (map_err h m)"
  by (auto simp: keeps_def map_err_def split: prod.split)

lemma stable_basic [stable_intros]:
  "stable g (ret a)" "stable g (fail e)" "stable g panic" "stable g hang"
  "stable g (gets f)" "stable g (lift_res r)" "stable g (query q)"
  by (simp_all add: stable_def)

lemma keeps_basic [keeps_intros]:
  "keeps P (ret a)" "keeps P (fail e)" "keeps P panic" "keeps P hang"
  "keeps P (gets f)" "keeps P (lift_res r)" "keeps P (query q)"
  by (simp_all add: keeps_def)

lemma stable_pure [stable_intros]:
  "stable g (ck_add a b)" "stable g (ck_sub a b)" "stable g (ck_mul a b)" "stable g (ck_div a b)"
  "stable g (ck_mod a b)" "stable g (ck_pow a b)" "stable g (index xs i)" "stable g (unwrap x)"
  "stable g (assert_that c)"
  by (simp_all add: stable_def ck_add_def ck_sub_def ck_mul_def ck_div_def ck_mod_def ck_pow_def
      index_def unwrap_def assert_that_def split: option.split)

lemma keeps_pure [keeps_intros]:
  "keeps P (ck_add a b)" "keeps P (ck_sub a b)" "keeps P (ck_mul a b)" "keeps P (ck_div a b)"
  "keeps P (ck_mod a b)" "keeps P (ck_pow a b)" "keeps P (index xs i)" "keeps P (unwrap x)"
  "keeps P (assert_that c)"
  by (simp_all add: keeps_def ck_add_def ck_sub_def ck_mul_def ck_div_def ck_mod_def ck_pow_def
      index_def unwrap_def assert_that_def split: option.split)

lemma stable_modify [stable_intros]: "(\<And>s. g (f s) = g s) \<Longrightarrow> stable g (modify f)"
  by (simp add: stable_def)

lemma keeps_modify [keeps_intros]: "(\<And>s. P s \<Longrightarrow> P (f s)) \<Longrightarrow> keeps P (modify f)"
  by (simp add: keeps_def)

lemma stable_if [stable_intros]:
  "(c \<Longrightarrow> stable g m) \<Longrightarrow> (\<not> c \<Longrightarrow> stable g n) \<Longrightarrow> stable g (if c then m else n)"
  by simp

lemma keeps_if [keeps_intros]:
  "(c \<Longrightarrow> keeps P m) \<Longrightarrow> (\<not> c \<Longrightarrow> keeps P n) \<Longrightarrow> keeps P (if c then m else n)"
  by simp

lemma stable_option [stable_intros]:
  "stable g m \<Longrightarrow> (\<And>a. stable g (f a)) \<Longrightarrow>
   stable g (case x of None \<Rightarrow> m | Some a \<Rightarrow> f a)"
  by (cases x) auto

lemma keeps_option [keeps_intros]:
  "keeps P m \<Longrightarrow> (\<And>a. keeps P (f a)) \<Longrightarrow>
   keeps P (case x of None \<Rightarrow> m | Some a \<Rightarrow> f a)"
  by (cases x) auto

lemma stable_dropping [stable_intros]:
  "stable g m \<Longrightarrow> (\<And>s. g (d s) = g s) \<Longrightarrow> stable g (dropping d m)"
  by (auto simp: stable_def dropping_def split: prod.split res.split) (metis snd_conv)+

lemma keeps_dropping [keeps_intros]:
  "keeps P m \<Longrightarrow> (\<And>s. P s \<Longrightarrow> P (d s)) \<Longrightarrow> keeps P (dropping d m)"
  by (auto simp: keeps_def dropping_def split: prod.split res.split)

lemma stable_prod [stable_intros]: "(\<And>a b. stable g (f a b)) \<Longrightarrow> stable g (case x of (a, b) \<Rightarrow> f a b)"
  by (cases x) simp

lemma stable_attempt [stable_intros]: "stable g m \<Longrightarrow> stable g (attempt m)"
  by (auto simp: stable_def attempt_def split: prod.split res.split) (metis snd_conv)+

lemma keeps_prod [keeps_intros]: "(\<And>a b. keeps P (f a b)) \<Longrightarrow> keeps P (case x of (a, b) \<Rightarrow> f a b)"
  by (cases x) simp

lemma keeps_attempt [keeps_intros]: "keeps P m \<Longrightarrow> keeps P (attempt m)"
  by (auto simp: keeps_def attempt_def split: prod.split res.split)

section \<open>Preconditions\<close>

text \<open>
  \<open>wp T m Q E s\<close>: the run of \<open>m\<close> from \<open>s\<close> ends with a value and \<open>Q\<close>, or with an error and \<open>E\<close>; it may
  panic or hang only when \<open>T\<close> is false.
\<close>

named_theorems wp_rules \<open>equations that decompose a precondition along a program\<close>

definition wp ::
  "bool \<Rightarrow> ('s, 'e, 'a) prog \<Rightarrow> ('a \<Rightarrow> 's \<Rightarrow> bool) \<Rightarrow> ('e \<Rightarrow> 's \<Rightarrow> bool) \<Rightarrow> 's \<Rightarrow> bool" where
  "wp T m Q E s \<longleftrightarrow> (case m s of
     (Ok a, s') \<Rightarrow> Q a s' | (Err e, s') \<Rightarrow> E e s' | (Panic, s') \<Rightarrow> \<not> T | (Hang, s') \<Rightarrow> \<not> T)"

lemma wp_conseq:
  "wp T m Q E s \<Longrightarrow> (\<And>a s'. Q a s' \<Longrightarrow> Q' a s') \<Longrightarrow> (\<And>e s'. E e s' \<Longrightarrow> E' e s') \<Longrightarrow> wp T m Q' E' s"
  by (auto simp: wp_def split: prod.splits res.splits)

lemma wp_partial: "wp True m Q E s \<Longrightarrow> wp T m Q E s"
  by (auto simp: wp_def split: prod.splits res.splits)

lemma wp_conj: "wp T m Q E s \<Longrightarrow> wp T m Q' E' s \<Longrightarrow>
  wp T m (\<lambda>a s. Q a s \<and> Q' a s) (\<lambda>e s. E e s \<and> E' e s) s"
  by (auto simp: wp_def split: prod.splits res.splits)

lemma wp_Ok: "m s = (Ok a, s') \<Longrightarrow> wp T m Q E s = Q a s'"
  by (simp add: wp_def)

lemma wp_Err: "m s = (Err e, s') \<Longrightarrow> wp T m Q E s = E e s'"
  by (simp add: wp_def)

lemma wp_outcome: "wp True m Q (\<lambda>_ _. False) s \<Longrightarrow> \<exists>a s'. m s = (Ok a, s') \<and> Q a s'"
  by (auto simp: wp_def split: prod.splits res.splits)

lemma wpD: "wp T m Q E s \<Longrightarrow> m s = (Ok a, s') \<Longrightarrow> Q a s'"
  by (simp add: wp_def)

lemma wpD_Err: "wp T m Q E s \<Longrightarrow> m s = (Err e, s') \<Longrightarrow> E e s'"
  by (simp add: wp_def)

lemma wp_ret [wp_rules]: "wp T (ret a) Q E s = Q a s"
  by (simp add: wp_def)

lemma wp_fail [wp_rules]: "wp T (fail e) Q E s = E e s"
  by (simp add: wp_def)

lemma wp_panic [wp_rules]: "wp T panic Q E s = (\<not> T)" "wp T hang Q E s = (\<not> T)"
  by (simp_all add: wp_def)

lemma wp_gets [wp_rules]: "wp T (gets f) Q E s = Q (f s) s"
  by (simp add: wp_def)

lemma wp_modify [wp_rules]: "wp T (modify g) Q E s = Q () (g s)"
  by (simp add: wp_def)

lemmas wp_basic = wp_ret wp_fail wp_panic wp_gets wp_modify

lemma wp_bnd [wp_rules]: "wp T (bnd m f) Q E s = wp T m (\<lambda>a. wp T (f a) Q E) E s"
  by (simp add: wp_def bnd_def split: prod.split res.split)

lemma wp_andthen [wp_rules]: "wp T (andthen m n) Q E s = wp T m (\<lambda>_. wp T n Q E) E s"
  by (simp add: andthen_def wp_bnd)

lemma wp_map_err [wp_rules]: "wp T (map_err g m) Q E s = wp T m Q (\<lambda>e. E (g e)) s"
  by (auto simp: wp_def map_err_def split: prod.split res.split)

lemma wp_dropping [wp_rules]:
  "wp T (dropping d m) Q E s = wp T m (\<lambda>a s. Q a (d s)) (\<lambda>e s. E e (d s)) s"
  by (simp add: wp_def dropping_def split: prod.split res.split)

lemma wp_attempt [wp_rules]:
  "wp T (attempt m) Q E s = wp T m (\<lambda>a. Q (Some a)) (\<lambda>_. Q None) s"
  by (simp add: wp_def attempt_def split: prod.split res.split)

lemma wp_checked [wp_rules]:
  "wp T (ck_add a b) Q E s = (if a + b < u64_limit then Q (a + b) s else \<not> T)"
  "wp T (ck_sub a b) Q E s = (if b \<le> a then Q (a - b) s else \<not> T)"
  "wp T (ck_mul a b) Q E s = (if a * b < u64_limit then Q (a * b) s else \<not> T)"
  "wp T (ck_div a b) Q E s = (if b = 0 then \<not> T else Q (a div b) s)"
  "wp T (ck_mod a b) Q E s = (if b = 0 then \<not> T else Q (a mod b) s)"
  "wp T (ck_pow a n) Q E s = (if a ^ n < u64_limit then Q (a ^ n) s else \<not> T)"
  by (simp_all add: ck_add_def ck_sub_def ck_mul_def ck_div_def ck_mod_def ck_pow_def wp_basic)

lemma wp_assert_that [wp_rules]: "wp T (assert_that c) Q E s = (if c then Q () s else \<not> T)"
  by (simp add: assert_that_def wp_basic)

lemma wp_index [wp_rules]: "wp T (index xs i) Q E s = (if i < length xs then Q (xs ! i) s else \<not> T)"
  by (simp add: index_def wp_basic)

lemma wp_unwrap [wp_rules]:
  "wp T (unwrap x) Q E s = (case x of None \<Rightarrow> \<not> T | Some a \<Rightarrow> Q a s)"
  by (simp add: unwrap_def wp_basic split: option.split)

lemma wp_lift_res [wp_rules]:
  "wp T (lift_res r) Q E s = (case r of Ok a \<Rightarrow> Q a s | Err e \<Rightarrow> E e s | Panic \<Rightarrow> \<not> T | Hang \<Rightarrow> \<not> T)"
  by (simp add: wp_def split: res.split)

lemma wp_if [wp_rules]: "wp T (if c then m else n) Q E s = (if c then wp T m Q E s else wp T n Q E s)"
  by simp

lemma wp_option [wp_rules]:
  "wp T (case x of None \<Rightarrow> m | Some a \<Rightarrow> f a) Q E s =
   (case x of None \<Rightarrow> wp T m Q E s | Some a \<Rightarrow> wp T (f a) Q E s)"
  by (cases x) auto

lemma wp_prod [wp_rules]:
  "wp T (case x of (a, b) \<Rightarrow> f a b) Q E s = (case x of (a, b) \<Rightarrow> wp T (f a b) Q E s)"
  by (cases x) auto

text \<open>An invariant that every outcome keeps is also kept by the value and error outcomes.\<close>

lemma keeps_wp: "keeps P m \<Longrightarrow> P s \<Longrightarrow> wp False m (\<lambda>_. P) (\<lambda>_. P) s"
  by (simp add: wp_def keeps_def split: prod.split res.split) (metis snd_conv)

lemma stable_wp: "stable g m \<Longrightarrow> wp False m (\<lambda>_ t. g t = g s) (\<lambda>_ t. g t = g s) s"
  by (simp add: wp_def stable_def split: prod.split res.split) (metis snd_conv)

section \<open>Lists\<close>

lemma length_concat_same:
  "(\<And>x. x \<in> set xs \<Longrightarrow> length x = n) \<Longrightarrow> length (concat xs) = n * length xs"
  by (induction xs) auto

lemma nth_upt_map [simp]: "i < n \<Longrightarrow> map f [p..<p + n] ! i = f (p + i)"
  by simp

end
