(* ===== verification/Errors.thy ===== *)
theory Errors
  imports Prelude
begin

text \<open>
  The error values of dkfs (\<open>DkError\<close> of lib.rs) and the conversions between them and the errors of
  \<open>std::io\<close> and bincode.  The strings that \<open>format!\<close> builds are kept as the message constructor
  with the numbers it prints.  \<open>IoCompat\<close> is the \<open>io::Error\<close> of kind \<open>Other\<close> that wraps a
  \<open>DkError\<close> (\<open>e.compat()\<close>), built where the file methods implement \<open>std::io::Read\<close> and
  \<open>std::io::Write\<close>.
\<close>

datatype io_kind = UnexpectedEof | WriteZero | InvalidInput | OsFailure

datatype dk_error =
    IoError io_error
  | Corrupted dk_msg
  | Exhausted
  | NotSupported
  | NotFound
  | NotEmpty
  | NotDirectory
  | AlreadyExists
  | Invalid dk_msg
  | NameTooLong
  | Other bc_error
  | OtherErrno nat
and io_error =
    IoKind io_kind
  | IoCompat dk_error
and bc_error =
    BcIo io_error
  | InvalidUtf8Encoding
  | InvalidBoolEncoding
  | InvalidCharEncoding
  | InvalidTagEncoding
  | DeserializeAnyNotSupported
  | SequenceMustHaveLength
  | SizeLimit
  | BcCustom
and dk_msg =
    MReadAt nat nat
  | MReadLen nat nat nat
  | MWriteAt nat nat nat
  | MBadMagic
  | MBadInode nat
  | MBadDirEntry nat
  | MBadRootInode nat
  | MInvalidFlags
  | MBincode bc_error

text \<open>\<open>impl From<io::Error> for DkError\<close>: a wrapped \<open>DkError\<close> is taken out again.\<close>

fun dk_error_of_io :: "io_error \<Rightarrow> dk_error" where
  "dk_error_of_io (IoCompat e) = e"
| "dk_error_of_io (IoKind k) = IoError (IoKind k)"

text \<open>\<open>impl From<bincode::Error> for DkError\<close>.\<close>

fun dk_error_of_bincode :: "bc_error \<Rightarrow> dk_error" where
  "dk_error_of_bincode (BcIo e) = IoError e"
| "dk_error_of_bincode InvalidUtf8Encoding = Corrupted (MBincode InvalidUtf8Encoding)"
| "dk_error_of_bincode InvalidBoolEncoding = Corrupted (MBincode InvalidBoolEncoding)"
| "dk_error_of_bincode InvalidCharEncoding = Corrupted (MBincode InvalidCharEncoding)"
| "dk_error_of_bincode InvalidTagEncoding = Corrupted (MBincode InvalidTagEncoding)"
| "dk_error_of_bincode DeserializeAnyNotSupported = Corrupted (MBincode DeserializeAnyNotSupported)"
| "dk_error_of_bincode SequenceMustHaveLength = Corrupted (MBincode SequenceMustHaveLength)"
| "dk_error_of_bincode e = Other e"

text \<open>\<open>io::Error::new(ErrorKind::Other, e.compat())\<close>.\<close>

definition io_error_of_dk :: "dk_error \<Rightarrow> io_error" where
  "io_error_of_dk e = IoCompat e"

lemma dk_error_of_io_of_dk [simp]: "dk_error_of_io (io_error_of_dk e) = e"
  by (simp add: io_error_of_dk_def)

lemma res_map_err_io_round_trip [simp]:
  "res_map_err dk_error_of_io (res_map_err io_error_of_dk r) = r"
  by (cases r) simp_all

lemma map_err_io_round_trip [simp]: "map_err dk_error_of_io (map_err io_error_of_dk m) = m"
  by (rule ext) (simp add: map_err_def split: prod.split)

lemma dk_error_of_io_inj_on_wrapped:
  "dk_error_of_io e = d \<Longrightarrow> (\<forall>k. d \<noteq> IoError (IoKind k)) \<Longrightarrow> e = io_error_of_dk d"
  by (cases e) (auto simp: io_error_of_dk_def)

end
