(* ===== verification/OrdMap.thy ===== *)
theory OrdMap
  imports Prelude "HOL-Library.List_Lexorder"
begin

text \<open>
  The ordered maps of the code (\<open>im::ordmap::OrdMap\<close>, keyed by \<open>OsString\<close>, that is by byte strings
  in lexicographic order).  The crate is not part of the repository; what the code relies on is the
  documented contract of an ordered map, stated as the locale \<open>ordered_map\<close>.  The model holds the
  value of such a map as the list of its entries in key order, and the interpretation at the end
  shows that this list satisfies the contract.
\<close>

type_synonym os_string = "byte list"
type_synonym 'v omap = "(os_string \<times> 'v) list"

section \<open>The contract\<close>

locale ordered_map =
  fixes empty :: "'m"
    and insert :: "'k::linorder \<Rightarrow> 'v \<Rightarrow> 'm \<Rightarrow> 'm"
    and remove :: "'k \<Rightarrow> 'm \<Rightarrow> 'm"
    and lookup :: "'m \<Rightarrow> 'k \<Rightarrow> 'v option"
    and entries :: "'m \<Rightarrow> ('k \<times> 'v) list"
    and valid :: "'m \<Rightarrow> bool"
  assumes valid_empty: "valid empty"
    and valid_insert: "valid m \<Longrightarrow> valid (insert k v m)"
    and valid_remove: "valid m \<Longrightarrow> valid (remove k m)"
    and lookup_empty: "lookup empty = Map.empty"
    and lookup_insert: "valid m \<Longrightarrow> lookup (insert k v m) = (lookup m)(k \<mapsto> v)"
    and lookup_remove: "valid m \<Longrightarrow> lookup (remove k m) = (lookup m)(k := None)"
    and entries_lookup: "valid m \<Longrightarrow> map_of (entries m) = lookup m"
    and entries_sorted: "valid m \<Longrightarrow> sorted_wrt (<) (map fst (entries m))"
    and extensional: "valid m \<Longrightarrow> valid n \<Longrightarrow> lookup m = lookup n \<Longrightarrow> m = n"
begin

lemma entries_distinct: "valid m \<Longrightarrow> distinct (map fst (entries m))"
  using entries_sorted strict_sorted_iff by blast

lemma lookup_insert_same: "valid m \<Longrightarrow> lookup (insert k v m) k = Some v"
  by (simp add: lookup_insert)

lemma lookup_insert_other: "valid m \<Longrightarrow> k \<noteq> j \<Longrightarrow> lookup (insert k v m) j = lookup m j"
  by (simp add: lookup_insert)

lemma valid_fold_insert: "valid m \<Longrightarrow> valid (fold (\<lambda>(k, v). insert k v) es m)"
  by (induction es arbitrary: m) (auto simp: valid_insert)

lemma lookup_fold_insert:
  "valid m \<Longrightarrow> distinct (map fst es) \<Longrightarrow>
   lookup (fold (\<lambda>(k, v). insert k v) es m) = lookup m ++ map_of es"
proof (induction es arbitrary: m)
  case Nil
  then show ?case by simp
next
  case (Cons e es)
  obtain k v where e: "e = (k, v)" by force
  have fresh: "map_of es k = None"
    using Cons.prems(2) by (simp add: e map_of_eq_None_iff)
  have "valid (insert k v m)" "distinct (map fst es)"
    using Cons.prems by (simp_all add: e valid_insert)
  then have "lookup (fold (\<lambda>(k, v). insert k v) es (insert k v m)) = lookup (insert k v m) ++ map_of es"
    by (rule Cons.IH)
  also have "\<dots> = (lookup m)(k \<mapsto> v) ++ map_of es"
    by (simp only: lookup_insert [OF Cons.prems(1)])
  also have "\<dots> = (lookup m ++ map_of es)(k \<mapsto> v)"
    using fresh by (intro map_add_upd_left) (simp add: domIff)
  also have "\<dots> = lookup m ++ map_of (e # es)"
    by (simp only: e map_of.simps fst_conv snd_conv map_add_upd)
  finally show ?case by (simp only: e fold_Cons comp_apply prod.case)
qed

text \<open>Inserting the entries of a map one by one into the empty map rebuilds the map.\<close>

lemma rebuild: "valid m \<Longrightarrow> fold (\<lambda>(k, v). insert k v) (entries m) empty = m"
  by (rule extensional)
    (simp_all add: valid_fold_insert valid_empty lookup_fold_insert lookup_empty entries_distinct
      entries_lookup)

lemma insert_remove_absent:
  "valid m \<Longrightarrow> lookup m k = None \<Longrightarrow> remove k (insert k v m) = m"
  by (rule extensional)
    (auto simp: valid_insert valid_remove lookup_insert lookup_remove fun_eq_iff)

end

section \<open>Entries in key order\<close>

fun om_insert :: "os_string \<Rightarrow> 'v \<Rightarrow> 'v omap \<Rightarrow> 'v omap" where
  "om_insert k v [] = [(k, v)]"
| "om_insert k v ((k', v') # m) =
     (if k = k' then (k, v) # m
      else if k < k' then (k, v) # (k', v') # m
      else (k', v') # om_insert k v m)"

definition om_remove :: "os_string \<Rightarrow> 'v omap \<Rightarrow> 'v omap" where
  "om_remove k m = filter (\<lambda>e. fst e \<noteq> k) m"

definition om_skip :: "nat \<Rightarrow> 'v omap \<Rightarrow> 'v omap" where
  "om_skip n m = drop n m"

definition om_valid :: "'v omap \<Rightarrow> bool" where
  "om_valid m \<longleftrightarrow> sorted_wrt (<) (map fst m)"

lemma om_lookup_insert: "om_valid m \<Longrightarrow> map_of (om_insert k v m) = (map_of m)(k \<mapsto> v)"
proof (induction k v m rule: om_insert.induct)
  case (2 k v k' v' m)
  have "om_valid m" using "2.prems" by (simp add: om_valid_def)
  then show ?case using "2.IH" by (auto simp: fun_eq_iff)
qed simp

lemma fst_om_insert: "fst ` set (om_insert k v m) = insert k (fst ` set m)"
  by (induction k v m rule: om_insert.induct) auto

lemma om_valid_insert: "om_valid m \<Longrightarrow> om_valid (om_insert k v m)"
proof (induction k v m rule: om_insert.induct)
  case (1 k v)
  then show ?case by (simp add: om_valid_def)
next
  case (2 k v k' v' m)
  have m: "om_valid m" and lt: "\<forall>x \<in> fst ` set m. k' < x"
    using "2.prems" by (auto simp: om_valid_def)
  consider "k = k'" | "k < k'" | "k' < k" by (rule linorder_cases)
  then show ?case
  proof cases
    case 1
    then show ?thesis using "2.prems" by (simp add: om_valid_def)
  next
    case 2
    then show ?thesis using "2.prems" lt by (auto simp: om_valid_def dest: less_trans)
  next
    case 3
    then have "om_valid (om_insert k v m)" using "2.IH" m by auto
    moreover have "\<forall>x \<in> fst ` set (om_insert k v m). k' < x"
      using lt 3 by (auto simp: fst_om_insert)
    ultimately show ?thesis using 3 by (auto simp: om_valid_def)
  qed
qed

lemma om_lookup_remove: "map_of (om_remove k m) = (map_of m)(k := None)"
  by (induction m) (auto simp: om_remove_def fun_eq_iff)

lemma om_valid_remove: "om_valid m \<Longrightarrow> om_valid (om_remove k m)"
  by (induction m) (auto simp: om_valid_def om_remove_def)

lemma om_extensional:
  assumes "om_valid m" "om_valid n" "map_of m = map_of n"
  shows "m = n"
proof (rule map_sorted_distinct_set_unique [where f = fst])
  have d: "distinct (map fst m)" "distinct (map fst n)"
    using assms(1,2) strict_sorted_iff by (auto simp: om_valid_def)
  show "set m = set n"
    using map_of_inject_set [OF d] assms(3) by simp
  then show "inj_on fst (set m \<union> set n)"
    using d by (simp add: distinct_map)
  show "sorted (map fst m)" "sorted (map fst n)"
    using assms(1,2) strict_sorted_iff by (auto simp: om_valid_def)
  show "distinct (map fst m)" "distinct (map fst n)"
    by (rule d)+
qed

interpretation om: ordered_map "[]" om_insert om_remove map_of "\<lambda>m. m" om_valid
proof unfold_locales
  show "om_valid []" by (simp add: om_valid_def)
qed (auto simp: om_valid_insert om_valid_remove om_lookup_insert om_lookup_remove om_extensional
    intro: om_valid_def [THEN iffD1])

text \<open>The number of entries, as the code reads it with \<open>len()\<close>.\<close>

lemma om_length_eq_card: "om_valid m \<Longrightarrow> length m = card (dom (map_of m))"
  using om.entries_distinct [of m]
  by (simp add: dom_map_of_conv_image_fst card_image distinct_map distinct_card)

end
