(* ===== verification/Blocks.thy ===== *)
theory Blocks
  imports Errors OrdMap
begin

unbundle bit_operations_syntax

text \<open>
  The on-disk structures of block.rs with their byte encodings, \<open>DkTimespec\<close>, \<open>FileMode\<close> and \<open>Flags\<close>
  of lib.rs, and the record of everything the code calls that is not in the repository.
\<close>

section \<open>Code outside the repository\<close>

text \<open>
  A decoder of bincode asks its reader for exact numbers of bytes (\<open>read_exact\<close>) until it has a
  value or an error.  \<open>Need n k\<close> is a request for \<open>n\<close> bytes.
\<close>

datatype 'a decoder = Done 'a | Reject bc_error | Need nat "byte list \<Rightarrow> 'a decoder"

text \<open>
  The external functions, an argument of every definition that uses one of them:
  \<^item> \<open>enc_int w n\<close>, \<open>dec_int bs\<close>: the fixed-width little endian integers of bincode and byteorder;
  \<^item> \<open>enc_str\<close>, \<open>dec_str\<close>: bincode's encoding of an \<open>OsString\<close> (the list of pieces it writes);
  \<^item> \<open>enc_vec\<close>, \<open>dec_vec\<close>: bincode's encoding of a \<open>Vec<u8>\<close>;
  \<^item> \<open>now_at k\<close>: what the \<open>k\<close>-th call of the system clock returns (nanoseconds since the epoch);
  \<^item> \<open>rd_fault p n\<close>, \<open>wr_fault p n\<close>: whether the medium fails to read or write \<open>n\<close> bytes at \<open>p\<close>;
  \<^item> \<open>rte_buf k\<close>: the size of the \<open>k\<close>-th buffer that \<open>Read::read_to_end\<close> offers to the reader.
\<close>

record ext =
  enc_int :: "nat \<Rightarrow> nat \<Rightarrow> byte list"
  dec_int :: "byte list \<Rightarrow> nat"
  enc_str :: "os_string \<Rightarrow> byte list list"
  dec_str :: "os_string decoder"
  enc_vec :: "byte list \<Rightarrow> byte list list"
  dec_vec :: "byte list decoder"
  now_at :: "nat \<Rightarrow> int"
  rd_fault :: "nat \<Rightarrow> nat \<Rightarrow> bool"
  wr_fault :: "nat \<Rightarrow> nat \<Rightarrow> bool"
  rte_buf :: "nat \<Rightarrow> nat"

text \<open>Running a decoder over a reader, given by its \<open>read_exact\<close>, and over a list of bytes.\<close>

primrec run_decoder ::
  "(nat \<Rightarrow> ('s, bc_error, byte list) prog) \<Rightarrow> 'a decoder \<Rightarrow> ('s, bc_error, 'a) prog" where
  "run_decoder rd (Done a) = ret a"
| "run_decoder rd (Reject e) = fail e"
| "run_decoder rd (Need n k) = bnd (rd n) (\<lambda>bs. run_decoder rd (k bs))"

definition take_exact :: "nat \<Rightarrow> (byte list, bc_error, byte list) prog" where
  "take_exact n = (\<lambda>bs. if n \<le> length bs then (Ok (take n bs), drop n bs)
     else (Err (BcIo (IoKind UnexpectedEof)), []))"

text \<open>
  What the code relies on: integers are encoded in exactly their width and decoded back, decoding
  stays within the width, the pieces of a string or a byte vector decode to the value they were
  made from whatever follows them, and \<open>read_to_end\<close> never offers an empty buffer.
\<close>

definition codec_ok :: "ext \<Rightarrow> bool" where
  "codec_ok X \<longleftrightarrow>
     (\<forall>w n. length (enc_int X w n) = w) \<and>
     (\<forall>w n. n < 256 ^ w \<longrightarrow> dec_int X (enc_int X w n) = n) \<and>
     (\<forall>bs. dec_int X bs < 256 ^ length bs) \<and>
     (\<forall>bs. enc_int X (length bs) (dec_int X bs) = bs) \<and>
     (\<forall>s r. length s < u64_limit \<longrightarrow>
        run_decoder take_exact (dec_str X) (concat (enc_str X s) @ r) = (Ok s, r)) \<and>
     (\<forall>s r. length s < u64_limit \<longrightarrow>
        run_decoder take_exact (dec_vec X) (concat (enc_vec X s) @ r) = (Ok s, r)) \<and>
     (\<forall>k. 0 < rte_buf X k)"

definition no_faults :: "ext \<Rightarrow> bool" where
  "no_faults X \<longleftrightarrow> (\<forall>p n. \<not> rd_fault X p n) \<and> (\<forall>p n. \<not> wr_fault X p n)"

lemma codec_length [simp]: "codec_ok X \<Longrightarrow> length (enc_int X w n) = w"
  unfolding codec_ok_def by blast

lemma codec_dec_enc [simp]: "codec_ok X \<Longrightarrow> n < 256 ^ w \<Longrightarrow> dec_int X (enc_int X w n) = n"
  unfolding codec_ok_def by blast

lemma codec_dec_less: "codec_ok X \<Longrightarrow> dec_int X bs < 256 ^ length bs"
  unfolding codec_ok_def by blast

lemma codec_enc_dec: "codec_ok X \<Longrightarrow> length bs = w \<Longrightarrow> enc_int X w (dec_int X bs) = bs"
  unfolding codec_ok_def by blast

lemma codec_str:
  "codec_ok X \<Longrightarrow> length s < u64_limit \<Longrightarrow>
   run_decoder take_exact (dec_str X) (concat (enc_str X s) @ r) = (Ok s, r)"
  unfolding codec_ok_def by blast

lemma codec_vec:
  "codec_ok X \<Longrightarrow> length s < u64_limit \<Longrightarrow>
   run_decoder take_exact (dec_vec X) (concat (enc_vec X s) @ r) = (Ok s, r)"
  unfolding codec_ok_def by blast

section \<open>Sequences of integers\<close>

text \<open>
  The derived encodings of the structs write the fields in declaration order without padding, an
  integer of width \<open>w\<close> in \<open>w\<close> bytes.
\<close>

definition enc_fields :: "ext \<Rightarrow> nat list \<Rightarrow> nat list \<Rightarrow> byte list" where
  "enc_fields X ws vs = concat (map2 (enc_int X) ws vs)"

primrec dec_fields :: "ext \<Rightarrow> nat list \<Rightarrow> byte list \<Rightarrow> nat list" where
  "dec_fields X [] bs = []"
| "dec_fields X (w # ws) bs = dec_int X (take w bs) # dec_fields X ws (drop w bs)"

lemma length_dec_fields [simp]: "length (dec_fields X ws bs) = length ws"
  by (induction ws arbitrary: bs) auto

lemma length_enc_fields:
  "codec_ok X \<Longrightarrow> length ws = length vs \<Longrightarrow> length (enc_fields X ws vs) = sum_list ws"
proof (induction ws arbitrary: vs)
  case Nil
  then show ?case by (simp add: enc_fields_def)
next
  case (Cons w ws)
  then obtain v vs' where "vs = v # vs'" by (cases vs) auto
  then show ?case using Cons by (simp add: enc_fields_def)
qed

lemma dec_enc_fields:
  "codec_ok X \<Longrightarrow> list_all2 (\<lambda>w v. v < 256 ^ w) ws vs \<Longrightarrow>
   dec_fields X ws (enc_fields X ws vs @ r) = vs"
proof (induction ws arbitrary: vs)
  case Nil
  then show ?case by simp
next
  case (Cons w ws)
  then obtain v vs' where vs: "vs = v # vs'" "v < 256 ^ w" "list_all2 (\<lambda>w v. v < 256 ^ w) ws vs'"
    by (cases vs) auto
  then show ?case
    using Cons.IH [of vs'] Cons.prems(1) by (simp add: enc_fields_def)
qed

lemma dec_fields_less:
  assumes "codec_ok X" "sum_list ws \<le> length bs"
  shows "list_all2 (\<lambda>w v. v < 256 ^ w) ws (dec_fields X ws bs)"
  using assms(2)
proof (induction ws arbitrary: bs)
  case Nil
  then show ?case by simp
next
  case (Cons w ws)
  have "dec_int X (take w bs) < 256 ^ w"
    using codec_dec_less [OF assms(1), of "take w bs"] Cons.prems by simp
  then show ?case using Cons by simp
qed

lemma enc_dec_fields:
  assumes "codec_ok X" "sum_list ws = length bs"
  shows "enc_fields X ws (dec_fields X ws bs) = bs"
  using assms(2)
proof (induction ws arbitrary: bs)
  case Nil
  then show ?case by (simp add: enc_fields_def)
next
  case (Cons w ws)
  have "enc_int X w (dec_int X (take w bs)) = take w bs"
    using codec_enc_dec [OF assms(1), of "take w bs" w] Cons.prems by simp
  moreover have "enc_fields X ws (dec_fields X ws (drop w bs)) = drop w bs"
    by (rule Cons.IH) (use Cons.prems in simp)
  ultimately show ?case by (simp add: enc_fields_def)
qed

section \<open>Time, modes and flags\<close>

record dk_timespec =
  ts_sec :: int
  ts_nsec :: nat

definition timespec_ok :: "dk_timespec \<Rightarrow> bool" where
  "timespec_ok t \<longleftrightarrow> - 9223372036854775808 \<le> ts_sec t \<and> ts_sec t < 9223372036854775808
     \<and> ts_nsec t < 4294967296"

text \<open>
  \<open>impl From<SystemTime> for DkTimespec\<close>: the time since the epoch (the \<open>unwrap\<close> panics before the
  epoch), its whole seconds as \<open>i64\<close> and the nanoseconds of the current second.
\<close>

definition dk_timespec_of_system_time :: "int \<Rightarrow> ('e, dk_timespec) res" where
  "dk_timespec_of_system_time t =
     (if t < 0 then Panic
      else Ok \<lparr>ts_sec = as_i64 (nat (t div 1000000000)), ts_nsec = nat (t mod 1000000000)\<rparr>)"

text \<open>An \<open>i64\<close> is encoded as the \<open>u64\<close> with the same bits.\<close>

definition u64_of_i64 :: "int \<Rightarrow> nat" where
  "u64_of_i64 i = nat (i mod 18446744073709551616)"

lemma as_i64_u64_of_i64:
  assumes "- 9223372036854775808 \<le> i" "i < 9223372036854775808"
  shows "as_i64 (u64_of_i64 i) = i"
proof (cases "0 \<le> i")
  case True
  then have "i mod 18446744073709551616 = i" using assms by simp
  then show ?thesis using True assms by (simp add: u64_of_i64_def as_i64_def Let_def)
next
  case False
  have "(i + 18446744073709551616) mod 18446744073709551616 = i + 18446744073709551616"
    by (rule mod_pos_pos_trivial) (use False assms in simp_all)
  then have "i mod 18446744073709551616 = i + 18446744073709551616" by simp
  then show ?thesis using False assms by (simp add: u64_of_i64_def as_i64_def Let_def)
qed

lemma u64_of_i64_less: "u64_of_i64 i < u64_limit"
  by (simp add: u64_of_i64_def nat_less_iff)

type_synonym file_mode = "16 word"

definition FILE_TYPE_MASK :: file_mode where "FILE_TYPE_MASK = 0xF000"
definition SOCKET :: file_mode where "SOCKET = 0xC000"
definition REGULAR_FILE :: file_mode where "REGULAR_FILE = 0x8000"
definition DIRECTORY :: file_mode where "DIRECTORY = 0x4000"
definition SYMBOLIC_LINK :: file_mode where "SYMBOLIC_LINK = 0xA000"
definition CHARACTER_DEVICE :: file_mode where "CHARACTER_DEVICE = 0x2000"
definition BLOCK_DEVICE :: file_mode where "BLOCK_DEVICE = 0x6000"
definition FIFO :: file_mode where "FIFO = 0x1000"
definition SET_USER_ID :: file_mode where "SET_USER_ID = 0x0800"
definition SET_GROUP_ID :: file_mode where "SET_GROUP_ID = 0x0400"
definition STICKY :: file_mode where "STICKY = 0x0200"
definition USER_READ :: file_mode where "USER_READ = 0x0100"
definition USER_WRITE :: file_mode where "USER_WRITE = 0x0080"
definition USER_EXECUTE :: file_mode where "USER_EXECUTE = 0x0040"
definition GROUP_READ :: file_mode where "GROUP_READ = 0x0020"
definition GROUP_WRITE :: file_mode where "GROUP_WRITE = 0x0010"
definition GROUP_EXECUTE :: file_mode where "GROUP_EXECUTE = 0x0008"
definition OTHERS_READ :: file_mode where "OTHERS_READ = 0x0004"
definition OTHERS_WRITE :: file_mode where "OTHERS_WRITE = 0x0002"
definition OTHERS_EXECUTE :: file_mode where "OTHERS_EXECUTE = 0x0001"
definition USER_RWX :: file_mode where "USER_RWX = 0x01C0"
definition GROUP_RWX :: file_mode where "GROUP_RWX = 0x0038"
definition OTHERS_RWX :: file_mode where "OTHERS_RWX = 0x0007"

lemmas file_mode_bits =
  FILE_TYPE_MASK_def SOCKET_def REGULAR_FILE_def DIRECTORY_def SYMBOLIC_LINK_def
  CHARACTER_DEVICE_def BLOCK_DEVICE_def FIFO_def SET_USER_ID_def SET_GROUP_ID_def STICKY_def
  USER_READ_def USER_WRITE_def USER_EXECUTE_def GROUP_READ_def GROUP_WRITE_def GROUP_EXECUTE_def
  OTHERS_READ_def OTHERS_WRITE_def OTHERS_EXECUTE_def USER_RWX_def GROUP_RWX_def OTHERS_RWX_def

definition is_regular_file :: "file_mode \<Rightarrow> bool" where
  "is_regular_file m \<longleftrightarrow> m AND FILE_TYPE_MASK = REGULAR_FILE"

definition is_directory :: "file_mode \<Rightarrow> bool" where
  "is_directory m \<longleftrightarrow> m AND FILE_TYPE_MASK = DIRECTORY"

definition is_symbolic_link :: "file_mode \<Rightarrow> bool" where
  "is_symbolic_link m \<longleftrightarrow> m AND FILE_TYPE_MASK = SYMBOLIC_LINK"

definition is_managed :: "file_mode \<Rightarrow> bool" where
  "is_managed m \<longleftrightarrow> is_regular_file m \<or> is_directory m \<or> is_symbolic_link m"

definition is_block_device :: "file_mode \<Rightarrow> bool" where
  "is_block_device m \<longleftrightarrow> m AND FILE_TYPE_MASK = BLOCK_DEVICE"

definition is_character_device :: "file_mode \<Rightarrow> bool" where
  "is_character_device m \<longleftrightarrow> m AND FILE_TYPE_MASK = CHARACTER_DEVICE"

definition is_device :: "file_mode \<Rightarrow> bool" where
  "is_device m \<longleftrightarrow> is_block_device m \<or> is_character_device m"

definition is_fifo :: "file_mode \<Rightarrow> bool" where
  "is_fifo m \<longleftrightarrow> m AND FILE_TYPE_MASK = FIFO"

definition is_socket :: "file_mode \<Rightarrow> bool" where
  "is_socket m \<longleftrightarrow> m AND FILE_TYPE_MASK = SOCKET"

lemmas file_mode_tests =
  is_regular_file_def is_directory_def is_symbolic_link_def is_managed_def is_block_device_def
  is_character_device_def is_device_def is_fifo_def is_socket_def

type_synonym flags = "32 word"

definition ACCESS_MODE_MASK :: flags where "ACCESS_MODE_MASK = 3"
definition INVALID :: flags where "INVALID = 3"
definition READ_ONLY :: flags where "READ_ONLY = 0"
definition WRITE_ONLY :: flags where "WRITE_ONLY = 1"
definition READ_WRITE :: flags where "READ_WRITE = 2"

lemmas flag_bits =
  ACCESS_MODE_MASK_def INVALID_def READ_ONLY_def WRITE_ONLY_def READ_WRITE_def

section \<open>Layout constants\<close>

definition BOOT_BLOCK_SIZE :: nat where [simp]: "BOOT_BLOCK_SIZE = 1024"
definition SUPER_BLOCK_SIZE :: nat where [simp]: "SUPER_BLOCK_SIZE = 1024"
definition INODE_SIZE :: nat where [simp]: "INODE_SIZE = 256"
definition BOOT_BLOCK_PTR :: nat where [simp]: "BOOT_BLOCK_PTR = 0"
definition SUPER_BLOCK_PTR :: nat where
  [simp]: "SUPER_BLOCK_PTR = BOOT_BLOCK_PTR + BOOT_BLOCK_SIZE"
definition FIRST_INODE_PTR :: nat where
  [simp]: "FIRST_INODE_PTR = SUPER_BLOCK_PTR + SUPER_BLOCK_SIZE"
definition DEFAULT_BYTES_PER_INODE :: nat where [simp]: "DEFAULT_BYTES_PER_INODE = 16384"
definition ROOT_INODE :: nat where [simp]: "ROOT_INODE = 114514"
definition MAX_NAMELEN :: nat where [simp]: "MAX_NAMELEN = 256"
definition MAGIC_NUMBER :: nat where [simp]: "MAGIC_NUMBER = 0x1BADFACEDEADC0DE"

section \<open>The super block\<close>

record super_block =
  magic_number :: nat
  block_size :: nat
  inode_count :: nat
  used_inode_count :: nat
  db_count :: nat
  used_db_count :: nat
  inode_fl_ptr :: nat
  db_fl_ptr :: nat

definition sb_layout :: "nat list" where "sb_layout = [8, 8, 8, 8, 8, 8, 8, 8]"

definition sb_values :: "super_block \<Rightarrow> nat list" where
  "sb_values sb = [magic_number sb, block_size sb, inode_count sb, used_inode_count sb,
     db_count sb, used_db_count sb, inode_fl_ptr sb, db_fl_ptr sb]"

definition sb_of_values :: "nat list \<Rightarrow> super_block" where
  "sb_of_values vs = \<lparr>magic_number = vs ! 0, block_size = vs ! 1, inode_count = vs ! 2,
     used_inode_count = vs ! 3, db_count = vs ! 4, used_db_count = vs ! 5,
     inode_fl_ptr = vs ! 6, db_fl_ptr = vs ! 7\<rparr>"

definition sb_bytes :: "ext \<Rightarrow> super_block \<Rightarrow> byte list" where
  "sb_bytes X sb = enc_fields X sb_layout (sb_values sb)"

text \<open>Super block validation.\<close>

definition sbv :: "super_block \<Rightarrow> (dk_error, unit) res" where
  "sbv sb = (if magic_number sb \<noteq> MAGIC_NUMBER then Err (Corrupted MBadMagic) else Ok ())"

definition sb_fields_ok :: "super_block \<Rightarrow> bool" where
  "sb_fields_ok sb \<longleftrightarrow> (\<forall>v \<in> set (sb_values sb). v < u64_limit)"

lemma sb_of_sb_values [simp]: "sb_of_values (sb_values sb) = sb"
  by (simp add: sb_of_values_def sb_values_def)

lemma length_sb_bytes [simp]: "codec_ok X \<Longrightarrow> length (sb_bytes X sb) = 64"
  by (simp add: sb_bytes_def length_enc_fields sb_layout_def sb_values_def)

lemma sb_round_trip:
  "codec_ok X \<Longrightarrow> sb_fields_ok sb \<Longrightarrow>
   sb_of_values (dec_fields X sb_layout (sb_bytes X sb @ r)) = sb"
  unfolding sb_bytes_def
  by (subst dec_enc_fields) (auto simp: sb_layout_def sb_fields_ok_def sb_values_def sb_of_values_def)

section \<open>Free list nodes\<close>

record free_list =
  next_ptr :: nat
  fl_size :: nat

definition fl_layout :: "nat list" where "fl_layout = [8, 8]"

definition fl_bytes :: "ext \<Rightarrow> free_list \<Rightarrow> byte list" where
  "fl_bytes X fl = enc_fields X fl_layout [next_ptr fl, fl_size fl]"

definition fl_of_values :: "nat list \<Rightarrow> free_list" where
  "fl_of_values vs = \<lparr>next_ptr = vs ! 0, fl_size = vs ! 1\<rparr>"

lemma length_fl_bytes [simp]: "codec_ok X \<Longrightarrow> length (fl_bytes X fl) = 16"
  by (simp add: fl_bytes_def length_enc_fields fl_layout_def)

lemma fl_round_trip:
  "codec_ok X \<Longrightarrow> next_ptr fl < u64_limit \<Longrightarrow> fl_size fl < u64_limit \<Longrightarrow>
   fl_of_values (dec_fields X fl_layout (fl_bytes X fl @ r)) = fl"
  unfolding fl_bytes_def
  by (subst dec_enc_fields) (auto simp: fl_layout_def fl_of_values_def)

section \<open>Inodes\<close>

datatype inode_ptrs =
  InodePtrs (direct: "nat list") (ind1: "nat list") (ind2: "nat list") (ind3: "nat list")
    (ind4: "nat list")

text \<open>\<open>impl Index<usize>\<close> and \<open>IndexMut<usize>\<close>: \<open>None\<close> is the \<open>unreachable!()\<close> of the last arm.\<close>

fun ptrs_index :: "inode_ptrs \<Rightarrow> nat \<Rightarrow> nat list option" where
  "ptrs_index p i =
     (if i = 0 then Some (direct p)
      else if i = 1 then Some (ind1 p)
      else if i = 2 then Some (ind2 p)
      else if i = 3 then Some (ind3 p)
      else if i = 4 then Some (ind4 p)
      else None)"

fun ptrs_update :: "nat \<Rightarrow> nat list \<Rightarrow> inode_ptrs \<Rightarrow> inode_ptrs" where
  "ptrs_update i v (InodePtrs p0 p1 p2 p3 p4) =
     (if i = 0 then InodePtrs v p1 p2 p3 p4
      else if i = 1 then InodePtrs p0 v p2 p3 p4
      else if i = 2 then InodePtrs p0 p1 v p3 p4
      else if i = 3 then InodePtrs p0 p1 p2 v p4
      else InodePtrs p0 p1 p2 p3 v)"

definition default_ptrs :: inode_ptrs where
  "default_ptrs = InodePtrs (replicate 12 0) [0] [0] [0] [0]"

definition ptrs_shape :: "inode_ptrs \<Rightarrow> bool" where
  "ptrs_shape p \<longleftrightarrow> length (direct p) = 12 \<and> length (ind1 p) = 1 \<and> length (ind2 p) = 1
     \<and> length (ind3 p) = 1 \<and> length (ind4 p) = 1"

record inode =
  i_ino :: nat
  i_mode :: file_mode
  i_uid :: nat
  i_gid :: nat
  i_nlink :: nat
  i_atime :: dk_timespec
  i_mtime :: dk_timespec
  i_ctime :: dk_timespec
  i_crtime :: dk_timespec
  i_size :: nat
  i_blocks :: nat
  i_device :: nat
  i_xattr_ptr :: nat
  i_ptrs :: inode_ptrs

definition inode_layout :: "nat list" where
  "inode_layout = [8, 2, 4, 4, 8, 8, 4, 8, 4, 8, 4, 8, 4, 8, 8, 8, 8] @ replicate 16 8"

definition ptrs_values :: "inode_ptrs \<Rightarrow> nat list" where
  "ptrs_values p = direct p @ ind1 p @ ind2 p @ ind3 p @ ind4 p"

definition inode_values :: "inode \<Rightarrow> nat list" where
  "inode_values i =
     [i_ino i, unat (i_mode i), i_uid i, i_gid i, i_nlink i,
      u64_of_i64 (ts_sec (i_atime i)), ts_nsec (i_atime i),
      u64_of_i64 (ts_sec (i_mtime i)), ts_nsec (i_mtime i),
      u64_of_i64 (ts_sec (i_ctime i)), ts_nsec (i_ctime i),
      u64_of_i64 (ts_sec (i_crtime i)), ts_nsec (i_crtime i),
      i_size i, i_blocks i, i_device i, i_xattr_ptr i] @ ptrs_values (i_ptrs i)"

definition ts_of_values :: "nat \<Rightarrow> nat \<Rightarrow> dk_timespec" where
  "ts_of_values s n = \<lparr>ts_sec = as_i64 s, ts_nsec = n\<rparr>"

definition inode_of_values :: "nat list \<Rightarrow> inode" where
  "inode_of_values vs =
     \<lparr>i_ino = vs ! 0, i_mode = word_of_nat (vs ! 1), i_uid = vs ! 2, i_gid = vs ! 3,
      i_nlink = vs ! 4, i_atime = ts_of_values (vs ! 5) (vs ! 6),
      i_mtime = ts_of_values (vs ! 7) (vs ! 8), i_ctime = ts_of_values (vs ! 9) (vs ! 10),
      i_crtime = ts_of_values (vs ! 11) (vs ! 12), i_size = vs ! 13, i_blocks = vs ! 14,
      i_device = vs ! 15, i_xattr_ptr = vs ! 16,
      i_ptrs = InodePtrs (take 12 (drop 17 vs)) (take 1 (drop 29 vs)) (take 1 (drop 30 vs))
        (take 1 (drop 31 vs)) (take 1 (drop 32 vs))\<rparr>"

definition inode_bytes :: "ext \<Rightarrow> inode \<Rightarrow> byte list" where
  "inode_bytes X i = enc_fields X inode_layout (inode_values i)"

text \<open>Inode validation.\<close>

definition inv :: "inode \<Rightarrow> (dk_error, unit) res" where
  "inv i = (if i_ino i < ROOT_INODE then Err (Corrupted (MBadInode (i_ino i))) else Ok ())"

text \<open>The values of the fields fit their machine types.\<close>

definition inode_fields_ok :: "inode \<Rightarrow> bool" where
  "inode_fields_ok i \<longleftrightarrow> i_ino i < u64_limit \<and> i_uid i < 4294967296 \<and> i_gid i < 4294967296
     \<and> i_nlink i < u64_limit \<and> timespec_ok (i_atime i) \<and> timespec_ok (i_mtime i)
     \<and> timespec_ok (i_ctime i) \<and> timespec_ok (i_crtime i) \<and> i_size i < u64_limit
     \<and> i_blocks i < u64_limit \<and> i_device i < u64_limit \<and> i_xattr_ptr i < u64_limit
     \<and> ptrs_shape (i_ptrs i) \<and> (\<forall>v \<in> set (ptrs_values (i_ptrs i)). v < u64_limit)"

lemma length_ptrs_values [simp]: "ptrs_shape p \<Longrightarrow> length (ptrs_values p) = 16"
  by (simp add: ptrs_shape_def ptrs_values_def)

lemma length_inode_bytes [simp]:
  "codec_ok X \<Longrightarrow> ptrs_shape (i_ptrs i) \<Longrightarrow> length (inode_bytes X i) = 234"
  unfolding inode_bytes_def
  by (subst length_enc_fields) (simp_all add: inode_layout_def inode_values_def sum_list_replicate)

lemma ts_of_values_ok: "timespec_ok t \<Longrightarrow> ts_of_values (u64_of_i64 (ts_sec t)) (ts_nsec t) = t"
  by (simp add: ts_of_values_def timespec_ok_def as_i64_u64_of_i64)

lemma ptrs_of_ptrs_values:
  assumes "ptrs_shape p"
  shows "InodePtrs (take 12 (ptrs_values p)) (take 1 (drop 12 (ptrs_values p)))
      (take 1 (drop 13 (ptrs_values p))) (take 1 (drop 14 (ptrs_values p)))
      (take 1 (drop 15 (ptrs_values p))) = p"
  using assms by (cases p) (simp add: ptrs_shape_def ptrs_values_def)

lemma inode_of_inode_values:
  assumes "inode_fields_ok i"
  shows "inode_of_values (inode_values i) = i"
proof -
  have "ptrs_shape (i_ptrs i)" using assms by (simp add: inode_fields_ok_def)
  then show ?thesis
    using assms ptrs_of_ptrs_values [of "i_ptrs i"]
    by (simp add: inode_of_values_def inode_values_def inode_fields_ok_def ts_of_values_ok)
qed

lemma inode_values_fit:
  assumes "inode_fields_ok i"
  shows "list_all2 (\<lambda>w v. v < 256 ^ w) inode_layout (inode_values i)"
proof -
  have "unat (i_mode i) < 65536"
    using unsigned_less [of "i_mode i", where ?'a = nat] by simp
  moreover have "list_all2 (\<lambda>w v. v < 256 ^ w) (replicate 16 8) (ptrs_values (i_ptrs i))"
    using assms nth_mem [of _ "ptrs_values (i_ptrs i)"]
    by (simp add: list_all2_conv_all_nth inode_fields_ok_def)
  ultimately show ?thesis
    using assms u64_of_i64_less
    by (simp add: inode_layout_def inode_values_def inode_fields_ok_def timespec_ok_def)
qed

lemma inode_round_trip:
  "codec_ok X \<Longrightarrow> inode_fields_ok i \<Longrightarrow>
   inode_of_values (dec_fields X inode_layout (inode_bytes X i @ r)) = i"
  unfolding inode_bytes_def
  by (simp add: dec_enc_fields inode_values_fit inode_of_inode_values)

section \<open>Pointer blocks\<close>

definition ptr_block_bytes :: "ext \<Rightarrow> nat list \<Rightarrow> byte list" where
  "ptr_block_bytes X ps = concat (map (enc_int X 8) ps)"

text \<open>
  \<open>PtrBlock::from_bytes\<close>: as many words as fit; \<open>read_u64_into\<close> panics when bytes are left over.
\<close>

definition ptr_block_of_bytes :: "ext \<Rightarrow> byte list \<Rightarrow> ('e, nat list) res" where
  "ptr_block_of_bytes X bs =
     (if length bs mod 8 \<noteq> 0 then Panic
      else Ok (dec_fields X (replicate (length bs div 8) 8) bs))"

lemma ptr_block_bytes_fields: "ptr_block_bytes X ps = enc_fields X (replicate (length ps) 8) ps"
  unfolding ptr_block_bytes_def enc_fields_def by (induction ps) auto

lemma length_ptr_block_bytes [simp]: "codec_ok X \<Longrightarrow> length (ptr_block_bytes X ps) = 8 * length ps"
  by (simp add: ptr_block_bytes_def length_concat comp_def sum_list_triv)

lemma ptr_block_round_trip:
  assumes "codec_ok X" "\<forall>p \<in> set ps. p < u64_limit"
  shows "ptr_block_of_bytes X (ptr_block_bytes X ps) = Ok ps"
proof -
  have "list_all2 (\<lambda>w v. v < 256 ^ w) (replicate (length ps) 8) ps"
    using assms(2) by (auto simp: list_all2_conv_all_nth)
  then have "dec_fields X (replicate (length ps) 8) (ptr_block_bytes X ps @ []) = ps"
    unfolding ptr_block_bytes_fields by (rule dec_enc_fields [OF assms(1)])
  then show ?thesis using assms(1) by (simp add: ptr_block_of_bytes_def)
qed

end
