(* ===== verification/Device.thy ===== *)
theory Device
  imports Blocks
begin

text \<open>
  The block devices of device.rs.  A device is its bytes, the length of the underlying file, block
  special file or memory region, and the block count and block size that the \<open>Device\<close> trait reports;
  the three implementations differ only in how these are computed.  The trait's own methods
  (\<open>read_at\<close>, \<open>read_len_at\<close>, \<open>read_block_at\<close>, \<open>write_at\<close>) seek before every access, so the position
  of the underlying file is not part of the state: what \<open>read_at\<close> returns is the reader at the
  position it has sought to.  A medium fault (\<open>rd_fault\<close>, \<open>wr_fault\<close> of the external functions)
  fails the access with an \<open>io::Error\<close>; a failed write leaves the bytes as they were.
\<close>

record device =
  content :: "nat \<Rightarrow> byte"
  raw_len :: nat
  d_block_count :: nat
  d_block_size :: nat

record reader =
  r_pos :: nat
  r_avail :: nat

definition DEFAULT_BLOCK_SIZE :: nat where [simp]: "DEFAULT_BLOCK_SIZE = 4096"

section \<open>The implementations\<close>

definition image_file_new :: "(nat \<Rightarrow> byte) \<Rightarrow> nat \<Rightarrow> device" where
  "image_file_new c len = \<lparr>content = c, raw_len = len,
     d_block_count = len div DEFAULT_BLOCK_SIZE, d_block_size = DEFAULT_BLOCK_SIZE\<rparr>"

text \<open>
  \<open>getsize\<close> is the answer of the operating system to the size ioctl: an errno or the size in bytes.
\<close>

definition block_device_new :: "(nat \<Rightarrow> byte) \<Rightarrow> nat + nat \<Rightarrow> (dk_error, device) res" where
  "block_device_new c getsize = (case getsize of
     Inl errno \<Rightarrow> Err (OtherErrno errno)
   | Inr sz \<Rightarrow> Ok \<lparr>content = c, raw_len = sz,
       d_block_count = sz div DEFAULT_BLOCK_SIZE, d_block_size = DEFAULT_BLOCK_SIZE\<rparr>)"

definition memory_new :: "byte list \<Rightarrow> device" where
  "memory_new mem = \<lparr>content = (\<lambda>i. if i < length mem then mem ! i else 0), raw_len = length mem,
     d_block_count = length mem div DEFAULT_BLOCK_SIZE, d_block_size = DEFAULT_BLOCK_SIZE\<rparr>"

datatype file_kind = KRegular | KBlock | KChar | KOther

text \<open>
  The function \<open>dev\<close>: \<open>opened\<close> is the result of opening the path for reading and writing (an OS error
  or the kind of the file, its bytes and its length).
\<close>

definition dev_open :: "(file_kind \<times> (nat \<Rightarrow> byte) \<times> nat) option \<Rightarrow> nat + nat \<Rightarrow> (dk_error, device) res" where
  "dev_open opened getsize = (case opened of
     None \<Rightarrow> Err (IoError (IoKind OsFailure))
   | Some (k, c, len) \<Rightarrow>
       if k = KRegular then Ok (image_file_new c len)
       else if k = KBlock \<or> k = KChar then block_device_new c getsize
       else Err NotSupported)"

section \<open>The methods of the trait\<close>

definition dev_size :: "device \<Rightarrow> nat" where
  "dev_size d = d_block_size d * d_block_count d"

definition dev_read_at :: "device \<Rightarrow> nat \<Rightarrow> (dk_error, reader) res" where
  "dev_read_at d ptr =
     (let size = dev_size d in
      if ptr > size then Err (Corrupted (MReadAt ptr size))
      else Ok \<lparr>r_pos = ptr, r_avail = raw_len d - ptr\<rparr>)"

definition dev_read_len_at :: "device \<Rightarrow> nat \<Rightarrow> nat \<Rightarrow> (dk_error, reader) res" where
  "dev_read_len_at d ptr len =
     (let size = dev_size d in
      if u64_limit \<le> ptr + len then Panic
      else if ptr + len > size then Err (Corrupted (MReadLen len ptr size))
      else Ok \<lparr>r_pos = ptr, r_avail = min len (raw_len d - ptr)\<rparr>)"

definition dev_read_block_at :: "device \<Rightarrow> nat \<Rightarrow> (dk_error, reader) res" where
  "dev_read_block_at d ptr = dev_read_len_at d ptr (d_block_size d)"

definition read_bytes :: "(nat \<Rightarrow> byte) \<Rightarrow> nat \<Rightarrow> nat \<Rightarrow> byte list" where
  "read_bytes c p n = map c [p..<p + n]"

definition write_bytes :: "nat \<Rightarrow> byte list \<Rightarrow> (nat \<Rightarrow> byte) \<Rightarrow> (nat \<Rightarrow> byte)" where
  "write_bytes p bs c = (\<lambda>i. if p \<le> i \<and> i < p + length bs then bs ! (i - p) else c i)"

text \<open>\<open>Read::read_exact\<close> and reading to the end, on a reader of the device.\<close>

definition reader_exact :: "ext \<Rightarrow> device \<Rightarrow> reader \<Rightarrow> nat \<Rightarrow> (io_error, byte list) res" where
  "reader_exact X d r n =
     (if r_avail r < n then Err (IoKind UnexpectedEof)
      else if rd_fault X (r_pos r) n then Err (IoKind OsFailure)
      else Ok (read_bytes (content d) (r_pos r) n))"

definition reader_all :: "ext \<Rightarrow> device \<Rightarrow> reader \<Rightarrow> (io_error, byte list) res" where
  "reader_all X d r =
     (if rd_fault X (r_pos r) (r_avail r) then Err (IoKind OsFailure)
      else Ok (read_bytes (content d) (r_pos r) (r_avail r)))"

definition dev_write_at :: "ext \<Rightarrow> byte list \<Rightarrow> nat \<Rightarrow> (device, dk_error, unit) prog" where
  "dev_write_at X bs ptr = (\<lambda>d.
     let size = dev_size d; len = length bs in
     if u64_limit \<le> ptr + len then (Panic, d)
     else if ptr + len > size then (Err (Corrupted (MWriteAt len ptr size)), d)
     else if wr_fault X ptr len then (Err (IoError (IoKind OsFailure)), d)
     else (Ok (), d\<lparr>content := write_bytes ptr bs (content d)\<rparr>))"

section \<open>Bytes\<close>

lemma length_read_bytes [simp]: "length (read_bytes c p n) = n"
  by (simp add: read_bytes_def)

lemma nth_read_bytes [simp]: "i < n \<Longrightarrow> read_bytes c p n ! i = c (p + i)"
  by (simp add: read_bytes_def)

lemma read_bytes_cong:
  "(\<And>i. p \<le> i \<Longrightarrow> i < p + n \<Longrightarrow> c i = c' i) \<Longrightarrow> read_bytes c p n = read_bytes c' p n"
  by (simp add: read_bytes_def)

lemma read_bytes_add: "read_bytes c p (m + n) = read_bytes c p m @ read_bytes c (p + m) n"
  by (rule nth_equalityI) (auto simp: nth_append)

lemma take_read_bytes [simp]: "take m (read_bytes c p n) = read_bytes c p (min m n)"
  by (simp add: read_bytes_def take_map min_def)

lemma drop_read_bytes [simp]: "drop m (read_bytes c p n) = read_bytes c (p + m) (n - m)"
  by (rule nth_equalityI) (auto simp: add.assoc)

lemma read_bytes_0 [simp]: "read_bytes c p 0 = []"
  by (simp add: read_bytes_def)

lemma write_bytes_Nil [simp]: "write_bytes p [] c = c"
  by (auto simp: write_bytes_def fun_eq_iff)

lemma write_bytes_outside: "i < p \<or> p + length bs \<le> i \<Longrightarrow> write_bytes p bs c i = c i"
  by (auto simp: write_bytes_def)

lemma read_write_same [simp]: "n = length bs \<Longrightarrow> read_bytes (write_bytes p bs c) p n = bs"
  by (rule nth_equalityI) (simp_all add: write_bytes_def)

lemma read_write_prefix:
  "n \<le> length bs \<Longrightarrow> read_bytes (write_bytes p bs c) p n = take n bs"
  by (rule nth_equalityI) (simp_all add: write_bytes_def)

lemma read_write_disjoint:
  "q + n \<le> p \<or> p + length bs \<le> q \<Longrightarrow> read_bytes (write_bytes p bs c) q n = read_bytes c q n"
  by (rule read_bytes_cong) (auto simp: write_bytes_def)

lemma write_write_same:
  "length as = length bs \<Longrightarrow> write_bytes p bs (write_bytes p as c) = write_bytes p bs c"
  by (auto simp: write_bytes_def fun_eq_iff)

lemma write_write_append:
  "q = p + length as \<Longrightarrow> write_bytes q bs (write_bytes p as c) = write_bytes p (as @ bs) c"
  by (auto simp: write_bytes_def fun_eq_iff nth_append)

section \<open>Well-formed devices\<close>

text \<open>The reported size lies within the medium, and the medium within the range of \<open>u64\<close>.\<close>

definition device_ok :: "device \<Rightarrow> bool" where
  "device_ok d \<longleftrightarrow> dev_size d \<le> raw_len d \<and> raw_len d < u64_limit"

lemma device_ok_size: "device_ok d \<Longrightarrow> dev_size d < u64_limit"
  by (simp add: device_ok_def)

lemma image_file_ok: "len < u64_limit \<Longrightarrow> device_ok (image_file_new c len)"
  by (simp add: device_ok_def dev_size_def image_file_new_def)

lemma memory_ok: "length mem < u64_limit \<Longrightarrow> device_ok (memory_new mem)"
  by (simp add: device_ok_def dev_size_def memory_new_def)

lemma block_device_ok:
  "block_device_new c g = Ok d \<Longrightarrow> (\<And>n. g = Inr n \<Longrightarrow> n < u64_limit) \<Longrightarrow> device_ok d"
  by (auto simp: block_device_new_def device_ok_def dev_size_def split: sum.splits)

lemma dev_open_ok:
  assumes "dev_open f g = Ok d" "\<And>k c len. f = Some (k, c, len) \<Longrightarrow> len < u64_limit"
    "\<And>n. g = Inr n \<Longrightarrow> n < u64_limit"
  shows "device_ok d"
  using assms block_device_ok
  by (auto simp: dev_open_def image_file_ok split: option.splits prod.splits if_splits)

lemma dev_size_content [simp]: "dev_size (d\<lparr>content := c\<rparr>) = dev_size d"
  by (simp add: dev_size_def)

lemma device_ok_content [simp]: "device_ok (d\<lparr>content := c\<rparr>) = device_ok d"
  by (simp add: device_ok_def)

lemma dev_write_at_Ok:
  assumes "device_ok d" "no_faults X" "ptr + length bs \<le> dev_size d"
  shows "dev_write_at X bs ptr d = (Ok (), d\<lparr>content := write_bytes ptr bs (content d)\<rparr>)"
  using assms device_ok_size [OF assms(1)] by (auto simp: dev_write_at_def no_faults_def Let_def)

lemma dev_write_at_beyond:
  assumes "dev_size d < ptr + length bs" "ptr + length bs < u64_limit"
  shows "dev_write_at X bs ptr d = (Err (Corrupted (MWriteAt (length bs) ptr (dev_size d))), d)"
  using assms by (simp add: dev_write_at_def Let_def)

lemma dev_read_at_Ok:
  assumes "device_ok d" "no_faults X" "ptr + n \<le> dev_size d"
  shows "res_bnd (res_map_err h (dev_read_at d ptr)) (\<lambda>r. res_map_err k (reader_exact X d r n)) =
    Ok (read_bytes (content d) ptr n)"
  using assms by (auto simp: dev_read_at_def reader_exact_def Let_def no_faults_def device_ok_def)

lemma dev_read_len_at_Ok:
  assumes "device_ok d" "no_faults X" "ptr + n \<le> dev_size d"
  shows "res_bnd (dev_read_len_at d ptr n) (\<lambda>r. res_map_err k (reader_all X d r)) =
    Ok (read_bytes (content d) ptr n)"
  using assms device_ok_size [OF assms(1)]
  by (auto simp: dev_read_len_at_def reader_all_def Let_def no_faults_def device_ok_def min_absorb1)

text \<open>No access through the trait touches a byte at or beyond the reported size.\<close>

lemma dev_write_at_within:
  assumes "dev_write_at X bs ptr d = (r, d')"
  shows "dev_size d' = dev_size d \<and> raw_len d' = raw_len d
     \<and> (\<forall>i. dev_size d \<le> i \<longrightarrow> content d' i = content d i)"
  using assms by (auto simp: dev_write_at_def Let_def write_bytes_def split: if_splits)

end
