(* ===== verification/Store.thy ===== *)
theory Store
  imports Device
begin

text \<open>
  The part of \<open>Donkey\<close> (lib.rs) that owns the device and the super block: typed reads and writes, the
  free lists of inodes and data blocks, the inode table, and the first half of \<open>format\<close>.  The state
  is the record \<open>store\<close>; the tables of open files extend it, so every operation here is polymorphic
  in the rest of the state and by construction does not touch it.
\<close>

record store =
  dev :: device
  sb :: super_block
  clk :: nat  \<comment> \<open>the number of calls of the system clock so far\<close>

section \<open>Typed access\<close>

definition now :: "ext \<Rightarrow> ('z store_scheme, 'e, dk_timespec) prog" where
  "now X = (\<lambda>s. (dk_timespec_of_system_time (now_at X (clk s)), s\<lparr>clk := Suc (clk s)\<rparr>))"

text \<open>\<open>Donkey::write\<close>, for a \<open>Writable\<close> with the given bytes.\<close>

definition write_at :: "ext \<Rightarrow> nat \<Rightarrow> byte list \<Rightarrow> ('z store_scheme, dk_error, unit) prog" where
  "write_at X ptr bs = (\<lambda>s. case dev_write_at X bs ptr (dev s) of (r, d) \<Rightarrow> (r, s\<lparr>dev := d\<rparr>))"

text \<open>
  \<open>Donkey::read\<close>: \<open>n\<close> bytes from the reader that \<open>read_at\<close> returns, deserialized by bincode.
\<close>

definition read_at :: "ext \<Rightarrow> nat \<Rightarrow> nat \<Rightarrow> ('z store_scheme, dk_error, byte list) prog" where
  "read_at X ptr n = query (\<lambda>s. res_bnd (res_map_err (\<lambda>e. e) (dev_read_at (dev s) ptr))
     (\<lambda>r. res_map_err (\<lambda>e. dk_error_of_bincode (BcIo e)) (reader_exact X (dev s) r n)))"

text \<open>\<open>Donkey::read_block\<close>, for the data read to its end.\<close>

definition read_block :: "ext \<Rightarrow> nat \<Rightarrow> ('z store_scheme, dk_error, byte list) prog" where
  "read_block X ptr = query (\<lambda>s. res_bnd (dev_read_block_at (dev s) ptr)
     (\<lambda>r. res_map_err dk_error_of_io (reader_all X (dev s) r)))"

definition read_ptr_block :: "ext \<Rightarrow> nat \<Rightarrow> ('z store_scheme, dk_error, nat list) prog" where
  "read_ptr_block X ptr = bnd (read_block X ptr) (\<lambda>bs. lift_res (ptr_block_of_bytes X bs))"

text \<open>\<open>Donkey::read_into\<close>, for a buffer of \<open>n\<close> bytes.\<close>

definition read_into :: "ext \<Rightarrow> nat \<Rightarrow> nat \<Rightarrow> ('z store_scheme, dk_error, byte list) prog" where
  "read_into X ptr n = query (\<lambda>s. res_bnd (dev_read_len_at (dev s) ptr n)
     (\<lambda>r. res_map_err dk_error_of_io (reader_all X (dev s) r)))"

definition read_free_list :: "ext \<Rightarrow> nat \<Rightarrow> ('z store_scheme, dk_error, free_list) prog" where
  "read_free_list X ptr = bnd (read_at X ptr (sum_list fl_layout))
     (\<lambda>bs. ret (fl_of_values (dec_fields X fl_layout bs)))"

definition read_super_block :: "ext \<Rightarrow> ('z store_scheme, dk_error, super_block) prog" where
  "read_super_block X = bnd (read_at X SUPER_BLOCK_PTR (sum_list sb_layout))
     (\<lambda>bs. let v = sb_of_values (dec_fields X sb_layout bs) in bnd (lift_res (sbv v)) (\<lambda>_. ret v))"

definition flush_sb :: "ext \<Rightarrow> ('z store_scheme, dk_error, unit) prog" where
  "flush_sb X = (\<lambda>s. write_at X SUPER_BLOCK_PTR (sb_bytes X (sb s)) s)"

text \<open>\<open>Inode::ino\<close> and \<open>Inode::ptr\<close>.\<close>

definition ino_of_ptr :: "nat \<Rightarrow> ('s, 'e, nat) prog" where
  "ino_of_ptr ptr = bnd (ck_sub ptr FIRST_INODE_PTR) (\<lambda>off. bnd (ck_div off INODE_SIZE) (\<lambda>i. ck_add i ROOT_INODE))"

definition ptr_of_ino :: "nat \<Rightarrow> ('s, 'e, nat) prog" where
  "ptr_of_ino ino = bnd (ck_sub ino ROOT_INODE) (\<lambda>i. bnd (ck_mul i INODE_SIZE) (\<lambda>off. ck_add off FIRST_INODE_PTR))"

definition read_inode :: "ext \<Rightarrow> nat \<Rightarrow> ('z store_scheme, dk_error, inode) prog" where
  "read_inode X ino =
     bnd (ptr_of_ino ino) (\<lambda>ptr.
     bnd (read_at X ptr (sum_list inode_layout)) (\<lambda>bs.
     let i = inode_of_values (dec_fields X inode_layout bs) in
     bnd (lift_res (inv i)) (\<lambda>_. ret i)))"

definition write_inode :: "ext \<Rightarrow> inode \<Rightarrow> ('z store_scheme, dk_error, unit) prog" where
  "write_inode X i = bnd (ptr_of_ino (i_ino i)) (\<lambda>ptr. write_at X ptr (inode_bytes X i))"

section \<open>Allocation\<close>

text \<open>\<open>std::mem::size_of::<FreeList>()\<close>\<close>

definition free_list_size :: nat where [simp]: "free_list_size = 16"

text \<open>
  The recursion of the code follows the list on the device and has no bound of its own.  The model
  gives it \<open>fuel\<close> calls; \<open>Hang\<close> stands for running out of them.
\<close>

primrec allocate_from_free ::
  "ext \<Rightarrow> nat \<Rightarrow> nat \<Rightarrow> nat \<Rightarrow> ('z store_scheme, dk_error, nat \<times> nat) prog" where
  "allocate_from_free X 0 ptr sz = hang"
| "allocate_from_free X (Suc fuel) ptr sz =
     bnd (read_free_list X ptr) (\<lambda>fl.
       if sz \<le> fl_size fl then
         bnd (if free_list_size \<le> fl_size fl - sz
              then let new_fl = fl\<lparr>fl_size := fl_size fl - sz\<rparr> in
                bnd (ck_add ptr sz) (\<lambda>new_ptr.
                bnd (write_at X new_ptr (fl_bytes X new_fl)) (\<lambda>_. ret new_ptr))
              else ret (next_ptr fl))
           (\<lambda>new_ptr. ret (ptr, new_ptr))
       else allocate_from_free X fuel (next_ptr fl) sz)"

text \<open>
  A node beyond the device size ends the recursion with an error, so a recursion of more than
  \<open>dev_size + 1\<close> calls has met a node twice (see \<open>allocate_from_free_more_fuel\<close>).
\<close>

definition alloc_fuel :: "'z store_scheme \<Rightarrow> nat" where
  "alloc_fuel s = Suc (Suc (dev_size (dev s)))"

definition set_inode_fl_ptr :: "nat \<Rightarrow> ('z store_scheme, 'e, unit) prog" where
  "set_inode_fl_ptr p = modify (\<lambda>s. s\<lparr>sb := (sb s)\<lparr>inode_fl_ptr := p\<rparr>\<rparr>)"

definition set_db_fl_ptr :: "nat \<Rightarrow> ('z store_scheme, 'e, unit) prog" where
  "set_db_fl_ptr p = modify (\<lambda>s. s\<lparr>sb := (sb s)\<lparr>db_fl_ptr := p\<rparr>\<rparr>)"

definition set_used_inode_count :: "nat \<Rightarrow> ('z store_scheme, 'e, unit) prog" where
  "set_used_inode_count n = modify (\<lambda>s. s\<lparr>sb := (sb s)\<lparr>used_inode_count := n\<rparr>\<rparr>)"

definition set_used_db_count :: "nat \<Rightarrow> ('z store_scheme, 'e, unit) prog" where
  "set_used_db_count n = modify (\<lambda>s. s\<lparr>sb := (sb s)\<lparr>used_db_count := n\<rparr>\<rparr>)"

text \<open>Returns the inode number of the allocated inode.\<close>

definition allocate_inode :: "ext \<Rightarrow> ('z store_scheme, dk_error, nat) prog" where
  "allocate_inode X =
     bnd (gets sb) (\<lambda>b.
     if used_inode_count b < inode_count b then
       bnd (gets alloc_fuel) (\<lambda>fuel.
       bnd (allocate_from_free X fuel (inode_fl_ptr b) INODE_SIZE) (\<lambda>(fi_ptr, new_fl_ptr).
       bnd (set_inode_fl_ptr new_fl_ptr) (\<lambda>_.
       bnd (ck_add (used_inode_count b) 1) (\<lambda>used.
       bnd (set_used_inode_count used) (\<lambda>_.
       bnd (flush_sb X) (\<lambda>_. ino_of_ptr fi_ptr))))))
     else fail Exhausted)"

text \<open>Returns the pointer of the allocated data block.\<close>

definition allocate_db :: "ext \<Rightarrow> ('z store_scheme, dk_error, nat) prog" where
  "allocate_db X =
     bnd (gets sb) (\<lambda>b.
     if used_db_count b < db_count b then
       bnd (gets alloc_fuel) (\<lambda>fuel.
       bnd (allocate_from_free X fuel (db_fl_ptr b) (block_size b)) (\<lambda>(fd_ptr, new_fl_ptr).
       bnd (set_db_fl_ptr new_fl_ptr) (\<lambda>_.
       bnd (ck_add (used_db_count b) 1) (\<lambda>used.
       bnd (set_used_db_count used) (\<lambda>_.
       bnd (flush_sb X) (\<lambda>_. ret fd_ptr))))))
     else fail Exhausted)"

definition free_inode :: "ext \<Rightarrow> nat \<Rightarrow> ('z store_scheme, dk_error, unit) prog" where
  "free_inode X ino =
     bnd (gets sb) (\<lambda>b.
     let new_fl = \<lparr>next_ptr = inode_fl_ptr b, fl_size = INODE_SIZE\<rparr> in
     bnd (ptr_of_ino ino) (\<lambda>ptr.
     bnd (set_inode_fl_ptr ptr) (\<lambda>_.
     bnd (write_at X ptr (fl_bytes X new_fl)) (\<lambda>_.
     bnd (ck_sub (used_inode_count b) 1) (\<lambda>used.
     bnd (set_used_inode_count used) (\<lambda>_. flush_sb X))))))"

definition free_db :: "ext \<Rightarrow> nat \<Rightarrow> ('z store_scheme, dk_error, unit) prog" where
  "free_db X ptr =
     bnd (gets sb) (\<lambda>b.
     let new_fl = \<lparr>next_ptr = db_fl_ptr b, fl_size = block_size b\<rparr> in
     bnd (set_db_fl_ptr ptr) (\<lambda>_.
     bnd (write_at X ptr (fl_bytes X new_fl)) (\<lambda>_.
     bnd (ck_sub (used_db_count b) 1) (\<lambda>used.
     bnd (set_used_db_count used) (\<lambda>_. flush_sb X)))))"

section \<open>Formatting\<close>

text \<open>
  \<open>format\<close> up to the creation of the root directory: the super block, the initial inode free list and
  the initial data block free list.  The state starts with the given device; its super block field is
  set when \<open>Donkey::new\<close> is reached.
\<close>

definition format_store :: "ext \<Rightarrow> nat \<Rightarrow> ('z store_scheme, dk_error, unit) prog" where
  "format_store X bytes_per_inode =
     bnd (gets dev) (\<lambda>d.
     let bs = d_block_size d in
     bnd (ck_div (dev_size d) bytes_per_inode) (\<lambda>icount.
     bnd (ck_mul INODE_SIZE icount) (\<lambda>itable.
     bnd (ck_add FIRST_INODE_PTR itable) (\<lambda>a.
     bnd (ck_add a bs) (\<lambda>b.
     bnd (ck_sub b 1) (\<lambda>c.
     bnd (ck_div c bs) (\<lambda>used_blocks.
     bnd (ck_mul used_blocks bs) (\<lambda>first_db_ptr.
     bnd (ck_div first_db_ptr bs) (\<lambda>q.
     bnd (ck_sub (d_block_count d) q) (\<lambda>dbs.
     let new_sb = \<lparr>magic_number = MAGIC_NUMBER, block_size = bs, inode_count = icount,
       used_inode_count = 0, db_count = dbs, used_db_count = 0,
       inode_fl_ptr = FIRST_INODE_PTR, db_fl_ptr = first_db_ptr\<rparr> in
     bnd (write_at X SUPER_BLOCK_PTR (sb_bytes X new_sb)) (\<lambda>_.
     bnd (ck_mul icount INODE_SIZE) (\<lambda>isize.
     bnd (write_at X FIRST_INODE_PTR (fl_bytes X \<lparr>next_ptr = 0, fl_size = isize\<rparr>)) (\<lambda>_.
     bnd (ck_sub (dev_size d) first_db_ptr) (\<lambda>dsize.
     bnd (write_at X first_db_ptr (fl_bytes X \<lparr>next_ptr = 0, fl_size = dsize\<rparr>)) (\<lambda>_.
     modify (\<lambda>s. s\<lparr>sb := new_sb\<rparr>))))))))))))))))"

text \<open>\<open>open\<close>: the super block is read and validated.\<close>

definition open_store :: "ext \<Rightarrow> ('z store_scheme, dk_error, unit) prog" where
  "open_store X = bnd (read_super_block X) (\<lambda>b. modify (\<lambda>s. s\<lparr>sb := b\<rparr>))"

end
