(* ===== verification/Files.thy ===== *)
theory Files
  imports Store
begin

text \<open>
  The open file of file.rs: \<open>DkFile\<close> with its inode, position, extended attributes and the cache of
  one pointer block per indirection level, and its methods.  A method of the code takes the file and
  the \<open>Donkey\<close> by mutable reference, so the state here is the pair of the two.  (The shared list of
  closed files, a field of \<open>DkFile\<close>, belongs to the tables of the \<open>Donkey\<close>.)
\<close>

record dkfile =
  f_inode :: inode
  f_pos :: nat
  f_xattr :: "byte list omap"
  f_dirty :: bool
  f_cache :: "(nat \<times> nat list) option list"

type_synonym ('z, 'e, 'a) fprog = "(dkfile \<times> 'z store_scheme, 'e, 'a) prog"

definition dkfile_new :: "inode \<Rightarrow> dkfile" where
  "dkfile_new i = \<lparr>f_inode = i, f_pos = 0, f_xattr = [], f_dirty = False, f_cache = [None, None, None, None]\<rparr>"

definition on_dk :: "('z store_scheme, 'e, 'a) prog \<Rightarrow> ('z, 'e, 'a) fprog" where
  "on_dk m = (\<lambda>(f, s). case m s of (r, s') \<Rightarrow> (r, (f, s')))"

definition get_file :: "(dkfile \<Rightarrow> 'a) \<Rightarrow> ('z, 'e, 'a) fprog" where
  "get_file g = gets (\<lambda>(f, s). g f)"

definition mod_file :: "(dkfile \<Rightarrow> dkfile) \<Rightarrow> ('z, 'e, unit) fprog" where
  "mod_file h = modify (\<lambda>(f, s). (h f, s))"

definition mod_inode :: "(inode \<Rightarrow> inode) \<Rightarrow> ('z, 'e, unit) fprog" where
  "mod_inode h = mod_file (\<lambda>f. f\<lparr>f_inode := h (f_inode f)\<rparr>)"

definition set_dirty :: "bool \<Rightarrow> ('z, 'e, unit) fprog" where
  "set_dirty b = mod_file (\<lambda>f. f\<lparr>f_dirty := b\<rparr>)"

definition dk_block_size :: "('z, 'e, nat) fprog" where
  "dk_block_size = on_dk (gets (\<lambda>s. block_size (sb s)))"

text \<open>\<open>self.inode.blocks += 1\<close> and \<open>-= 1\<close>.\<close>

definition inc_blocks :: "('z, 'e, unit) fprog" where
  "inc_blocks = bnd (get_file (\<lambda>f. i_blocks (f_inode f))) (\<lambda>n. bnd (ck_add n 1) (\<lambda>n'.
     mod_inode (\<lambda>i. i\<lparr>i_blocks := n'\<rparr>)))"

definition dec_blocks :: "('z, 'e, unit) fprog" where
  "dec_blocks = bnd (get_file (\<lambda>f. i_blocks (f_inode f))) (\<lambda>n. bnd (ck_sub n 1) (\<lambda>n'.
     mod_inode (\<lambda>i. i\<lparr>i_blocks := n'\<rparr>)))"

text \<open>\<open>self.inode.ptrs[level][k]\<close>, read and written.\<close>

definition get_ptr :: "nat \<Rightarrow> nat \<Rightarrow> ('z, 'e, nat) fprog" where
  "get_ptr level k = bnd (get_file (\<lambda>f. ptrs_index (i_ptrs (f_inode f)) level)) (\<lambda>row.
     bnd (unwrap row) (\<lambda>ps. index ps k))"

definition set_ptr :: "nat \<Rightarrow> nat \<Rightarrow> nat \<Rightarrow> ('z, 'e, unit) fprog" where
  "set_ptr level k p = bnd (get_file (\<lambda>f. ptrs_index (i_ptrs (f_inode f)) level)) (\<lambda>row.
     bnd (unwrap row) (\<lambda>ps. bnd (index ps k) (\<lambda>_.
     mod_inode (\<lambda>i. i\<lparr>i_ptrs := ptrs_update level (ps[k := p]) (i_ptrs i)\<rparr>))))"

definition get_cache :: "nat \<Rightarrow> ('z, 'e, (nat \<times> nat list) option) fprog" where
  "get_cache k = bnd (get_file f_cache) (\<lambda>cs. index cs k)"

definition set_cache :: "nat \<Rightarrow> nat \<times> nat list \<Rightarrow> ('z, 'e, unit) fprog" where
  "set_cache k c = bnd (get_file f_cache) (\<lambda>cs. bnd (index cs k) (\<lambda>_.
     mod_file (\<lambda>f. f\<lparr>f_cache := (f_cache f)[k := Some c]\<rparr>)))"

section \<open>Seek\<close>

datatype seek_from = SeekStart nat | SeekCurrent int | SeekEnd int

definition ck_add_i64 :: "int \<Rightarrow> int \<Rightarrow> ('s, 'e, int) prog" where
  "ck_add_i64 a b = (if - 9223372036854775808 \<le> a + b \<and> a + b < 9223372036854775808
     then ret (a + b) else panic)"

definition seek :: "seek_from \<Rightarrow> ('z, io_error, nat) fprog" where
  "seek from = bnd (case from of
       SeekStart p \<Rightarrow> ret (as_i64 p)
     | SeekCurrent d \<Rightarrow> bnd (get_file f_pos) (\<lambda>p. ck_add_i64 (as_i64 p) d)
     | SeekEnd d \<Rightarrow> bnd (get_file (\<lambda>f. i_size (f_inode f))) (\<lambda>n. ck_add_i64 (as_i64 n) d))
     (\<lambda>new_pos.
       if 0 \<le> new_pos then bnd (mod_file (\<lambda>f. f\<lparr>f_pos := nat new_pos\<rparr>)) (\<lambda>_. ret (nat new_pos))
       else fail (IoKind InvalidInput))"

section \<open>Extended attributes\<close>

definition decode_from :: "'a decoder \<Rightarrow> byte list \<Rightarrow> ('s, dk_error, 'a \<times> byte list) prog" where
  "decode_from d bs = lift_res (case run_decoder take_exact d bs of (r, rest) \<Rightarrow>
     res_map_err dk_error_of_bincode (res_bnd r (\<lambda>a. Ok (a, rest))))"

text \<open>
  The loop reads from the bytes of one block; a round that reads nothing would repeat for ever, so
  one more round than there are bytes tells the two cases apart.
\<close>

primrec read_xattr_loop :: "ext \<Rightarrow> nat \<Rightarrow> byte list \<Rightarrow> ('z, dk_error, unit) fprog" where
  "read_xattr_loop X 0 bs = hang"
| "read_xattr_loop X (Suc n) bs =
     bnd (decode_from (dec_str X) bs) (\<lambda>(key, bs').
       if length key = 0 then ret ()
       else bnd (decode_from (dec_vec X) bs') (\<lambda>(val, bs'').
         bnd (mod_file (\<lambda>f. f\<lparr>f_xattr := om_insert key val (f_xattr f)\<rparr>)) (\<lambda>_.
         read_xattr_loop X n bs'')))"

definition read_xattr :: "ext \<Rightarrow> ('z, dk_error, unit) fprog" where
  "read_xattr X = bnd (get_file (\<lambda>f. i_xattr_ptr (f_inode f))) (\<lambda>p.
     if p \<noteq> 0 then bnd (on_dk (read_block X p)) (\<lambda>data. read_xattr_loop X (Suc (length data)) data)
     else ret ())"

definition xattr_bytes :: "ext \<Rightarrow> byte list omap \<Rightarrow> byte list" where
  "xattr_bytes X m = concat (map (\<lambda>(k, v). concat (enc_str X k) @ concat (enc_vec X v)) m)
     @ concat (enc_str X [])"

definition write_xattr :: "ext \<Rightarrow> ('z, dk_error, unit) fprog" where
  "write_xattr X = bnd (get_file f_xattr) (\<lambda>m. bnd (get_file (\<lambda>f. i_xattr_ptr (f_inode f))) (\<lambda>p.
     if length m = 0 then
       (if p \<noteq> 0 then
          bnd (on_dk (free_db X p)) (\<lambda>_.
          bnd (mod_inode (\<lambda>i. i\<lparr>i_xattr_ptr := 0\<rparr>)) (\<lambda>_.
          set_dirty True))
        else ret ())
     else
       bnd (if p = 0 then
              bnd (on_dk (allocate_db X)) (\<lambda>q.
              bnd (mod_inode (\<lambda>i. i\<lparr>i_xattr_ptr := q\<rparr>)) (\<lambda>_. inc_blocks))
            else ret ()) (\<lambda>_.
       bnd (get_file (\<lambda>f. i_xattr_ptr (f_inode f))) (\<lambda>q.
       on_dk (write_at X q (xattr_bytes X m))))))"

section \<open>Block positions\<close>

definition block_of_pos :: "nat \<Rightarrow> nat \<Rightarrow> ('s, 'e, nat \<times> nat) prog" where
  "block_of_pos pos bs = bnd (ck_div pos bs) (\<lambda>q. bnd (ck_mod pos bs) (\<lambda>r. ret (q, r)))"

definition next_block_of_pos :: "nat \<Rightarrow> nat \<Rightarrow> ('s, 'e, nat) prog" where
  "next_block_of_pos pos bs = bnd (ck_add pos bs) (\<lambda>a. bnd (ck_sub a 1) (\<lambda>b. ck_div b bs))"

primrec level_off_loop :: "inode_ptrs \<Rightarrow> nat \<Rightarrow> nat list \<Rightarrow> nat \<Rightarrow> nat \<Rightarrow> ('s, 'e, nat \<times> nat) prog" where
  "level_off_loop p pc [] bi multi = panic"
| "level_off_loop p pc (level # levels) bi multi =
     bnd (unwrap (ptrs_index p level)) (\<lambda>ps.
     bnd (ck_mul (length ps) multi) (\<lambda>len.
     if bi < len then ret (level, bi)
     else bnd (ck_mul multi pc) (\<lambda>multi'. level_off_loop p pc levels (bi - len) multi')))"

definition level_off :: "nat \<Rightarrow> ('z, 'e, nat \<times> nat) fprog" where
  "level_off bi = bnd dk_block_size (\<lambda>bs. bnd (get_file (\<lambda>f. i_ptrs (f_inode f))) (\<lambda>p.
     level_off_loop p (bs div 8) [0, 1, 2, 3, 4] bi 1))"

section \<open>The pointer cache\<close>

primrec write_caches :: "ext \<Rightarrow> (nat \<times> nat list) option list \<Rightarrow> ('z store_scheme, dk_error, unit) prog" where
  "write_caches X [] = ret ()"
| "write_caches X (c # cs) = bnd (case c of
       None \<Rightarrow> ret ()
     | Some (p, pb) \<Rightarrow> write_at X p (ptr_block_bytes X pb)) (\<lambda>_. write_caches X cs)"

definition write_ptr_cache :: "ext \<Rightarrow> ('z, dk_error, unit) fprog" where
  "write_ptr_cache X = bnd (get_file f_cache) (\<lambda>cs. on_dk (write_caches X cs))"

definition empty_ptr_block :: "('z, 'e, nat list) fprog" where
  "empty_ptr_block = bnd dk_block_size (\<lambda>bs. ret (replicate (bs div 8) 0))"

text \<open>
  The common first step of the four loading methods: whether the cache of a level already holds the
  block at \<open>ptr\<close>; a block that is about to be replaced is written back.
\<close>

definition evict :: "ext \<Rightarrow> nat \<Rightarrow> nat \<Rightarrow> ('z, dk_error, bool) fprog" where
  "evict X k ptr = bnd (get_cache k) (\<lambda>c. case c of
     None \<Rightarrow> ret False
   | Some (p, pb) \<Rightarrow>
       if p = ptr then ret True
       else bnd (on_dk (write_at X p (ptr_block_bytes X pb))) (\<lambda>_. ret False))"

definition load_ptrs_alloc :: "ext \<Rightarrow> nat \<Rightarrow> nat \<Rightarrow> ('z, dk_error, nat) fprog" where
  "load_ptrs_alloc X level ptr =
     bnd (assert_that (0 < level)) (\<lambda>_.
     bnd (evict X (level - 1) ptr) (\<lambda>hit.
     if hit then ret ptr
     else if ptr = 0 then
       bnd (on_dk (allocate_db X)) (\<lambda>q.
       bnd inc_blocks (\<lambda>_.
       bnd empty_ptr_block (\<lambda>pb.
       bnd (set_cache (level - 1) (q, pb)) (\<lambda>_. ret q))))
     else
       bnd (on_dk (read_ptr_block X ptr)) (\<lambda>pb.
       bnd (set_cache (level - 1) (ptr, pb)) (\<lambda>_. ret ptr))))"

text \<open>\<open>cache.0[index]\<close>, replaced by a new data block when it is null.\<close>

definition slot_alloc :: "ext \<Rightarrow> nat \<Rightarrow> nat \<Rightarrow> ('z, dk_error, nat \<times> bool) fprog" where
  "slot_alloc X k i =
     bnd (get_cache k) (\<lambda>c.
     bnd (unwrap c) (\<lambda>(p, pb).
     bnd (index pb i) (\<lambda>v.
     if v = 0 then
       bnd (on_dk (allocate_db X)) (\<lambda>q.
       bnd (set_cache k (p, pb[i := q])) (\<lambda>_.
       bnd inc_blocks (\<lambda>_. ret (q, True))))
     else ret (v, False))))"

definition load_ptrs_in_cache_alloc :: "ext \<Rightarrow> nat \<Rightarrow> nat \<Rightarrow> ('z, dk_error, unit) fprog" where
  "load_ptrs_in_cache_alloc X level i =
     bnd (assert_that (1 < level)) (\<lambda>_.
     bnd (slot_alloc X (level - 1) i) (\<lambda>(new_ptr, empty).
     bnd (evict X (level - 2) new_ptr) (\<lambda>hit.
     if hit then ret ()
     else
       bnd (if empty then empty_ptr_block else on_dk (read_ptr_block X new_ptr)) (\<lambda>pb.
       set_cache (level - 2) (new_ptr, pb)))))"

text \<open>The loop \<open>while level > 1\<close> of \<open>locate_alloc\<close>; it returns the offset in the level 1 block.\<close>

primrec descend_alloc :: "ext \<Rightarrow> nat \<Rightarrow> nat \<Rightarrow> nat \<Rightarrow> nat \<Rightarrow> ('z, dk_error, nat) fprog" where
  "descend_alloc X pc 0 ipc off = ret off"
| "descend_alloc X pc (Suc l) ipc off =
     (if l = 0 then ret off
      else bnd (ck_div ipc pc) (\<lambda>ipc'.
        bnd (ck_div off ipc') (\<lambda>q.
        bnd (load_ptrs_in_cache_alloc X (Suc l) q) (\<lambda>_.
        bnd (ck_mod off ipc') (\<lambda>off'. descend_alloc X pc l ipc' off')))))"

definition locate_alloc :: "ext \<Rightarrow> nat \<Rightarrow> ('z, dk_error, nat) fprog" where
  "locate_alloc X bi =
     bnd (level_off bi) (\<lambda>(level, off).
     if level = 0 then
       bnd (get_ptr 0 off) (\<lambda>p.
       bnd (if p = 0 then
              bnd (on_dk (allocate_db X)) (\<lambda>q.
              bnd (set_ptr 0 off q) (\<lambda>_. inc_blocks))
            else ret ()) (\<lambda>_. get_ptr 0 off))
     else
       bnd (get_ptr level 0) (\<lambda>indir_ptr.
       bnd (load_ptrs_alloc X level indir_ptr) (\<lambda>q.
       bnd (set_ptr level 0 q) (\<lambda>_.
       bnd dk_block_size (\<lambda>bs.
       bnd (ck_pow (bs div 8) level) (\<lambda>ipc.
       bnd (descend_alloc X (bs div 8) level ipc off) (\<lambda>off'.
       bnd (slot_alloc X 0 off') (\<lambda>(v, _). ret v))))))))"

definition load_ptrs :: "ext \<Rightarrow> nat \<Rightarrow> nat \<Rightarrow> ('z, dk_error, nat option) fprog" where
  "load_ptrs X level ptr =
     bnd (assert_that (0 < level)) (\<lambda>_.
     if ptr = 0 then ret None
     else
       bnd (evict X (level - 1) ptr) (\<lambda>hit.
       if hit then ret (Some ptr)
       else
         bnd (on_dk (read_ptr_block X ptr)) (\<lambda>pb.
         bnd (set_cache (level - 1) (ptr, pb)) (\<lambda>_. ret (Some ptr)))))"

definition cached_ptr :: "nat \<Rightarrow> nat \<Rightarrow> ('z, 'e, nat) fprog" where
  "cached_ptr k i = bnd (get_cache k) (\<lambda>c. bnd (unwrap c) (\<lambda>(p, pb). index pb i))"

definition load_ptrs_in_cache :: "ext \<Rightarrow> nat \<Rightarrow> nat \<Rightarrow> ('z, dk_error, bool) fprog" where
  "load_ptrs_in_cache X level i =
     bnd (assert_that (1 < level)) (\<lambda>_.
     bnd (cached_ptr (level - 1) i) (\<lambda>new_ptr.
     if new_ptr = 0 then ret False
     else
       bnd (evict X (level - 2) new_ptr) (\<lambda>hit.
       if hit then ret True
       else
         bnd (on_dk (read_ptr_block X new_ptr)) (\<lambda>pb.
         bnd (set_cache (level - 2) (new_ptr, pb)) (\<lambda>_. ret True)))))"

text \<open>The loop of \<open>locate\<close>; \<open>None\<close> is its early return.\<close>

primrec descend :: "ext \<Rightarrow> nat \<Rightarrow> nat \<Rightarrow> nat \<Rightarrow> nat \<Rightarrow> ('z, dk_error, nat option) fprog" where
  "descend X pc 0 ipc off = ret (Some off)"
| "descend X pc (Suc l) ipc off =
     (if l = 0 then ret (Some off)
      else bnd (ck_div ipc pc) (\<lambda>ipc'.
        bnd (ck_div off ipc') (\<lambda>q.
        bnd (load_ptrs_in_cache X (Suc l) q) (\<lambda>found.
        if \<not> found then ret None
        else bnd (ck_mod off ipc') (\<lambda>off'. descend X pc l ipc' off')))))"

definition locate :: "ext \<Rightarrow> nat \<Rightarrow> ('z, dk_error, nat option) fprog" where
  "locate X bi =
     bnd (level_off bi) (\<lambda>(level, off).
     if level = 0 then
       bnd (get_ptr 0 off) (\<lambda>p. ret (if p = 0 then None else Some p))
     else
       bnd (get_ptr level 0) (\<lambda>indir_ptr.
       bnd (load_ptrs X level indir_ptr) (\<lambda>r. case r of
         None \<Rightarrow> ret None
       | Some q \<Rightarrow>
         bnd (set_ptr level 0 q) (\<lambda>_.
         bnd dk_block_size (\<lambda>bs.
         bnd (ck_pow (bs div 8) level) (\<lambda>ipc.
         bnd (descend X (bs div 8) level ipc off) (\<lambda>o'. case o' of
           None \<Rightarrow> ret None
         | Some off' \<Rightarrow> bnd (cached_ptr 0 off') (\<lambda>v. ret (if v = 0 then None else Some v)))))))))"

section \<open>Releasing blocks\<close>

primrec free_direct :: "ext \<Rightarrow> nat list \<Rightarrow> ('z, dk_error, unit) fprog" where
  "free_direct X [] = ret ()"
| "free_direct X (bi # bis) =
     bnd (bnd (get_ptr 0 bi) (\<lambda>p.
       if 0 < p then
         bnd (on_dk (free_db X p)) (\<lambda>_.
         bnd dec_blocks (\<lambda>_. set_ptr 0 bi 0))
       else ret ())) (\<lambda>_. free_direct X bis)"

text \<open>
  The loop over the pointers of a block in \<open>clear_pointers_rec\<close>.  The null that the code stores in
  its copy of the block is not kept: the copy is dropped after the loop.
\<close>

primrec clear_entries ::
  "ext \<Rightarrow> (nat \<Rightarrow> nat \<Rightarrow> ('z, dk_error, bool) fprog) \<Rightarrow> nat \<Rightarrow> nat \<Rightarrow> nat list \<Rightarrow> ('z, dk_error, unit) fprog" where
  "clear_entries X rec sublen start [] = ret ()"
| "clear_entries X rec sublen start (p # ps) =
     bnd (rec start p) (\<lambda>clear.
     bnd (if clear then bnd (on_dk (free_db X p)) (\<lambda>_. dec_blocks) else ret ()) (\<lambda>_.
     bnd (ck_add start sublen) (\<lambda>start'. clear_entries X rec sublen start' ps)))"

primrec clear_pointers_rec :: "ext \<Rightarrow> nat \<Rightarrow> nat \<Rightarrow> nat \<Rightarrow> nat \<Rightarrow> ('z, dk_error, bool) fprog" where
  "clear_pointers_rec X from 0 start ptr =
     (if ptr = 0 then ret False
      else bnd dk_block_size (\<lambda>bs. bnd (ck_pow (bs div 8) 0) (\<lambda>_. ret (from \<le> start))))"
| "clear_pointers_rec X from (Suc level) start ptr =
     (if ptr = 0 then ret False
      else bnd dk_block_size (\<lambda>bs.
        bnd (ck_pow (bs div 8) (Suc level)) (\<lambda>len.
        bnd (ck_div len (bs div 8)) (\<lambda>sublen.
        bnd (on_dk (read_ptr_block X ptr)) (\<lambda>pb.
        bnd (clear_entries X (\<lambda>st p. clear_pointers_rec X from level st p) sublen start pb) (\<lambda>_.
        ret (from \<le> start)))))))"

primrec free_indirect :: "ext \<Rightarrow> nat \<Rightarrow> nat \<Rightarrow> nat list \<Rightarrow> ('z, dk_error, unit) fprog" where
  "free_indirect X from start [] = ret ()"
| "free_indirect X from start (i # is) =
     bnd (get_ptr i 0) (\<lambda>indir_ptr.
     bnd (clear_pointers_rec X from i start indir_ptr) (\<lambda>clear.
     bnd (if clear then
            bnd (get_ptr i 0) (\<lambda>p.
            bnd (on_dk (free_db X p)) (\<lambda>_.
            bnd dec_blocks (\<lambda>_. set_ptr i 0 0)))
          else ret ()) (\<lambda>_.
     bnd dk_block_size (\<lambda>bs.
     bnd (ck_pow (bs div 8) i) (\<lambda>n.
     bnd (ck_add start n) (\<lambda>start'. free_indirect X from start' is))))))"

definition free_file_db :: "ext \<Rightarrow> nat \<Rightarrow> ('z, dk_error, unit) fprog" where
  "free_file_db X from =
     bnd (if from < 12 then free_direct X [0..<12] else ret ()) (\<lambda>_. free_indirect X from 12 [1, 2, 3, 4])"

definition update_size :: "ext \<Rightarrow> nat \<Rightarrow> ('z, dk_error, unit) fprog" where
  "update_size X new_size =
     bnd (set_dirty True) (\<lambda>_.
     bnd (get_file (\<lambda>f. i_size (f_inode f))) (\<lambda>sz.
     bnd (if new_size < sz then
            bnd dk_block_size (\<lambda>bs.
            bnd (next_block_of_pos new_size bs) (\<lambda>free_from. free_file_db X free_from))
          else ret ()) (\<lambda>_.
     bnd (mod_inode (\<lambda>i. i\<lparr>i_size := new_size\<rparr>)) (\<lambda>_.
     bnd (get_file (\<lambda>f. is_directory (i_mode (f_inode f)))) (\<lambda>dir.
     if \<not> dir then
       bnd (on_dk (now X)) (\<lambda>t.
       bnd (mod_inode (\<lambda>i. i\<lparr>i_mtime := t\<rparr>)) (\<lambda>_.
       bnd (on_dk (now X)) (\<lambda>t'. mod_inode (\<lambda>i. i\<lparr>i_ctime := t'\<rparr>))))
     else ret ())))))"

definition destroy :: "ext \<Rightarrow> ('z, dk_error, unit) fprog" where
  "destroy X =
     bnd (get_file (\<lambda>f. i_nlink (f_inode f))) (\<lambda>n.
     bnd (assert_that (n = 0)) (\<lambda>_.
     bnd (update_size X 0) (\<lambda>_.
     bnd (get_file (\<lambda>f. i_xattr_ptr (f_inode f))) (\<lambda>p.
     bnd (if p \<noteq> 0 then on_dk (free_db X p) else ret ()) (\<lambda>_.
     bnd (get_file (\<lambda>f. i_ino (f_inode f))) (\<lambda>ino. on_dk (free_inode X ino)))))))"

section \<open>Reading, writing, flushing\<close>

text \<open>\<open>dk_read\<close>, for a buffer of \<open>n\<close> bytes; it returns the bytes put into the buffer.\<close>

definition dk_read :: "ext \<Rightarrow> nat \<Rightarrow> ('z, dk_error, byte list) fprog" where
  "dk_read X n =
     bnd (get_file f_pos) (\<lambda>pos. bnd (get_file (\<lambda>f. i_size (f_inode f))) (\<lambda>size.
     if size \<le> pos then ret []
     else
       bnd dk_block_size (\<lambda>bs.
       bnd (block_of_pos pos bs) (\<lambda>(bi, bo).
       bnd (locate X bi) (\<lambda>block_ptr. case block_ptr of
         None \<Rightarrow> ret []
       | Some p \<Rightarrow>
         bnd (ck_add p bo) (\<lambda>ptr.
         bnd (on_dk (read_into X ptr (min (min (bs - bo) (size - pos)) n))) (\<lambda>data.
         bnd (ck_add pos (length data)) (\<lambda>pos'.
         bnd (mod_file (\<lambda>f. f\<lparr>f_pos := pos'\<rparr>)) (\<lambda>_. ret data)))))))))"

definition dk_write :: "ext \<Rightarrow> byte list \<Rightarrow> ('z, dk_error, nat) fprog" where
  "dk_write X buf =
     bnd (set_dirty True) (\<lambda>_.
     bnd dk_block_size (\<lambda>bs.
     bnd (get_file f_pos) (\<lambda>pos.
     bnd (block_of_pos pos bs) (\<lambda>(bi, bo).
     bnd (locate_alloc X bi) (\<lambda>p.
     bnd (ck_add p bo) (\<lambda>ptr.
     let len = min (bs - bo) (length buf) in
     bnd (on_dk (write_at X ptr (take len buf))) (\<lambda>_.
     bnd (ck_add pos len) (\<lambda>pos'.
     bnd (mod_file (\<lambda>f. f\<lparr>f_pos := pos'\<rparr>)) (\<lambda>_.
     bnd (get_file (\<lambda>f. i_size (f_inode f))) (\<lambda>size.
     bnd (if size < pos' then update_size X pos' else ret ()) (\<lambda>_. ret len)))))))))))"

text \<open>The implementations of \<open>std::io::Read\<close> and \<open>Write\<close> for \<open>DkFileIO\<close>.\<close>

definition io_read :: "ext \<Rightarrow> nat \<Rightarrow> ('z, io_error, byte list) fprog" where
  "io_read X n = map_err io_error_of_dk (dk_read X n)"

definition io_write :: "ext \<Rightarrow> byte list \<Rightarrow> ('z, io_error, nat) fprog" where
  "io_write X buf = map_err io_error_of_dk (dk_write X buf)"

definition io_flush :: "ext \<Rightarrow> ('z, io_error, unit) fprog" where
  "io_flush X =
     bnd (get_file (\<lambda>f. f_dirty f \<and> 0 < i_nlink (f_inode f))) (\<lambda>go.
     if go then
       bnd (map_err io_error_of_dk
              (bnd (write_ptr_cache X) (\<lambda>_.
               bnd (write_xattr X) (\<lambda>_.
               bnd (get_file f_inode) (\<lambda>i. on_dk (write_inode X i)))))) (\<lambda>_.
       set_dirty False)
     else ret ())"

definition flush_file :: "ext \<Rightarrow> ('z, dk_error, unit) fprog" where
  "flush_file X = map_err dk_error_of_io (io_flush X)"

text \<open>
  \<open>Write::write_all\<close> on \<open>DkFileIO\<close>: every round writes at least a byte, so as many rounds as bytes are
  enough.
\<close>

primrec write_all_loop :: "ext \<Rightarrow> nat \<Rightarrow> byte list \<Rightarrow> ('z, io_error, unit) fprog" where
  "write_all_loop X 0 buf = (if buf = [] then ret () else hang)"
| "write_all_loop X (Suc n) buf =
     (if buf = [] then ret ()
      else bnd (io_write X buf) (\<lambda>k.
        if k = 0 then fail (IoKind WriteZero) else write_all_loop X n (drop k buf)))"

definition write_all :: "ext \<Rightarrow> byte list \<Rightarrow> ('z, io_error, unit) fprog" where
  "write_all X buf = write_all_loop X (length buf) buf"

text \<open>
  \<open>io.take(limit).read_to_end(&mut v)\<close>: round \<open>k\<close> offers a buffer of \<open>rte_buf k\<close> bytes, cut to the
  limit; a round that reads nothing ends the loop, every other one lowers the limit.
\<close>

primrec read_to_end_loop :: "ext \<Rightarrow> nat \<Rightarrow> nat \<Rightarrow> nat \<Rightarrow> ('z, io_error, byte list) fprog" where
  "read_to_end_loop X 0 k limit = hang"
| "read_to_end_loop X (Suc n) k limit =
     (if limit = 0 then ret []
      else bnd (io_read X (min (rte_buf X k) limit)) (\<lambda>data.
        if length data = 0 then ret []
        else bnd (read_to_end_loop X n (Suc k) (limit - length data)) (\<lambda>rest. ret (data @ rest))))"

definition take_read_to_end :: "ext \<Rightarrow> nat \<Rightarrow> ('z, io_error, byte list) fprog" where
  "take_read_to_end X limit = read_to_end_loop X (Suc limit) 0 limit"

end
