(* ===== verification/Dirs.thy ===== *)
theory Dirs
  imports Files
begin

text \<open>
  The stream of a directory (\<open>DkDir::flush\<close> and \<open>DkDir::read_fully\<close> of file.rs): the entries are
  written to the directory's file through a \<open>std::io::BufWriter\<close> and read back through a
  \<open>std::io::BufReader\<close>, both with the default buffer of 8192 bytes.  The buffer is a component of the
  state next to the file.
\<close>

definition BUF_SIZE :: nat where [simp]: "BUF_SIZE = 8192"

type_synonym ('z, 'e, 'a) bprog = "(byte list \<times> dkfile \<times> 'z store_scheme, 'e, 'a) prog"

definition on_io :: "('z, 'e, 'a) fprog \<Rightarrow> ('z, 'e, 'a) bprog" where
  "on_io m = (\<lambda>(b, fs). case m fs of (r, fs') \<Rightarrow> (r, (b, fs')))"

definition get_buf :: "('z, 'e, byte list) bprog" where
  "get_buf = gets fst"

definition set_buf :: "byte list \<Rightarrow> ('z, 'e, unit) bprog" where
  "set_buf b = modify (\<lambda>(_, fs). (b, fs))"

text \<open>The lifetime of a buffer: it starts empty, and what is in it at the end is dropped.\<close>

definition with_buf :: "('z, 'e, 'a) bprog \<Rightarrow> ('z, 'e, 'a) fprog" where
  "with_buf m = (\<lambda>fs. case m ([], fs) of (r, (_, fs')) \<Rightarrow> (r, fs'))"

section \<open>BufWriter\<close>

text \<open>\<open>flush_buf\<close>: what has been written is removed from the buffer, also when an error follows.\<close>

primrec flush_buf_loop :: "ext \<Rightarrow> nat \<Rightarrow> ('z, io_error, unit) bprog" where
  "flush_buf_loop X 0 = bnd get_buf (\<lambda>b. if b = [] then ret () else hang)"
| "flush_buf_loop X (Suc n) = bnd get_buf (\<lambda>b.
     if b = [] then ret ()
     else bnd (on_io (io_write X b)) (\<lambda>k.
       if k = 0 then fail (IoKind WriteZero)
       else bnd (set_buf (drop k b)) (\<lambda>_. flush_buf_loop X n)))"

definition flush_buf :: "ext \<Rightarrow> ('z, io_error, unit) bprog" where
  "flush_buf X = bnd get_buf (\<lambda>b. flush_buf_loop X (length b))"

definition bw_write :: "ext \<Rightarrow> byte list \<Rightarrow> ('z, io_error, nat) bprog" where
  "bw_write X p =
     bnd get_buf (\<lambda>b.
     bnd (if BUF_SIZE < length b + length p then flush_buf X else ret ()) (\<lambda>_.
     if BUF_SIZE \<le> length p then on_io (io_write X p)
     else bnd get_buf (\<lambda>b'. bnd (set_buf (b' @ p)) (\<lambda>_. ret (length p)))))"

primrec bw_write_all_loop :: "ext \<Rightarrow> nat \<Rightarrow> byte list \<Rightarrow> ('z, io_error, unit) bprog" where
  "bw_write_all_loop X 0 p = (if p = [] then ret () else hang)"
| "bw_write_all_loop X (Suc n) p =
     (if p = [] then ret ()
      else bnd (bw_write X p) (\<lambda>k.
        if k = 0 then fail (IoKind WriteZero) else bw_write_all_loop X n (drop k p)))"

definition bw_write_all :: "ext \<Rightarrow> byte list \<Rightarrow> ('z, io_error, unit) bprog" where
  "bw_write_all X p = bw_write_all_loop X (length p) p"

text \<open>\<open>serialize_into\<close>: the pieces of the encoding, one \<open>write_all\<close> each.\<close>

primrec serialize_into :: "ext \<Rightarrow> byte list list \<Rightarrow> ('z, dk_error, unit) bprog" where
  "serialize_into X [] = ret ()"
| "serialize_into X (p # ps) =
     bnd (map_err (\<lambda>e. dk_error_of_bincode (BcIo e)) (bw_write_all X p)) (\<lambda>_. serialize_into X ps)"

text \<open>\<open>Drop for BufWriter\<close>: the buffer is flushed and an error is ignored.\<close>

definition bw_drop :: "ext \<Rightarrow> ('z, dk_error, 'a) bprog \<Rightarrow> ('z, dk_error, 'a) bprog" where
  "bw_drop X m = (\<lambda>s. case m s of
     (Ok a, s') \<Rightarrow> bnd (attempt (map_err IoError (flush_buf X))) (\<lambda>_. ret a) s'
   | (Err e, s') \<Rightarrow> bnd (attempt (map_err IoError (flush_buf X))) (\<lambda>_. fail e) s'
   | (Panic, s') \<Rightarrow> (Panic, s')
   | (Hang, s') \<Rightarrow> (Hang, s'))"

section \<open>The entries of a directory\<close>

primrec write_entries :: "ext \<Rightarrow> (os_string \<times> nat) list \<Rightarrow> ('z, dk_error, unit) bprog" where
  "write_entries X [] = ret ()"
| "write_entries X (e # es) = (case e of (name, ino) \<Rightarrow>
     bnd (serialize_into X [enc_int X 8 ino]) (\<lambda>_.
     bnd (serialize_into X (enc_str X name)) (\<lambda>_. write_entries X es)))"

text \<open>
  The part of \<open>DkDir::flush\<close> that works on the directory's file.  (The code resets the dirty flag of
  the directory between the last \<open>serialize_into\<close> and the drop of the writer.)
\<close>

definition write_dir :: "ext \<Rightarrow> nat omap \<Rightarrow> ('z, dk_error, unit) fprog" where
  "write_dir X entries =
     bnd (map_err dk_error_of_io (seek (SeekStart 0))) (\<lambda>_.
     with_buf (bw_drop X
       (bnd (write_entries X entries) (\<lambda>_. serialize_into X [enc_int X 8 (ROOT_INODE - 1)]))))"

section \<open>BufReader\<close>

definition fill_buf :: "ext \<Rightarrow> ('z, io_error, byte list) bprog" where
  "fill_buf X = bnd get_buf (\<lambda>b.
     if b = [] then bnd (on_io (io_read X BUF_SIZE)) (\<lambda>data. bnd (set_buf data) (\<lambda>_. ret data))
     else ret b)"

definition br_read :: "ext \<Rightarrow> nat \<Rightarrow> ('z, io_error, byte list) bprog" where
  "br_read X n = bnd get_buf (\<lambda>b.
     if b = [] \<and> BUF_SIZE \<le> n then on_io (io_read X n)
     else bnd (fill_buf X) (\<lambda>rem. bnd (set_buf (drop n rem)) (\<lambda>_. ret (take n rem))))"

text \<open>\<open>read_exact\<close>: every round reads at least a byte or is the last.\<close>

primrec br_exact_loop :: "ext \<Rightarrow> nat \<Rightarrow> nat \<Rightarrow> ('z, bc_error, byte list) bprog" where
  "br_exact_loop X 0 n = (if n = 0 then ret [] else hang)"
| "br_exact_loop X (Suc k) n =
     (if n = 0 then ret []
      else bnd (map_err BcIo (br_read X n)) (\<lambda>data.
        if length data = 0 then fail (BcIo (IoKind UnexpectedEof))
        else bnd (br_exact_loop X k (n - length data)) (\<lambda>rest. ret (data @ rest))))"

definition br_exact :: "ext \<Rightarrow> nat \<Rightarrow> ('z, bc_error, byte list) bprog" where
  "br_exact X n = br_exact_loop X n n"

definition deserialize_from :: "ext \<Rightarrow> 'a decoder \<Rightarrow> ('z, dk_error, 'a) bprog" where
  "deserialize_from X d = map_err dk_error_of_bincode (run_decoder (br_exact X) d)"

definition dec_u64 :: "ext \<Rightarrow> nat decoder" where
  "dec_u64 X = Need 8 (\<lambda>bs. Done (dec_int X bs))"

text \<open>
  The loop of \<open>read_fully\<close>: a round takes at least eight bytes of the file, so one more round than the
  file has bytes is enough.  The entries are inserted into the given map.
\<close>

primrec read_entries :: "ext \<Rightarrow> nat \<Rightarrow> nat omap \<Rightarrow> ('z, dk_error, nat omap) bprog" where
  "read_entries X 0 m = hang"
| "read_entries X (Suc k) m =
     bnd (deserialize_from X (dec_u64 X)) (\<lambda>ino.
     if ROOT_INODE \<le> ino then
       bnd (deserialize_from X (dec_str X)) (\<lambda>name. read_entries X k (om_insert name ino m))
     else if ino = ROOT_INODE - 1 then ret m
     else fail (Corrupted (MBadDirEntry ino)))"

definition read_dir :: "ext \<Rightarrow> nat omap \<Rightarrow> ('z, dk_error, nat omap) fprog" where
  "read_dir X m =
     bnd (get_file (\<lambda>f. i_size (f_inode f))) (\<lambda>size.
     if size = 0 then ret m else with_buf (read_entries X (Suc size) m))"

end
