(* ===== verification/FileFrame.thy ===== *)
theory FileFrame
  imports Dirs
begin

text \<open>
  The operations on the store and on a file leave what extends the store alone: the tables of opened
  files and directories and the handles of the kernel are changed only by the definitions that name
  them.
\<close>

abbreviation rest :: "dkfile \<times> 'z store_scheme \<Rightarrow> 'z" where
  "rest fs \<equiv> store.more (snd fs)"

abbreviation brest :: "byte list \<times> dkfile \<times> 'z store_scheme \<Rightarrow> 'z" where
  "brest bfs \<equiv> store.more (snd (snd bfs))"

named_theorems rest_intros \<open>operations that do not touch the rest of the state\<close>

section \<open>The store\<close>

lemma write_at_rest [rest_intros]: "stable store.more (write_at X p bs)"
  by (simp add: stable_def write_at_def split: prod.split)

lemma now_rest [rest_intros]: "stable store.more (now X)"
  by (simp add: stable_def now_def)

lemma query_ops_rest [rest_intros]:
  "stable store.more (read_at X p n)" "stable store.more (read_block X p)" "stable store.more (read_into X p n)"
  by (simp_all add: stable_def read_at_def read_block_def read_into_def)

lemma read_more_rest [rest_intros]:
  "stable store.more (read_ptr_block X p)" "stable store.more (read_free_list X p)"
  unfolding read_ptr_block_def read_free_list_def
  by (intro stable_intros rest_intros)+

lemma flush_sb_rest [rest_intros]: "stable store.more (flush_sb X)"
  by (simp add: stable_def flush_sb_def write_at_def split: prod.split)

lemma set_sb_rest [rest_intros]:
  "stable store.more (set_inode_fl_ptr p)" "stable store.more (set_db_fl_ptr p)"
  "stable store.more (set_used_inode_count n)" "stable store.more (set_used_db_count n)"
  by (simp_all add: stable_def set_inode_fl_ptr_def set_db_fl_ptr_def set_used_inode_count_def
      set_used_db_count_def)

lemma ptr_ino_rest [rest_intros]: "stable g (ptr_of_ino i)" "stable h (ino_of_ptr p)"
  unfolding ptr_of_ino_def ino_of_ptr_def by (intro stable_intros)+

lemma read_inode_rest [rest_intros]: "stable store.more (read_inode X i)"
  unfolding read_inode_def Let_def by (intro stable_intros rest_intros)

lemma write_inode_rest [rest_intros]: "stable store.more (write_inode X i)"
  unfolding write_inode_def by (intro stable_intros rest_intros)

lemma allocate_from_free_rest [rest_intros]: "stable store.more (allocate_from_free X fuel p n)"
proof (induction fuel arbitrary: p)
  case 0
  then show ?case by (simp add: stable_def)
next
  case (Suc fuel)
  show ?case
    unfolding allocate_from_free.simps Let_def by (intro stable_intros rest_intros Suc.IH)
qed

lemma allocate_rest [rest_intros]:
  "stable store.more (allocate_inode X)" "stable store.more (allocate_db X)"
  unfolding allocate_inode_def allocate_db_def by (intro stable_intros rest_intros)+

lemma free_rest [rest_intros]:
  "stable store.more (free_inode X i)" "stable store.more (free_db X p)"
  unfolding free_inode_def free_db_def Let_def by (intro stable_intros rest_intros)+

section \<open>Files\<close>

lemma on_dk_rest [stable_intros]: "stable store.more m \<Longrightarrow> stable rest (on_dk m)"
  by (auto simp: stable_def on_dk_def split: prod.split) (metis snd_conv)

lemma file_access_rest [rest_intros]:
  "stable rest (get_file g)" "stable rest (mod_file h)" "stable rest (mod_inode h')"
  "stable rest (set_dirty b)" "stable rest dk_block_size"
  by (simp_all add: stable_def get_file_def mod_file_def mod_inode_def set_dirty_def
      dk_block_size_def on_dk_def split: prod.split)

lemma blocks_rest [rest_intros]: "stable rest inc_blocks" "stable rest dec_blocks"
  unfolding inc_blocks_def dec_blocks_def by (intro stable_intros rest_intros)+

lemma ptr_access_rest [rest_intros]:
  "stable rest (get_ptr l k)" "stable rest (set_ptr l k p)" "stable rest (get_cache k)"
  "stable rest (set_cache k c)"
  unfolding get_ptr_def set_ptr_def get_cache_def set_cache_def by (intro stable_intros rest_intros)+

lemma seek_rest [rest_intros]: "stable rest (seek p)"
  unfolding seek_def ck_add_i64_def
  by (cases p) (auto intro!: stable_intros rest_intros)

lemma decode_from_rest [rest_intros]: "stable g (decode_from d bs)"
  by (simp add: stable_def decode_from_def)

lemma read_xattr_rest [rest_intros]: "stable rest (read_xattr X)"
proof -
  have "stable rest (read_xattr_loop X n bs)" for n bs
  proof (induction n arbitrary: bs)
    case 0
    then show ?case by (simp add: stable_def)
  next
    case (Suc n)
    show ?case unfolding read_xattr_loop.simps by (intro stable_intros rest_intros Suc.IH)
  qed
  then show ?thesis unfolding read_xattr_def by (intro stable_intros rest_intros)
qed

lemma write_xattr_rest [rest_intros]: "stable rest (write_xattr X)"
  unfolding write_xattr_def by (intro stable_intros rest_intros)

lemma level_off_rest [rest_intros]: "stable rest (level_off bi)"
proof -
  have "stable rest (level_off_loop p pc ls bi multi)" for p pc ls bi multi
  proof (induction ls arbitrary: bi multi)
    case Nil
    then show ?case by (simp add: stable_def)
  next
    case (Cons l ls)
    show ?case unfolding level_off_loop.simps by (intro stable_intros Cons.IH)
  qed
  then show ?thesis unfolding level_off_def by (intro stable_intros rest_intros)
qed

lemma write_ptr_cache_rest [rest_intros]: "stable rest (write_ptr_cache X)"
proof -
  have "stable store.more (write_caches X cs)" for cs
  proof (induction cs)
    case Nil
    then show ?case by (simp add: stable_def)
  next
    case (Cons c cs)
    show ?case unfolding write_caches.simps by (intro stable_intros rest_intros Cons.IH)
  qed
  then show ?thesis unfolding write_ptr_cache_def by (intro stable_intros rest_intros)
qed

lemma cache_steps_rest [rest_intros]:
  "stable rest empty_ptr_block" "stable rest (evict X k p)" "stable rest (cached_ptr k i)"
  unfolding empty_ptr_block_def evict_def cached_ptr_def by (intro stable_intros rest_intros)+

lemma slot_alloc_rest [rest_intros]: "stable rest (slot_alloc X k i)"
  unfolding slot_alloc_def by (intro stable_intros rest_intros)

lemma load_rest [rest_intros]:
  "stable rest (load_ptrs_alloc X l p)" "stable rest (load_ptrs_in_cache_alloc X l i)"
  "stable rest (load_ptrs X l p)" "stable rest (load_ptrs_in_cache X l i)"
  unfolding load_ptrs_alloc_def load_ptrs_in_cache_alloc_def load_ptrs_def load_ptrs_in_cache_def
  by (intro stable_intros rest_intros)+

lemma descend_rest [rest_intros]:
  "stable rest (descend_alloc X pc l ipc off)" "stable rest (descend X pc l' ipc' off')"
proof -
  show "stable rest (descend_alloc X pc l ipc off)"
  proof (induction l arbitrary: ipc off)
    case 0
    then show ?case by (simp add: stable_def)
  next
    case (Suc l)
    show ?case unfolding descend_alloc.simps by (intro stable_intros rest_intros Suc.IH)
  qed
  show "stable rest (descend X pc l' ipc' off')"
  proof (induction l' arbitrary: ipc' off')
    case 0
    then show ?case by (simp add: stable_def)
  next
    case (Suc l)
    show ?case unfolding descend.simps by (intro stable_intros rest_intros Suc.IH)
  qed
qed

lemma locate_rest [rest_intros]: "stable rest (locate_alloc X bi)" "stable rest (locate X bi')"
  unfolding locate_alloc_def locate_def by (intro stable_intros rest_intros)+

lemma free_direct_rest [rest_intros]: "stable rest (free_direct X bis)"
proof (induction bis)
  case Nil
  then show ?case by (simp add: stable_def)
next
  case (Cons bi bis)
  show ?case unfolding free_direct.simps by (intro stable_intros rest_intros Cons.IH)
qed

lemma clear_entries_rest:
  "(\<And>st p. stable rest (rec st p)) \<Longrightarrow> stable rest (clear_entries X rec sublen start ps)"
proof (induction ps arbitrary: start)
  case Nil
  then show ?case by (simp add: stable_def)
next
  case (Cons p ps)
  show ?case
    unfolding clear_entries.simps by (intro stable_intros rest_intros Cons)
qed

lemma clear_pointers_rec_rest [rest_intros]: "stable rest (clear_pointers_rec X from l start p)"
proof (induction l arbitrary: start p)
  case 0
  show ?case unfolding clear_pointers_rec.simps by (intro stable_intros rest_intros)
next
  case (Suc l)
  show ?case
    unfolding clear_pointers_rec.simps
    by (intro stable_intros rest_intros clear_entries_rest Suc.IH)
qed

lemma free_file_db_rest [rest_intros]: "stable rest (free_file_db X from)"
proof -
  have "stable rest (free_indirect X from start is)" for start "is"
  proof (induction "is" arbitrary: start)
    case Nil
    then show ?case by (simp add: stable_def)
  next
    case (Cons i "is")
    show ?case unfolding free_indirect.simps by (intro stable_intros rest_intros Cons.IH)
  qed
  then show ?thesis unfolding free_file_db_def by (intro stable_intros rest_intros)
qed

lemma pos_rest [rest_intros]: "stable g (block_of_pos p bs)" "stable h (next_block_of_pos p' bs')"
  unfolding block_of_pos_def next_block_of_pos_def by (intro stable_intros)+

lemma update_size_rest [rest_intros]: "stable rest (update_size X n)"
  unfolding update_size_def by (intro stable_intros rest_intros)

lemma destroy_rest [rest_intros]: "stable rest (destroy X)"
  unfolding destroy_def by (intro stable_intros rest_intros)

lemma dk_io_rest [rest_intros]: "stable rest (dk_read X n)" "stable rest (dk_write X bs)"
  unfolding dk_read_def dk_write_def Let_def by (intro stable_intros rest_intros)+

lemma io_rest [rest_intros]:
  "stable rest (io_read X n)" "stable rest (io_write X bs)" "stable rest (io_flush X)"
  "stable rest (flush_file X)"
  unfolding io_read_def io_write_def io_flush_def flush_file_def by (intro stable_intros rest_intros)+

lemma write_all_rest [rest_intros]: "stable rest (write_all X buf)"
proof -
  have "stable rest (write_all_loop X n buf)" for n buf
  proof (induction n arbitrary: buf)
    case 0
    show ?case unfolding write_all_loop.simps by (intro stable_intros)
  next
    case (Suc n)
    show ?case unfolding write_all_loop.simps by (intro stable_intros rest_intros Suc.IH)
  qed
  then show ?thesis unfolding write_all_def .
qed

lemma take_read_to_end_rest [rest_intros]: "stable rest (take_read_to_end X n)"
proof -
  have "stable rest (read_to_end_loop X m k limit)" for m k limit
  proof (induction m arbitrary: k limit)
    case 0
    show ?case unfolding read_to_end_loop.simps by (intro stable_intros)
  next
    case (Suc m)
    show ?case unfolding read_to_end_loop.simps by (intro stable_intros rest_intros Suc.IH)
  qed
  then show ?thesis unfolding take_read_to_end_def .
qed

section \<open>Directory streams\<close>

lemma on_io_rest [stable_intros]: "stable rest m \<Longrightarrow> stable brest (on_io m)"
  by (auto simp: stable_def on_io_def split: prod.split) (metis snd_conv)

lemma buf_rest [rest_intros]: "stable brest get_buf" "stable brest (set_buf b)"
  by (simp_all add: stable_def get_buf_def set_buf_def split: prod.split)

lemma with_buf_rest [stable_intros]: "stable brest m \<Longrightarrow> stable rest (with_buf m)"
  by (auto simp: stable_def with_buf_def split: prod.split) (metis snd_conv)

lemma flush_buf_rest [rest_intros]: "stable brest (flush_buf X)"
proof -
  have "stable brest (flush_buf_loop X n)" for n
  proof (induction n)
    case 0
    show ?case unfolding flush_buf_loop.simps by (intro stable_intros rest_intros)
  next
    case (Suc n)
    show ?case unfolding flush_buf_loop.simps by (intro stable_intros rest_intros Suc.IH)
  qed
  then show ?thesis unfolding flush_buf_def by (intro stable_intros rest_intros)
qed

lemma bw_write_rest [rest_intros]: "stable brest (bw_write X p)"
  unfolding bw_write_def by (intro stable_intros rest_intros)

lemma bw_write_all_rest [rest_intros]: "stable brest (bw_write_all X p)"
proof -
  have "stable brest (bw_write_all_loop X n p)" for n p
  proof (induction n arbitrary: p)
    case 0
    show ?case unfolding bw_write_all_loop.simps by (intro stable_intros)
  next
    case (Suc n)
    show ?case unfolding bw_write_all_loop.simps by (intro stable_intros rest_intros Suc.IH)
  qed
  then show ?thesis unfolding bw_write_all_def .
qed

lemma serialize_into_rest [rest_intros]: "stable brest (serialize_into X ps)"
proof (induction ps)
  case Nil
  show ?case by (simp add: stable_def)
next
  case (Cons p ps)
  show ?case unfolding serialize_into.simps by (intro stable_intros rest_intros Cons.IH)
qed

lemma bw_drop_rest [stable_intros]: "stable brest m \<Longrightarrow> stable brest (bw_drop X m)"
proof -
  assume m: "stable brest m"
  have d: "stable brest (attempt (map_err IoError (flush_buf X)))" by (intro stable_intros rest_intros)
  have r: "stable brest (bnd (attempt (map_err IoError (flush_buf X))) (\<lambda>_. ret a))"
    "stable brest (bnd (attempt (map_err IoError (flush_buf X))) (\<lambda>_. fail e))" for a e
    by (intro stable_intros d)+
  show ?thesis unfolding stable_def
  proof
    fix s
    obtain x t where x: "m s = (x, t)" by (cases "m s")
    then have "brest t = brest s" by (rule stableD [OF m])
    then show "brest (snd (bw_drop X m s)) = brest s"
      using x by (cases x) (simp_all add: bw_drop_def r [unfolded stable_def, THEN spec])
  qed
qed

lemma write_dir_rest [rest_intros]: "stable rest (write_dir X es)"
proof -
  have "stable brest (write_entries X es)" for es
  proof (induction es)
    case Nil
    show ?case by (simp add: stable_def)
  next
    case (Cons e es)
    show ?case unfolding write_entries.simps by (intro stable_intros rest_intros Cons.IH)
  qed
  then show ?thesis unfolding write_dir_def by (intro stable_intros rest_intros)
qed

lemma br_read_rest [rest_intros]: "stable brest (br_read X n)"
  unfolding br_read_def fill_buf_def by (intro stable_intros rest_intros)

lemma br_exact_rest [rest_intros]: "stable brest (br_exact X n)"
proof -
  have "stable brest (br_exact_loop X k n)" for k n
  proof (induction k arbitrary: n)
    case 0
    show ?case unfolding br_exact_loop.simps by (intro stable_intros)
  next
    case (Suc k)
    show ?case unfolding br_exact_loop.simps by (intro stable_intros rest_intros Suc.IH)
  qed
  then show ?thesis unfolding br_exact_def .
qed

lemma deserialize_from_rest [rest_intros]: "stable brest (deserialize_from X d)"
proof -
  have "stable brest (run_decoder (br_exact X) d)"
  proof (induction d)
    case (Need n k)
    then show ?case unfolding run_decoder.simps by (intro stable_intros rest_intros) simp
  qed (simp_all add: stable_def)
  then show ?thesis unfolding deserialize_from_def by (intro stable_intros)
qed

lemma read_dir_rest [rest_intros]: "stable rest (read_dir X m)"
proof -
  have "stable brest (read_entries X n m)" for n m
  proof (induction n arbitrary: m)
    case 0
    show ?case by (simp add: stable_def)
  next
    case (Suc n)
    show ?case unfolding read_entries.simps by (intro stable_intros rest_intros Suc.IH)
  qed
  then show ?thesis unfolding read_dir_def by (intro stable_intros rest_intros)
qed

end
