(* ===== verification/SlotAllocator.thy ===== *)
theory SlotAllocator
  imports Prelude
begin

text \<open>
  The contract of an allocator of slots, and what a client can conclude from it: whatever sequence of
  allocations and releases it performs, the slots it holds are pairwise different, none of them is
  free at the same time, and no slot is lost.
\<close>

datatype slot_op = Take | Give nat

text \<open>
  A client with a list of held slots: \<open>Take\<close> asks for one more (and goes on without it when the
  allocator has none), \<open>Give i\<close> releases the \<open>i\<close>-th held slot.
\<close>

primrec run_slots ::
  "('s, 'e, nat) prog \<Rightarrow> (nat \<Rightarrow> ('s, 'e, unit) prog) \<Rightarrow> slot_op list \<Rightarrow> nat list \<Rightarrow> ('s, 'e, nat list) prog"
  where
  "run_slots alloc free [] held = ret held"
| "run_slots alloc free (op # ops) held = (case op of
     Take \<Rightarrow> bnd (attempt alloc) (\<lambda>r. case r of
         None \<Rightarrow> run_slots alloc free ops held
       | Some x \<Rightarrow> run_slots alloc free ops (x # held))
   | Give i \<Rightarrow>
       if i < length held then
         bnd (free (held ! i)) (\<lambda>_. run_slots alloc free ops (take i held @ drop (Suc i) held))
       else run_slots alloc free ops held)"

primrec take_slots :: "('s, 'e, nat) prog \<Rightarrow> nat \<Rightarrow> ('s, 'e, nat list) prog" where
  "take_slots alloc 0 = ret []"
| "take_slots alloc (Suc n) = bnd alloc (\<lambda>x. bnd (take_slots alloc n) (\<lambda>xs. ret (x # xs)))"

lemma attempt_Ok: "m s = (Ok a, s') \<Longrightarrow> attempt m s = (Ok (Some a), s')"
  by (simp add: attempt_def)

lemma attempt_Err: "m s = (Err e, s') \<Longrightarrow> attempt m s = (Ok None, s')"
  by (simp add: attempt_def)

lemma set_remove_nth:
  "i < length xs \<Longrightarrow> distinct xs \<Longrightarrow>
   distinct (take i xs @ drop (Suc i) xs) \<and> set (take i xs @ drop (Suc i) xs) = set xs - {xs ! i}"
proof -
  assume i: "i < length xs" and d: "distinct xs"
  have "xs = take i xs @ xs ! i # drop (Suc i) xs" by (rule id_take_nth_drop [OF i])
  then have "distinct (take i xs @ xs ! i # drop (Suc i) xs)"
    and "set xs = set (take i xs @ xs ! i # drop (Suc i) xs)" using d by simp_all
  then show ?thesis by auto
qed

locale slot_allocator =
  fixes alloc :: "('s, 'e, nat) prog"
    and free :: "nat \<Rightarrow> ('s, 'e, unit) prog"
    and avail :: "'s \<Rightarrow> nat list \<Rightarrow> bool"
    and slots :: "'s \<Rightarrow> nat set"
    and full :: "'e"
  assumes avail_distinct: "avail s xs \<Longrightarrow> distinct xs"
    and avail_slots: "avail s xs \<Longrightarrow> set xs \<subseteq> slots s"
    and alloc_pop:
      "avail s (x # xs) \<Longrightarrow> \<exists>s'. alloc s = (Ok x, s') \<and> avail s' xs \<and> slots s' = slots s"
    and alloc_none: "avail s [] \<Longrightarrow> alloc s = (Err full, s)"
    and free_push:
      "avail s xs \<Longrightarrow> x \<in> slots s \<Longrightarrow> x \<notin> set xs \<Longrightarrow>
       \<exists>s'. free x s = (Ok (), s') \<and> avail s' (x # xs) \<and> slots s' = slots s"
begin

text \<open>The invariant of a client: held and free slots partition a fixed set.\<close>

lemma client_safe:
  assumes "avail s xs" "distinct held" "set held \<inter> set xs = {}" "set held \<subseteq> slots s"
  shows "\<exists>held' s' xs'. run_slots alloc free ops held s = (Ok held', s') \<and> avail s' xs'
     \<and> distinct held' \<and> set held' \<inter> set xs' = {} \<and> set held' \<union> set xs' = set held \<union> set xs
     \<and> slots s' = slots s"
  using assms
proof (induction ops arbitrary: s xs held)
  case Nil
  then show ?case by auto
next
  case (Cons op ops)
  note IH = Cons.IH and prems = Cons.prems
  show ?case
  proof (cases op)
    case Take
    show ?thesis
    proof (cases xs)
      case Nil
      then have "attempt alloc s = (Ok None, s)"
        using prems(1) alloc_none by (intro attempt_Err) blast
      then show ?thesis using IH [OF prems] Take by (simp add: bnd_def)
    next
      case (Cons x ys)
      then obtain s1 where s1: "alloc s = (Ok x, s1)" "avail s1 ys" "slots s1 = slots s"
        using alloc_pop prems(1) by blast
      have "x \<in> slots s" "x \<notin> set held" "x \<notin> set ys"
        using Cons prems avail_slots [OF prems(1)] avail_distinct [OF prems(1)] by auto
      then have "distinct (x # held)" "set (x # held) \<inter> set ys = {}" "set (x # held) \<subseteq> slots s1"
        using Cons prems s1(3) by auto
      from IH [OF s1(2) this] show ?thesis
        using Take Cons s1 by (auto simp: bnd_def attempt_Ok)
    qed
  next
    case (Give i)
    show ?thesis
    proof (cases "i < length held")
      case False
      then show ?thesis using IH [OF prems] Give by simp
    next
      case True
      let ?x = "held ! i" and ?rest = "take i held @ drop (Suc i) held"
      have x: "?x \<in> set held" using True by simp
      have rest: "distinct ?rest" "set ?rest = set held - {?x}"
        using set_remove_nth [OF True prems(2)] by simp_all
      have "?x \<in> slots s" "?x \<notin> set xs" using x prems by auto
      then obtain s1 where s1: "free ?x s = (Ok (), s1)" "avail s1 (?x # xs)" "slots s1 = slots s"
        using free_push prems(1) by blast
      have "set ?rest \<inter> set (?x # xs) = {}" "set ?rest \<subseteq> slots s1"
        using rest prems s1(3) by auto
      from IH [OF s1(2) rest(1) this]
      have "\<exists>held' s' xs'. run_slots alloc free ops ?rest s1 = (Ok held', s') \<and> avail s' xs'
        \<and> distinct held' \<and> set held' \<inter> set xs' = {} \<and> set held' \<union> set xs' = set ?rest \<union> set (?x # xs)
        \<and> slots s' = slots s1" .
      moreover have "set ?rest \<union> set (?x # xs) = set held \<union> set xs" using rest(2) x by auto
      ultimately show ?thesis using Give True s1 by (simp add: bnd_def)
    qed
  qed
qed

text \<open>All free slots can be taken, in the order of the stack, and then no more.\<close>

lemma take_all:
  "avail s (xs @ ys) \<Longrightarrow> \<exists>s'. take_slots alloc (length xs) s = (Ok xs, s') \<and> avail s' ys"
proof (induction xs arbitrary: s)
  case Nil
  then show ?case by auto
next
  case (Cons x xs)
  then obtain s1 where s1: "alloc s = (Ok x, s1)" "avail s1 (xs @ ys)"
    using alloc_pop [of s x "xs @ ys"] by auto
  then show ?case using Cons.IH [OF s1(2)] by (auto simp: bnd_def)
qed

lemma take_one_too_many:
  assumes "avail s xs"
  shows "\<exists>s'. take_slots alloc (Suc (length xs)) s = (Err full, s')"
  using assms
proof (induction xs arbitrary: s)
  case Nil
  then show ?case using alloc_none by (auto simp: bnd_def)
next
  case (Cons x xs)
  then obtain s1 where s1: "alloc s = (Ok x, s1)" "avail s1 xs"
    using alloc_pop by blast
  then show ?case using Cons.IH [OF s1(2)] by (auto simp: bnd_def split: prod.splits res.splits)
qed

text \<open>A released slot is the next one handed out.\<close>

lemma free_then_alloc:
  assumes "avail s xs" "x \<in> slots s" "x \<notin> set xs"
  shows "\<exists>s'. bnd (free x) (\<lambda>_. alloc) s = (Ok x, s') \<and> avail s' xs \<and> slots s' = slots s"
proof -
  obtain s1 where s1: "free x s = (Ok (), s1)" "avail s1 (x # xs)" "slots s1 = slots s"
    using free_push [OF assms] by blast
  then show ?thesis using alloc_pop [OF s1(2)] by (simp add: bnd_def)
qed

end

end
