(* ===== verification/Allocator.thy ===== *)
theory Allocator
  imports Store SlotAllocator
begin

text \<open>
  The free lists of the device as stacks of free slots.

  A node of a free list lies in the first bytes of a run of free slots and holds the size of the run
  and the pointer of the next node.  \<open>chain\<close> relates the head pointer and the bytes of the device to
  the list of runs, \<open>expand\<close> lists the free slots in the order in which they will be handed out, and
  \<open>store_ok X s is ds\<close> is the invariant of the store: the inode slots \<open>is\<close> and the data blocks \<open>ds\<close>
  are free, everything else is in use, the counters of the super block agree, the regions do not
  overlap, and the super block on the device is the one in memory.
\<close>

section \<open>Execution of the typed accesses\<close>

definition fl_at :: "ext \<Rightarrow> (nat \<Rightarrow> byte) \<Rightarrow> nat \<Rightarrow> free_list" where
  "fl_at X c p = fl_of_values (dec_fields X fl_layout (read_bytes c p 16))"

abbreviation disk :: "'z store_scheme \<Rightarrow> nat \<Rightarrow> byte" where
  "disk s \<equiv> content (dev s)"

definition set_disk :: "(nat \<Rightarrow> byte) \<Rightarrow> 'z store_scheme \<Rightarrow> 'z store_scheme" where
  "set_disk c s = s\<lparr>dev := (dev s)\<lparr>content := c\<rparr>\<rparr>"

lemma set_disk_simps [simp]:
  "dev (set_disk c s) = (dev s)\<lparr>content := c\<rparr>" "sb (set_disk c s) = sb s"
  "clk (set_disk c s) = clk s" "more (set_disk c s) = more s"
  "set_disk c (set_disk c' s) = set_disk c s"
  "set_disk c (s\<lparr>sb := b\<rparr>) = (set_disk c s)\<lparr>sb := b\<rparr>"
  by (simp_all add: set_disk_def)

lemma write_at_Ok:
  assumes "device_ok (dev s)" "no_faults X" "ptr + length bs \<le> dev_size (dev s)"
  shows "write_at X ptr bs s = (Ok (), set_disk (write_bytes ptr bs (disk s)) s)"
  using dev_write_at_Ok [OF assms] by (simp add: write_at_def set_disk_def)

lemma read_at_Ok:
  assumes "device_ok (dev s)" "no_faults X" "ptr + n \<le> dev_size (dev s)"
  shows "read_at X ptr n s = (Ok (read_bytes (disk s) ptr n), s)"
  using dev_read_at_Ok [OF assms] by (simp add: read_at_def)

lemma read_free_list_Ok:
  assumes "device_ok (dev s)" "no_faults X" "ptr + 16 \<le> dev_size (dev s)"
  shows "read_free_list X ptr s = (Ok (fl_at X (disk s) ptr), s)"
  using read_at_Ok [OF assms]
  by (simp add: read_free_list_def bnd_Ok fl_at_def fl_layout_def)

lemma read_free_list_state: "read_free_list X ptr s = (r, s') \<Longrightarrow> s' = s"
  by (auto simp: read_free_list_def read_at_def bnd_def split: res.splits)

lemma fl_at_write:
  assumes "codec_ok X" "next_ptr fl < u64_limit" "fl_size fl < u64_limit"
  shows "fl_at X (write_bytes p (fl_bytes X fl) c) p = fl"
  using fl_round_trip [OF assms, of "[]"] assms(1) by (simp add: fl_at_def)

lemma fl_at_cong: "(\<And>i. p \<le> i \<Longrightarrow> i < p + 16 \<Longrightarrow> c i = c' i) \<Longrightarrow> fl_at X c p = fl_at X c' p"
  unfolding fl_at_def by (rule arg_cong) (rule read_bytes_cong [THEN arg_cong])

lemma fl_at_less:
  assumes "codec_ok X"
  shows "next_ptr (fl_at X c p) < u64_limit" "fl_size (fl_at X c p) < u64_limit"
  using dec_fields_less [OF assms, of fl_layout "read_bytes c p 16"]
  by (simp_all add: fl_at_def fl_of_values_def fl_layout_def)

section \<open>Slots and runs\<close>

definition units :: "nat \<Rightarrow> nat \<Rightarrow> nat \<Rightarrow> nat set" where
  "units lo n u = (\<lambda>i. lo + i * u) ` {..<n}"

definition covered :: "nat \<Rightarrow> nat list \<Rightarrow> nat set" where
  "covered u xs = (\<Union>f \<in> set xs. {f..<f + u})"

lemma covered_simps [simp]:
  "covered u [] = {}" "covered u (x # xs) = {x..<x + u} \<union> covered u xs"
  "covered u (xs @ ys) = covered u xs \<union> covered u ys"
  by (auto simp: covered_def)

lemma finite_units [simp]: "finite (units lo n u)"
  by (simp add: units_def)

lemma units_range: "a \<in> units lo n u \<Longrightarrow> lo \<le> a \<and> a + u \<le> lo + n * u"
proof -
  assume "a \<in> units lo n u"
  then obtain i where i: "a = lo + i * u" "i < n" by (auto simp: units_def)
  then have "Suc i * u \<le> n * u" by (intro mult_right_mono) auto
  then show ?thesis using i by simp
qed

lemma covered_range: "set xs \<subseteq> units lo n u \<Longrightarrow> covered u xs \<subseteq> {lo..<lo + n * u}"
  using units_range by (fastforce simp: covered_def)

lemma units_apart:
  assumes "a \<in> units lo n u" "b \<in> units lo n u" "a \<noteq> b"
  shows "a + u \<le> b \<or> b + u \<le> a"
proof -
  obtain i j where ij: "a = lo + i * u" "b = lo + j * u" using assms by (auto simp: units_def)
  then have "i \<noteq> j" using assms(3) by auto
  then have "Suc i * u \<le> j * u \<or> Suc j * u \<le> i * u"
    by (meson linorder_neqE_nat less_eq_Suc_le mult_right_mono zero_le)
  then show ?thesis using ij by auto
qed

lemma covered_apart:
  "set xs \<subseteq> units lo n u \<Longrightarrow> p \<in> units lo n u \<Longrightarrow> p \<notin> set xs \<Longrightarrow>
   {p..<p + u} \<inter> covered u xs = {}"
  using units_apart by (fastforce simp: covered_def)

definition expand :: "nat \<Rightarrow> (nat \<times> nat) list \<Rightarrow> nat list" where
  "expand u ns = concat (map (\<lambda>(p, k). map (\<lambda>i. p + i * u) [0..<k]) ns)"

lemma expand_Nil [simp]: "expand u [] = []"
  by (simp add: expand_def)

lemma expand_run: "expand u ((p, k) # ns) = map (\<lambda>i. p + i * u) [0..<k] @ expand u ns"
  by (simp add: expand_def)

lemma expand_Suc: "expand u ((p, Suc k) # ns) = p # expand u ((p + u, k) # ns)"
  by (simp add: expand_run upt_conv_Cons map_Suc_upt [symmetric] comp_def algebra_simps
      del: upt_Suc)

lemma expand_zero [simp]: "expand u ((p, 0) # ns) = expand u ns"
  by (simp add: expand_run)

section \<open>Free lists on the device\<close>

primrec chain :: "ext \<Rightarrow> (nat \<Rightarrow> byte) \<Rightarrow> nat \<Rightarrow> nat \<Rightarrow> (nat \<times> nat) list \<Rightarrow> bool" where
  "chain X c u h [] \<longleftrightarrow> h = 0"
| "chain X c u h (r # ns) \<longleftrightarrow> h = fst r \<and> 0 < snd r \<and> fl_size (fl_at X c h) = snd r * u
     \<and> chain X c u (next_ptr (fl_at X c h)) ns"

definition free_stack :: "ext \<Rightarrow> (nat \<Rightarrow> byte) \<Rightarrow> nat \<Rightarrow> nat \<Rightarrow> nat list \<Rightarrow> bool" where
  "free_stack X c u h xs \<longleftrightarrow> (\<exists>ns. chain X c u h ns \<and> xs = expand u ns)"

lemma chain_heads: "chain X c u h ns \<Longrightarrow> fst ` set ns \<subseteq> set (expand u ns)"
proof (induction ns arbitrary: h)
  case Nil
  then show ?case by simp
next
  case (Cons r ns)
  obtain p k where r: "r = (p, k)" by force
  have "p \<in> set (expand u (r # ns))"
    using Cons.prems by (cases k) (auto simp: r expand_Suc)
  moreover have "set (expand u ns) \<subseteq> set (expand u (r # ns))"
    by (simp add: r expand_run)
  moreover have "fst ` set ns \<subseteq> set (expand u ns)" using Cons.IH Cons.prems by auto
  ultimately show ?case by (auto simp: r)
qed

lemma chain_cong:
  "chain X c u h ns \<Longrightarrow> (\<And>p i. p \<in> fst ` set ns \<Longrightarrow> p \<le> i \<Longrightarrow> i < p + 16 \<Longrightarrow> c' i = c i) \<Longrightarrow>
   chain X c' u h ns"
proof (induction ns arbitrary: h)
  case Nil
  then show ?case by simp
next
  case (Cons r ns)
  have "fl_at X c' h = fl_at X c h"
    by (rule fl_at_cong) (use Cons.prems in auto)
  then show ?case using Cons by auto
qed

lemma free_stack_frame:
  assumes "free_stack X c u h xs" "16 \<le> u" "\<And>i. i \<in> covered u xs \<Longrightarrow> c' i = c i"
  shows "free_stack X c' u h xs"
proof -
  obtain ns where ns: "chain X c u h ns" "xs = expand u ns"
    using assms(1) by (auto simp: free_stack_def)
  have "chain X c' u h ns"
  proof (rule chain_cong [OF ns(1)])
    fix p i assume p: "p \<in> fst ` set ns" and i: "p \<le> i" "i < p + 16"
    then have "p \<in> set xs" using chain_heads [OF ns(1)] ns(2) by auto
    then show "c' i = c i" using i assms(2) by (intro assms(3)) (force simp: covered_def)
  qed
  then show ?thesis using ns(2) by (auto simp: free_stack_def)
qed

lemma free_stack_Nil: "free_stack X c u 0 []"
  unfolding free_stack_def by (rule exI [of _ "[]"]) simp

lemma free_stack_one_run:
  assumes "fl_at X c h = \<lparr>next_ptr = 0, fl_size = k * u\<rparr>" "0 < k"
  shows "free_stack X c u h (map (\<lambda>i. h + i * u) [0..<k])"
  unfolding free_stack_def by (rule exI [of _ "[(h, k)]"]) (simp add: assms expand_run)

text \<open>Freeing a slot pushes it.\<close>

lemma free_stack_push:
  assumes "free_stack X c u h xs" "16 \<le> u" "codec_ok X" "h < u64_limit" "u < u64_limit"
    and "{p..<p + u} \<inter> covered u xs = {}"
  shows "free_stack X (write_bytes p (fl_bytes X \<lparr>next_ptr = h, fl_size = u\<rparr>) c) u p (p # xs)"
proof -
  let ?c = "write_bytes p (fl_bytes X \<lparr>next_ptr = h, fl_size = u\<rparr>) c"
  have "free_stack X ?c u h xs"
  proof (rule free_stack_frame [OF assms(1,2)])
    fix i assume "i \<in> covered u xs"
    then have "i \<notin> {p..<p + u}" using assms(6) by auto
    then show "?c i = c i" using assms(2,3) by (intro write_bytes_outside) auto
  qed
  then obtain ns where ns: "chain X ?c u h ns" "xs = expand u ns" by (auto simp: free_stack_def)
  have "fl_at X ?c p = \<lparr>next_ptr = h, fl_size = u\<rparr>"
    using assms(3-5) by (intro fl_at_write) auto
  then have "chain X ?c u p ((p, Suc 0) # ns)" using ns(1) by simp
  moreover have "p # xs = expand u ((p, Suc 0) # ns)" by (simp add: expand_Suc ns(2))
  ultimately show ?thesis unfolding free_stack_def by blast
qed

text \<open>Allocation pops the first free slot and touches only slots that stay free.\<close>

lemma allocate_from_free_pop:
  assumes stk: "free_stack X (disk s) u h (p # ps)"
    and d: "distinct (p # ps)" "set (p # ps) \<subseteq> units lo n u"
    and u: "16 \<le> u" and fits: "lo + n * u \<le> dev_size (dev s)"
    and ok: "codec_ok X" "no_faults X" "device_ok (dev s)"
  obtains h' c' where
    "allocate_from_free X (Suc fuel) h u s = (Ok (p, h'), set_disk c' s)"
    "free_stack X c' u h' ps" "h' < u64_limit"
    "\<forall>i. i \<notin> covered u ps \<longrightarrow> c' i = disk s i"
proof -
  obtain ns where ns: "chain X (disk s) u h ns" "p # ps = expand u ns"
    using stk by (auto simp: free_stack_def)
  then obtain q k ms where r: "ns = (q, Suc k) # ms"
    by (cases ns) (auto simp: gr0_conv_Suc)
  let ?fl = "fl_at X (disk s) h"
  have h: "h = p" and ps: "ps = expand u ((p + u, k) # ms)"
    and size: "fl_size ?fl = Suc k * u" and rest: "chain X (disk s) u (next_ptr ?fl) ms"
    using ns by (auto simp: r expand_Suc)
  have pu: "p \<in> units lo n u" "p + u \<le> lo + n * u"
    using d units_range [of p lo n u] by auto
  have rd: "read_free_list X h s = (Ok ?fl, s)"
    using pu u fits by (intro read_free_list_Ok ok) (simp add: h)
  have lim: "dev_size (dev s) < u64_limit" using ok(3) by (rule device_ok_size)
  show ?thesis
  proof (cases k)
    case 0
    then have "allocate_from_free X (Suc fuel) h u s = (Ok (p, next_ptr ?fl), s)"
      using u size by (simp add: bnd_def rd [unfolded h] h)
    moreover have "free_stack X (disk s) u (next_ptr ?fl) ps"
      using rest ps 0 by (auto simp: free_stack_def)
    moreover have "s = set_disk (disk s) s" by (simp add: set_disk_def)
    ultimately show ?thesis using fl_at_less(1) [OF ok(1)] by (intro that) auto
  next
    case (Suc j)
    have ps2: "ps = (p + u) # expand u ((p + u + u, j) # ms)" by (simp only: ps Suc expand_Suc)
    then have pn: "p + u \<in> set ps" by simp
    have ms: "set (expand u ms) \<subseteq> set (expand u ((p + u + u, j) # ms))"
      by (simp add: expand_run)
    then have pn_units: "p + u \<in> units lo n u" "p + u + u \<le> lo + n * u"
      using d(2) pn units_range [of "p + u" lo n u] by auto
    define fl' where "fl' = ?fl\<lparr>fl_size := k * u\<rparr>"
    define c' where "c' = write_bytes (p + u) (fl_bytes X fl') (disk s)"
    have ge: "u \<le> fl_size ?fl" "16 \<le> fl_size ?fl - u" "fl_size ?fl - u = k * u"
      using size u Suc by auto
    have wr: "write_at X (p + u) (fl_bytes X fl') s = (Ok (), set_disk c' s)"
      unfolding c'_def using pn_units fits u by (intro write_at_Ok ok) (simp add: ok)
    have run: "allocate_from_free X (Suc fuel) h u s = (Ok (p, p + u), set_disk c' s)"
      using ge pn_units fits lim
      by (simp add: bnd_def rd [unfolded h] h Let_def wr [unfolded fl'_def h])
    have fl': "next_ptr fl' < u64_limit" "fl_size fl' < u64_limit"
      using fl_at_less [OF ok(1), of "disk s" h] size by (auto simp: fl'_def)
    have hd: "fl_at X c' (p + u) = fl'"
      unfolding c'_def by (rule fl_at_write [OF ok(1) fl'])
    have out: "c' i = disk s i" if "i \<notin> {p + u..<p + u + u}" for i
      unfolding c'_def using that u ok(1) by (intro write_bytes_outside) auto
    have "chain X c' u (next_ptr ?fl) ms"
    proof (rule chain_cong [OF rest])
      fix a i assume a: "a \<in> fst ` set ms" and i: "a \<le> i" "i < a + 16"
      have "a \<in> set (expand u ms)" using a chain_heads [OF rest] by auto
      moreover from this have "a \<noteq> p + u" "a \<in> units lo n u"
        using d ms by (auto simp: ps2)
      ultimately have "a + u \<le> p + u \<or> p + u + u \<le> a"
        using units_apart [OF _ pn_units(1)] by blast
      then show "c' i = disk s i" using i u by (intro out) auto
    qed
    then have "chain X c' u (p + u) ((p + u, k) # ms)"
      using hd by (simp add: fl'_def Suc)
    then have stk': "free_stack X c' u (p + u) ps" unfolding free_stack_def ps by blast
    have out': "\<forall>i. i \<notin> covered u ps \<longrightarrow> c' i = disk s i"
      using pn by (auto intro!: out simp: covered_def)
    have "p + u < u64_limit" using pn_units fits lim by simp
    then show ?thesis by (rule that [OF run stk' _ out'])
  qed
qed

section \<open>The invariant of the store\<close>

definition inode_slot :: "nat \<Rightarrow> nat" where
  "inode_slot ino = (ino - ROOT_INODE) * INODE_SIZE + FIRST_INODE_PTR"

definition inode_numbers :: "super_block \<Rightarrow> nat set" where
  "inode_numbers b = {ROOT_INODE..<ROOT_INODE + inode_count b}"

text \<open>The first data block (\<open>first_db_ptr\<close> of \<open>format\<close>), recovered from the counts.\<close>

definition db_base :: "'z store_scheme \<Rightarrow> nat" where
  "db_base s = (d_block_count (dev s) - db_count (sb s)) * block_size (sb s)"

definition data_blocks :: "'z store_scheme \<Rightarrow> nat set" where
  "data_blocks s = units (db_base s) (db_count (sb s)) (block_size (sb s))"

definition geometry_ok :: "'z store_scheme \<Rightarrow> bool" where
  "geometry_ok s \<longleftrightarrow> magic_number (sb s) = MAGIC_NUMBER
     \<and> block_size (sb s) = d_block_size (dev s) \<and> 16 \<le> block_size (sb s)
     \<and> block_size (sb s) mod 8 = 0 \<and> db_count (sb s) \<le> d_block_count (dev s)
     \<and> FIRST_INODE_PTR + inode_count (sb s) * INODE_SIZE \<le> db_base s"

definition regions_ok :: "ext \<Rightarrow> 'z store_scheme \<Rightarrow> nat list \<Rightarrow> nat list \<Rightarrow> bool" where
  "regions_ok X s is ds \<longleftrightarrow>
     codec_ok X \<and> no_faults X \<and> device_ok (dev s) \<and> geometry_ok s \<and> sb_fields_ok (sb s) \<and>
     free_stack X (disk s) INODE_SIZE (inode_fl_ptr (sb s)) (map inode_slot is) \<and>
     distinct is \<and> set is \<subseteq> inode_numbers (sb s) \<and>
     length is + used_inode_count (sb s) = inode_count (sb s) \<and>
     free_stack X (disk s) (block_size (sb s)) (db_fl_ptr (sb s)) ds \<and>
     distinct ds \<and> set ds \<subseteq> data_blocks s \<and>
     length ds + used_db_count (sb s) = db_count (sb s)"

definition sb_synced :: "ext \<Rightarrow> 'z store_scheme \<Rightarrow> bool" where
  "sb_synced X s \<longleftrightarrow> read_bytes (disk s) SUPER_BLOCK_PTR 64 = sb_bytes X (sb s)"

definition store_ok :: "ext \<Rightarrow> 'z store_scheme \<Rightarrow> nat list \<Rightarrow> nat list \<Rightarrow> bool" where
  "store_ok X s is ds \<longleftrightarrow> regions_ok X s is ds \<and> sb_synced X s"

definition sb_range :: "nat set" where
  "sb_range = {SUPER_BLOCK_PTR..<SUPER_BLOCK_PTR + 64}"

lemma inode_slot_units:
  "i \<in> inode_numbers b \<Longrightarrow> inode_slot i \<in> units FIRST_INODE_PTR (inode_count b) INODE_SIZE"
  unfolding units_def inode_numbers_def inode_slot_def
  by (rule image_eqI [of _ _ "i - ROOT_INODE"]) auto

lemma inode_slot_inj: "inj_on inode_slot (inode_numbers b)"
  by (rule inj_onI) (auto simp: inode_numbers_def inode_slot_def)

lemma inode_slots:
  assumes "distinct is" "set is \<subseteq> inode_numbers b"
  shows "distinct (map inode_slot is)"
    and "set (map inode_slot is) \<subseteq> units FIRST_INODE_PTR (inode_count b) INODE_SIZE"
  using assms inode_slot_units inj_on_subset [OF inode_slot_inj assms(2)]
  by (auto simp: distinct_map)

lemma db_end:
  assumes "geometry_ok s"
  shows "db_base s + db_count (sb s) * block_size (sb s) = dev_size (dev s)"
proof -
  have "(d_block_count (dev s) - db_count (sb s)) * d_block_size (dev s)
      + db_count (sb s) * d_block_size (dev s) = d_block_count (dev s) * d_block_size (dev s)"
    using assms by (simp add: geometry_ok_def add_mult_distrib [symmetric])
  then show ?thesis using assms by (simp add: db_base_def geometry_ok_def dev_size_def mult.commute)
qed

lemma geometry_fits:
  assumes "geometry_ok s"
  shows "FIRST_INODE_PTR + inode_count (sb s) * INODE_SIZE \<le> dev_size (dev s)"
    and "SUPER_BLOCK_PTR + 64 \<le> dev_size (dev s)"
  using assms db_end [OF assms] by (auto simp: geometry_ok_def)

lemma regions_apart:
  assumes "regions_ok X s is ds"
  shows "covered INODE_SIZE (map inode_slot is) \<subseteq> {FIRST_INODE_PTR..<db_base s}"
    and "covered (block_size (sb s)) ds \<subseteq> {db_base s..<dev_size (dev s)}"
    and "covered INODE_SIZE (map inode_slot is) \<inter> covered (block_size (sb s)) ds = {}"
    and "sb_range \<inter> covered INODE_SIZE (map inode_slot is) = {}"
    and "sb_range \<inter> covered (block_size (sb s)) ds = {}"
proof -
  have g: "geometry_ok s" using assms by (simp add: regions_ok_def)
  have "covered INODE_SIZE (map inode_slot is)
      \<subseteq> {FIRST_INODE_PTR..<FIRST_INODE_PTR + inode_count (sb s) * INODE_SIZE}"
    by (rule covered_range, rule inode_slots) (use assms in \<open>auto simp: regions_ok_def\<close>)
  then show i: "covered INODE_SIZE (map inode_slot is) \<subseteq> {FIRST_INODE_PTR..<db_base s}"
    using g by (auto simp: geometry_ok_def)
  show d: "covered (block_size (sb s)) ds \<subseteq> {db_base s..<dev_size (dev s)}"
    using covered_range [of ds "db_base s" "db_count (sb s)" "block_size (sb s)"] db_end [OF g] assms
    by (simp add: regions_ok_def data_blocks_def)
  show "covered INODE_SIZE (map inode_slot is) \<inter> covered (block_size (sb s)) ds = {}"
    using i d by fastforce
  show "sb_range \<inter> covered INODE_SIZE (map inode_slot is) = {}"
    using i by (fastforce simp: sb_range_def)
  have "FIRST_INODE_PTR \<le> db_base s" using g by (simp add: geometry_ok_def)
  then show "sb_range \<inter> covered (block_size (sb s)) ds = {}"
    using d by (fastforce simp: sb_range_def)
qed

lemma geometry_disk [simp]:
  "geometry_ok (set_disk c s) = geometry_ok s" "db_base (set_disk c s) = db_base s"
  "data_blocks (set_disk c s) = data_blocks s"
  by (simp_all add: geometry_ok_def db_base_def data_blocks_def)

lemma geometry_counters [simp]:
  assumes "block_size b = block_size (sb s)" "inode_count b = inode_count (sb s)"
    "db_count b = db_count (sb s)" "magic_number b = magic_number (sb s)"
  shows "geometry_ok (s\<lparr>sb := b\<rparr>) = geometry_ok s" "db_base (s\<lparr>sb := b\<rparr>) = db_base s"
    "data_blocks (s\<lparr>sb := b\<rparr>) = data_blocks s"
  using assms by (simp_all add: geometry_ok_def db_base_def data_blocks_def)

lemma inode_numbers_counters [simp]:
  "inode_numbers (b\<lparr>inode_fl_ptr := h, used_inode_count := n\<rparr>) = inode_numbers b"
  "inode_numbers (b\<lparr>db_fl_ptr := h, used_db_count := n\<rparr>) = inode_numbers b"
  by (simp_all add: inode_numbers_def)

text \<open>Flushing the super block keeps the free lists and brings the device up to date.\<close>

lemma flush_sb_Ok:
  assumes "regions_ok X s is ds"
  obtains c where "flush_sb X s = (Ok (), set_disk c s)" "store_ok X (set_disk c s) is ds"
    "\<forall>i. i \<notin> sb_range \<longrightarrow> c i = disk s i"
proof -
  have r: "codec_ok X" "no_faults X" "device_ok (dev s)" "geometry_ok s" "16 \<le> block_size (sb s)"
    using assms by (auto simp: regions_ok_def geometry_ok_def)
  let ?c = "write_bytes SUPER_BLOCK_PTR (sb_bytes X (sb s)) (disk s)"
  have out: "\<forall>i. i \<notin> sb_range \<longrightarrow> ?c i = disk s i"
    using r(1) by (auto intro!: write_bytes_outside simp: sb_range_def)
  have run: "flush_sb X s = (Ok (), set_disk ?c s)"
    using geometry_fits(2) [OF r(4)] r(1) unfolding flush_sb_def by (intro write_at_Ok r) simp
  have "free_stack X ?c INODE_SIZE (inode_fl_ptr (sb s)) (map inode_slot is)"
    by (rule free_stack_frame [where c = "disk s"])
      (use assms regions_apart(4) [OF assms] out in \<open>auto simp: regions_ok_def\<close>)
  moreover have "free_stack X ?c (block_size (sb s)) (db_fl_ptr (sb s)) ds"
    by (rule free_stack_frame [where c = "disk s"])
      (use assms regions_apart(5) [OF assms] out r(5) in \<open>auto simp: regions_ok_def\<close>)
  ultimately have "regions_ok X (set_disk ?c s) is ds"
    using assms by (simp add: regions_ok_def)
  then have ok: "store_ok X (set_disk ?c s) is ds"
    using r(1) by (simp add: store_ok_def sb_synced_def)
  show ?thesis by (rule that [OF run ok out])
qed

section \<open>Allocation and release of whole slots\<close>

lemma ino_of_slot:
  "i \<in> inode_numbers b \<Longrightarrow> i < u64_limit \<Longrightarrow> ino_of_ptr (inode_slot i) t = (Ok i, t)"
  by (simp add: ino_of_ptr_def inode_slot_def inode_numbers_def)

lemma ptr_of_ino_slot:
  assumes "i \<in> inode_numbers (sb s)" "geometry_ok s" "device_ok (dev s)"
  shows "ptr_of_ino i t = (Ok (inode_slot i), t)" "inode_slot i + INODE_SIZE \<le> dev_size (dev s)"
    "i < u64_limit"
proof -
  have fit: "inode_slot i + INODE_SIZE \<le> FIRST_INODE_PTR + inode_count (sb s) * INODE_SIZE"
    using units_range [OF inode_slot_units [OF assms(1)]] by simp
  then show le: "inode_slot i + INODE_SIZE \<le> dev_size (dev s)"
    using geometry_fits(1) [OF assms(2)] by simp
  have lim: "dev_size (dev s) < u64_limit" using assms(3) by (rule device_ok_size)
  show "ptr_of_ino i t = (Ok (inode_slot i), t)"
    using le lim assms(1) by (simp add: ptr_of_ino_def inode_slot_def inode_numbers_def)
  show "i < u64_limit"
    using le lim assms(1) by (simp add: inode_slot_def inode_numbers_def)
qed

lemma sb_fields_update:
  "sb_fields_ok b \<Longrightarrow> h < u64_limit \<Longrightarrow> n < u64_limit \<Longrightarrow>
   sb_fields_ok (b\<lparr>db_fl_ptr := h, used_db_count := n\<rparr>)"
  "sb_fields_ok b \<Longrightarrow> h < u64_limit \<Longrightarrow> n < u64_limit \<Longrightarrow>
   sb_fields_ok (b\<lparr>inode_fl_ptr := h, used_inode_count := n\<rparr>)"
  by (simp_all add: sb_fields_ok_def sb_values_def)

text \<open>
  What every allocator step leaves alone: the bytes outside the super block and the free slots, the
  geometry, the clock and the rest of the state.
\<close>

definition same_used :: "nat set \<Rightarrow> 'z store_scheme \<Rightarrow> 'z store_scheme \<Rightarrow> bool" where
  "same_used free s s' \<longleftrightarrow> (\<exists>c b. s' = (set_disk c s)\<lparr>sb := b\<rparr>
     \<and> (\<forall>i. i \<notin> sb_range \<union> free \<longrightarrow> c i = disk s i)
     \<and> block_size b = block_size (sb s) \<and> inode_count b = inode_count (sb s)
     \<and> db_count b = db_count (sb s))"

definition free_bytes :: "'z store_scheme \<Rightarrow> nat list \<Rightarrow> nat list \<Rightarrow> nat set" where
  "free_bytes s is ds = covered INODE_SIZE (map inode_slot is) \<union> covered (block_size (sb s)) ds"

lemma same_used_disk:
  "same_used F s s' \<Longrightarrow> i \<notin> sb_range \<Longrightarrow> i \<notin> F \<Longrightarrow> disk s' i = disk s i"
  by (auto simp: same_used_def)

lemma same_used_simps:
  assumes "same_used F s s'"
  shows "dev_size (dev s') = dev_size (dev s)" "d_block_size (dev s') = d_block_size (dev s)"
    "d_block_count (dev s') = d_block_count (dev s)" "raw_len (dev s') = raw_len (dev s)"
    "clk s' = clk s" "more s' = more s" "block_size (sb s') = block_size (sb s)"
    "inode_count (sb s') = inode_count (sb s)" "db_count (sb s') = db_count (sb s)"
    "db_base s' = db_base s" "data_blocks s' = data_blocks s"
    "inode_numbers (sb s') = inode_numbers (sb s)"
  using assms by (auto simp: same_used_def db_base_def data_blocks_def inode_numbers_def)

lemma regions_Some:
  assumes "regions_ok X s is ds"
  shows "codec_ok X" "no_faults X" "device_ok (dev s)" "geometry_ok s" "sb_fields_ok (sb s)"
    "16 \<le> block_size (sb s)" "inode_count (sb s) < u64_limit" "db_count (sb s) < u64_limit"
    "inode_fl_ptr (sb s) < u64_limit" "db_fl_ptr (sb s) < u64_limit"
    "block_size (sb s) < u64_limit"
  using assms by (auto simp: regions_ok_def geometry_ok_def sb_fields_ok_def sb_values_def)

lemma allocate_db_pop:
  assumes "store_ok X s is (p # ds)"
  obtains s' where "allocate_db X s = (Ok p, s')" "store_ok X s' is ds"
    "same_used (free_bytes s [] ds) s s'"
proof -
  have r: "regions_ok X s is (p # ds)" using assms by (simp add: store_ok_def)
  note ok = regions_Some [OF r]
  let ?u = "block_size (sb s)"
  have stk0: "free_stack X (disk s) ?u (db_fl_ptr (sb s)) (p # ds)"
    and d0: "distinct (p # ds)" "set (p # ds) \<subseteq> units (db_base s) (db_count (sb s)) ?u"
    and fits: "db_base s + db_count (sb s) * ?u \<le> dev_size (dev s)"
    using r db_end [OF ok(4)] by (simp_all add: regions_ok_def data_blocks_def)
  obtain h' c' where run:
    "allocate_from_free X (Suc (Suc (dev_size (dev s)))) (db_fl_ptr (sb s)) ?u s
       = (Ok (p, h'), set_disk c' s)"
    and stk: "free_stack X c' ?u h' ds" and h': "h' < u64_limit"
    and out: "\<forall>i. i \<notin> covered ?u ds \<longrightarrow> c' i = disk s i"
    by (rule allocate_from_free_pop [where fuel = "Suc (dev_size (dev s))", OF stk0 d0(1) d0(2) ok(6) fits ok(1-3)])
  define s1 where "s1 = (set_disk c' s)\<lparr>sb := (sb s)\<lparr>db_fl_ptr := h',
    used_db_count := Suc (used_db_count (sb s))\<rparr>\<rparr>"
  have cnt: "used_db_count (sb s) < db_count (sb s)" using r by (auto simp: regions_ok_def)
  have "free_stack X (disk s) INODE_SIZE (inode_fl_ptr (sb s)) (map inode_slot is)"
    using r by (simp only: regions_ok_def)
  then have "free_stack X c' INODE_SIZE (inode_fl_ptr (sb s)) (map inode_slot is)"
  proof (rule free_stack_frame)
    fix a assume "a \<in> covered INODE_SIZE (map inode_slot is)"
    then have "a \<notin> covered ?u ds" using regions_apart(3) [OF r] by auto
    then show "c' a = disk s a" using out by blast
  qed simp
  then have r1: "regions_ok X s1 is ds"
    using r stk h' cnt ok sb_fields_update(1) [OF ok(5) h', of "Suc (used_db_count (sb s))"]
    by (simp add: s1_def regions_ok_def)
  obtain c'' where fl: "flush_sb X s1 = (Ok (), set_disk c'' s1)"
    and ok': "store_ok X (set_disk c'' s1) is ds"
    and out': "\<forall>i. i \<notin> sb_range \<longrightarrow> c'' i = disk s1 i"
    by (rule flush_sb_Ok [OF r1])
  have "allocate_db X s = (Ok p, set_disk c'' s1)"
    using cnt ok(8) run fl
    by (simp add: allocate_db_def bnd_def alloc_fuel_def set_db_fl_ptr_def set_used_db_count_def
        s1_def del: allocate_from_free.simps)
  moreover have "same_used (free_bytes s [] ds) s (set_disk c'' s1)"
    unfolding same_used_def
    by (rule exI [of _ c''], rule exI [of _ "sb s1"])
      (use out out' in \<open>auto simp: s1_def free_bytes_def set_disk_def\<close>)
  ultimately show ?thesis using ok' by (intro that)
qed

lemma allocate_inode_pop:
  assumes "store_ok X s (i # is) ds"
  obtains s' where "allocate_inode X s = (Ok i, s')" "store_ok X s' is ds"
    "same_used (free_bytes s is []) s s'"
proof -
  have r: "regions_ok X s (i # is) ds" using assms by (simp add: store_ok_def)
  note ok = regions_Some [OF r]
  have ids: "distinct (i # is)" "set (i # is) \<subseteq> inode_numbers (sb s)"
    using r by (auto simp: regions_ok_def)
  have i: "i \<in> inode_numbers (sb s)" using ids by simp
  note slots = inode_slots [OF ids, unfolded list.map]
  have stk0: "free_stack X (disk s) INODE_SIZE (inode_fl_ptr (sb s)) (inode_slot i # map inode_slot is)"
    using r by (simp add: regions_ok_def)
  obtain h' c' where run:
    "allocate_from_free X (Suc (Suc (dev_size (dev s)))) (inode_fl_ptr (sb s)) INODE_SIZE s
       = (Ok (inode_slot i, h'), set_disk c' s)"
    and stk: "free_stack X c' INODE_SIZE h' (map inode_slot is)" and h': "h' < u64_limit"
    and out: "\<forall>a. a \<notin> covered INODE_SIZE (map inode_slot is) \<longrightarrow> c' a = disk s a"
    by (rule allocate_from_free_pop [where fuel = "Suc (dev_size (dev s))", OF stk0 slots _ geometry_fits(1) [OF ok(4)] ok(1-3)]) simp
  define s1 where "s1 = (set_disk c' s)\<lparr>sb := (sb s)\<lparr>inode_fl_ptr := h',
    used_inode_count := Suc (used_inode_count (sb s))\<rparr>\<rparr>"
  have cnt: "used_inode_count (sb s) < inode_count (sb s)" using r by (auto simp: regions_ok_def)
  have "free_stack X (disk s) (block_size (sb s)) (db_fl_ptr (sb s)) ds"
    using r by (simp only: regions_ok_def)
  then have "free_stack X c' (block_size (sb s)) (db_fl_ptr (sb s)) ds"
  proof (rule free_stack_frame)
    fix a assume "a \<in> covered (block_size (sb s)) ds"
    then have "a \<notin> covered INODE_SIZE (map inode_slot is)" using regions_apart(3) [OF r] by auto
    then show "c' a = disk s a" using out by blast
  qed (rule ok(6))
  then have r1: "regions_ok X s1 is ds"
    using r stk h' cnt ok sb_fields_update(2) [OF ok(5) h', of "Suc (used_inode_count (sb s))"]
    by (simp add: s1_def regions_ok_def)
  obtain c'' where fl: "flush_sb X s1 = (Ok (), set_disk c'' s1)"
    and ok': "store_ok X (set_disk c'' s1) is ds"
    and out': "\<forall>i. i \<notin> sb_range \<longrightarrow> c'' i = disk s1 i"
    by (rule flush_sb_Ok [OF r1])
  have "allocate_inode X s = (Ok i, set_disk c'' s1)"
    using cnt ok(7) run fl ino_of_slot [OF i] ptr_of_ino_slot(3) [OF i ok(4,3)]
    by (simp add: allocate_inode_def bnd_def alloc_fuel_def set_inode_fl_ptr_def
        set_used_inode_count_def s1_def del: allocate_from_free.simps)
  moreover have "same_used (free_bytes s is []) s (set_disk c'' s1)"
    unfolding same_used_def
    by (rule exI [of _ c''], rule exI [of _ "sb s1"])
      (use out out' in \<open>auto simp: s1_def free_bytes_def set_disk_def\<close>)
  ultimately show ?thesis using ok' by (intro that)
qed

lemma allocate_db_none:
  assumes "store_ok X s is []"
  shows "allocate_db X s = (Err Exhausted, s)"
  using assms by (simp add: allocate_db_def store_ok_def regions_ok_def)

lemma allocate_inode_none:
  assumes "store_ok X s [] ds"
  shows "allocate_inode X s = (Err Exhausted, s)"
  using assms by (simp add: allocate_inode_def store_ok_def regions_ok_def)

lemma card_units: "0 < u \<Longrightarrow> card (units lo n u) = n"
  unfolding units_def by (subst card_image) (auto simp: inj_on_def)

lemma length_less_slots:
  assumes "distinct xs" "set xs \<subseteq> A" "x \<in> A" "x \<notin> set xs" "finite A"
  shows "length xs < card A"
proof -
  have "length xs = card (set xs)" using assms(1) by (simp add: distinct_card)
  also have "\<dots> < card A" using assms(2-5) by (intro psubset_card_mono) auto
  finally show ?thesis .
qed

lemma free_db_push:
  assumes "store_ok X s is ds" "p \<in> data_blocks s" "p \<notin> set ds"
  obtains s' where "free_db X p s = (Ok (), s')" "store_ok X s' is (p # ds)"
    "same_used {p..<p + block_size (sb s)} s s'"
proof -
  have r: "regions_ok X s is ds" using assms(1) by (simp add: store_ok_def)
  note ok = regions_Some [OF r]
  let ?u = "block_size (sb s)"
  let ?fl = "\<lparr>next_ptr = db_fl_ptr (sb s), fl_size = ?u\<rparr>"
  let ?c = "write_bytes p (fl_bytes X ?fl) (disk s)"
  have ds: "distinct ds" "set ds \<subseteq> data_blocks s" "free_stack X (disk s) ?u (db_fl_ptr (sb s)) ds"
    using r by (simp_all only: regions_ok_def)
  have p: "p \<in> units (db_base s) (db_count (sb s)) ?u" using assms(2) by (simp add: data_blocks_def)
  have range: "db_base s \<le> p" "p + ?u \<le> dev_size (dev s)"
    using units_range [OF p] db_end [OF ok(4)] by simp_all
  have "length ds < db_count (sb s)"
    using length_less_slots [OF ds(1,2) assms(2,3)] ok(6)
    by (simp add: data_blocks_def card_units)
  then have cnt: "1 \<le> used_db_count (sb s)" using r by (simp add: regions_ok_def)
  have push: "free_stack X ?c ?u p (p # ds)"
    using covered_apart [OF ds(2) [unfolded data_blocks_def] p assms(3)] ok
    by (intro free_stack_push ds(3)) auto
  have out: "\<forall>i. i \<notin> {p..<p + ?u} \<longrightarrow> ?c i = disk s i"
    using ok(1,6) by (auto intro!: write_bytes_outside)
  have "free_stack X (disk s) INODE_SIZE (inode_fl_ptr (sb s)) (map inode_slot is)"
    using r by (simp only: regions_ok_def)
  then have "free_stack X ?c INODE_SIZE (inode_fl_ptr (sb s)) (map inode_slot is)"
  proof (rule free_stack_frame)
    fix a assume "a \<in> covered INODE_SIZE (map inode_slot is)"
    then have "a < p" using regions_apart(1) [OF r] range(1) by auto
    then show "?c a = disk s a" using out by auto
  qed simp
  define s1 where "s1 = (set_disk ?c s)\<lparr>sb := (sb s)\<lparr>db_fl_ptr := p,
    used_db_count := used_db_count (sb s) - 1\<rparr>\<rparr>"
  have "p < u64_limit" "used_db_count (sb s) - 1 < u64_limit"
    using range(2) device_ok_size [OF ok(3)] ok(6) r ok(8) by (auto simp: regions_ok_def)
  then have sbf: "sb_fields_ok ((sb s)\<lparr>db_fl_ptr := p, used_db_count := used_db_count (sb s) - 1\<rparr>)"
    by (intro sb_fields_update ok(5))
  have "length (p # ds) + (used_db_count (sb s) - 1) = db_count (sb s)"
    using r cnt by (simp add: regions_ok_def)
  then have r1: "regions_ok X s1 is (p # ds)"
    using r push \<open>free_stack X ?c INODE_SIZE _ _\<close> sbf assms(2,3)
    by (simp add: s1_def regions_ok_def)
  obtain c'' where fl: "flush_sb X s1 = (Ok (), set_disk c'' s1)"
    and ok': "store_ok X (set_disk c'' s1) is (p # ds)"
    and out': "\<forall>i. i \<notin> sb_range \<longrightarrow> c'' i = disk s1 i"
    by (rule flush_sb_Ok [OF r1])
  have wr: "write_at X p (fl_bytes X ?fl) t = (Ok (), set_disk (write_bytes p (fl_bytes X ?fl) (disk t)) t)"
    if "dev t = dev s" for t :: "'a store_scheme"
    using that range(2) ok by (intro write_at_Ok) auto
  have "free_db X p s = (Ok (), set_disk c'' s1)"
    using cnt fl by (simp add: free_db_def bnd_def set_db_fl_ptr_def set_used_db_count_def wr s1_def)
  moreover have "same_used {p..<p + ?u} s (set_disk c'' s1)"
    unfolding same_used_def
    by (rule exI [of _ c''], rule exI [of _ "sb s1"])
      (use out out' in \<open>auto simp: s1_def set_disk_def\<close>)
  ultimately show ?thesis using ok' by (intro that)
qed

lemma free_inode_push:
  assumes "store_ok X s is ds" "i \<in> inode_numbers (sb s)" "i \<notin> set is"
  obtains s' where "free_inode X i s = (Ok (), s')" "store_ok X s' (i # is) ds"
    "same_used {inode_slot i..<inode_slot i + INODE_SIZE} s s'"
proof -
  have r: "regions_ok X s is ds" using assms(1) by (simp add: store_ok_def)
  note ok = regions_Some [OF r]
  let ?p = "inode_slot i"
  let ?fl = "\<lparr>next_ptr = inode_fl_ptr (sb s), fl_size = INODE_SIZE\<rparr>"
  let ?c = "write_bytes ?p (fl_bytes X ?fl) (disk s)"
  have ids: "distinct is" "set is \<subseteq> inode_numbers (sb s)"
    "free_stack X (disk s) INODE_SIZE (inode_fl_ptr (sb s)) (map inode_slot is)"
    using r by (simp_all only: regions_ok_def)
  note slots = inode_slots [OF ids(1,2)] and slot = inode_slot_units [OF assms(2)]
  have new: "?p \<notin> set (map inode_slot is)"
    using assms(2,3) ids(2) inode_slot_inj [of "sb s"] by (auto simp: inj_on_def subset_iff)
  have range: "?p + INODE_SIZE \<le> db_base s" "FIRST_INODE_PTR \<le> ?p"
    using units_range [OF slot] ok(4) by (auto simp: geometry_ok_def)
  have "length is < inode_count (sb s)"
    using length_less_slots [OF ids(1,2) assms(2,3)] by (simp add: inode_numbers_def)
  then have cnt: "1 \<le> used_inode_count (sb s)" using r by (simp add: regions_ok_def)
  have push: "free_stack X ?c INODE_SIZE ?p (?p # map inode_slot is)"
    using covered_apart [OF slots(2) slot new] ok
    by (intro free_stack_push ids(3)) auto
  have out: "\<forall>a. a \<notin> {?p..<?p + INODE_SIZE} \<longrightarrow> ?c a = disk s a"
    using ok(1) by (auto intro!: write_bytes_outside)
  have "free_stack X (disk s) (block_size (sb s)) (db_fl_ptr (sb s)) ds"
    using r by (simp only: regions_ok_def)
  then have dbs: "free_stack X ?c (block_size (sb s)) (db_fl_ptr (sb s)) ds"
  proof (rule free_stack_frame)
    fix a assume "a \<in> covered (block_size (sb s)) ds"
    then have "?p + INODE_SIZE \<le> a" using regions_apart(2) [OF r] range(1) by fastforce
    then show "?c a = disk s a" using out by auto
  qed (rule ok(6))
  define s1 where "s1 = (set_disk ?c s)\<lparr>sb := (sb s)\<lparr>inode_fl_ptr := ?p,
    used_inode_count := used_inode_count (sb s) - 1\<rparr>\<rparr>"
  note here = ptr_of_ino_slot [OF assms(2) ok(4,3)]
  have "?p < u64_limit" "used_inode_count (sb s) - 1 < u64_limit"
    using here(2) device_ok_size [OF ok(3)] r ok(7) by (auto simp: regions_ok_def)
  then have sbf: "sb_fields_ok ((sb s)\<lparr>inode_fl_ptr := ?p,
      used_inode_count := used_inode_count (sb s) - 1\<rparr>)"
    by (intro sb_fields_update ok(5))
  have "length (i # is) + (used_inode_count (sb s) - 1) = inode_count (sb s)"
    using r cnt by (simp add: regions_ok_def)
  then have r1: "regions_ok X s1 (i # is) ds"
    using r push dbs sbf assms(2,3) by (simp add: s1_def regions_ok_def)
  obtain c'' where fl: "flush_sb X s1 = (Ok (), set_disk c'' s1)"
    and ok': "store_ok X (set_disk c'' s1) (i # is) ds"
    and out': "\<forall>a. a \<notin> sb_range \<longrightarrow> c'' a = disk s1 a"
    by (rule flush_sb_Ok [OF r1])
  have wr: "write_at X ?p (fl_bytes X ?fl) t = (Ok (), set_disk (write_bytes ?p (fl_bytes X ?fl) (disk t)) t)"
    if "dev t = dev s" for t :: "'a store_scheme"
    using that here(2) ok by (intro write_at_Ok) auto
  have "free_inode X i s = (Ok (), set_disk c'' s1)"
    using cnt fl
    by (simp add: free_inode_def bnd_def here(1) set_inode_fl_ptr_def set_used_inode_count_def
        wr [simplified] s1_def)
  moreover have "same_used {?p..<?p + INODE_SIZE} s (set_disk c'' s1)"
    unfolding same_used_def
    by (rule exI [of _ c''], rule exI [of _ "sb s1"])
      (use out out' in \<open>auto simp: s1_def set_disk_def\<close>)
  ultimately show ?thesis using ok' by (intro that)
qed

section \<open>Both allocators satisfy the contract\<close>

interpretation db_slots: slot_allocator "allocate_db X" "free_db X"
  "\<lambda>s ds. \<exists>is. store_ok X s is ds" data_blocks Exhausted for X :: ext
proof unfold_locales
  fix s :: "'a store_scheme" and xs x
  show "\<exists>is. store_ok X s is xs \<Longrightarrow> distinct xs"
    and "\<exists>is. store_ok X s is xs \<Longrightarrow> set xs \<subseteq> data_blocks s"
    by (auto simp: store_ok_def regions_ok_def)
  show "\<exists>is. store_ok X s is (x # xs) \<Longrightarrow>
      \<exists>s'. allocate_db X s = (Ok x, s') \<and> (\<exists>is. store_ok X s' is xs) \<and> data_blocks s' = data_blocks s"
    by (metis allocate_db_pop same_used_simps(11))
  show "\<exists>is. store_ok X s is [] \<Longrightarrow> allocate_db X s = (Err Exhausted, s)"
    using allocate_db_none by blast
  show "\<exists>is. store_ok X s is xs \<Longrightarrow> x \<in> data_blocks s \<Longrightarrow> x \<notin> set xs \<Longrightarrow>
      \<exists>s'. free_db X x s = (Ok (), s') \<and> (\<exists>is. store_ok X s' is (x # xs)) \<and> data_blocks s' = data_blocks s"
    by (metis free_db_push same_used_simps(11))
qed

interpretation inode_slots: slot_allocator "allocate_inode X" "free_inode X"
  "\<lambda>s is. \<exists>ds. store_ok X s is ds" "\<lambda>s. inode_numbers (sb s)" Exhausted for X :: ext
proof unfold_locales
  fix s :: "'a store_scheme" and xs x
  show "\<exists>ds. store_ok X s xs ds \<Longrightarrow> distinct xs"
    and "\<exists>ds. store_ok X s xs ds \<Longrightarrow> set xs \<subseteq> inode_numbers (sb s)"
    by (auto simp: store_ok_def regions_ok_def)
  show "\<exists>ds. store_ok X s (x # xs) ds \<Longrightarrow>
      \<exists>s'. allocate_inode X s = (Ok x, s') \<and> (\<exists>ds. store_ok X s' xs ds)
        \<and> inode_numbers (sb s') = inode_numbers (sb s)"
    by (metis allocate_inode_pop same_used_simps(12))
  show "\<exists>ds. store_ok X s [] ds \<Longrightarrow> allocate_inode X s = (Err Exhausted, s)"
    using allocate_inode_none by blast
  show "\<exists>ds. store_ok X s xs ds \<Longrightarrow> x \<in> inode_numbers (sb s) \<Longrightarrow> x \<notin> set xs \<Longrightarrow>
      \<exists>s'. free_inode X x s = (Ok (), s') \<and> (\<exists>ds. store_ok X s' (x # xs) ds)
        \<and> inode_numbers (sb s') = inode_numbers (sb s)"
    by (metis free_inode_push same_used_simps(12))
qed

end
