(* ===== verification/RecordStore.thy ===== *)
theory RecordStore
  imports Prelude
begin

text \<open>
  The contract of a table of records, each stored under its own key: what was put is what is read,
  and the records under other keys stay as they were.
\<close>

primrec put_all :: "('v \<Rightarrow> ('s, 'e, unit) prog) \<Rightarrow> 'v list \<Rightarrow> ('s, 'e, unit) prog" where
  "put_all put [] = ret ()"
| "put_all put (v # vs) = bnd (put v) (\<lambda>_. put_all put vs)"

locale record_store =
  fixes get :: "nat \<Rightarrow> ('s, 'e, 'v) prog"
    and put :: "'v \<Rightarrow> ('s, 'e, unit) prog"
    and key :: "'v \<Rightarrow> nat"
    and keys :: "'s \<Rightarrow> nat set"
    and storable :: "'v \<Rightarrow> bool"
  assumes get_state: "get k s = (r, s') \<Longrightarrow> s' = s"
    and put_get: "storable v \<Longrightarrow> key v \<in> keys s \<Longrightarrow>
      \<exists>s'. put v s = (Ok (), s') \<and> get (key v) s' = (Ok v, s') \<and> keys s' = keys s"
    and put_other: "storable v \<Longrightarrow> key v \<in> keys s \<Longrightarrow> put v s = (Ok (), s') \<Longrightarrow> k \<in> keys s \<Longrightarrow>
      k \<noteq> key v \<Longrightarrow> fst (get k s') = fst (get k s)"
begin

lemma put_all_other:
  assumes "put_all put vs s = (Ok (), s')" "\<forall>v \<in> set vs. storable v \<and> key v \<in> keys s"
    "k \<in> keys s" "k \<notin> key ` set vs"
  shows "fst (get k s') = fst (get k s)"
  using assms
proof (induction vs arbitrary: s)
  case Nil
  then show ?case by simp
next
  case (Cons v vs)
  have v: "storable v" "key v \<in> keys s" using Cons.prems(2) by auto
  then obtain s1 where s1: "put v s = (Ok (), s1)" "keys s1 = keys s" using put_get by blast
  have "fst (get k s') = fst (get k s1)"
    using Cons s1 by (intro Cons.IH) (auto simp: bnd_def)
  also have "\<dots> = fst (get k s)"
    by (rule put_other [OF v s1(1) Cons.prems(3)]) (use Cons.prems(4) in auto)
  finally show ?case .
qed

text \<open>Records with different keys can all be read back after they have all been written.\<close>

lemma put_all_get:
  assumes "distinct (map key vs)" "\<forall>v \<in> set vs. storable v \<and> key v \<in> keys s"
  shows "\<exists>s'. put_all put vs s = (Ok (), s') \<and> (\<forall>v \<in> set vs. get (key v) s' = (Ok v, s'))"
  using assms
proof (induction vs arbitrary: s)
  case Nil
  then show ?case by simp
next
  case (Cons v vs)
  have v: "storable v" "key v \<in> keys s" using Cons.prems(2) by auto
  obtain s1 where s1: "put v s = (Ok (), s1)" "get (key v) s1 = (Ok v, s1)" "keys s1 = keys s"
    using put_get [OF v] by blast
  have rest: "\<forall>w \<in> set vs. storable w \<and> key w \<in> keys s1" using Cons.prems(2) s1(3) by auto
  have "distinct (map key vs)" using Cons.prems(1) by simp
  from Cons.IH [OF this rest] obtain s' where s': "put_all put vs s1 = (Ok (), s')"
    "\<forall>w \<in> set vs. get (key w) s' = (Ok w, s')" by blast
  have "fst (get (key v) s') = fst (get (key v) s1)"
    using put_all_other [OF s'(1) rest] v(2) s1(3) Cons.prems(1) by auto
  then have "get (key v) s' = (Ok v, s')"
    using get_state [of "key v" s'] s1(2) by (metis fst_conv prod.collapse)
  then show ?case using s1(1) s' by (auto simp: bnd_def)
qed

end

end
