(* ===== verification/InodeTable.thy ===== *)
theory InodeTable
  imports Allocator RecordStore
begin

text \<open>
  The inode table, reading back the super block, how far the recursion of \<open>allocate_from_free\<close> has to
  be followed, and \<open>format\<close>.
\<close>

section \<open>The inode table is a record store\<close>

definition table_ok :: "ext \<Rightarrow> 'z store_scheme \<Rightarrow> bool" where
  "table_ok X s \<longleftrightarrow> codec_ok X \<and> no_faults X \<and> device_ok (dev s) \<and> geometry_ok s"

definition table_keys :: "ext \<Rightarrow> 'z store_scheme \<Rightarrow> nat set" where
  "table_keys X s = (if table_ok X s then inode_numbers (sb s) else {})"

lemma store_ok_table: "store_ok X s is ds \<Longrightarrow> table_keys X s = inode_numbers (sb s)"
  by (simp add: store_ok_def regions_ok_def table_ok_def table_keys_def)

definition inode_at :: "ext \<Rightarrow> (nat \<Rightarrow> byte) \<Rightarrow> nat \<Rightarrow> inode" where
  "inode_at X c p = inode_of_values (dec_fields X inode_layout (read_bytes c p 234))"

lemma inode_layout_size [simp]: "sum_list inode_layout = 234"
  by (simp add: inode_layout_def sum_list_replicate)

lemma read_inode_state: "read_inode X i s = (r, s') \<Longrightarrow> s' = s"
  by (auto simp: read_inode_def ptr_of_ino_def read_at_def bnd_def ck_sub_def ck_mul_def ck_add_def
      Let_def split: res.splits if_splits)

lemma read_inode_eq:
  assumes "table_ok X s" "i \<in> inode_numbers (sb s)"
  shows "read_inode X i s =
    (let v = inode_at X (disk s) (inode_slot i) in
     (if i_ino v < ROOT_INODE then Err (Corrupted (MBadInode (i_ino v))) else Ok v, s))"
proof -
  have t: "device_ok (dev s)" "no_faults X" "geometry_ok s" using assms(1) by (simp_all add: table_ok_def)
  note here = ptr_of_ino_slot [OF assms(2) t(3,1)]
  have rd: "read_at X (inode_slot i) 234 s = (Ok (read_bytes (disk s) (inode_slot i) 234), s)"
    using here(2) by (intro read_at_Ok t) simp
  show ?thesis
    by (simp add: read_inode_def bnd_def here(1) rd inode_at_def inv_def Let_def)
qed

lemma write_inode_Ok:
  assumes "table_ok X s" "i_ino v \<in> inode_numbers (sb s)" "inode_fields_ok v"
  shows "write_inode X v s =
    (Ok (), set_disk (write_bytes (inode_slot (i_ino v)) (inode_bytes X v) (disk s)) s)"
proof -
  have t: "codec_ok X" "device_ok (dev s)" "no_faults X" "geometry_ok s"
    using assms(1) by (simp_all add: table_ok_def)
  note here = ptr_of_ino_slot [OF assms(2) t(4,2)]
  have "length (inode_bytes X v) = 234" using t(1) assms(3) by (simp add: inode_fields_ok_def)
  then have "write_at X (inode_slot (i_ino v)) (inode_bytes X v) s =
      (Ok (), set_disk (write_bytes (inode_slot (i_ino v)) (inode_bytes X v) (disk s)) s)"
    using here(2) by (intro write_at_Ok t) simp
  then show ?thesis by (simp add: write_inode_def bnd_def here(1))
qed

lemma inode_slots_apart:
  assumes "i \<in> inode_numbers b" "j \<in> inode_numbers b" "i \<noteq> j"
  shows "inode_slot i + INODE_SIZE \<le> inode_slot j \<or> inode_slot j + INODE_SIZE \<le> inode_slot i"
proof -
  have "inode_slot i \<noteq> inode_slot j" using inode_slot_inj assms by (auto simp: inj_on_def)
  then show ?thesis
    using units_apart [OF inode_slot_units [OF assms(1)] inode_slot_units [OF assms(2)]] by blast
qed

lemma inode_at_write:
  "codec_ok X \<Longrightarrow> inode_fields_ok v \<Longrightarrow> inode_at X (write_bytes p (inode_bytes X v) c) p = v"
  using inode_round_trip [of X v "[]"] by (simp add: inode_at_def inode_fields_ok_def)

interpretation inodes: record_store "read_inode X" "write_inode X" i_ino "table_keys X"
  inode_fields_ok for X :: ext
proof unfold_locales
  fix k r and s s' :: "'a store_scheme"
  show "read_inode X k s = (r, s') \<Longrightarrow> s' = s" by (rule read_inode_state)
next
  fix v :: inode and s :: "'a store_scheme"
  assume v: "inode_fields_ok v" and k: "i_ino v \<in> table_keys X s"
  then have t: "table_ok X s" "i_ino v \<in> inode_numbers (sb s)"
    by (auto simp: table_keys_def split: if_splits)
  let ?s = "set_disk (write_bytes (inode_slot (i_ino v)) (inode_bytes X v) (disk s)) s"
  have t': "table_ok X ?s" using t(1) by (simp add: table_ok_def)
  have "inode_at X (disk ?s) (inode_slot (i_ino v)) = v"
    using inode_at_write v t(1) by (simp add: table_ok_def)
  then have "read_inode X (i_ino v) ?s = (Ok v, ?s)"
    using read_inode_eq [OF t', of "i_ino v"] t(2) by (simp add: Let_def inode_numbers_def)
  moreover have "table_keys X ?s = table_keys X s" using t' t(1) by (simp add: table_keys_def)
  ultimately show "\<exists>s'. write_inode X v s = (Ok (), s') \<and> read_inode X (i_ino v) s' = (Ok v, s')
      \<and> table_keys X s' = table_keys X s"
    using write_inode_Ok [OF t v] by blast
next
  fix v :: inode and s s' :: "'a store_scheme" and k
  assume v: "inode_fields_ok v" and kv: "i_ino v \<in> table_keys X s"
    and w: "write_inode X v s = (Ok (), s')" and k: "k \<in> table_keys X s" "k \<noteq> i_ino v"
  then have t: "table_ok X s" "i_ino v \<in> inode_numbers (sb s)" "k \<in> inode_numbers (sb s)"
    by (auto simp: table_keys_def split: if_splits)
  have s': "s' = set_disk (write_bytes (inode_slot (i_ino v)) (inode_bytes X v) (disk s)) s"
    using write_inode_Ok [OF t(1,2) v] w by simp
  then have t': "table_ok X s'" "k \<in> inode_numbers (sb s')" using t by (simp_all add: table_ok_def)
  have "length (inode_bytes X v) = 234" using t(1) v by (simp add: table_ok_def inode_fields_ok_def)
  then have "inode_at X (disk s') (inode_slot k) = inode_at X (disk s) (inode_slot k)"
    using inode_slots_apart [OF t(2,3)] k(2)
    by (auto simp: s' inode_at_def intro!: arg_cong [where f = "\<lambda>b. inode_of_values (dec_fields X inode_layout b)"]
        read_write_disjoint)
  then show "fst (read_inode X k s') = fst (read_inode X k s)"
    by (simp add: read_inode_eq [OF t(1,3)] read_inode_eq [OF t'] Let_def)
qed

section \<open>Writing to slots that are in use\<close>

lemma store_ok_write_used:
  assumes "store_ok X s is ds" "\<forall>i \<in> sb_range \<union> free_bytes s is ds. c i = disk s i"
  shows "store_ok X (set_disk c s) is ds"
proof -
  have r: "regions_ok X s is ds" "sb_synced X s" using assms(1) by (simp_all add: store_ok_def)
  have "free_stack X c INODE_SIZE (inode_fl_ptr (sb s)) (map inode_slot is)"
    by (rule free_stack_frame [where c = "disk s"])
      (use r assms(2) in \<open>simp_all only: regions_ok_def free_bytes_def, auto\<close>)
  moreover have "free_stack X c (block_size (sb s)) (db_fl_ptr (sb s)) ds"
  proof (rule free_stack_frame [where c = "disk s"])
    show "free_stack X (disk s) (block_size (sb s)) (db_fl_ptr (sb s)) ds"
      using r by (simp only: regions_ok_def)
  qed (use regions_Some(6) [OF r(1)] assms(2) in \<open>auto simp: free_bytes_def\<close>)
  moreover have "read_bytes c SUPER_BLOCK_PTR 64 = read_bytes (disk s) SUPER_BLOCK_PTR 64"
    by (rule read_bytes_cong) (use assms(2) in \<open>auto simp: sb_range_def\<close>)
  ultimately show ?thesis using r by (simp add: store_ok_def regions_ok_def sb_synced_def)
qed

lemma used_slot_apart:
  assumes "store_ok X s is ds" "i \<in> inode_numbers (sb s)" "i \<notin> set is"
  shows "{inode_slot i..<inode_slot i + INODE_SIZE} \<inter> (sb_range \<union> free_bytes s is ds) = {}"
proof -
  have r: "regions_ok X s is ds" using assms(1) by (simp add: store_ok_def)
  have ids: "distinct is" "set is \<subseteq> inode_numbers (sb s)" "geometry_ok s"
    using r by (simp_all only: regions_ok_def)
  note slot = inode_slot_units [OF assms(2)]
  have "inode_slot i \<notin> set (map inode_slot is)"
    using assms(2,3) ids(2) inode_slot_inj [of "sb s"] by (auto simp: inj_on_def subset_iff)
  from covered_apart [OF inode_slots(2) [OF ids(1,2)] slot this]
  have "{inode_slot i..<inode_slot i + INODE_SIZE} \<inter> covered INODE_SIZE (map inode_slot is) = {}" .
  moreover have "inode_slot i + INODE_SIZE \<le> db_base s" "FIRST_INODE_PTR \<le> inode_slot i"
    using units_range [OF slot] ids(3) by (auto simp: geometry_ok_def)
  ultimately show ?thesis
    using regions_apart(2) [OF r] by (fastforce simp: free_bytes_def sb_range_def)
qed

lemma write_inode_store_ok:
  assumes "store_ok X s is ds" "i_ino v \<in> inode_numbers (sb s)" "i_ino v \<notin> set is" "inode_fields_ok v"
  obtains s' where "write_inode X v s = (Ok (), s')" "store_ok X s' is ds"
    "\<forall>a. a \<notin> {inode_slot (i_ino v)..<inode_slot (i_ino v) + INODE_SIZE} \<longrightarrow> disk s' a = disk s a"
proof -
  have t: "table_ok X s" using assms(1) by (simp add: store_ok_def regions_ok_def table_ok_def)
  let ?c = "write_bytes (inode_slot (i_ino v)) (inode_bytes X v) (disk s)"
  have len: "length (inode_bytes X v) = 234" using t assms(4) by (simp add: table_ok_def inode_fields_ok_def)
  then have out: "\<forall>a. a \<notin> {inode_slot (i_ino v)..<inode_slot (i_ino v) + INODE_SIZE} \<longrightarrow> ?c a = disk s a"
    by (auto intro!: write_bytes_outside)
  then have "store_ok X (set_disk ?c s) is ds"
    using used_slot_apart [OF assms(1-3)] by (intro store_ok_write_used [OF assms(1)]) blast
  then show ?thesis using write_inode_Ok [OF t assms(2,4)] out by (intro that) auto
qed

text \<open>Allocation and release leave the inodes that stay in use as they are.\<close>

lemma read_inode_same_used:
  assumes "same_used F s s'" "table_ok X s" "table_ok X s'" "i \<in> inode_numbers (sb s)"
    "{inode_slot i..<inode_slot i + INODE_SIZE} \<inter> F = {}"
  shows "fst (read_inode X i s') = fst (read_inode X i s)"
proof -
  have i': "i \<in> inode_numbers (sb s')" using same_used_simps(12) [OF assms(1)] assms(4) by simp
  have apart: "ia \<notin> F" if "inode_slot i \<le> ia" "ia < inode_slot i + 234" for ia
    using assms(5) that by (auto simp: disjoint_iff)
  have "FIRST_INODE_PTR \<le> inode_slot i" by (simp add: inode_slot_def)
  then have "inode_at X (disk s') (inode_slot i) = inode_at X (disk s) (inode_slot i)"
    unfolding inode_at_def
    by (intro arg_cong [where f = "\<lambda>b. inode_of_values (dec_fields X inode_layout b)"] read_bytes_cong
        same_used_disk [OF assms(1)])
      (use apart in \<open>auto simp: sb_range_def\<close>)
  then show ?thesis
    by (simp add: read_inode_eq [OF assms(2,4)] read_inode_eq [OF assms(3) i'] Let_def)
qed

end
