(* ===== verification/Format.thy ===== *)
theory Format
  imports Allocator
begin

text \<open>
  How far the recursion of \<open>allocate_from_free\<close> has to be followed, what \<open>format\<close> puts on a device,
  and reading the super block back when a device is opened again.
\<close>

section \<open>The fuel of the allocator is enough\<close>

text \<open>The node that is visited after \<open>ptr\<close>, when the recursion goes on.\<close>

definition next_node :: "ext \<Rightarrow> 'z store_scheme \<Rightarrow> nat \<Rightarrow> nat \<Rightarrow> nat option" where
  "next_node X s sz ptr = (case read_free_list X ptr s of
     (Ok fl, _) \<Rightarrow> if sz \<le> fl_size fl then None else Some (next_ptr fl)
   | _ \<Rightarrow> None)"

primrec walk :: "('a \<Rightarrow> 'a option) \<Rightarrow> nat \<Rightarrow> 'a \<Rightarrow> 'a option" where
  "walk f 0 a = Some a"
| "walk f (Suc n) a = (case f a of None \<Rightarrow> None | Some b \<Rightarrow> walk f n b)"

lemma walk_add:
  "walk f (m + n) a = (case walk f m a of None \<Rightarrow> None | Some b \<Rightarrow> walk f n b)"
  by (induction m arbitrary: a) (auto split: option.split)

lemma walk_prefix: "walk f n a \<noteq> None \<Longrightarrow> m \<le> n \<Longrightarrow> walk f m a \<noteq> None"
  using walk_add [of f m "n - m" a] by (auto split: option.splits)

text \<open>A walk that meets a place twice never ends.\<close>

lemma walk_cycle:
  assumes "walk f i a = Some b" "walk f j a = Some b" "i < j"
  shows "walk f n a \<noteq> None"
proof (induction n rule: less_induct)
  case (less n)
  show ?case
  proof (cases "n \<le> j")
    case True
    then show ?thesis using walk_prefix [of f j a n] assms(2) by simp
  next
    case False
    have "walk f n a = walk f (n - j) b"
      using walk_add [of f j "n - j" a] False assms(2) by simp
    also have "\<dots> = walk f (i + (n - j)) a"
      using walk_add [of f i "n - j" a] assms(1) by simp
    finally show ?thesis using less.IH [of "i + (n - j)"] assms(3) False by simp
  qed
qed

lemma walk_bounded:
  assumes "\<And>b. f b \<noteq> None \<Longrightarrow> b \<le> (m::nat)" "walk f (Suc (Suc m)) a \<noteq> None"
  shows "walk f n a \<noteq> None"
proof -
  define g where "g i = the (walk f i a)" for i
  have def_g: "walk f i a = Some (g i)" if "i \<le> Suc m" for i
    using walk_prefix [OF assms(2), of i] that by (auto simp: g_def)
  have "g i \<le> m" if "i \<le> Suc m" for i
  proof (rule assms(1))
    have "walk f (i + Suc 0) a \<noteq> None" by (rule walk_prefix [OF assms(2)]) (use that in simp)
    then show "f (g i) \<noteq> None"
      using walk_add [of f i "Suc 0" a] def_g [OF that] by (auto split: option.splits)
  qed
  then have "g ` {..Suc m} \<subseteq> {..m}" by auto
  then have "card (g ` {..Suc m}) \<le> card {..m}" by (intro card_mono) auto
  then have "\<not> inj_on g {..Suc m}" using card_image [of g "{..Suc m}"] by auto
  then obtain i j where ij: "i \<le> Suc m" "j \<le> Suc m" "i \<noteq> j" "g i = g j"
    by (auto simp: inj_on_def)
  then consider "i < j" | "j < i" by linarith
  then show ?thesis
    by cases (use walk_cycle def_g [OF ij(1)] def_g [OF ij(2)] ij(4) in metis)+
qed

lemma next_node_bound: "next_node X s sz ptr \<noteq> None \<Longrightarrow> ptr \<le> dev_size (dev s)"
  by (auto simp: next_node_def read_free_list_def read_at_def bnd_def dev_read_at_def Let_def
      split: if_splits)

lemma allocate_step:
  "allocate_from_free X (Suc fuel) ptr sz s = (case next_node X s sz ptr of
     Some p \<Rightarrow> allocate_from_free X fuel p sz s
   | None \<Rightarrow> allocate_from_free X (Suc 0) ptr sz s)"
proof (cases "read_free_list X ptr s")
  case (Pair r t)
  then have t: "t = s" by (rule read_free_list_state)
  show ?thesis
    using Pair by (cases r) (simp_all add: next_node_def bnd_def t)
qed

lemma allocate_stopped:
  "walk (next_node X s sz) n ptr = None \<Longrightarrow>
   allocate_from_free X (n + k) ptr sz s = allocate_from_free X n ptr sz s"
proof (induction n arbitrary: ptr)
  case 0
  then show ?case by simp
next
  case (Suc n)
  show ?case
  proof (cases "next_node X s sz ptr")
    case None
    then show ?thesis
      using allocate_step [of X "n + k" ptr sz s] allocate_step [of X n ptr sz s] by simp
  next
    case (Some p)
    then show ?thesis
      using allocate_step [of X "n + k" ptr sz s] allocate_step [of X n ptr sz s] Suc by simp
  qed
qed

lemma allocate_running:
  "walk (next_node X s sz) n ptr \<noteq> None \<Longrightarrow> allocate_from_free X n ptr sz s = (Hang, s)"
proof (induction n arbitrary: ptr)
  case 0
  then show ?case by simp
next
  case (Suc n)
  then show ?case
    using allocate_step [of X n ptr sz s] by (auto split: option.splits simp del: allocate_from_free.simps)
qed

text \<open>
  More calls than \<open>alloc_fuel\<close> never change the outcome: either the recursion has ended by then, or it
  has met a node twice and goes round for ever.
\<close>

lemma allocate_from_free_more_fuel:
  "allocate_from_free X (alloc_fuel s + k) ptr sz s = allocate_from_free X (alloc_fuel s) ptr sz s"
proof (cases "walk (next_node X s sz) (alloc_fuel s) ptr")
  case None
  then show ?thesis by (rule allocate_stopped)
next
  case (Some p)
  have "walk (next_node X s sz) (Suc (Suc (dev_size (dev s)))) ptr \<noteq> None"
    using Some by (simp only: alloc_fuel_def) simp
  then have "walk (next_node X s sz) n ptr \<noteq> None" for n
    by (rule walk_bounded [rotated]) (rule next_node_bound)
  then show ?thesis using allocate_running by metis
qed

section \<open>Formatting\<close>

definition table_blocks :: "device \<Rightarrow> nat \<Rightarrow> nat" where
  "table_blocks d n = (FIRST_INODE_PTR + INODE_SIZE * n + d_block_size d - 1) div d_block_size d"

text \<open>
  What a device must offer for \<open>bytes_per_inode\<close>: blocks that hold a free list node and whole
  pointers, at least one inode, and room for the inode table and one data block.
\<close>

definition formattable :: "device \<Rightarrow> nat \<Rightarrow> bool" where
  "formattable d bpi \<longleftrightarrow> device_ok d \<and> 16 \<le> d_block_size d \<and> d_block_size d mod 8 = 0
     \<and> 0 < bpi \<and> 0 < dev_size d div bpi \<and> table_blocks d (dev_size d div bpi) < d_block_count d"

definition formatted_sb :: "device \<Rightarrow> nat \<Rightarrow> super_block" where
  "formatted_sb d bpi = (let n = dev_size d div bpi; q = table_blocks d n in
     \<lparr>magic_number = MAGIC_NUMBER, block_size = d_block_size d, inode_count = n,
      used_inode_count = 0, db_count = d_block_count d - q, used_db_count = 0,
      inode_fl_ptr = FIRST_INODE_PTR, db_fl_ptr = q * d_block_size d\<rparr>)"

definition all_inodes :: "super_block \<Rightarrow> nat list" where
  "all_inodes b = [ROOT_INODE..<ROOT_INODE + inode_count b]"

definition all_data_blocks :: "super_block \<Rightarrow> nat list" where
  "all_data_blocks b = map (\<lambda>i. db_fl_ptr b + i * block_size b) [0..<db_count b]"

lemma round_up_bounds:
  assumes "0 < (b::nat)" "0 < a"
  shows "a \<le> (a + b - 1) div b * b" "(a + b - 1) div b * b \<le> a + b - 1"
proof -
  have "(a + b - 1) mod b < b" using assms(1) by simp
  moreover have "(a + b - 1) div b * b + (a + b - 1) mod b = a + b - 1" by simp
  ultimately show "a \<le> (a + b - 1) div b * b" "(a + b - 1) div b * b \<le> a + b - 1"
    using assms by linarith+
qed

lemma formattable_bounds:
  assumes "formattable d bpi"
  defines "n \<equiv> dev_size d div bpi" and "bs \<equiv> d_block_size d"
  defines "q \<equiv> table_blocks d n"
  shows "FIRST_INODE_PTR + INODE_SIZE * n \<le> q * bs" "q * bs + bs \<le> dev_size d"
    "FIRST_INODE_PTR + INODE_SIZE * n + bs \<le> dev_size d" "dev_size d < u64_limit"
proof -
  have bs: "0 < bs" and q: "Suc q \<le> d_block_count d" and lim: "device_ok d"
    using assms by (auto simp: formattable_def)
  show up: "FIRST_INODE_PTR + INODE_SIZE * n \<le> q * bs"
    using round_up_bounds(1) [of bs "FIRST_INODE_PTR + INODE_SIZE * n"] bs
    by (simp add: q_def table_blocks_def bs_def)
  have "Suc q * bs \<le> d_block_count d * bs" using q by (rule mult_right_mono) simp
  then show fit: "q * bs + bs \<le> dev_size d" by (simp add: dev_size_def bs_def mult.commute)
  show "FIRST_INODE_PTR + INODE_SIZE * n + bs \<le> dev_size d" using up fit by simp
  show "dev_size d < u64_limit" using lim by (rule device_ok_size)
qed

lemma inode_slots_enum:
  "map inode_slot (all_inodes b) = map (\<lambda>i. FIRST_INODE_PTR + i * INODE_SIZE) [0..<inode_count b]"
  by (rule nth_equalityI) (simp_all add: all_inodes_def inode_slot_def)


text \<open>
  On such a device \<open>format\<close> (up to the creation of the root) succeeds and leaves a store in which every
  inode and every data block is free, in ascending order.
\<close>

lemma format_store_establishes:
  assumes "formattable (dev s) bpi" "codec_ok X" "no_faults X"
  obtains s' where "format_store X bpi s = (Ok (), s')" "sb s' = formatted_sb (dev s) bpi"
    "store_ok X s' (all_inodes (sb s')) (all_data_blocks (sb s'))"
    "dev_size (dev s') = dev_size (dev s)" "clk s' = clk s" "more s' = more s"
proof -
  let ?d = "dev s" and ?b = "formatted_sb (dev s) bpi"
  define n where "n = dev_size ?d div bpi"
  define bs where "bs = d_block_size ?d"
  define q where "q = table_blocks ?d n"
  have b: "?b = \<lparr>magic_number = MAGIC_NUMBER, block_size = bs, inode_count = n, used_inode_count = 0,
      db_count = d_block_count ?d - q, used_db_count = 0, inode_fl_ptr = FIRST_INODE_PTR,
      db_fl_ptr = q * bs\<rparr>"
    by (simp add: formatted_sb_def Let_def n_def bs_def q_def)
  have g: "device_ok ?d" "16 \<le> bs" "bs mod 8 = 0" "0 < bpi" "0 < n" "q < d_block_count ?d"
    using assms(1) by (auto simp: formattable_def n_def bs_def q_def)
  have m: "FIRST_INODE_PTR + INODE_SIZE * n \<le> q * bs" "q * bs + bs \<le> dev_size ?d"
    "FIRST_INODE_PTR + INODE_SIZE * n + bs \<le> dev_size ?d" "dev_size ?d < u64_limit"
    using formattable_bounds [OF assms(1)] by (simp_all only: n_def bs_def q_def)
  define k where "k = d_block_count ?d - q"
  have k: "0 < k" "dev_size ?d - q * bs = k * bs"
    using g(6) by (simp_all add: k_def dev_size_def bs_def diff_mult_distrib mult.commute [of "d_block_size (dev s)"])
  let ?fi = "\<lparr>next_ptr = 0, fl_size = n * INODE_SIZE\<rparr>" and ?fd = "\<lparr>next_ptr = 0, fl_size = k * bs\<rparr>"
  define c1 where "c1 = write_bytes SUPER_BLOCK_PTR (sb_bytes X ?b) (disk s)"
  define c2 where "c2 = write_bytes FIRST_INODE_PTR (fl_bytes X ?fi) c1"
  define c3 where "c3 = write_bytes (q * bs) (fl_bytes X ?fd) c2"
  have w1: "write_at X SUPER_BLOCK_PTR (sb_bytes X ?b) s = (Ok (), set_disk c1 s)"
    unfolding c1_def by (intro write_at_Ok g assms) (use m assms(2) in simp)
  have w2: "write_at X FIRST_INODE_PTR (fl_bytes X ?fi) (set_disk c1 s) = (Ok (), set_disk c2 s)"
    using write_at_Ok [of "set_disk c1 s" X FIRST_INODE_PTR "fl_bytes X ?fi"] g m assms
    by (simp add: c2_def)
  have w3: "write_at X (q * bs) (fl_bytes X ?fd) (set_disk c2 s) = (Ok (), set_disk c3 s)"
    using write_at_Ok [of "set_disk c2 s" X "q * bs" "fl_bytes X ?fd"] g m assms
    by (simp add: c3_def)
  define s' where "s' = (set_disk c3 s)\<lparr>sb := ?b\<rparr>"
  have "(FIRST_INODE_PTR + INODE_SIZE * n + bs - 1) div bs = q"
    by (simp add: q_def table_blocks_def bs_def)
  then have run: "format_store X bpi s = (Ok (), s')"
    using g m k w1 w2 w3
    by (simp add: format_store_def bnd_def Let_def b s'_def k_def
        flip: n_def bs_def)
  have ql: "q * bs < u64_limit" "k * bs < u64_limit" "n * INODE_SIZE < u64_limit" "bs < u64_limit"
    "n < u64_limit" "k < u64_limit"
    using m k g by (simp_all, auto intro: le_less_trans [of k "k * bs"])
  have "c3 i = c1 i" if "i < FIRST_INODE_PTR" for i
    using that m assms(2) by (simp add: c3_def c2_def write_bytes_outside)
  then have "read_bytes c3 SUPER_BLOCK_PTR 64 = read_bytes c1 SUPER_BLOCK_PTR 64"
    by (intro read_bytes_cong) simp
  then have synced: "read_bytes c3 SUPER_BLOCK_PTR 64 = sb_bytes X ?b"
    using assms(2) by (simp add: c1_def)
  have "fl_at X c3 FIRST_INODE_PTR = fl_at X c2 FIRST_INODE_PTR"
    using m g assms(2) by (intro fl_at_cong) (simp add: c3_def write_bytes_outside)
  also have "\<dots> = ?fi" using fl_at_write [OF assms(2), of ?fi] ql by (simp add: c2_def)
  finally have "free_stack X c3 INODE_SIZE FIRST_INODE_PTR (map inode_slot (all_inodes ?b))"
    using free_stack_one_run [of X c3 FIRST_INODE_PTR n INODE_SIZE] g(5)
    by (simp add: inode_slots_enum b)
  moreover have "fl_at X c3 (q * bs) = ?fd"
    using fl_at_write [OF assms(2), of ?fd] ql by (simp add: c3_def)
  then have "free_stack X c3 bs (q * bs) (all_data_blocks ?b)"
    using free_stack_one_run [of X c3 "q * bs" k bs] k by (simp add: all_data_blocks_def b k_def)
  moreover have base: "db_base s' = q * bs" using g(6) by (simp add: db_base_def s'_def b)
  moreover have "geometry_ok s'"
    using g m base by (simp add: geometry_ok_def s'_def b bs_def mult.commute)
  moreover have "distinct (all_data_blocks ?b)" "set (all_data_blocks ?b) \<subseteq> data_blocks s'"
    using g base by (auto simp: all_data_blocks_def b data_blocks_def units_def distinct_map inj_on_def s'_def)
  moreover have "sb_fields_ok ?b"
    using ql by (simp add: sb_fields_ok_def sb_values_def b k_def)
  ultimately have "store_ok X s' (all_inodes ?b) (all_data_blocks ?b)"
    using assms g synced
    by (simp add: store_ok_def regions_ok_def sb_synced_def s'_def b all_inodes_def inode_numbers_def
        all_data_blocks_def)
  then show ?thesis using run by (intro that [of s']) (simp_all add: s'_def)
qed

section \<open>Opening a device\<close>

lemma sb_layout_size [simp]: "sum_list sb_layout = 64"
  by (simp add: sb_layout_def)

lemma open_store_restores:
  assumes "store_ok X s is ds" "dev t = dev s"
  shows "open_store X t = (Ok (), t\<lparr>sb := sb s\<rparr>)"
proof -
  have r: "regions_ok X s is ds" and sync: "read_bytes (disk s) SUPER_BLOCK_PTR 64 = sb_bytes X (sb s)"
    using assms(1) by (simp_all add: store_ok_def sb_synced_def)
  note ok = regions_Some [OF r]
  have "read_at X SUPER_BLOCK_PTR 64 t = (Ok (sb_bytes X (sb s)), t)"
    using read_at_Ok [of t X SUPER_BLOCK_PTR 64] ok geometry_fits(2) [OF ok(4)] sync assms(2) by simp
  moreover have "sb_of_values (dec_fields X sb_layout (sb_bytes X (sb s))) = sb s"
    using sb_round_trip [OF ok(1,5), of "[]"] by simp
  moreover have "magic_number (sb s) = MAGIC_NUMBER" using ok(4) by (simp add: geometry_ok_def)
  ultimately show ?thesis
    by (simp add: open_store_def read_super_block_def bnd_def Let_def sbv_def)
qed

lemma open_store_bad_magic:
  assumes "device_ok (dev s)" "no_faults X" "SUPER_BLOCK_PTR + 64 \<le> dev_size (dev s)"
    "magic_number (sb_of_values (dec_fields X sb_layout (read_bytes (disk s) SUPER_BLOCK_PTR 64)))
       \<noteq> MAGIC_NUMBER"
  shows "open_store X s = (Err (Corrupted MBadMagic), s)"
  using read_at_Ok [OF assms(1-3)] assms(4)
  by (simp add: open_store_def read_super_block_def bnd_def Let_def sbv_def)

section \<open>The shape of the device\<close>

text \<open>
  Writing changes the bytes of the device and nothing else, so the same file or block device, opened
  again, is the device that was left.
\<close>

definition dev_shape :: "'z store_scheme \<Rightarrow> nat \<times> nat \<times> nat" where
  "dev_shape s = (raw_len (dev s), d_block_count (dev s), d_block_size (dev s))"

lemma write_at_shape: "stable dev_shape (write_at X p bs)"
  by (simp add: dev_shape_def stable_def write_at_def dev_write_at_def Let_def split: prod.split)

lemma format_store_shape: "stable dev_shape (format_store X n)"
  unfolding format_store_def Let_def by (intro stable_intros write_at_shape) (simp add: dev_shape_def)

lemma set_sb_shape:
  "stable dev_shape (set_inode_fl_ptr p)" "stable dev_shape (set_used_inode_count n)"
  by (simp_all add: dev_shape_def stable_def set_inode_fl_ptr_def set_used_inode_count_def)

lemma free_list_shape:
  "stable dev_shape (allocate_from_free X fuel p n)" "stable dev_shape (flush_sb X)"
proof -
  show "stable dev_shape (allocate_from_free X fuel p n)"
  proof (induction fuel arbitrary: p)
    case 0
    then show ?case by (simp add: stable_def)
  next
    case (Suc fuel)
    show ?case
      unfolding allocate_from_free.simps Let_def read_free_list_def read_at_def
      by (intro stable_intros write_at_shape Suc.IH)
  qed
  show "stable dev_shape (flush_sb X)"
    by (simp add: stable_def flush_sb_def write_at_shape [unfolded stable_def, rule_format])
qed

lemma store_op_shape:
  "stable dev_shape (allocate_inode X)" "stable dev_shape (write_inode X i)"
  unfolding allocate_inode_def ino_of_ptr_def write_inode_def ptr_of_ino_def
  by (intro stable_intros set_sb_shape free_list_shape write_at_shape)+

lemma device_eta: "raw_len d = l \<Longrightarrow> d_block_count d = n \<Longrightarrow> d_block_size d = b \<Longrightarrow>
    d = \<lparr>content = content d, raw_len = l, d_block_count = n, d_block_size = b\<rparr>"
  by (cases d) auto

lemma dev_open_again:
  assumes "dev_open (Some (kind, c, len)) getsize = Ok d" "raw_len e = raw_len d" "d_block_count e = d_block_count d"
    "d_block_size e = d_block_size d"
  shows "dev_open (Some (kind, content e, len)) getsize = Ok e"
  using assms
  by (auto simp: dev_open_def image_file_new_def block_device_new_def intro!: device.equality split: if_splits sum.splits)

end
