(* ===== verification/Table.thy ===== *)
theory Table
  imports Dirs InodeTable Format
begin

text \<open>
  The rest of \<open>Donkey\<close> (lib.rs): the tables of opened files and directories, the handles that point
  into them, the lists of inode numbers whose handles have been dropped, and the operations on inodes
  and directory entries.

  A \<open>DkFileHandle\<close> is a reference-counted pointer to the \<open>DkFile\<close> that the table holds under the
  handle's key, so a handle is that key and \<open>file_refs\<close> counts the live handles of a file;
  \<open>Rc::strong_count\<close> is one more.  Cloning and dropping handles are explicit.  A directory holds a
  handle of its file.  The lists are stacks whose first element is the one \<open>pop\<close> takes.  \<open>borrowed\<close> is
  the state of the \<open>RefCell\<close> around the \<open>Donkey\<close>.
\<close>

record dkdir =
  d_fh :: nat
  d_entries :: "nat omap"
  d_dirty :: bool

record donkey = store +
  opened_files :: "nat \<rightharpoonup> dkfile"
  opened_dirs :: "nat \<rightharpoonup> dkdir"
  file_refs :: "nat \<Rightarrow> nat"
  dir_refs :: "nat \<Rightarrow> nat"
  close_files :: "nat list"
  close_dirs :: "nat list"
  borrowed :: bool

record file_handle =
  fh_key :: nat
  fh_flags :: flags

record dir_handle =
  dh_key :: nat
  dh_entries :: "nat omap"

section \<open>Access to opened files and directories\<close>

definition with_file ::
  "nat \<Rightarrow> (dkfile \<times> 'z donkey_scheme, 'e, 'a) prog \<Rightarrow> ('z donkey_scheme, 'e, 'a) prog" where
  "with_file k m = (\<lambda>s. case opened_files s k of
     None \<Rightarrow> (Panic, s)
   | Some f \<Rightarrow> (case m (f, s) of (r, (f', s')) \<Rightarrow>
       (r, s'\<lparr>opened_files := (opened_files s')(k \<mapsto> f')\<rparr>)))"

definition get_dir :: "nat \<Rightarrow> ('z donkey_scheme, 'e, dkdir) prog" where
  "get_dir k = bnd (gets (\<lambda>s. opened_dirs s k)) unwrap"

definition mod_dir :: "nat \<Rightarrow> (dkdir \<Rightarrow> dkdir) \<Rightarrow> ('z donkey_scheme, 'e, unit) prog" where
  "mod_dir k h = modify (\<lambda>s. s\<lparr>opened_dirs := (opened_dirs s)(k := map_option h (opened_dirs s k))\<rparr>)"

text \<open>Cloning a handle, and \<open>Drop for DkFileHandle\<close> and \<open>DkDirHandle\<close>.\<close>

definition clone_file :: "nat \<Rightarrow> 'z donkey_scheme \<Rightarrow> 'z donkey_scheme" where
  "clone_file k s = s\<lparr>file_refs := (file_refs s)(k := Suc (file_refs s k))\<rparr>"

definition clone_dir :: "nat \<Rightarrow> 'z donkey_scheme \<Rightarrow> 'z donkey_scheme" where
  "clone_dir k s = s\<lparr>dir_refs := (dir_refs s)(k := Suc (dir_refs s k))\<rparr>"

definition drop_file :: "nat \<Rightarrow> 'z donkey_scheme \<Rightarrow> 'z donkey_scheme" where
  "drop_file k s = (case opened_files s k of
     None \<Rightarrow> s
   | Some f \<Rightarrow> s\<lparr>file_refs := (file_refs s)(k := file_refs s k - 1),
       close_files := i_ino (f_inode f) # close_files s\<rparr>)"

definition drop_dir :: "nat \<Rightarrow> 'z donkey_scheme \<Rightarrow> 'z donkey_scheme" where
  "drop_dir k s = (case opened_dirs s k of
     None \<Rightarrow> s
   | Some d \<Rightarrow> (case opened_files s (d_fh d) of
       None \<Rightarrow> s
     | Some f \<Rightarrow> s\<lparr>dir_refs := (dir_refs s)(k := dir_refs s k - 1),
         close_dirs := i_ino (f_inode f) # close_dirs s\<rparr>))"

text \<open>A value that is dropped when an error leaves its scope, and kept otherwise.\<close>

definition drop_on_err :: "('s, 'e, unit) prog \<Rightarrow> ('s, 'e, 'a) prog \<Rightarrow> ('s, 'e, 'a) prog" where
  "drop_on_err d m = (\<lambda>s. case m s of
     (Ok a, s') \<Rightarrow> (Ok a, s')
   | (Err e, s') \<Rightarrow> bnd d (\<lambda>_. fail e) s'
   | (Panic, s') \<Rightarrow> (Panic, s')
   | (Hang, s') \<Rightarrow> (Hang, s'))"

section \<open>Closing\<close>

definition flush_dir :: "ext \<Rightarrow> nat \<Rightarrow> ('z donkey_scheme, dk_error, unit) prog" where
  "flush_dir X k = bnd (get_dir k) (\<lambda>d.
     if d_dirty d then
       bnd (with_file (d_fh d) (write_dir X (d_entries d))) (\<lambda>_. mod_dir k (\<lambda>d. d\<lparr>d_dirty := False\<rparr>))
     else ret ())"

definition pop_close_file :: "('z donkey_scheme, 'e, nat option) prog" where
  "pop_close_file = (\<lambda>s. case close_files s of
     [] \<Rightarrow> (Ok None, s)
   | ino # inos \<Rightarrow> (Ok (Some ino), s\<lparr>close_files := inos\<rparr>))"

definition pop_close_dir :: "('z donkey_scheme, 'e, nat option) prog" where
  "pop_close_dir = (\<lambda>s. case close_dirs s of
     [] \<Rightarrow> (Ok None, s)
   | ino # inos \<Rightarrow> (Ok (Some ino), s\<lparr>close_dirs := inos\<rparr>))"

text \<open>The file is only in the table: \<open>Rc::strong_count(rc) == 1\<close>.\<close>

definition file_unused :: "nat \<Rightarrow> 'z donkey_scheme \<Rightarrow> bool" where
  "file_unused k s \<longleftrightarrow> opened_files s k \<noteq> None \<and> file_refs s k = 0"

definition dir_unused :: "nat \<Rightarrow> 'z donkey_scheme \<Rightarrow> bool" where
  "dir_unused k s \<longleftrightarrow> opened_dirs s k \<noteq> None \<and> dir_refs s k = 0"

definition close_file :: "ext \<Rightarrow> nat \<Rightarrow> ('z donkey_scheme, dk_error, unit) prog" where
  "close_file X ino = bnd (gets (file_unused ino)) (\<lambda>unused.
     if unused then
       bnd (with_file ino (flush_file X)) (\<lambda>_.
       bnd (with_file ino (get_file (\<lambda>f. i_nlink (f_inode f)))) (\<lambda>n.
       bnd (if n = 0 then with_file ino (destroy X) else ret ()) (\<lambda>_.
       modify (\<lambda>s. s\<lparr>opened_files := (opened_files s)(ino := None)\<rparr>))))
     else ret ())"

text \<open>Removing a directory from the table drops the directory and with it the handle of its file.\<close>

definition close_dir :: "ext \<Rightarrow> nat \<Rightarrow> ('z donkey_scheme, dk_error, unit) prog" where
  "close_dir X ino = bnd (gets (dir_unused ino)) (\<lambda>unused.
     if unused then
       bnd (flush_dir X ino) (\<lambda>_.
       bnd (get_dir ino) (\<lambda>d.
       modify (\<lambda>s. drop_file (d_fh d) (s\<lparr>opened_dirs := (opened_dirs s)(ino := None)\<rparr>))))
     else ret ())"

text \<open>
  The loops take one element of the list per round and nothing in a round adds to that list, so the
  length of the list and one more round are enough.
\<close>

primrec close_files_loop :: "ext \<Rightarrow> nat \<Rightarrow> ('z donkey_scheme, dk_error, unit) prog" where
  "close_files_loop X 0 = hang"
| "close_files_loop X (Suc n) = bnd pop_close_file (\<lambda>o'. case o' of
     None \<Rightarrow> ret ()
   | Some ino \<Rightarrow> bnd (close_file X ino) (\<lambda>_. close_files_loop X n))"

definition close_files_in_list :: "ext \<Rightarrow> ('z donkey_scheme, dk_error, unit) prog" where
  "close_files_in_list X = bnd (gets (\<lambda>s. length (close_files s))) (\<lambda>n. close_files_loop X (Suc n))"

primrec close_dirs_loop :: "ext \<Rightarrow> nat \<Rightarrow> ('z donkey_scheme, dk_error, unit) prog" where
  "close_dirs_loop X 0 = hang"
| "close_dirs_loop X (Suc n) = bnd pop_close_dir (\<lambda>o'. case o' of
     None \<Rightarrow> ret ()
   | Some ino \<Rightarrow> bnd (close_dir X ino) (\<lambda>_. close_dirs_loop X n))"

definition close_dirs_in_list :: "ext \<Rightarrow> ('z donkey_scheme, dk_error, unit) prog" where
  "close_dirs_in_list X = bnd (gets (\<lambda>s. length (close_dirs s))) (\<lambda>n. close_dirs_loop X (Suc n))"

section \<open>Opening\<close>

text \<open>A file that is not in the table is read from the device and entered.\<close>

definition load_file :: "ext \<Rightarrow> nat \<Rightarrow> ('z donkey_scheme, dk_error, unit) prog" where
  "load_file X ino = bnd (read_inode X ino) (\<lambda>i s.
     case read_xattr X (dkfile_new i, s) of
       (Ok _, (f, s')) \<Rightarrow> (Ok (), s'\<lparr>opened_files := (opened_files s')(ino \<mapsto> f),
         file_refs := (file_refs s')(ino := 0)\<rparr>)
     | (Err e, (f, s')) \<Rightarrow> (Err e, s')
     | (Panic, (f, s')) \<Rightarrow> (Panic, s')
     | (Hang, (f, s')) \<Rightarrow> (Hang, s'))"

definition open_file :: "ext \<Rightarrow> nat \<Rightarrow> flags \<Rightarrow> ('z donkey_scheme, dk_error, file_handle) prog" where
  "open_file X ino fl =
     bnd (close_files_in_list X) (\<lambda>_.
     if fl = INVALID then fail (Invalid MInvalidFlags)
     else
       bnd (gets (\<lambda>s. opened_files s ino \<noteq> None)) (\<lambda>present.
       bnd (if present then ret () else load_file X ino) (\<lambda>_.
       bnd (modify (clone_file ino)) (\<lambda>_. ret \<lparr>fh_key = ino, fh_flags = fl\<rparr>))))"

definition load_dir :: "ext \<Rightarrow> nat \<Rightarrow> ('z donkey_scheme, dk_error, unit) prog" where
  "load_dir X ino =
     bnd (open_file X ino READ_WRITE) (\<lambda>fh.
     drop_on_err (modify (drop_file (fh_key fh)))
       (bnd (with_file (fh_key fh) (get_file (\<lambda>f. is_directory (i_mode (f_inode f))))) (\<lambda>isdir.
        if \<not> isdir then fail NotDirectory
        else
          bnd (with_file (fh_key fh) (read_dir X [])) (\<lambda>entries.
          modify (\<lambda>s. s\<lparr>opened_dirs := (opened_dirs s)(ino \<mapsto>
              \<lparr>d_fh = fh_key fh, d_entries = entries, d_dirty = False\<rparr>),
            dir_refs := (dir_refs s)(ino := 0)\<rparr>)))))"

definition open_dir :: "ext \<Rightarrow> nat \<Rightarrow> ('z donkey_scheme, dk_error, dir_handle) prog" where
  "open_dir X ino =
     bnd (close_dirs_in_list X) (\<lambda>_.
     bnd (gets (\<lambda>s. opened_dirs s ino \<noteq> None)) (\<lambda>present.
     bnd (if present then ret () else load_dir X ino) (\<lambda>_.
     bnd (get_dir ino) (\<lambda>d.
     bnd (modify (clone_dir ino)) (\<lambda>_. ret \<lparr>dh_key = ino, dh_entries = d_entries d\<rparr>)))))"

section \<open>Directory entries\<close>

text \<open>The two assignments of the current time to the times of the directory's inode.\<close>

definition touch_dir :: "ext \<Rightarrow> nat \<Rightarrow> ('z donkey_scheme, dk_error, unit) prog" where
  "touch_dir X k =
     bnd (get_dir k) (\<lambda>d.
     bnd (now X) (\<lambda>t.
     bnd (with_file (d_fh d) (mod_inode (\<lambda>i. i\<lparr>i_ctime := t\<rparr>))) (\<lambda>_.
     bnd (now X) (\<lambda>t'.
     with_file (d_fh d) (mod_inode (\<lambda>i. i\<lparr>i_mtime := t'\<rparr>))))))"

definition add_entry :: "ext \<Rightarrow> nat \<Rightarrow> os_string \<Rightarrow> nat \<Rightarrow> ('z donkey_scheme, dk_error, unit) prog" where
  "add_entry X k name ino =
     bnd (get_dir k) (\<lambda>d.
     let vacant = map_of (d_entries d) name = None in
     bnd (if vacant then mod_dir k (\<lambda>d. d\<lparr>d_entries := om_insert name ino (d_entries d)\<rparr>) else ret ()) (\<lambda>_.
     bnd (mod_dir k (\<lambda>d. d\<lparr>d_dirty := True\<rparr>)) (\<lambda>_.
     bnd (touch_dir X k) (\<lambda>_.
     if vacant then ret () else fail AlreadyExists))))"

definition remove_entry :: "ext \<Rightarrow> nat \<Rightarrow> os_string \<Rightarrow> ('z donkey_scheme, dk_error, nat option) prog" where
  "remove_entry X k name =
     bnd (get_dir k) (\<lambda>d.
     case map_of (d_entries d) name of
       None \<Rightarrow> ret None
     | Some ino \<Rightarrow>
       bnd (mod_dir k (\<lambda>d. d\<lparr>d_entries := om_remove name (d_entries d)\<rparr>)) (\<lambda>_.
       bnd (touch_dir X k) (\<lambda>_.
       bnd (mod_dir k (\<lambda>d. d\<lparr>d_dirty := True\<rparr>)) (\<lambda>_. ret (Some ino)))))"

section \<open>Nodes and links\<close>

definition mknod ::
  "ext \<Rightarrow> file_mode \<Rightarrow> nat \<Rightarrow> nat \<Rightarrow> nat \<Rightarrow> nat option \<Rightarrow> ('z donkey_scheme, dk_error, nat) prog" where
  "mknod X mode uid gid nlink rdev =
     bnd (allocate_inode X) (\<lambda>ino.
     bnd (now X) (\<lambda>time.
     let i = \<lparr>i_ino = ino, i_mode = mode, i_uid = uid, i_gid = gid, i_nlink = nlink,
       i_atime = time, i_mtime = time, i_ctime = time, i_crtime = time, i_size = 0, i_blocks = 0,
       i_device = (case rdev of None \<Rightarrow> 0 | Some v \<Rightarrow> v), i_xattr_ptr = 0, i_ptrs = default_ptrs\<rparr> in
     bnd (write_inode X i) (\<lambda>_. ret ino)))"

text \<open>The three assignments that \<open>link\<close> and \<open>unlink\<close> make to the inode of the target.\<close>

definition change_nlink ::
  "ext \<Rightarrow> (nat \<Rightarrow> ('z donkey_scheme, dk_error, nat) prog) \<Rightarrow> nat \<Rightarrow> ('z donkey_scheme, dk_error, unit) prog" where
  "change_nlink X f k =
     bnd (with_file k (get_file (\<lambda>g. i_nlink (f_inode g)))) (\<lambda>n.
     bnd (f n) (\<lambda>n'.
     bnd (with_file k (mod_inode (\<lambda>i. i\<lparr>i_nlink := n'\<rparr>))) (\<lambda>_.
     bnd (now X) (\<lambda>t.
     bnd (with_file k (mod_inode (\<lambda>i. i\<lparr>i_ctime := t\<rparr>))) (\<lambda>_.
     with_file k (set_dirty True))))))"

definition link :: "ext \<Rightarrow> nat \<Rightarrow> dir_handle \<Rightarrow> os_string \<Rightarrow> ('z donkey_scheme, dk_error, unit) prog" where
  "link X ino parent name =
     dropping (drop_dir (dh_key parent))
       (bnd (add_entry X (dh_key parent) name ino) (\<lambda>_.
        bnd (open_file X ino READ_ONLY) (\<lambda>file.
        dropping (drop_file (fh_key file)) (change_nlink X (\<lambda>n. ck_add n 1) (fh_key file)))))"

definition unlink :: "ext \<Rightarrow> dir_handle \<Rightarrow> os_string \<Rightarrow> ('z donkey_scheme, dk_error, unit) prog" where
  "unlink X parent name =
     dropping (drop_dir (dh_key parent))
       (bnd (remove_entry X (dh_key parent) name) (\<lambda>o'. case o' of
          None \<Rightarrow> ret ()
        | Some ino \<Rightarrow>
          bnd (open_file X ino READ_ONLY) (\<lambda>fh.
          dropping (drop_file (fh_key fh)) (change_nlink X (\<lambda>n. ck_sub n 1) (fh_key fh)))))"

definition dot :: os_string where "dot = [46]"
definition dotdot :: os_string where "dotdot = [46, 46]"

definition mkdir ::
  "ext \<Rightarrow> nat \<Rightarrow> file_mode \<Rightarrow> nat \<Rightarrow> nat \<Rightarrow> ('z donkey_scheme, dk_error, nat) prog" where
  "mkdir X parent_ino mode uid gid =
     bnd (mknod X (DIRECTORY OR mode) uid gid 0 None) (\<lambda>ino.
     bnd (open_dir X ino) (\<lambda>dir.
     bnd (drop_on_err (modify (drop_dir (dh_key dir)))
       (bnd (modify (clone_dir (dh_key dir))) (\<lambda>_. link X ino dir dot))) (\<lambda>_.
     bnd (link X parent_ino dir dotdot) (\<lambda>_. ret ino))))"

section \<open>The whole file system\<close>

definition root_perm :: file_mode where
  "root_perm = USER_RWX OR GROUP_READ OR GROUP_EXECUTE OR OTHERS_READ OR OTHERS_EXECUTE"

definition create_root :: "ext \<Rightarrow> ('z donkey_scheme, dk_error, unit) prog" where
  "create_root X =
     bnd (mkdir X ROOT_INODE root_perm 0 0) (\<lambda>root_inode.
     if root_inode = ROOT_INODE then
       bnd (close_dirs_in_list X) (\<lambda>_. close_files_in_list X)
     else fail (Corrupted (MBadRootInode root_inode)))"

text \<open>\<open>Drop for Donkey\<close>: errors are printed and ignored.\<close>

definition drop_donkey :: "ext \<Rightarrow> ('z donkey_scheme, dk_error, unit) prog" where
  "drop_donkey X =
     bnd (attempt (close_dirs_in_list X)) (\<lambda>_.
     bnd (attempt (close_files_in_list X)) (\<lambda>_. ret ()))"

text \<open>\<open>Donkey::new\<close>: the tables and lists of a new \<open>Donkey\<close>.\<close>

definition donkey_new :: "('z donkey_scheme, 'e, unit) prog" where
  "donkey_new = modify (\<lambda>s. s\<lparr>opened_files := Map.empty, opened_dirs := Map.empty,
     file_refs := (\<lambda>_. 0), dir_refs := (\<lambda>_. 0), close_files := [], close_dirs := [],
     borrowed := False\<rparr>)"

text \<open>\<open>format\<close> and \<open>open\<close> of the crate; the state starts with the device.\<close>

definition format :: "ext \<Rightarrow> nat \<Rightarrow> ('z donkey_scheme, dk_error, unit) prog" where
  "format X bytes_per_inode =
     bnd (format_store X bytes_per_inode) (\<lambda>_.
     bnd donkey_new (\<lambda>_. drop_on_err (drop_donkey X) (create_root X)))"

definition open_fs :: "ext \<Rightarrow> ('z donkey_scheme, dk_error, unit) prog" where
  "open_fs X = bnd (open_store X) (\<lambda>_. donkey_new)"

text \<open>
  The main function of mkdk with its parsed arguments: open the device, format it and drop the handle.
  \<open>opened\<close> and \<open>getsize\<close> are the answers of the operating system to \<open>dev\<close>.
\<close>

definition mkdk_main ::
  "ext \<Rightarrow> (file_kind \<times> (nat \<Rightarrow> byte) \<times> nat) option \<Rightarrow> nat + nat \<Rightarrow> nat option
   \<Rightarrow> ('z donkey_scheme, dk_error, unit) prog" where
  "mkdk_main X opened getsize bytes_per_inode =
     bnd (lift_res (dev_open opened getsize)) (\<lambda>d.
     bnd (modify (\<lambda>s. s\<lparr>dev := d\<rparr>)) (\<lambda>_.
     bnd (format X (case bytes_per_inode of None \<Rightarrow> DEFAULT_BYTES_PER_INODE | Some n \<Rightarrow> n)) (\<lambda>_.
     drop_donkey X)))"

end
