(* ===== verification/Replies.thy ===== *)
theory Replies
  imports Blocks
begin

text \<open>The reply structs of replies.rs.\<close>

record statvfs =
  sv_blocks :: nat
  sv_bfree :: nat
  sv_bavail :: nat
  sv_files :: nat
  sv_ffree :: nat
  sv_bsize :: nat
  sv_namelen :: nat

record stat =
  st_ino :: nat
  st_mode :: file_mode
  st_size :: nat
  st_blksize :: nat
  st_blocks :: nat
  st_atime :: dk_timespec
  st_mtime :: dk_timespec
  st_ctime :: dk_timespec
  st_crtime :: dk_timespec
  st_nlink :: nat
  st_uid :: nat
  st_gid :: nat
  st_rdev :: nat

text \<open>The statistics as \<open>Handle::statfs\<close> takes them from the super block.\<close>

definition statvfs_of :: "super_block \<Rightarrow> statvfs" where
  "statvfs_of b = \<lparr>sv_blocks = db_count b, sv_bfree = db_count b - used_db_count b,
     sv_bavail = db_count b - used_db_count b, sv_files = inode_count b,
     sv_ffree = inode_count b - used_inode_count b, sv_bsize = block_size b,
     sv_namelen = MAX_NAMELEN\<rparr>"

end
