(* ===== verification/Ops.thy ===== *)
theory Ops
  imports Table Replies
begin

text \<open>
  The public interface of dkfs (\<open>Handle\<close> of ops.rs).  The \<open>Donkey\<close> is behind a \<open>RefCell\<close>: an
  operation that borrows it while it is borrowed panics.  Handles that are passed by value are dropped
  when the operation returns.
\<close>

section \<open>Borrowing\<close>

definition borrow_mut :: "('z donkey_scheme, 'e, 'a) prog \<Rightarrow> ('z donkey_scheme, 'e, 'a) prog" where
  "borrow_mut m = (\<lambda>s.
     if borrowed s then (Panic, s)
     else case m (s\<lparr>borrowed := True\<rparr>) of (r, s') \<Rightarrow> (r, s'\<lparr>borrowed := False\<rparr>))"

definition borrow_ref :: "('z donkey_scheme, 'e, 'a) prog \<Rightarrow> ('z donkey_scheme, 'e, 'a) prog" where
  "borrow_ref m = (\<lambda>s. if borrowed s then (Panic, s) else m s)"

abbreviation dropping_file where "dropping_file fh \<equiv> dropping (drop_file (fh_key fh))"
abbreviation dropping_dir where "dropping_dir dh \<equiv> dropping (drop_dir (dh_key dh))"

definition check_name :: "os_string \<Rightarrow> ('s, dk_error, unit) prog" where
  "check_name name = (if MAX_NAMELEN < length name then fail NameTooLong else ret ())"

section \<open>Queries\<close>

definition h_statfs :: "('z donkey_scheme, dk_error, statvfs) prog" where
  "h_statfs = borrow_ref (bnd (gets sb) (\<lambda>b.
     bnd (ck_sub (db_count b) (used_db_count b)) (\<lambda>bfree.
     bnd (ck_sub (inode_count b) (used_inode_count b)) (\<lambda>ffree.
     ret \<lparr>sv_blocks = db_count b, sv_bfree = bfree, sv_bavail = bfree, sv_files = inode_count b,
       sv_ffree = ffree, sv_bsize = block_size b, sv_namelen = MAX_NAMELEN\<rparr>))))"

definition h_open :: "ext \<Rightarrow> nat \<Rightarrow> flags \<Rightarrow> ('z donkey_scheme, dk_error, file_handle) prog" where
  "h_open X ino fl = borrow_mut (open_file X ino fl)"

definition h_opendir :: "ext \<Rightarrow> nat \<Rightarrow> ('z donkey_scheme, dk_error, dir_handle) prog" where
  "h_opendir X ino = borrow_mut (open_dir X ino)"

definition h_getattr :: "ext \<Rightarrow> nat \<Rightarrow> ('z donkey_scheme, dk_error, stat) prog" where
  "h_getattr X ino =
     bnd (h_open X ino READ_ONLY) (\<lambda>f.
     dropping_file f
       (bnd h_statfs (\<lambda>sv.
        bnd (with_file (fh_key f) (get_file f_inode)) (\<lambda>i.
        bnd (ck_mul (i_blocks i) (sv_bsize sv div 512)) (\<lambda>blocks.
        ret \<lparr>st_ino = ino, st_mode = i_mode i, st_size = i_size i,
          st_blksize = sv_bsize sv mod 4294967296, st_blocks = blocks, st_atime = i_atime i,
          st_mtime = i_mtime i, st_ctime = i_ctime i, st_crtime = i_crtime i,
          st_nlink = i_nlink i, st_uid = i_uid i, st_gid = i_gid i, st_rdev = i_device i\<rparr>)))))"

definition h_apply_releases :: "ext \<Rightarrow> ('z donkey_scheme, dk_error, unit) prog" where
  "h_apply_releases X =
     bnd (borrow_mut (close_dirs_in_list X)) (\<lambda>_. borrow_mut (close_files_in_list X))"

definition h_lookup :: "ext \<Rightarrow> nat \<Rightarrow> os_string \<Rightarrow> ('z donkey_scheme, dk_error, stat) prog" where
  "h_lookup X parent name =
     bnd (check_name name) (\<lambda>_.
     bnd (h_opendir X parent) (\<lambda>dir.
     dropping_dir dir (case map_of (dh_entries dir) name of
         Some ino \<Rightarrow> h_getattr X ino
       | None \<Rightarrow> fail NotFound)))"

text \<open>The entries that the returned iterator yields; both \<open>skip\<close>s are in the code.\<close>

definition h_readdir :: "dir_handle \<Rightarrow> nat \<Rightarrow> ('z donkey_scheme, 'e, (os_string \<times> nat) list) prog" where
  "h_readdir dir offset = dropping_dir dir (ret (om_skip offset (om_skip offset (dh_entries dir))))"

section \<open>Creating and linking\<close>

definition h_mknod ::
  "ext \<Rightarrow> nat \<Rightarrow> nat \<Rightarrow> nat \<Rightarrow> os_string \<Rightarrow> file_mode \<Rightarrow> nat option \<Rightarrow> ('z donkey_scheme, dk_error, stat) prog"
  where
  "h_mknod X uid gid parent name mode rdev =
     bnd (check_name name) (\<lambda>_.
     bnd (h_opendir X parent) (\<lambda>dir.
     bnd (drop_on_err (modify (drop_dir (dh_key dir)))
           (borrow_mut (mknod X mode uid gid 0 rdev))) (\<lambda>ino.
     bnd (borrow_mut (link X ino dir name)) (\<lambda>_. h_getattr X ino))))"

definition h_link :: "ext \<Rightarrow> nat \<Rightarrow> nat \<Rightarrow> os_string \<Rightarrow> ('z donkey_scheme, dk_error, stat) prog" where
  "h_link X ino parent name =
     bnd (check_name name) (\<lambda>_.
     bnd (h_opendir X parent) (\<lambda>dir.
     bnd (borrow_mut (link X ino dir name)) (\<lambda>_. h_getattr X ino)))"

definition h_mkdir ::
  "ext \<Rightarrow> nat \<Rightarrow> nat \<Rightarrow> nat \<Rightarrow> os_string \<Rightarrow> file_mode \<Rightarrow> ('z donkey_scheme, dk_error, stat) prog" where
  "h_mkdir X parent uid gid name mode =
     bnd (check_name name) (\<lambda>_.
     bnd (borrow_mut (mkdir X parent mode uid gid)) (\<lambda>ino.
     bnd (h_opendir X parent) (\<lambda>dir.
     bnd (borrow_mut (link X ino dir name)) (\<lambda>_. h_getattr X ino))))"

section \<open>Files\<close>

definition h_flush :: "ext \<Rightarrow> file_handle \<Rightarrow> ('z donkey_scheme, dk_error, unit) prog" where
  "h_flush X fh = dropping_file fh (borrow_mut (with_file (fh_key fh) (flush_file X)))"

record attr_request =
  rq_mode :: "file_mode option"
  rq_uid :: "nat option"
  rq_gid :: "nat option"
  rq_size :: "nat option"
  rq_atime :: "dk_timespec option"
  rq_mtime :: "dk_timespec option"
  rq_ctime :: "dk_timespec option"
  rq_crtime :: "dk_timespec option"

text \<open>One arm of the macro \<open>setattrs!\<close>; it returns the value of \<open>modified\<close>.\<close>

definition set_attr ::
  "nat \<Rightarrow> 'v option \<Rightarrow> ('v \<Rightarrow> inode \<Rightarrow> inode) \<Rightarrow> bool \<Rightarrow> ('z donkey_scheme, 'e, bool) prog" where
  "set_attr k v upd modified = (case v of
     None \<Rightarrow> ret modified
   | Some x \<Rightarrow> bnd (with_file k (mod_inode (upd x))) (\<lambda>_. ret True))"

definition h_setattr ::
  "ext \<Rightarrow> nat \<Rightarrow> file_handle option \<Rightarrow> attr_request \<Rightarrow> ('z donkey_scheme, dk_error, stat) prog" where
  "h_setattr X ino fho rq =
     bnd (case fho of Some fh \<Rightarrow> ret fh | None \<Rightarrow> h_open X ino READ_ONLY) (\<lambda>fh.
     let k = fh_key fh in
     dropping_file fh
       (bnd (with_file k (set_dirty True)) (\<lambda>_.
        bnd (set_attr k (rq_mode rq) (\<lambda>v i. i\<lparr>i_mode := v\<rparr>) False) (\<lambda>modified.
        bnd (set_attr k (rq_uid rq) (\<lambda>v i. i\<lparr>i_uid := v\<rparr>) modified) (\<lambda>modified.
        bnd (set_attr k (rq_gid rq) (\<lambda>v i. i\<lparr>i_gid := v\<rparr>) modified) (\<lambda>modified.
        bnd (set_attr k (rq_atime rq) (\<lambda>v i. i\<lparr>i_atime := v\<rparr>) modified) (\<lambda>modified.
        bnd (set_attr k (rq_mtime rq) (\<lambda>v i. i\<lparr>i_mtime := v\<rparr>) modified) (\<lambda>modified.
        bnd (set_attr k (rq_crtime rq) (\<lambda>v i. i\<lparr>i_crtime := v\<rparr>) modified) (\<lambda>modified.
        bnd (case rq_size rq of
               None \<Rightarrow> ret modified
             | Some n \<Rightarrow> bnd (borrow_mut (with_file k (update_size X n))) (\<lambda>_. ret True)) (\<lambda>modified.
        bnd (if modified \<and> rq_ctime rq = None then bnd (now X) (\<lambda>t. ret (Some t))
             else ret (rq_ctime rq)) (\<lambda>ctime.
        bnd (case ctime of
               None \<Rightarrow> ret ()
             | Some t \<Rightarrow> with_file k (mod_inode (\<lambda>i. i\<lparr>i_ctime := t\<rparr>))) (\<lambda>_.
        h_getattr X ino))))))))))))"

definition h_read :: "ext \<Rightarrow> file_handle \<Rightarrow> nat \<Rightarrow> nat \<Rightarrow> ('z donkey_scheme, dk_error, byte list) prog" where
  "h_read X fh offset n =
     dropping_file fh (borrow_mut (with_file (fh_key fh)
       (bnd (map_err dk_error_of_io (seek (SeekStart offset))) (\<lambda>_.
        map_err dk_error_of_io (take_read_to_end X n)))))"

definition h_write :: "ext \<Rightarrow> file_handle \<Rightarrow> nat \<Rightarrow> byte list \<Rightarrow> ('z donkey_scheme, dk_error, nat) prog" where
  "h_write X fh offset data =
     dropping_file fh (borrow_mut (with_file (fh_key fh)
       (bnd (map_err dk_error_of_io (seek (SeekStart offset))) (\<lambda>_.
        bnd (map_err dk_error_of_io (write_all X data)) (\<lambda>_. ret (length data))))))"

definition h_fsync :: "ext \<Rightarrow> file_handle \<Rightarrow> bool \<Rightarrow> ('z donkey_scheme, dk_error, unit) prog" where
  "h_fsync X fh datasync =
     (if datasync then dropping_file fh (ret ())
      else bnd (h_flush X fh) (\<lambda>_. ret ()))"

text \<open>The mutable borrow of the first line lasts until the function returns, so \<open>fsync\<close> runs under it.\<close>

definition h_fsyncdir :: "ext \<Rightarrow> dir_handle \<Rightarrow> bool \<Rightarrow> ('z donkey_scheme, dk_error, unit) prog" where
  "h_fsyncdir X dh datasync =
     dropping_dir dh (borrow_mut
       (bnd (flush_dir X (dh_key dh)) (\<lambda>_.
        bnd (get_dir (dh_key dh)) (\<lambda>d.
        bnd (modify (clone_file (d_fh d))) (\<lambda>_.
        h_fsync X \<lparr>fh_key = d_fh d, fh_flags = READ_WRITE\<rparr> datasync)))))"

section \<open>Extended attributes\<close>

definition h_getxattr :: "ext \<Rightarrow> nat \<Rightarrow> os_string \<Rightarrow> ('z donkey_scheme, dk_error, byte list option) prog" where
  "h_getxattr X ino name =
     bnd (check_name name) (\<lambda>_.
     bnd (h_open X ino READ_ONLY) (\<lambda>fh.
     dropping_file fh (with_file (fh_key fh) (get_file (\<lambda>f. map_of (f_xattr f) name)))))"

definition h_listxattr :: "ext \<Rightarrow> nat \<Rightarrow> ('z donkey_scheme, dk_error, os_string list) prog" where
  "h_listxattr X ino =
     bnd (h_open X ino READ_ONLY) (\<lambda>fh.
     dropping_file fh (with_file (fh_key fh) (get_file (\<lambda>f. map fst (f_xattr f)))))"

definition h_setxattr :: "ext \<Rightarrow> nat \<Rightarrow> os_string \<Rightarrow> byte list \<Rightarrow> ('z donkey_scheme, dk_error, unit) prog" where
  "h_setxattr X ino name v =
     bnd (check_name name) (\<lambda>_.
     bnd (h_open X ino READ_ONLY) (\<lambda>fh.
     dropping_file fh (with_file (fh_key fh)
       (bnd (set_dirty True) (\<lambda>_. mod_file (\<lambda>f. f\<lparr>f_xattr := om_insert name v (f_xattr f)\<rparr>))))))"

definition h_removexattr :: "ext \<Rightarrow> nat \<Rightarrow> os_string \<Rightarrow> ('z donkey_scheme, dk_error, unit) prog" where
  "h_removexattr X ino name =
     bnd (check_name name) (\<lambda>_.
     bnd (h_open X ino READ_ONLY) (\<lambda>fh.
     dropping_file fh (with_file (fh_key fh)
       (bnd (set_dirty True) (\<lambda>_. mod_file (\<lambda>f. f\<lparr>f_xattr := om_remove name (f_xattr f)\<rparr>))))))"

section \<open>Removing and renaming\<close>

definition h_unlink :: "ext \<Rightarrow> nat \<Rightarrow> os_string \<Rightarrow> ('z donkey_scheme, dk_error, unit) prog" where
  "h_unlink X parent name =
     bnd (check_name name) (\<lambda>_.
     bnd (h_opendir X parent) (\<lambda>dh. borrow_mut (unlink X dh name)))"

definition h_rmdir :: "ext \<Rightarrow> nat \<Rightarrow> os_string \<Rightarrow> ('z donkey_scheme, dk_error, unit) prog" where
  "h_rmdir X parent name =
     bnd (h_lookup X parent name) (\<lambda>st.
     bnd (h_opendir X (st_ino st)) (\<lambda>dir.
     dropping_dir dir
       (if length (dh_entries dir) = 2 then
          bnd (h_unlink X (st_ino st) dot) (\<lambda>_.
          bnd (h_unlink X (st_ino st) dotdot) (\<lambda>_.
          h_unlink X parent name))
        else fail NotEmpty)))"

definition h_rename ::
  "ext \<Rightarrow> nat \<Rightarrow> os_string \<Rightarrow> nat \<Rightarrow> os_string \<Rightarrow> ('z donkey_scheme, dk_error, unit) prog" where
  "h_rename X old_parent name new_parent new_name =
     bnd (if MAX_NAMELEN < length name \<or> MAX_NAMELEN < length new_name then fail NameTooLong else ret ()) (\<lambda>_.
     bnd (h_lookup X old_parent name) (\<lambda>st.
     bnd (attempt (h_lookup X new_parent new_name)) (\<lambda>old.
     bnd (case old of
            None \<Rightarrow> ret ()
          | Some old_st \<Rightarrow>
              if is_directory (st_mode old_st) then h_rmdir X new_parent new_name
              else h_unlink X new_parent new_name) (\<lambda>_.
     bnd (h_opendir X new_parent) (\<lambda>dir.
     bnd (borrow_mut (link X (st_ino st) dir new_name)) (\<lambda>_.
     bnd (h_unlink X old_parent name) (\<lambda>_. ret ())))))))"

text \<open>
  The loop that writes the target of a symbolic link; every round of \<open>write\<close> takes all that is left,
  so as many rounds as bytes are enough.
\<close>

primrec symlink_loop ::
  "ext \<Rightarrow> file_handle \<Rightarrow> byte list \<Rightarrow> nat \<Rightarrow> nat \<Rightarrow> ('z donkey_scheme, dk_error, unit) prog" where
  "symlink_loop X fh bytes 0 offset = (if offset < length bytes then hang else ret ())"
| "symlink_loop X fh bytes (Suc n) offset =
     (if offset < length bytes then
        bnd (modify (clone_file (fh_key fh))) (\<lambda>_.
        bnd (h_write X fh offset (drop offset bytes)) (\<lambda>k.
        bnd (ck_add offset k) (\<lambda>offset'. symlink_loop X fh bytes n offset')))
      else ret ())"

definition h_symlink ::
  "ext \<Rightarrow> nat \<Rightarrow> nat \<Rightarrow> nat \<Rightarrow> os_string \<Rightarrow> byte list \<Rightarrow> ('z donkey_scheme, dk_error, stat) prog" where
  "h_symlink X uid gid parent name target =
     bnd (check_name name) (\<lambda>_.
     bnd (h_mknod X uid gid parent name (SYMBOLIC_LINK OR USER_RWX OR GROUP_RWX OR OTHERS_RWX) None) (\<lambda>st.
     bnd (h_open X (st_ino st) WRITE_ONLY) (\<lambda>fh.
     dropping_file fh
       (bnd (symlink_loop X fh target (length target) 0) (\<lambda>_. h_getattr X (st_ino st))))))"

definition h_clear_set_bits :: "file_handle \<Rightarrow> ('z donkey_scheme, dk_error, file_handle) prog" where
  "h_clear_set_bits fh =
     bnd (with_file (fh_key fh) (get_file (\<lambda>f. i_mode (f_inode f)))) (\<lambda>mode.
     let mode = mode AND NOT SET_USER_ID; mode = mode AND NOT SET_GROUP_ID in
     bnd (with_file (fh_key fh) (mod_inode (\<lambda>i. i\<lparr>i_mode := mode\<rparr>))) (\<lambda>_.
     bnd (with_file (fh_key fh) (set_dirty True)) (\<lambda>_. ret fh)))"

end
