(* ===== verification/FuseConv.thy ===== *)
theory FuseConv
  imports Replies
begin

unbundle bit_operations_syntax

text \<open>
  The conversions between the types of FUSE and those of dkfs (fuse2dk.rs, dk2fuse.rs).  The numeric
  constants of the C library and the root inode number of the FUSE protocol are the record \<open>libc\<close>, an
  argument of the definitions that use them; \<open>linux\<close> is its instance with the documented values of
  the Linux ABI.  An errno is kept by name.
\<close>

record libc =
  S_IFMT :: "32 word"
  S_IFSOCK :: "32 word"
  S_IFLNK :: "32 word"
  S_IFREG :: "32 word"
  S_IFBLK :: "32 word"
  S_IFDIR :: "32 word"
  S_IFCHR :: "32 word"
  S_IFIFO :: "32 word"
  S_ISUID :: "32 word"
  S_ISGID :: "32 word"
  S_ISVTX :: "32 word"
  S_IRUSR :: "32 word"
  S_IWUSR :: "32 word"
  S_IXUSR :: "32 word"
  S_IRGRP :: "32 word"
  S_IWGRP :: "32 word"
  S_IXGRP :: "32 word"
  S_IROTH :: "32 word"
  S_IWOTH :: "32 word"
  S_IXOTH :: "32 word"
  O_ACCMODE :: "32 word"
  O_RDONLY :: "32 word"
  O_WRONLY :: "32 word"
  O_RDWR :: "32 word"
  FUSE_ROOT_ID :: nat

definition linux :: libc where
  "linux = \<lparr>S_IFMT = 0xF000, S_IFSOCK = 0xC000, S_IFLNK = 0xA000, S_IFREG = 0x8000,
     S_IFBLK = 0x6000, S_IFDIR = 0x4000, S_IFCHR = 0x2000, S_IFIFO = 0x1000,
     S_ISUID = 0x800, S_ISGID = 0x400, S_ISVTX = 0x200,
     S_IRUSR = 0x100, S_IWUSR = 0x80, S_IXUSR = 0x40, S_IRGRP = 0x20, S_IWGRP = 0x10,
     S_IXGRP = 0x8, S_IROTH = 0x4, S_IWOTH = 0x2, S_IXOTH = 0x1,
     O_ACCMODE = 3, O_RDONLY = 0, O_WRONLY = 1, O_RDWR = 2,
     FUSE_ROOT_ID = 1\<rparr>"

datatype errno =
  EIO | EDQUOT | ENOSYS | ENOENT | ENOTEMPTY | ENOTDIR | EEXIST | EINVAL | ENAMETOOLONG | ERANGE
  | ENOATTR

datatype file_type =
  NamedPipe | CharDevice | BlockDevice | Directory | RegularFile | Symlink | Socket

record timespec =
  t_sec :: int
  t_nsec :: int

section \<open>fuse2dk.rs\<close>

definition type_bits :: "libc \<Rightarrow> 32 word \<Rightarrow> file_mode" where
  "type_bits L mode = (let t = mode AND S_IFMT L in
     if t = S_IFSOCK L then SOCKET
     else if t = S_IFLNK L then SYMBOLIC_LINK
     else if t = S_IFREG L then REGULAR_FILE
     else if t = S_IFBLK L then BLOCK_DEVICE
     else if t = S_IFDIR L then DIRECTORY
     else if t = S_IFCHR L then CHARACTER_DEVICE
     else if t = S_IFIFO L then FIFO
     else 0)"

definition add_bit :: "32 word \<Rightarrow> 32 word \<Rightarrow> file_mode \<Rightarrow> file_mode \<Rightarrow> file_mode" where
  "add_bit mode c b res = (if mode AND c \<noteq> 0 then res OR b else res)"

definition file_mode_of :: "libc \<Rightarrow> 32 word \<Rightarrow> file_mode" where
  "file_mode_of L mode =
     (let res = 0 OR type_bits L mode;
          res = add_bit mode (S_ISUID L) SET_USER_ID res;
          res = add_bit mode (S_ISGID L) SET_GROUP_ID res;
          res = add_bit mode (S_ISVTX L) STICKY res;
          res = add_bit mode (S_IRUSR L) USER_READ res;
          res = add_bit mode (S_IWUSR L) USER_WRITE res;
          res = add_bit mode (S_IXUSR L) USER_EXECUTE res;
          res = add_bit mode (S_IRGRP L) GROUP_READ res;
          res = add_bit mode (S_IWGRP L) GROUP_WRITE res;
          res = add_bit mode (S_IXGRP L) GROUP_EXECUTE res;
          res = add_bit mode (S_IROTH L) OTHERS_READ res;
          res = add_bit mode (S_IWOTH L) OTHERS_WRITE res;
          res = add_bit mode (S_IXOTH L) OTHERS_EXECUTE res
      in res)"

definition open_flags :: "libc \<Rightarrow> 32 word \<Rightarrow> flags" where
  "open_flags L fl = (let a = fl AND O_ACCMODE L in
     if a = O_RDONLY L then 0 OR READ_ONLY
     else if a = O_WRONLY L then 0 OR WRITE_ONLY
     else if a = O_RDWR L then 0 OR READ_WRITE
     else INVALID)"

text \<open>\<open>t.nsec as u32\<close> for an \<open>i32\<close>.\<close>

definition dk_timespec_of :: "timespec \<Rightarrow> dk_timespec" where
  "dk_timespec_of t = \<lparr>ts_sec = t_sec t, ts_nsec = nat (t_nsec t mod 4294967296)\<rparr>"

section \<open>dk2fuse.rs\<close>

definition dk_file_type :: "file_mode \<Rightarrow> ('e, file_type) res" where
  "dk_file_type mode = (let t = mode AND FILE_TYPE_MASK in
     if t = REGULAR_FILE then Ok RegularFile
     else if t = SOCKET then Ok Socket
     else if t = DIRECTORY then Ok Directory
     else if t = SYMBOLIC_LINK then Ok Symlink
     else if t = CHARACTER_DEVICE then Ok CharDevice
     else if t = BLOCK_DEVICE then Ok BlockDevice
     else if t = FIFO then Ok NamedPipe
     else Panic)"

definition permission :: "file_mode \<Rightarrow> 16 word" where
  "permission mode = 0xFFF AND mode"

text \<open>\<open>t.nsec as i32\<close> for a \<open>u32\<close>.\<close>

definition as_i32 :: "nat \<Rightarrow> int" where
  "as_i32 n = (let m = n mod 4294967296 in
     if m < 2147483648 then int m else int m - 4294967296)"

definition fuse_timespec :: "dk_timespec \<Rightarrow> timespec" where
  "fuse_timespec t = \<lparr>t_sec = ts_sec t, t_nsec = as_i32 (ts_nsec t)\<rparr>"

definition fuse_flags :: "libc \<Rightarrow> flags \<Rightarrow> ('e, 32 word) res" where
  "fuse_flags L fl = (let a = fl AND ACCESS_MODE_MASK in
     if a = READ_ONLY then Ok (O_RDONLY L)
     else if a = WRITE_ONLY then Ok (O_WRONLY L)
     else if a = READ_WRITE then Ok (O_RDWR L)
     else Panic)"

record file_attr =
  fa_ino :: nat
  fa_size :: nat
  fa_blocks :: nat
  fa_atime :: timespec
  fa_mtime :: timespec
  fa_ctime :: timespec
  fa_crtime :: timespec
  fa_kind :: file_type
  fa_perm :: "16 word"
  fa_nlink :: nat
  fa_uid :: nat
  fa_gid :: nat
  fa_rdev :: nat
  fa_flags :: nat

definition file_attr_of :: "stat \<Rightarrow> ('e, file_attr) res" where
  "file_attr_of st = res_bnd (dk_file_type (st_mode st)) (\<lambda>kind. Ok
     \<lparr>fa_ino = st_ino st, fa_size = st_size st, fa_blocks = st_blocks st,
      fa_atime = fuse_timespec (st_atime st), fa_mtime = fuse_timespec (st_mtime st),
      fa_ctime = fuse_timespec (st_ctime st), fa_crtime = fuse_timespec (st_crtime st),
      fa_kind = kind, fa_perm = permission (st_mode st),
      fa_nlink = st_nlink st mod 4294967296, fa_uid = st_uid st, fa_gid = st_gid st,
      fa_rdev = st_rdev st mod 4294967296, fa_flags = 0\<rparr>)"

fun errno_of :: "dk_error \<Rightarrow> errno" where
  "errno_of (IoError e) = EIO"
| "errno_of (Corrupted m) = EIO"
| "errno_of (Other e) = EIO"
| "errno_of (OtherErrno n) = EIO"
| "errno_of Exhausted = EDQUOT"
| "errno_of NotSupported = ENOSYS"
| "errno_of NotFound = ENOENT"
| "errno_of NotEmpty = ENOTEMPTY"
| "errno_of NotDirectory = ENOTDIR"
| "errno_of AlreadyExists = EEXIST"
| "errno_of (Invalid m) = EINVAL"
| "errno_of NameTooLong = ENAMETOOLONG"

section \<open>Bits\<close>

lemma and_bit_nonzero:
  fixes m :: "32 word"
  shows "m AND 0x800 \<noteq> 0 \<longleftrightarrow> bit m 11" "m AND 0x400 \<noteq> 0 \<longleftrightarrow> bit m 10"
    "m AND 0x200 \<noteq> 0 \<longleftrightarrow> bit m 9" "m AND 0x100 \<noteq> 0 \<longleftrightarrow> bit m 8" "m AND 0x80 \<noteq> 0 \<longleftrightarrow> bit m 7"
    "m AND 0x40 \<noteq> 0 \<longleftrightarrow> bit m 6" "m AND 0x20 \<noteq> 0 \<longleftrightarrow> bit m 5" "m AND 0x10 \<noteq> 0 \<longleftrightarrow> bit m 4"
    "m AND 8 \<noteq> 0 \<longleftrightarrow> bit m 3" "m AND 4 \<noteq> 0 \<longleftrightarrow> bit m 2" "m AND 2 \<noteq> 0 \<longleftrightarrow> bit m 1"
    "m AND 1 \<noteq> 0 \<longleftrightarrow> bit m 0"
  using and_exp_eq_0_iff_not_bit [of m 11] and_exp_eq_0_iff_not_bit [of m 10]
    and_exp_eq_0_iff_not_bit [of m 9] and_exp_eq_0_iff_not_bit [of m 8]
    and_exp_eq_0_iff_not_bit [of m 7] and_exp_eq_0_iff_not_bit [of m 6]
    and_exp_eq_0_iff_not_bit [of m 5] and_exp_eq_0_iff_not_bit [of m 4]
    and_exp_eq_0_iff_not_bit [of m 3] and_exp_eq_0_iff_not_bit [of m 2]
    and_exp_eq_0_iff_not_bit [of m 1] and_exp_eq_0_iff_not_bit [of m 0]
  by simp_all

lemma bits16:
  fixes a b :: "16 word"
  assumes "\<forall>n \<in> {0, 1, 2, 3, 4, 5, 6, 7, 8, 9, 10, 11, 12, 13, 14, 15}. bit a n = bit b n"
  shows "a = b"
proof (rule bit_word_eqI)
  fix n :: nat assume "n < LENGTH(16)"
  then have "n \<in> {0, 1, 2, 3, 4, 5, 6, 7, 8, 9, 10, 11, 12, 13, 14, 15}" by simp arith
  then show "bit a n = bit b n" using assms by blast
qed

lemma bit_add_bit:
  "bit (add_bit m c b r) n \<longleftrightarrow> bit r n \<or> (m AND c \<noteq> 0 \<and> bit b n)"
  by (auto simp: add_bit_def bit_or_iff)

lemma type_bits_high: "type_bits L m AND 0xFFF = 0"
  by (simp add: type_bits_def Let_def file_mode_bits)

text \<open>The permission bits are copied and the type bits put in front.\<close>

lemma file_mode_linux: "file_mode_of linux m = (ucast m AND 0xFFF) OR type_bits linux m"
  by (rule bits16)
    (simp add: file_mode_of_def Let_def bit_add_bit linux_def and_bit_nonzero [simplified]
      file_mode_bits bit_or_iff bit_and_iff bit_ucast_iff disj_commute)

lemma permission_file_mode: "permission (file_mode_of linux m) = ucast m AND 0xFFF"
proof -
  have "permission (file_mode_of linux m) = (0xFFF AND ucast m AND 0xFFF) OR (type_bits linux m AND 0xFFF)"
    by (simp add: permission_def file_mode_linux and.commute bit.conj_disj_distrib ac_simps)
  then show ?thesis by (simp add: type_bits_high and.commute and.left_commute)
qed

lemma type_of_file_mode: "file_mode_of linux m AND FILE_TYPE_MASK = type_bits linux m"
proof -
  have "(ucast m AND 0xFFF) AND (0xF000 :: 16 word) = 0" by (simp add: and.assoc)
  moreover have "type_bits linux m AND 0xF000 = type_bits linux m"
    by (simp add: type_bits_def Let_def file_mode_bits)
  ultimately show ?thesis
    by (simp add: file_mode_linux FILE_TYPE_MASK_def bit.conj_disj_distrib2)
qed

lemma dk_file_type_file_mode:
  "dk_file_type (file_mode_of linux m) =
    (if m AND 0xF000 = 0x8000 then Ok RegularFile else if m AND 0xF000 = 0xC000 then Ok Socket
     else if m AND 0xF000 = 0x4000 then Ok Directory else if m AND 0xF000 = 0xA000 then Ok Symlink
     else if m AND 0xF000 = 0x2000 then Ok CharDevice else if m AND 0xF000 = 0x6000 then Ok BlockDevice
     else if m AND 0xF000 = 0x1000 then Ok NamedPipe else Panic)"
  by (simp add: dk_file_type_def type_of_file_mode)
    (simp add: type_bits_def Let_def linux_def file_mode_bits)

lemma fuse_flags_open_flags:
  "fuse_flags linux (open_flags linux fl) = (if fl AND 3 = 3 then Panic else Ok (fl AND 3))"
proof -
  have "fl AND 3 \<le> 3" by (rule word_and_le1)
  then have "unat (fl AND 3) \<le> 3" by (simp add: word_le_nat_alt)
  then have "unat (fl AND 3) = 0 \<or> unat (fl AND 3) = 1 \<or> unat (fl AND 3) = 2 \<or> unat (fl AND 3) = 3"
    by arith
  then have "fl AND 3 = 0 \<or> fl AND 3 = 1 \<or> fl AND 3 = 2 \<or> fl AND 3 = 3"
    by (auto simp: word_unat_eq_iff)
  then show ?thesis
    by (auto simp: fuse_flags_def open_flags_def Let_def linux_def flag_bits)
qed

lemma dk_timespec_round_trip:
  "- 2147483648 \<le> t_nsec t \<Longrightarrow> t_nsec t < 2147483648 \<Longrightarrow> fuse_timespec (dk_timespec_of t) = t"
proof -
  assume t: "- 2147483648 \<le> t_nsec t" "t_nsec t < 2147483648"
  have "t_nsec t mod 4294967296 = (if t_nsec t < 0 then t_nsec t + 4294967296 else t_nsec t)"
    using t mod_pos_pos_trivial [of "t_nsec t + 4294967296" 4294967296] by simp
  then have "as_i32 (nat (t_nsec t mod 4294967296)) = t_nsec t"
    using t by (auto simp: as_i32_def Let_def nat_less_iff)
  then show ?thesis by (simp add: fuse_timespec_def dk_timespec_of_def)
qed

lemma fuse_timespec_round_trip:
  "ts_nsec t < 4294967296 \<Longrightarrow> dk_timespec_of (fuse_timespec t) = t"
  by (cases t) (simp add: fuse_timespec_def dk_timespec_of_def as_i32_def Let_def)

end
