(* ===== verification/Fuse.thy ===== *)
theory Fuse
  imports Ops FuseConv
begin

text \<open>
  The mount program mtdk (main.rs): the handlers of the \<open>Filesystem\<close> trait as functions from a request
  to a reply.  \<open>DonkeyFuse\<close> keeps the handles that the kernel holds, keyed by the unique number of the
  request that opened them.  Logging is left out.
\<close>

record fuse = donkey +
  dir_fh :: "nat \<rightharpoonup> dir_handle"
  file_fh :: "nat \<rightharpoonup> file_handle"

text \<open>The parts of a FUSE request header that the code reads.\<close>

record fuse_req =
  rq_unique :: nat
  rq_req_uid :: nat
  rq_req_gid :: nat

type_synonym dirent = "nat \<times> int \<times> file_type \<times> os_string"

datatype reply =
    REntry file_attr nat
  | RAttr file_attr
  | RData "byte list"
  | ROk
  | ROpened nat "32 word"
  | RWritten nat
  | RDirectory "dirent list"
  | RStatfs nat nat nat nat nat nat nat nat
  | RXattrSize nat
  | RXattr "byte list"
  | RError errno
  | NoReply  \<comment> \<open>the handler returns without using the reply object\<close>

type_synonym 'z handler = "('z fuse_scheme, unit, reply) prog"

section \<open>Common parts of the handlers\<close>

text \<open>The macro \<open>ino!\<close>.\<close>

definition real_ino :: "libc \<Rightarrow> nat \<Rightarrow> nat" where
  "real_ino L i = (if i = FUSE_ROOT_ID L then ROOT_INODE else i)"

definition reply_error :: "errno \<Rightarrow> 'z handler" where
  "reply_error e = ret (RError e)"

text \<open>The match on the result of an operation: an error is answered with its errno.\<close>

definition respond :: "('z fuse_scheme, dk_error, 'a) prog \<Rightarrow> ('a \<Rightarrow> 'z handler) \<Rightarrow> 'z handler" where
  "respond m f = (\<lambda>s. case m s of
     (Ok a, s') \<Rightarrow> f a s'
   | (Err e, s') \<Rightarrow> reply_error (errno_of e) s'
   | (Panic, s') \<Rightarrow> (Panic, s')
   | (Hang, s') \<Rightarrow> (Hang, s'))"

definition reply_entry :: "fuse_req \<Rightarrow> stat \<Rightarrow> 'z handler" where
  "reply_entry req st = bnd (lift_res (file_attr_of st)) (\<lambda>a. ret (REntry a (rq_unique req)))"

definition reply_attr :: "stat \<Rightarrow> 'z handler" where
  "reply_attr st = bnd (lift_res (file_attr_of st)) (\<lambda>a. ret (RAttr a))"

definition reply_ok :: "unit \<Rightarrow> 'z handler" where
  "reply_ok u = ret ROk"

text \<open>A clone of the file handle (directory handle) that the kernel names, or \<open>ENOENT\<close>.\<close>

definition with_file_fh :: "nat \<Rightarrow> (file_handle \<Rightarrow> 'z handler) \<Rightarrow> 'z handler" where
  "with_file_fh u f = bnd (gets (\<lambda>s. file_fh s u)) (\<lambda>h. case h of
     None \<Rightarrow> reply_error ENOENT
   | Some fh \<Rightarrow> bnd (modify (clone_file (fh_key fh))) (\<lambda>_. f fh))"

definition with_dir_fh :: "nat \<Rightarrow> (dir_handle \<Rightarrow> 'z handler) \<Rightarrow> 'z handler" where
  "with_dir_fh u f = bnd (gets (\<lambda>s. dir_fh s u)) (\<lambda>h. case h of
     None \<Rightarrow> reply_error ENOENT
   | Some dh \<Rightarrow> bnd (modify (clone_dir (dh_key dh))) (\<lambda>_. f dh))"

text \<open>\<open>HashMap::insert\<close> and \<open>remove\<close>: the handle that is replaced or removed is dropped.\<close>

definition insert_file_fh :: "nat \<Rightarrow> file_handle \<Rightarrow> 'z fuse_scheme \<Rightarrow> 'z fuse_scheme" where
  "insert_file_fh u h s = (let s' = s\<lparr>file_fh := (file_fh s)(u \<mapsto> h)\<rparr> in
     case file_fh s u of None \<Rightarrow> s' | Some old \<Rightarrow> drop_file (fh_key old) s')"

definition insert_dir_fh :: "nat \<Rightarrow> dir_handle \<Rightarrow> 'z fuse_scheme \<Rightarrow> 'z fuse_scheme" where
  "insert_dir_fh u h s = (let s' = s\<lparr>dir_fh := (dir_fh s)(u \<mapsto> h)\<rparr> in
     case dir_fh s u of None \<Rightarrow> s' | Some old \<Rightarrow> drop_dir (dh_key old) s')"

section \<open>Handlers\<close>

definition fs_lookup :: "libc \<Rightarrow> ext \<Rightarrow> fuse_req \<Rightarrow> nat \<Rightarrow> os_string \<Rightarrow> 'z handler" where
  "fs_lookup L X req parent name =
     respond (h_lookup X (real_ino L parent) name) (reply_entry req)"

definition fs_getattr :: "libc \<Rightarrow> ext \<Rightarrow> nat \<Rightarrow> 'z handler" where
  "fs_getattr L X ino = respond (h_getattr X (real_ino L ino)) reply_attr"

record fuse_attrs =
  fq_mode :: "32 word option"
  fq_uid :: "nat option"
  fq_gid :: "nat option"
  fq_size :: "nat option"
  fq_atime :: "timespec option"
  fq_mtime :: "timespec option"
  fq_fh :: "nat option"
  fq_crtime :: "timespec option"
  fq_chgtime :: "timespec option"

definition attr_request_of :: "libc \<Rightarrow> fuse_attrs \<Rightarrow> attr_request" where
  "attr_request_of L q = \<lparr>rq_mode = map_option (file_mode_of L) (fq_mode q), rq_uid = fq_uid q,
     rq_gid = fq_gid q, rq_size = fq_size q, rq_atime = map_option dk_timespec_of (fq_atime q),
     rq_mtime = map_option dk_timespec_of (fq_mtime q), rq_ctime = map_option dk_timespec_of (fq_chgtime q),
     rq_crtime = map_option dk_timespec_of (fq_crtime q)\<rparr>"

definition fs_setattr :: "libc \<Rightarrow> ext \<Rightarrow> nat \<Rightarrow> fuse_attrs \<Rightarrow> 'z handler" where
  "fs_setattr L X ino q =
     bnd (gets (\<lambda>s. case fq_fh q of None \<Rightarrow> None | Some u \<Rightarrow> file_fh s u)) (\<lambda>fh.
     bnd (case fh of None \<Rightarrow> ret () | Some h \<Rightarrow> modify (clone_file (fh_key h))) (\<lambda>_.
     respond (h_setattr X (real_ino L ino) fh (attr_request_of L q)) reply_attr))"

definition fs_readlink :: "libc \<Rightarrow> ext \<Rightarrow> nat \<Rightarrow> 'z handler" where
  "fs_readlink L X ino = (let ino = real_ino L ino in
     respond
       (bnd (h_getattr X ino) (\<lambda>st.
        bnd (h_open X ino READ_ONLY) (\<lambda>fh.
        h_read X fh 0 (st_size st))))
       (\<lambda>v. ret (RData v)))"

definition fs_mknod :: "libc \<Rightarrow> ext \<Rightarrow> fuse_req \<Rightarrow> nat \<Rightarrow> os_string \<Rightarrow> 32 word \<Rightarrow> nat \<Rightarrow> 'z handler" where
  "fs_mknod L X req parent name mode rdev = (let mode = file_mode_of L mode in
     respond (h_mknod X (rq_req_uid req) (rq_req_gid req) (real_ino L parent) name mode
       (if is_device mode then Some rdev else None)) (reply_entry req))"

definition fs_mkdir :: "libc \<Rightarrow> ext \<Rightarrow> fuse_req \<Rightarrow> nat \<Rightarrow> os_string \<Rightarrow> 32 word \<Rightarrow> 'z handler" where
  "fs_mkdir L X req parent name mode =
     respond (h_mkdir X (real_ino L parent) (rq_req_uid req) (rq_req_gid req) name (file_mode_of L mode))
       (reply_entry req)"

definition fs_unlink :: "libc \<Rightarrow> ext \<Rightarrow> nat \<Rightarrow> os_string \<Rightarrow> 'z handler" where
  "fs_unlink L X parent name = respond (h_unlink X (real_ino L parent) name) reply_ok"

definition fs_rmdir :: "libc \<Rightarrow> ext \<Rightarrow> nat \<Rightarrow> os_string \<Rightarrow> 'z handler" where
  "fs_rmdir L X parent name = respond (h_rmdir X (real_ino L parent) name) reply_ok"

definition fs_symlink :: "libc \<Rightarrow> ext \<Rightarrow> fuse_req \<Rightarrow> nat \<Rightarrow> os_string \<Rightarrow> byte list \<Rightarrow> 'z handler" where
  "fs_symlink L X req parent name target =
     respond (h_symlink X (rq_req_uid req) (rq_req_gid req) (real_ino L parent) name target)
       (reply_entry req)"

definition fs_rename :: "libc \<Rightarrow> ext \<Rightarrow> nat \<Rightarrow> os_string \<Rightarrow> nat \<Rightarrow> os_string \<Rightarrow> 'z handler" where
  "fs_rename L X parent name newparent newname =
     respond (h_rename X (real_ino L parent) name (real_ino L newparent) newname) reply_ok"

definition fs_link :: "libc \<Rightarrow> ext \<Rightarrow> fuse_req \<Rightarrow> nat \<Rightarrow> nat \<Rightarrow> os_string \<Rightarrow> 'z handler" where
  "fs_link L X req ino newparent newname =
     respond (h_link X (real_ino L ino) (real_ino L newparent) newname) (reply_entry req)"

definition fs_open :: "libc \<Rightarrow> ext \<Rightarrow> fuse_req \<Rightarrow> nat \<Rightarrow> 32 word \<Rightarrow> 'z handler" where
  "fs_open L X req ino fl =
     respond
       (bnd (h_open X (real_ino L ino) (open_flags L fl)) (\<lambda>fh.
        if rq_req_uid req \<noteq> 0 then h_clear_set_bits fh else ret fh))
       (\<lambda>fh.
        bnd (lift_res (fuse_flags L (fh_flags fh))) (\<lambda>out.
        bnd (modify (insert_file_fh (rq_unique req) fh)) (\<lambda>_.
        ret (ROpened (rq_unique req) out))))"

definition fs_read :: "libc \<Rightarrow> ext \<Rightarrow> nat \<Rightarrow> int \<Rightarrow> nat \<Rightarrow> 'z handler" where
  "fs_read L X u offset n = with_file_fh u (\<lambda>fh.
     respond (h_read X fh (u64_of_i64 offset) n) (\<lambda>v. ret (RData v)))"

definition fs_write :: "libc \<Rightarrow> ext \<Rightarrow> nat \<Rightarrow> int \<Rightarrow> byte list \<Rightarrow> 'z handler" where
  "fs_write L X u offset data = with_file_fh u (\<lambda>fh.
     respond (h_write X fh (u64_of_i64 offset) data) (\<lambda>n. ret (RWritten (n mod 4294967296))))"

definition fs_flush :: "ext \<Rightarrow> nat \<Rightarrow> 'z handler" where
  "fs_flush X u = with_file_fh u (\<lambda>fh. respond (h_flush X fh) reply_ok)"

definition fs_release :: "ext \<Rightarrow> nat \<Rightarrow> 'z handler" where
  "fs_release X u = bnd (gets (\<lambda>s. file_fh s u)) (\<lambda>h. case h of
     None \<Rightarrow> ret NoReply
   | Some fh \<Rightarrow>
       bnd (modify (\<lambda>s. drop_file (fh_key fh) (s\<lparr>file_fh := (file_fh s)(u := None)\<rparr>))) (\<lambda>_.
       respond (h_apply_releases X) reply_ok))"

definition fs_fsync :: "ext \<Rightarrow> nat \<Rightarrow> bool \<Rightarrow> 'z handler" where
  "fs_fsync X u datasync = with_file_fh u (\<lambda>fh. respond (h_fsync X fh datasync) reply_ok)"

definition fs_opendir :: "libc \<Rightarrow> ext \<Rightarrow> fuse_req \<Rightarrow> nat \<Rightarrow> 32 word \<Rightarrow> 'z handler" where
  "fs_opendir L X req ino fl =
     respond (h_opendir X (real_ino L ino)) (\<lambda>dh.
       bnd (modify (insert_dir_fh (rq_unique req) dh)) (\<lambda>_. ret (ROpened (rq_unique req) fl)))"

text \<open>
  The loop of \<open>readdir\<close>.  \<open>full\<close> is the answer of \<open>ReplyDirectory::add\<close>, which depends on the space that
  the kernel has offered and on the entries added so far.
\<close>

primrec readdir_loop ::
  "ext \<Rightarrow> (dirent list \<Rightarrow> dirent \<Rightarrow> bool) \<Rightarrow> int \<Rightarrow> (os_string \<times> nat) list \<Rightarrow> nat \<Rightarrow> dirent list \<Rightarrow> 'z handler"
  where
  "readdir_loop X full offset [] i added = ret (RDirectory added)"
| "readdir_loop X full offset (e # es) i added = (case e of (name, ino) \<Rightarrow>
     respond (h_getattr X ino) (\<lambda>st.
     bnd (lift_res (dk_file_type (st_mode st))) (\<lambda>ty.
     let ent = (ino, offset + int i + 1, ty, name) in
     if full added ent then ret NoReply
     else readdir_loop X full offset es (Suc i) (added @ [ent]))))"

definition fs_readdir :: "ext \<Rightarrow> (dirent list \<Rightarrow> dirent \<Rightarrow> bool) \<Rightarrow> nat \<Rightarrow> int \<Rightarrow> 'z handler" where
  "fs_readdir X full u offset = with_dir_fh u (\<lambda>dh.
     bnd (h_readdir dh (u64_of_i64 offset)) (\<lambda>es. readdir_loop X full offset es 0 []))"

definition fs_releasedir :: "ext \<Rightarrow> nat \<Rightarrow> 'z handler" where
  "fs_releasedir X u = bnd (gets (\<lambda>s. dir_fh s u)) (\<lambda>h. case h of
     None \<Rightarrow> ret NoReply
   | Some dh \<Rightarrow>
       bnd (modify (\<lambda>s. drop_dir (dh_key dh) (s\<lparr>dir_fh := (dir_fh s)(u := None)\<rparr>))) (\<lambda>_.
       respond (h_apply_releases X) reply_ok))"

definition fs_fsyncdir :: "ext \<Rightarrow> nat \<Rightarrow> bool \<Rightarrow> 'z handler" where
  "fs_fsyncdir X u datasync = with_dir_fh u (\<lambda>dh. respond (h_fsyncdir X dh datasync) reply_ok)"

definition fs_statfs :: "'z handler" where
  "fs_statfs = respond h_statfs (\<lambda>st. ret (RStatfs (sv_blocks st) (sv_bfree st) (sv_bavail st)
     (sv_files st) (sv_ffree st) (sv_bsize st mod 4294967296) (sv_namelen st)
     (sv_bsize st mod 4294967296)))"

definition fs_setxattr :: "libc \<Rightarrow> ext \<Rightarrow> nat \<Rightarrow> os_string \<Rightarrow> byte list \<Rightarrow> 'z handler" where
  "fs_setxattr L X ino name v = respond (h_setxattr X (real_ino L ino) name v) reply_ok"

text \<open>The answer to a request for at most \<open>sz\<close> bytes (\<open>getxattr\<close> and \<open>listxattr\<close>).\<close>

definition reply_xattr :: "nat \<Rightarrow> byte list \<Rightarrow> 'z handler" where
  "reply_xattr sz v =
     (if sz = 0 then ret (RXattrSize (length v mod 4294967296))
      else if length v mod 4294967296 < sz then reply_error ERANGE
      else ret (RXattr v))"

definition fs_getxattr :: "libc \<Rightarrow> ext \<Rightarrow> nat \<Rightarrow> os_string \<Rightarrow> nat \<Rightarrow> 'z handler" where
  "fs_getxattr L X ino name sz =
     respond (h_getxattr X (real_ino L ino) name) (\<lambda>r. case r of
       Some v \<Rightarrow> reply_xattr sz v
     | None \<Rightarrow> reply_error ENOATTR)"

definition fs_listxattr :: "libc \<Rightarrow> ext \<Rightarrow> nat \<Rightarrow> nat \<Rightarrow> 'z handler" where
  "fs_listxattr L X ino sz =
     respond (h_listxattr X (real_ino L ino)) (\<lambda>names.
       reply_xattr sz (concat (map (\<lambda>n. n @ [0]) names)))"

definition fs_removexattr :: "libc \<Rightarrow> ext \<Rightarrow> nat \<Rightarrow> os_string \<Rightarrow> 'z handler" where
  "fs_removexattr L X ino name = respond (h_removexattr X (real_ino L ino) name) reply_ok"

text \<open>\<open>access\<close>, \<open>create\<close>, \<open>getlk\<close>, \<open>setlk\<close> and \<open>bmap\<close>.\<close>

definition fs_unsupported :: "'z handler" where
  "fs_unsupported = reply_error ENOSYS"

section \<open>Requests\<close>

datatype request =
    Lookup nat os_string
  | Forget nat
  | Getattr nat
  | Setattr nat fuse_attrs
  | Readlink nat
  | Mknod nat os_string "32 word" nat
  | Mkdir nat os_string "32 word"
  | Unlink nat os_string
  | Rmdir nat os_string
  | Symlink_to nat os_string "byte list"
  | Rename nat os_string nat os_string
  | Link nat nat os_string
  | Open nat "32 word"
  | Read nat int nat
  | Write nat int "byte list"
  | Flush nat
  | Release nat
  | Fsync nat bool
  | Opendir nat "32 word"
  | Readdir nat int
  | Releasedir nat
  | Fsyncdir nat bool
  | Statfs
  | Setxattr nat os_string "byte list"
  | Getxattr nat os_string nat
  | Listxattr nat nat
  | Removexattr nat os_string
  | Access
  | Create
  | Getlk
  | Setlk
  | Bmap

primrec serve ::
  "libc \<Rightarrow> ext \<Rightarrow> (dirent list \<Rightarrow> dirent \<Rightarrow> bool) \<Rightarrow> fuse_req \<Rightarrow> request \<Rightarrow> 'z handler" where
  "serve L X full req (Lookup p n) = fs_lookup L X req p n"
| "serve L X full req (Forget i) = ret NoReply"
| "serve L X full req (Getattr i) = fs_getattr L X i"
| "serve L X full req (Setattr i q) = fs_setattr L X i q"
| "serve L X full req (Readlink i) = fs_readlink L X i"
| "serve L X full req (Mknod p n m d) = fs_mknod L X req p n m d"
| "serve L X full req (Mkdir p n m) = fs_mkdir L X req p n m"
| "serve L X full req (Unlink p n) = fs_unlink L X p n"
| "serve L X full req (Rmdir p n) = fs_rmdir L X p n"
| "serve L X full req (Symlink_to p n t) = fs_symlink L X req p n t"
| "serve L X full req (Rename p n p' n') = fs_rename L X p n p' n'"
| "serve L X full req (Link i p n) = fs_link L X req i p n"
| "serve L X full req (Open i fl) = fs_open L X req i fl"
| "serve L X full req (Read u off n) = fs_read L X u off n"
| "serve L X full req (Write u off d) = fs_write L X u off d"
| "serve L X full req (Flush u) = fs_flush X u"
| "serve L X full req (Release u) = fs_release X u"
| "serve L X full req (Fsync u ds) = fs_fsync X u ds"
| "serve L X full req (Opendir i fl) = fs_opendir L X req i fl"
| "serve L X full req (Readdir u off) = fs_readdir X full u off"
| "serve L X full req (Releasedir u) = fs_releasedir X u"
| "serve L X full req (Fsyncdir u ds) = fs_fsyncdir X u ds"
| "serve L X full req Statfs = fs_statfs"
| "serve L X full req (Setxattr i n v) = fs_setxattr L X i n v"
| "serve L X full req (Getxattr i n sz) = fs_getxattr L X i n sz"
| "serve L X full req (Listxattr i sz) = fs_listxattr L X i sz"
| "serve L X full req (Removexattr i n) = fs_removexattr L X i n"
| "serve L X full req Access = fs_unsupported"
| "serve L X full req Create = fs_unsupported"
| "serve L X full req Getlk = fs_unsupported"
| "serve L X full req Setlk = fs_unsupported"
| "serve L X full req Bmap = fs_unsupported"

text \<open>
  The main function of mtdk up to the mount: open the device and the file system on it, and start
  without handles.
\<close>

definition mtdk_main ::
  "ext \<Rightarrow> (file_kind \<times> (nat \<Rightarrow> byte) \<times> nat) option \<Rightarrow> nat + nat \<Rightarrow> ('z fuse_scheme, dk_error, unit) prog" where
  "mtdk_main X opened getsize =
     bnd (lift_res (dev_open opened getsize)) (\<lambda>d.
     bnd (modify (\<lambda>s. s\<lparr>dev := d\<rparr>)) (\<lambda>_.
     bnd (open_fs X) (\<lambda>_.
     modify (\<lambda>s. s\<lparr>dir_fh := Map.empty, file_fh := Map.empty\<rparr>))))"

end
