(* ===== verification/Handles.thy ===== *)
theory Handles
  imports FileFrame Fuse
begin

text \<open>
  Reference counting.  \<open>handles_ok F D z s\<close>: outside the tables there are \<open>F k\<close> handles of the file
  under key \<open>k\<close> and \<open>D k\<close> handles of the directory; the counters of the tables say exactly this (an open
  directory holds one more handle of its own file), and no handle dangles.  \<open>z\<close> is the part of the
  state that mtdk adds.  Every operation of the library takes and returns handles without leaking one,
  also when it fails.
\<close>

definition handles_ok ::
  "(nat \<Rightarrow> nat) \<Rightarrow> (nat \<Rightarrow> nat) \<Rightarrow> 'z \<Rightarrow> 'z donkey_scheme \<Rightarrow> bool" where
  "handles_ok F D z s \<longleftrightarrow>
     (\<forall>k. file_refs s k = F k + (if opened_dirs s k = None then 0 else 1)) \<and>
     (\<forall>k. dir_refs s k = D k) \<and>
     (\<forall>k d. opened_dirs s k = Some d \<longrightarrow> d_fh d = k) \<and>
     (\<forall>k. 0 < file_refs s k \<longrightarrow> opened_files s k \<noteq> None) \<and>
     (\<forall>k. 0 < D k \<longrightarrow> opened_dirs s k \<noteq> None) \<and>
     donkey.more s = z"

definition one_more :: "(nat \<Rightarrow> nat) \<Rightarrow> nat \<Rightarrow> nat \<Rightarrow> nat" where
  "one_more F k = F(k := Suc (F k))"

lemma one_more_apply: "one_more F k j = (if j = k then Suc (F k) else F j)"
  by (simp add: one_more_def)

lemma store_more_conj:
  "store.more s = store.more (t :: 'z donkey_scheme) \<Longrightarrow>
   opened_files s = opened_files t \<and> opened_dirs s = opened_dirs t \<and> file_refs s = file_refs t \<and>
   dir_refs s = dir_refs t \<and> close_files s = close_files t \<and> close_dirs s = close_dirs t \<and>
   borrowed s = borrowed t \<and> donkey.more s = donkey.more t"
  by (cases s, cases t) simp

lemma handles_ok_cong:
  assumes "\<And>k. opened_files s k = None \<longleftrightarrow> opened_files t k = None" "opened_dirs s = opened_dirs t"
    "file_refs s = file_refs t" "dir_refs s = dir_refs t" "donkey.more s = donkey.more t"
  shows "handles_ok F D z s = handles_ok F D z t"
  using assms by (simp add: handles_ok_def)

lemma handles_okD:
  assumes "handles_ok F D z s"
  shows "file_refs s k = F k + (if opened_dirs s k = None then 0 else 1)" "dir_refs s k = D k"
    "opened_dirs s k = Some d \<Longrightarrow> d_fh d = k" "0 < file_refs s k \<Longrightarrow> \<exists>f. opened_files s k = Some f"
    "0 < D k \<Longrightarrow> \<exists>d. opened_dirs s k = Some d" "donkey.more s = z"
  using assms by (auto simp: handles_ok_def)

section \<open>Rules\<close>

lemma store_keeps: "stable store.more m \<Longrightarrow> keeps (handles_ok F D z) m"
  unfolding keeps_def
proof (intro allI impI)
  fix s :: "'a donkey_scheme"
  assume m: "stable store.more m" and s: "handles_ok F D z s"
  have "store.more (snd (m s)) = store.more s" using m by (simp add: stable_def)
  from store_more_conj [OF this] show "handles_ok F D z (snd (m s))"
    using s handles_ok_cong [of "snd (m s)" s F D z] by simp
qed

lemma with_file_result:
  assumes "stable rest m" "with_file k m s = (r, s')"
  shows "file_refs s' = file_refs s \<and> dir_refs s' = dir_refs s \<and> opened_dirs s' = opened_dirs s
     \<and> close_files s' = close_files s \<and> close_dirs s' = close_dirs s \<and> borrowed s' = borrowed s
     \<and> donkey.more s' = donkey.more s \<and> dom (opened_files s') = dom (opened_files s)
     \<and> (\<forall>j. j \<noteq> k \<longrightarrow> opened_files s' j = opened_files s j)"
proof (cases "opened_files s k")
  case None
  then show ?thesis using assms(2) by (auto simp: with_file_def)
next
  case (Some f)
  obtain x f' t where x: "m (f, s) = (x, (f', t))" by (cases "m (f, s)") auto
  then have "store.more t = store.more s" using stableD [OF assms(1) x] by simp
  note t = store_more_conj [OF this]
  have "s' = t\<lparr>opened_files := (opened_files t)(k \<mapsto> f')\<rparr>"
    using assms(2) Some x by (simp add: with_file_def)
  then show ?thesis using t Some by auto
qed

lemma with_file_keeps [keeps_intros]: "stable rest m \<Longrightarrow> keeps (handles_ok F D z) (with_file k m)"
  unfolding keeps_def
proof (intro allI impI)
  fix s :: "'a donkey_scheme"
  assume m: "stable rest m" and s: "handles_ok F D z s"
  obtain r s' where r: "with_file k m s = (r, s')" by (cases "with_file k m s")
  have "dom (opened_files s') = dom (opened_files s)" using with_file_result [OF m r] by blast
  then have "\<And>j. (opened_files s' j = None) = (opened_files s j = None)"
    by (metis domIff)
  then show "handles_ok F D z (snd (with_file k m s))"
    using with_file_result [OF m r] s r handles_ok_cong [of s' s F D z] by simp
qed

lemma with_file_refs [stable_intros]:
  assumes "stable rest m"
  shows "stable file_refs (with_file k m)" "stable dir_refs (with_file k m)"
    "stable opened_dirs (with_file k m)" "stable close_files (with_file k m)"
proof -
  have "file_refs (snd (with_file k m s)) = file_refs s \<and> dir_refs (snd (with_file k m s)) = dir_refs s
     \<and> opened_dirs (snd (with_file k m s)) = opened_dirs s \<and> close_files (snd (with_file k m s)) = close_files s" for s
    using with_file_result [OF assms, of k s "fst (with_file k m s)" "snd (with_file k m s)"] by simp
  then show "stable file_refs (with_file k m)" "stable dir_refs (with_file k m)"
    "stable opened_dirs (with_file k m)" "stable close_files (with_file k m)" by (simp_all add: stable_def)
qed

lemma keeps_conj: "keeps P m \<Longrightarrow> keeps Q m \<Longrightarrow> keeps (\<lambda>s. P s \<and> Q s) m"
  by (simp add: keeps_def)

lemma stable_keeps: "stable g m \<Longrightarrow> keeps (\<lambda>s. R (g s)) m"
  by (simp add: keeps_def stable_def)

lemmas store_op_keeps [keeps_intros] =
  now_rest [THEN store_keeps] allocate_rest [THEN store_keeps] read_inode_rest [THEN store_keeps]
  write_inode_rest [THEN store_keeps]

lemma remove_file_ok:
  assumes "handles_ok F D z s" "file_refs s k = 0"
  shows "handles_ok F D z (s\<lparr>opened_files := (opened_files s)(k := None)\<rparr>)"
proof -
  have "((opened_files s)(k := None)) j \<noteq> None" if "0 < file_refs s j" for j
    using handles_okD(4) [OF assms(1) that] that assms(2) by auto
  then show ?thesis using handles_okD [OF assms(1)] by (simp add: handles_ok_def)
qed

text \<open>Handles that are cloned, dropped, opened.\<close>

lemma clone_file_ok:
  "handles_ok F D z s \<Longrightarrow> opened_files s k \<noteq> None \<Longrightarrow> handles_ok (one_more F k) D z (clone_file k s)"
  by (auto simp: handles_ok_def clone_file_def one_more_apply)

lemma drop_file_ok: "handles_ok (one_more F k) D z s \<Longrightarrow> handles_ok F D z (drop_file k s)"
proof -
  assume s: "handles_ok (one_more F k) D z s"
  then have "file_refs s k = Suc (F k) + (if opened_dirs s k = None then 0 else 1)"
    by (auto simp: handles_ok_def one_more_apply)
  then have "opened_files s k \<noteq> None" using s by (auto simp: handles_ok_def)
  then obtain f where "opened_files s k = Some f" by auto
  then show ?thesis using s by (auto simp: handles_ok_def drop_file_def one_more_apply)
qed

lemma clone_dir_ok:
  "handles_ok F D z s \<Longrightarrow> opened_dirs s k \<noteq> None \<Longrightarrow> handles_ok F (one_more D k) z (clone_dir k s)"
  by (auto simp: handles_ok_def clone_dir_def one_more_apply)

lemma handles_ok_dir:
  assumes "handles_ok F D z s" "opened_dirs s k \<noteq> None"
  obtains d f where "opened_dirs s k = Some d" "d_fh d = k" "opened_files s k = Some f"
proof -
  obtain d where d: "opened_dirs s k = Some d" using assms(2) by auto
  then have "0 < file_refs s k" using handles_okD(1) [OF assms(1), of k] by simp
  then obtain f where "opened_files s k = Some f" using handles_okD(4) [OF assms(1)] by blast
  then show ?thesis using d handles_okD(3) [OF assms(1) d] by (intro that)
qed

lemma drop_dir_ok: "handles_ok F (one_more D k) z s \<Longrightarrow> handles_ok F D z (drop_dir k s)"
proof -
  assume s: "handles_ok F (one_more D k) z s"
  then have "opened_dirs s k \<noteq> None" by (auto simp: handles_ok_def one_more_apply)
  then obtain d f where "opened_dirs s k = Some d" "d_fh d = k" "opened_files s k = Some f"
    by (rule handles_ok_dir [OF s])
  then show ?thesis using s by (auto simp: handles_ok_def drop_dir_def one_more_apply)
qed

lemma wp_drop_on_err [wp_rules]:
  "wp T (drop_on_err d m) Q E s = wp T m Q (\<lambda>e. wp T d (\<lambda>_. E e) E) s"
  by (simp add: wp_def drop_on_err_def bnd_def split: prod.split res.split)

lemma wp_borrow_mut:
  "wp False m (\<lambda>a s'. Q a (s'\<lparr>borrowed := False\<rparr>)) (\<lambda>e s'. E e (s'\<lparr>borrowed := False\<rparr>)) (s\<lparr>borrowed := True\<rparr>)
   \<Longrightarrow> wp False (borrow_mut m) Q E s"
  by (auto simp: wp_def borrow_mut_def split: prod.splits res.splits)

lemma wp_borrow_ref: "wp False m Q E s \<Longrightarrow> wp False (borrow_ref m) Q E s"
  by (auto simp: wp_def borrow_ref_def split: prod.splits res.splits)

lemma handles_ok_borrowed [simp]: "handles_ok F D z (s\<lparr>borrowed := b\<rparr>) = handles_ok F D z s"
  by (simp add: handles_ok_def)

lemma handles_ok_lists [simp]:
  "handles_ok F D z (s\<lparr>close_files := l\<rparr>) = handles_ok F D z s"
  "handles_ok F D z (s\<lparr>close_dirs := l\<rparr>) = handles_ok F D z s"
  by (simp_all add: handles_ok_def)

section \<open>Closing\<close>

lemma mod_dir_keeps [keeps_intros]:
  "(\<And>d. d_fh (h d) = d_fh d) \<Longrightarrow> keeps (handles_ok F D z) (mod_dir k h)"
  unfolding mod_dir_def by (intro keeps_modify) (auto simp: handles_ok_def)

lemma get_dir_keeps [keeps_intros]: "keeps P (get_dir k)"
  unfolding get_dir_def by (intro keeps_intros)

lemma flush_dir_keeps [keeps_intros]: "keeps (handles_ok F D z) (flush_dir X k)"
  unfolding flush_dir_def by (intro keeps_intros rest_intros) simp

lemma pop_keeps [keeps_intros]:
  "keeps (handles_ok F D z) pop_close_file" "keeps (handles_ok F D z) pop_close_dir"
  by (simp_all add: keeps_def pop_close_file_def pop_close_dir_def split: list.split)

lemma close_file_keeps [keeps_intros]: "keeps (handles_ok F D z) (close_file X ino)"
  unfolding keeps_def
proof (intro allI impI)
  fix s :: "'a donkey_scheme"
  assume s: "handles_ok F D z s"
  let ?P = "\<lambda>s. handles_ok F D z s \<and> file_refs s ino = 0"
  have run: "keeps ?P (with_file ino m)" if "stable rest m" for m :: "(dkfile \<times> 'a donkey_scheme, dk_error, 'x) prog"
    by (rule keeps_conj [OF with_file_keeps [OF that]
          stable_keeps [where R = "\<lambda>r. r ino = 0", OF with_file_refs(1) [OF that]]])
  have del: "keeps ?P (modify (\<lambda>s. s\<lparr>opened_files := (opened_files s)(ino := None)\<rparr>))"
    by (intro keeps_modify conjI) (auto intro: remove_file_ok)
  have "keeps ?P (bnd (with_file ino (flush_file X)) (\<lambda>_.
       bnd (with_file ino (get_file (\<lambda>f. i_nlink (f_inode f)))) (\<lambda>n.
       bnd (if n = 0 then with_file ino (destroy X) else ret ()) (\<lambda>_.
       modify (\<lambda>s. s\<lparr>opened_files := (opened_files s)(ino := None)\<rparr>)))))"
    by (intro keeps_intros run del rest_intros)
  then show "handles_ok F D z (snd (close_file X ino s))"
    using s by (simp add: close_file_def bnd_gets file_unused_def keeps_def)
qed

lemma close_dir_keeps [keeps_intros]: "keeps (handles_ok F D z) (close_dir X ino)"
  unfolding keeps_def
proof (intro allI impI)
  fix s :: "'a donkey_scheme"
  assume s: "handles_ok F D z s"
  have f: "keeps (\<lambda>s. handles_ok F D z s) (flush_dir X ino)" by (intro keeps_intros)
  have del: "handles_ok F D z (drop_file (d_fh d) (t\<lparr>opened_dirs := (opened_dirs t)(ino := None)\<rparr>))"
    if t: "handles_ok F D z t" "opened_dirs t ino = Some d" "dir_refs s ino = 0" for t d
  proof -
    have d: "d_fh d = ino" using handles_okD(3) [OF t(1,2)] .
    have "D ino = 0" using handles_okD(2) [OF s, of ino] t(3) by simp
    moreover have "file_refs t ino = Suc (F ino)" using handles_okD(1) [OF t(1), of ino] t(2) by simp
    ultimately have "handles_ok (one_more F ino) D z (t\<lparr>opened_dirs := (opened_dirs t)(ino := None)\<rparr>)"
      using t(1) by (auto simp: handles_ok_def one_more_apply)
    then show ?thesis unfolding d by (rule drop_file_ok)
  qed
  show "handles_ok F D z (snd (close_dir X ino s))"
  proof (cases "dir_unused ino s")
    case False
    then show ?thesis using s by (simp add: close_dir_def)
  next
    case True
    obtain r t where r: "flush_dir X ino s = (r, t)" by (cases "flush_dir X ino s")
    then have t: "handles_ok F D z t" using keepsD [OF f s] by blast
    show ?thesis
      using True r t del [OF t]
      by (cases r) (auto simp: close_dir_def bnd_def dir_unused_def get_dir_def unwrap_def
          split: option.split)
  qed
qed

lemma close_lists_keeps [keeps_intros]:
  "keeps (handles_ok F D z) (close_files_in_list X)" "keeps (handles_ok F D z) (close_dirs_in_list X)"
proof -
  have "keeps (handles_ok F D z) (close_files_loop X n)" for n
  proof (induction n)
    case 0
    show ?case unfolding close_files_loop.simps by (rule keeps_basic)
  next
    case (Suc n)
    show ?case unfolding close_files_loop.simps by (intro keeps_intros Suc.IH)
  qed
  then show "keeps (handles_ok F D z) (close_files_in_list X)"
    unfolding close_files_in_list_def by (intro keeps_intros)
  have "keeps (handles_ok F D z) (close_dirs_loop X n)" for n
  proof (induction n)
    case 0
    show ?case unfolding close_dirs_loop.simps by (rule keeps_basic)
  next
    case (Suc n)
    show ?case unfolding close_dirs_loop.simps by (intro keeps_intros Suc.IH)
  qed
  then show "keeps (handles_ok F D z) (close_dirs_in_list X)"
    unfolding close_dirs_in_list_def by (intro keeps_intros)
qed

section \<open>Opening\<close>

lemma load_file_ok:
  assumes "handles_ok F D z s" "opened_files s ino = None"
  shows "wp False (load_file X ino) (\<lambda>_ t. handles_ok F D z t \<and> opened_files t ino \<noteq> None)
    (\<lambda>_. handles_ok F D z) s"
proof -
  obtain r t where r: "read_inode X ino s = (r, t)" by (cases "read_inode X ino s")
  have t: "handles_ok F D z t" "opened_files t ino = None"
    using keepsD [OF store_keeps [OF read_inode_rest] assms(1) r]
      store_more_conj [OF stableD [OF read_inode_rest r]] assms(2)
    by simp_all
  show ?thesis
  proof (cases r)
    case (Ok i)
    obtain x f u where x: "read_xattr X (dkfile_new i, t) = (x, (f, u))"
      by (cases "read_xattr X (dkfile_new i, t)") auto
    have "store.more u = store.more t" using stableD [OF read_xattr_rest x] by simp
    note u = store_more_conj [OF this]
    have ok: "handles_ok F D z u" using u t(1) handles_ok_cong [of u t F D z] by simp
    have none: "file_refs u ino = 0" "opened_dirs u ino = None" "F ino = 0"
      using handles_okD(4) [OF ok, of ino] handles_okD(1) [OF ok, of ino] u t(2)
      by (auto split: if_splits)
    show ?thesis
      using ok none r x Ok
      by (cases x) (auto simp: wp_def load_file_def bnd_def handles_ok_def)
  qed (use t r in \<open>auto simp: wp_def load_file_def bnd_def\<close>)
qed

lemma open_file_ok:
  assumes "handles_ok F D z s"
  shows "wp False (open_file X ino fl)
    (\<lambda>h t. handles_ok (one_more F ino) D z t \<and> h = \<lparr>fh_key = ino, fh_flags = fl\<rparr>)
    (\<lambda>_. handles_ok F D z) s"
proof -
  let ?get = "bnd (gets (\<lambda>s. opened_files s ino \<noteq> None)) (\<lambda>present.
       bnd (if present then ret () else load_file X ino) (\<lambda>_.
       bnd (modify (clone_file ino)) (\<lambda>_. ret \<lparr>fh_key = ino, fh_flags = fl\<rparr>)))"
  have get: "wp False ?get
      (\<lambda>h t. handles_ok (one_more F ino) D z t \<and> h = \<lparr>fh_key = ino, fh_flags = fl\<rparr>)
      (\<lambda>_. handles_ok F D z) t" if t: "handles_ok F D z t" for t
  proof (cases "opened_files t ino")
    case None
    have "wp False (bnd (load_file X ino) (\<lambda>_. bnd (modify (clone_file ino)) (\<lambda>_.
        ret \<lparr>fh_key = ino, fh_flags = fl\<rparr>)))
      (\<lambda>h t. handles_ok (one_more F ino) D z t \<and> h = \<lparr>fh_key = ino, fh_flags = fl\<rparr>)
      (\<lambda>_. handles_ok F D z) t"
      unfolding wp_bnd
      by (rule wp_conseq [OF load_file_ok [OF t None]]) (simp_all add: wp_basic clone_file_ok)
    then show ?thesis using None by (simp add: wp_gets wp_bnd)
  qed (use t in \<open>unfold wp_rules, simp add: clone_file_ok\<close>)
  show ?thesis
    unfolding open_file_def wp_bnd
    by (rule wp_conseq [OF keeps_wp [OF close_lists_keeps(1) assms]])
      (use get in \<open>simp_all add: wp_fail\<close>)
qed

lemma close_file_list: "stable close_files (close_file X ino)"
  unfolding close_file_def by (intro stable_intros rest_intros) simp

lemma close_files_dirs [stable_intros]: "stable opened_dirs (close_files_in_list X)"
proof -
  have on_file: "stable opened_dirs (close_file X ino)" for ino
    unfolding close_file_def by (intro stable_intros rest_intros) simp
  have pop: "stable opened_dirs pop_close_file"
    by (simp add: stable_def pop_close_file_def split: list.split)
  have "stable opened_dirs (close_files_loop X n)" for n
  proof (induction n)
    case 0
    show ?case unfolding close_files_loop.simps by (rule stable_basic)
  next
    case (Suc n)
    show ?case unfolding close_files_loop.simps by (intro stable_intros pop on_file Suc.IH)
  qed
  then show ?thesis unfolding close_files_in_list_def by (intro stable_intros)
qed

lemma store_more_dirs: "stable store.more m \<Longrightarrow> stable opened_dirs m"
  using store_more_conj by (auto simp: stable_def)

lemma load_file_dirs [stable_intros]: "stable opened_dirs (load_file X ino)"
  unfolding load_file_def
proof (rule stable_bnd [OF store_more_dirs [OF read_inode_rest]])
  fix i
  have "opened_dirs u = opened_dirs s" if "read_xattr X (dkfile_new i, s) = (x, (f, u))"
    for x f and u s :: "'a donkey_scheme"
    using store_more_conj [of u s] stableD [OF read_xattr_rest that] by simp
  then show "stable opened_dirs (\<lambda>s :: 'a donkey_scheme. case read_xattr X (dkfile_new i, s) of
       (Ok _, (f, s')) \<Rightarrow> (Ok (), s'\<lparr>opened_files := (opened_files s')(ino \<mapsto> f),
         file_refs := (file_refs s')(ino := 0)\<rparr>)
     | (Err e, (f, s')) \<Rightarrow> (Err e, s')
     | (Panic, (f, s')) \<Rightarrow> (Panic, s')
     | (Hang, (f, s')) \<Rightarrow> (Hang, s'))"
    by (auto simp: stable_def split: prod.split res.split)
qed

lemma open_file_dirs [stable_intros]: "stable opened_dirs (open_file X ino fl)"
  unfolding open_file_def by (intro stable_intros) (simp add: clone_file_def)

lemma load_dir_ok:
  assumes "handles_ok F D z s" "opened_dirs s ino = None"
  shows "wp False (load_dir X ino) (\<lambda>_ t. handles_ok F D z t \<and> opened_dirs t ino \<noteq> None)
    (\<lambda>_. handles_ok F D z) s"
proof -
  have enter: "handles_ok F D z (t\<lparr>opened_dirs := (opened_dirs t)(ino \<mapsto>
        \<lparr>d_fh = ino, d_entries = es, d_dirty = False\<rparr>), dir_refs := (dir_refs t)(ino := 0)\<rparr>)"
    if t: "handles_ok (one_more F ino) D z t" "opened_dirs t ino = None" for t es
  proof -
    have "D ino = 0" "file_refs t ino = Suc (F ino)"
      using handles_okD(1) [OF t(1), of ino] handles_okD(5) [OF t(1), of ino] t(2)
      by (auto simp: one_more_apply)
    moreover have "\<exists>f. opened_files t k = Some f" if "0 < file_refs t k" for k
      using handles_okD(4) [OF t(1) that] .
    ultimately show ?thesis using t(1) by (auto simp: handles_ok_def one_more_apply)
  qed
  let ?P = "\<lambda>t. handles_ok (one_more F ino) D z t \<and> opened_dirs t ino = None"
  have on_file: "keeps ?P (with_file ino m)" if "stable rest m"
    for m :: "(dkfile \<times> 'a donkey_scheme, dk_error, 'x) prog"
    by (rule keeps_conj [OF with_file_keeps [OF that]
          stable_keeps [where R = "\<lambda>d. d ino = None", OF with_file_refs(3) [OF that]]])
  have opened: "wp False (open_file X ino READ_WRITE)
     (\<lambda>h t. (handles_ok (one_more F ino) D z t \<and> h = \<lparr>fh_key = ino, fh_flags = READ_WRITE\<rparr>) \<and> opened_dirs t = opened_dirs s)
     (\<lambda>_ t. handles_ok F D z t \<and> opened_dirs t = opened_dirs s) s"
    by (rule wp_conj [OF open_file_ok [OF assms(1)] stable_wp [OF open_file_dirs]])
  have body: "wp False (bnd (with_file ino (get_file (\<lambda>f. is_directory (i_mode (f_inode f))))) (\<lambda>isdir.
        if \<not> isdir then fail NotDirectory
        else bnd (with_file ino (read_dir X [])) (\<lambda>entries.
          modify (\<lambda>s. s\<lparr>opened_dirs := (opened_dirs s)(ino \<mapsto>
              \<lparr>d_fh = ino, d_entries = entries, d_dirty = False\<rparr>),
            dir_refs := (dir_refs s)(ino := 0)\<rparr>))))
      (\<lambda>_ t. handles_ok F D z t \<and> opened_dirs t ino \<noteq> None)
      (\<lambda>_. handles_ok (one_more F ino) D z) t" if t: "?P t" for t
    unfolding wp_bnd
    by (rule wp_conseq [OF keeps_wp [OF on_file [OF file_access_rest(1)] t]])
      (auto simp: wp_fail wp_bnd wp_modify enter
        intro!: wp_conseq [OF keeps_wp [OF on_file [OF read_dir_rest]]])
  show ?thesis
    unfolding load_dir_def
  proof (subst wp_bnd, rule wp_conseq [OF opened], goal_cases)
    case (1 fh t)
    then have t: "?P t" and fh: "fh = \<lparr>fh_key = ino, fh_flags = READ_WRITE\<rparr>" using assms(2) by auto
    show ?case
      unfolding fh file_handle.simps wp_drop_on_err
      by (rule wp_conseq [OF body [OF t]]) (simp_all add: wp_modify drop_file_ok)
  next
    case (2 e t)
    then show ?case by simp
  qed
qed

lemma open_dir_ok:
  assumes "handles_ok F D z s"
  shows "wp False (open_dir X ino)
    (\<lambda>h t. handles_ok F (one_more D ino) z t \<and> dh_key h = ino) (\<lambda>_. handles_ok F D z) s"
proof -
  have last: "wp False (bnd (get_dir ino) (\<lambda>d. bnd (modify (clone_dir ino)) (\<lambda>_.
        ret \<lparr>dh_key = ino, dh_entries = d_entries d\<rparr>)))
      (\<lambda>h t. handles_ok F (one_more D ino) z t \<and> dh_key h = ino) (\<lambda>_. handles_ok F D z) t"
    if "handles_ok F D z t" "opened_dirs t ino \<noteq> None" for t
    using that unfolding get_dir_def wp_rules by (auto intro!: clone_dir_ok)
  have "wp False (bnd (gets (\<lambda>s. opened_dirs s ino \<noteq> None)) (\<lambda>present.
     bnd (if present then ret () else load_dir X ino) (\<lambda>_.
     bnd (get_dir ino) (\<lambda>d. bnd (modify (clone_dir ino)) (\<lambda>_.
        ret \<lparr>dh_key = ino, dh_entries = d_entries d\<rparr>)))))
      (\<lambda>h t. handles_ok F (one_more D ino) z t \<and> dh_key h = ino) (\<lambda>_. handles_ok F D z) t"
    if t: "handles_ok F D z t" for t
  proof (cases "opened_dirs t ino")
    case None
    have "wp False (bnd (load_dir X ino) (\<lambda>_. bnd (get_dir ino) (\<lambda>d. bnd (modify (clone_dir ino)) (\<lambda>_.
        ret \<lparr>dh_key = ino, dh_entries = d_entries d\<rparr>))))
      (\<lambda>h t. handles_ok F (one_more D ino) z t \<and> dh_key h = ino) (\<lambda>_. handles_ok F D z) t"
      by (subst wp_bnd, rule wp_conseq [OF load_dir_ok [OF t None]]) (auto intro!: last)
    then show ?thesis using None by (subst wp_bnd, subst wp_gets) simp
  next
    case (Some d)
    then show ?thesis using last [OF t]
      by (subst wp_bnd, subst wp_gets, subst wp_bnd) (simp add: wp_ret)
  qed
  then show ?thesis
    unfolding open_dir_def
    by (subst wp_bnd) (rule wp_conseq [OF keeps_wp [OF close_lists_keeps(2) assms]])
qed

section \<open>A calculus of balances\<close>

text \<open>
  \<open>balance z P m Q E\<close>: from a state with the outside handles \<open>P\<close> (of files and of directories) \<open>m\<close> leads to
  one with \<open>Q a\<close> when it returns \<open>a\<close>, and to one with \<open>E\<close> when it fails.
\<close>

type_synonym holdings = "(nat \<Rightarrow> nat) \<times> (nat \<Rightarrow> nat)"

named_theorems balance_intros \<open>rules of the calculus of balances\<close>

definition balance ::
  "'z \<Rightarrow> holdings \<Rightarrow> ('z donkey_scheme, 'e, 'a) prog \<Rightarrow> ('a \<Rightarrow> holdings) \<Rightarrow> holdings \<Rightarrow> bool" where
  "balance z P m Q E \<longleftrightarrow> (\<forall>s. handles_ok (fst P) (snd P) z s \<longrightarrow>
     wp False m (\<lambda>a. handles_ok (fst (Q a)) (snd (Q a)) z) (\<lambda>_. handles_ok (fst E) (snd E) z) s)"

lemma balance_keeps: "(\<And>F D. keeps (handles_ok F D z) m) \<Longrightarrow> balance z P m (\<lambda>_. P) P"
  unfolding balance_def by (intro allI impI keeps_wp)

lemma balanceD:
  "balance z P m Q E \<Longrightarrow> handles_ok (fst P) (snd P) z s \<Longrightarrow>
   wp False m (\<lambda>a. handles_ok (fst (Q a)) (snd (Q a)) z) (\<lambda>_. handles_ok (fst E) (snd E) z) s"
  by (simp add: balance_def)

lemma balance_bnd [balance_intros]:
  assumes "balance z P m R E" "\<And>a. balance z (R a) (f a) Q E"
  shows "balance z P (bnd m f) Q E"
  unfolding balance_def wp_bnd
  by (intro allI impI, rule wp_conseq [OF balanceD [OF assms(1)]], assumption,
      rule balanceD [OF assms(2)], assumption, assumption)

lemma balance_basic:
  "balance z P (ret a) (\<lambda>_. P) E" "balance z P (fail e) Q P" "balance z P (gets g) (\<lambda>_. P) E"
  "balance z P (lift_res r) (\<lambda>_. P) P"
  by (auto simp: balance_def wp_ret wp_fail wp_gets wp_lift_res split: res.split)

lemma balance_ret [balance_intros]: "P = Q a \<Longrightarrow> balance z P (ret a) Q E"
  by (simp add: balance_def wp_ret)

lemma balance_if [balance_intros]:
  "(c \<Longrightarrow> balance z P m Q E) \<Longrightarrow> (\<not> c \<Longrightarrow> balance z P n Q E) \<Longrightarrow> balance z P (if c then m else n) Q E"
  by simp

lemma balance_option [balance_intros]:
  "(x = None \<Longrightarrow> balance z P m Q E) \<Longrightarrow> (\<And>a. x = Some a \<Longrightarrow> balance z P (f a) Q E) \<Longrightarrow>
   balance z P (case x of None \<Rightarrow> m | Some a \<Rightarrow> f a) Q E"
  by (cases x) auto

lemma balance_borrow [balance_intros]:
  "balance z P m Q E \<Longrightarrow> balance z P (borrow_mut m) Q E"
  unfolding balance_def
  by (intro allI impI wp_borrow_mut) (simp add: wp_conseq)

lemma balance_attempt [balance_intros]: "balance z P m (\<lambda>_. P) P \<Longrightarrow> balance z P (attempt m) (\<lambda>_. P) P"
  unfolding balance_def wp_attempt by simp

lemma balance_open_file [balance_intros]:
  "balance z (F, D) (open_file X ino fl) (\<lambda>h. (one_more F (fh_key h), D)) (F, D)"
  unfolding balance_def by (auto intro!: wp_conseq [OF open_file_ok])

lemma balance_open_dir [balance_intros]:
  "balance z (F, D) (open_dir X ino) (\<lambda>h. (F, one_more D (dh_key h))) (F, D)"
  unfolding balance_def by (auto intro!: wp_conseq [OF open_dir_ok])

lemma balance_drop_file [balance_intros]:
  "balance z (one_more F k, D) m (\<lambda>_. (one_more F k, D)) (one_more F k, D) \<Longrightarrow>
   balance z (one_more F k, D) (dropping (drop_file k) m) (\<lambda>_. (F, D)) (F, D)"
  unfolding balance_def [of _ _ "dropping d m" for d] wp_dropping
  by (intro allI impI, erule wp_conseq [OF balanceD], assumption) (simp_all add: drop_file_ok)

lemma balance_drop_dir [balance_intros]:
  "balance z (F, one_more D k) m (\<lambda>_. (F, one_more D k)) (F, one_more D k) \<Longrightarrow>
   balance z (F, one_more D k) (dropping (drop_dir k) m) (\<lambda>_. (F, D)) (F, D)"
  unfolding balance_def [of _ _ "dropping d m" for d] wp_dropping
  by (intro allI impI, erule wp_conseq [OF balanceD], assumption) (simp_all add: drop_dir_ok)

lemma balance_drop_dir_on_err [balance_intros]:
  assumes "balance z P m Q (F, one_more D k)"
  shows "balance z P (drop_on_err (modify (drop_dir k)) m) Q (F, D)"
  unfolding balance_def wp_drop_on_err wp_modify
proof (intro allI impI)
  fix s :: "'a donkey_scheme"
  assume "handles_ok (fst P) (snd P) z s"
  then have "wp False m (\<lambda>a. handles_ok (fst (Q a)) (snd (Q a)) z) (\<lambda>_. handles_ok F (one_more D k) z) s"
    using assms by (simp add: balance_def)
  then show "wp False m (\<lambda>a. handles_ok (fst (Q a)) (snd (Q a)) z)
      (\<lambda>_ s. handles_ok (fst (F, D)) (snd (F, D)) z (drop_dir k s)) s"
    by (rule wp_conseq) (simp_all add: drop_dir_ok)
qed

lemma balance_clone_dir [balance_intros]:
  "balance z (F, one_more D k) (modify (clone_dir k)) (\<lambda>_. (F, one_more (one_more D k) k)) E"
  unfolding balance_def wp_modify
proof (intro allI impI)
  fix s :: "'a donkey_scheme"
  assume s: "handles_ok (fst (F, one_more D k)) (snd (F, one_more D k)) z s"
  then have "opened_dirs s k \<noteq> None" using handles_okD(5) [OF s, of k] by (simp add: one_more_apply)
  then show "handles_ok (fst (F, one_more (one_more D k) k)) (snd (F, one_more (one_more D k) k)) z (clone_dir k s)"
    using s by (simp add: clone_dir_ok)
qed

lemma balance_clone_file [balance_intros]:
  "balance z (one_more F k, D) (modify (clone_file k)) (\<lambda>_. (one_more (one_more F k) k, D)) E"
  unfolding balance_def wp_modify
proof (intro allI impI)
  fix s :: "'a donkey_scheme"
  assume s: "handles_ok (fst (one_more F k, D)) (snd (one_more F k, D)) z s"
  then have "0 < file_refs s k" using handles_okD(1) [OF s, of k] by (simp add: one_more_apply)
  then show "handles_ok (fst (one_more (one_more F k) k, D)) (snd (one_more (one_more F k) k, D)) z (clone_file k s)"
    using s handles_okD(4) [OF s] by (auto intro!: clone_file_ok)
qed

section \<open>Operations of the \<open>Donkey\<close>\<close>

lemma touch_dir_keeps [keeps_intros]: "keeps (handles_ok F D z) (touch_dir X k)"
  unfolding touch_dir_def by (intro keeps_intros rest_intros)

lemma entry_keeps:
  "keeps (handles_ok F D z) (add_entry X k name ino)" "keeps (handles_ok F D z) (remove_entry X k name)"
  unfolding add_entry_def remove_entry_def Let_def by (intro keeps_intros; simp)+

lemma mknod_keeps: "keeps (handles_ok F D z) (mknod X mode uid gid nlink rdev)"
  unfolding mknod_def Let_def by (intro keeps_intros)

lemma change_nlink_keeps:
  "(\<And>n. keeps (handles_ok F D z) (f n)) \<Longrightarrow> keeps (handles_ok F D z) (change_nlink X f k)"
  unfolding change_nlink_def by (intro keeps_intros rest_intros)

lemmas neutral [balance_intros] =
  entry_keeps [THEN balance_keeps] mknod_keeps [THEN balance_keeps]
  close_lists_keeps [THEN balance_keeps]
  change_nlink_keeps [OF keeps_pure(1), THEN balance_keeps]
  change_nlink_keeps [OF keeps_pure(2), THEN balance_keeps]

lemma balance_link [balance_intros]:
  "balance z (F, one_more D (dh_key parent)) (link X ino parent name) (\<lambda>_. (F, D)) (F, D)"
  unfolding link_def by (rule balance_intros)+

lemma balance_unlink [balance_intros]:
  "balance z (F, one_more D (dh_key parent)) (unlink X parent name) (\<lambda>_. (F, D)) (F, D)"
  unfolding unlink_def by (rule balance_intros refl)+

lemma balance_mkdir [balance_intros]:
  "balance z (F, D) (mkdir X parent mode uid gid) (\<lambda>_. (F, D)) (F, D)"
  unfolding mkdir_def by (rule balance_intros refl)+

section \<open>Operations of the interface\<close>

lemma with_file_bal [balance_intros]: "stable rest m \<Longrightarrow> balance z P (with_file k m) (\<lambda>_. P) P"
  by (intro balance_keeps keeps_intros)

lemma borrow_ref_keeps [keeps_intros]:
  "keeps (handles_ok F D z) m \<Longrightarrow> keeps (handles_ok F D z) (borrow_ref m)"
  by (simp add: keeps_def borrow_ref_def)

lemma balance_statfs [balance_intros]: "balance z P h_statfs (\<lambda>_. P) P"
  unfolding h_statfs_def by (intro balance_keeps keeps_intros)

lemma balance_check_name [balance_intros]: "balance z P (check_name n) (\<lambda>_. P) P"
  unfolding check_name_def by (auto intro: balance_basic)

lemma balance_h_open [balance_intros]:
  "balance z (F, D) (h_open X ino fl) (\<lambda>h. (one_more F (fh_key h), D)) (F, D)"
  unfolding h_open_def by (rule balance_intros)+

lemma balance_h_opendir [balance_intros]:
  "balance z (F, D) (h_opendir X ino) (\<lambda>h. (F, one_more D (dh_key h))) (F, D)"
  unfolding h_opendir_def by (rule balance_intros)+

lemma balance_pure [balance_intros]:
  "balance z P (ck_mul a b) (\<lambda>_. P) E" "balance z P (ck_add c d) (\<lambda>_. P) E"
  by (auto simp: balance_def wp_checked)

lemma balance_fail [balance_intros]: "balance z P (fail e) Q P"
  by (rule balance_basic)

lemma balance_h_getattr [balance_intros]: "balance z (F, D) (h_getattr X ino) (\<lambda>_. (F, D)) (F, D)"
  unfolding h_getattr_def by (rule balance_intros rest_intros refl)+

lemma balance_h_apply_releases [balance_intros]: "balance z P (h_apply_releases X) (\<lambda>_. P) P"
  unfolding h_apply_releases_def by (rule balance_intros)+

lemma balance_h_lookup [balance_intros]: "balance z (F, D) (h_lookup X ino name) (\<lambda>_. (F, D)) (F, D)"
  unfolding h_lookup_def by (rule balance_intros)+

lemma balance_h_readdir [balance_intros]:
  "balance z (F, one_more D (dh_key dir)) (h_readdir dir n) (\<lambda>_. (F, D)) (F, D)"
  unfolding h_readdir_def by (rule balance_intros refl)+

lemma balance_h_create [balance_intros]:
  "balance z (F, D) (h_mknod X uid gid parent name mode rdev) (\<lambda>_. (F, D)) (F, D)"
  "balance z (F, D) (h_link X ino parent name) (\<lambda>_. (F, D)) (F, D)"
  "balance z (F, D) (h_mkdir X parent uid gid name mode) (\<lambda>_. (F, D)) (F, D)"
  unfolding h_mknod_def h_link_def h_mkdir_def by (rule balance_intros)+

lemma balance_h_file [balance_intros]:
  "balance z (one_more F (fh_key fh), D) (h_flush X fh) (\<lambda>_. (F, D)) (F, D)"
  "balance z (one_more F (fh_key fh), D) (h_read X fh off n) (\<lambda>_. (F, D)) (F, D)"
  "balance z (one_more F (fh_key fh), D) (h_write X fh off data) (\<lambda>_. (F, D)) (F, D)"
  unfolding h_flush_def h_read_def h_write_def by (rule balance_intros stable_intros rest_intros)+

lemma balance_h_fsync [balance_intros]:
  "balance z (one_more F (fh_key fh), D) (h_fsync X fh datasync) (\<lambda>_. (F, D)) (F, D)"
  unfolding h_fsync_def by (rule balance_intros refl)+

lemma balance_get_dir_clone:
  assumes "\<And>d. balance z (one_more F (d_fh d), D) (g d) Q (F, D)"
  shows "balance z (F, D) (bnd (get_dir k) (\<lambda>d. bnd (modify (clone_file (d_fh d))) (\<lambda>_. g d))) Q (F, D)"
  unfolding balance_def
proof (intro allI impI)
  fix s :: "'a donkey_scheme"
  assume s: "handles_ok (fst (F, D)) (snd (F, D)) z s"
  show "wp False (bnd (get_dir k) (\<lambda>d. bnd (modify (clone_file (d_fh d))) (\<lambda>_. g d)))
     (\<lambda>a. handles_ok (fst (Q a)) (snd (Q a)) z) (\<lambda>_. handles_ok (fst (F, D)) (snd (F, D)) z) s"
  proof (cases "opened_dirs s k")
    case None
    then show ?thesis by (simp add: get_dir_def wp_def bnd_def)
  next
    case (Some d)
    then obtain f where "opened_files s (d_fh d) = Some f"
      using handles_ok_dir [of F D z s k] s by auto
    then have "handles_ok (one_more F (d_fh d)) D z (clone_file (d_fh d) s)"
      using clone_file_ok [of F D z s "d_fh d"] s by simp
    then show ?thesis
      using balanceD [OF assms, of d "clone_file (d_fh d) s"] Some by (simp add: get_dir_def wp_def bnd_def)
  qed
qed

lemma flush_dir_bal [balance_intros]: "balance z P (flush_dir X k) (\<lambda>_. P) P"
  by (intro balance_keeps keeps_intros)

lemma balance_h_fsyncdir [balance_intros]:
  "balance z (F, one_more D (dh_key dh)) (h_fsyncdir X dh datasync) (\<lambda>_. (F, D)) (F, D)"
  unfolding h_fsyncdir_def
  by (rule balance_intros balance_get_dir_clone balance_h_fsync [where fh = "\<lparr>fh_key = k, fh_flags = fl\<rparr>" for k fl, simplified])+

lemma set_attr_bal [balance_intros]: "balance z P (set_attr k v upd m) (\<lambda>_. P) P"
  unfolding set_attr_def by (rule balance_intros rest_intros refl)+

lemma now_bal [balance_intros]: "balance z P (now X) (\<lambda>_. P) P"
  by (intro balance_keeps keeps_intros)

lemma balance_h_setattr:
  "balance z (one_more F (fh_key fh), D) (h_setattr X ino (Some fh) rq) (\<lambda>_. (F, D)) (F, D)"
  "balance z (F, D) (h_setattr X ino None rq) (\<lambda>_. (F, D)) (F, D)"
  unfolding h_setattr_def Let_def option.case bnd_ret
  by (rule balance_intros rest_intros refl)+

lemma balance_h_xattr [balance_intros]:
  "balance z (F, D) (h_getxattr X ino name) (\<lambda>_. (F, D)) (F, D)"
  "balance z (F, D) (h_listxattr X ino) (\<lambda>_. (F, D)) (F, D)"
  "balance z (F, D) (h_setxattr X ino name v) (\<lambda>_. (F, D)) (F, D)"
  "balance z (F, D) (h_removexattr X ino name) (\<lambda>_. (F, D)) (F, D)"
  unfolding h_getxattr_def h_listxattr_def h_setxattr_def h_removexattr_def
  by (rule balance_intros stable_intros rest_intros)+

lemma balance_h_unlink [balance_intros]: "balance z (F, D) (h_unlink X parent name) (\<lambda>_. (F, D)) (F, D)"
  unfolding h_unlink_def by (rule balance_intros)+

lemma balance_h_rmdir [balance_intros]: "balance z (F, D) (h_rmdir X parent name) (\<lambda>_. (F, D)) (F, D)"
  unfolding h_rmdir_def by (rule balance_intros)+

lemma balance_h_rename [balance_intros]:
  "balance z (F, D) (h_rename X parent name parent' name') (\<lambda>_. (F, D)) (F, D)"
  unfolding h_rename_def by (rule balance_intros refl)+

lemma balance_symlink_loop [balance_intros]:
  "balance z (one_more F (fh_key fh), D) (symlink_loop X fh bytes n offset)
     (\<lambda>_. (one_more F (fh_key fh), D)) (one_more F (fh_key fh), D)"
proof (induction n arbitrary: offset)
  case 0
  show ?case by (auto simp: balance_def wp_basic)
next
  case (Suc n)
  show ?case
    unfolding symlink_loop.simps by (rule Suc.IH balance_intros refl)+
qed

lemma balance_h_symlink [balance_intros]:
  "balance z (F, D) (h_symlink X uid gid parent name target) (\<lambda>_. (F, D)) (F, D)"
  unfolding h_symlink_def by (rule balance_intros)+

lemma balance_h_clear_set_bits [balance_intros]:
  "balance z P (h_clear_set_bits fh) (\<lambda>_. P) P"
  unfolding h_clear_set_bits_def Let_def by (rule balance_intros rest_intros refl)+

end
