(* ===== verification/FuseHandles.thy ===== *)
theory FuseHandles
  imports Handles
begin

text \<open>
  Reference counting seen from the mount program: between two requests the only handles are those
  that the kernel has opened and not released, and the counters of the tables agree with the two hash
  maps that hold them.
\<close>

definition held :: "('h \<Rightarrow> nat) \<Rightarrow> (nat \<rightharpoonup> 'h) \<Rightarrow> nat \<Rightarrow> nat" where
  "held key m k = card {u. \<exists>h. m u = Some h \<and> key h = k}"

abbreviation held_files :: "(nat \<rightharpoonup> file_handle) \<Rightarrow> nat \<Rightarrow> nat" where
  "held_files \<equiv> held fh_key"

abbreviation held_dirs :: "(nat \<rightharpoonup> dir_handle) \<Rightarrow> nat \<Rightarrow> nat" where
  "held_dirs \<equiv> held dh_key"

definition fuse_ok :: "'z fuse_scheme \<Rightarrow> bool" where
  "fuse_ok s \<longleftrightarrow> finite (dom (file_fh s)) \<and> finite (dom (dir_fh s)) \<and>
     handles_ok (held_files (file_fh s)) (held_dirs (dir_fh s)) (donkey.more s) s"

lemma donkey_more_fuse:
  "donkey.more s = donkey.more (t :: 'z fuse_scheme) \<Longrightarrow> file_fh s = file_fh t \<and> dir_fh s = dir_fh t"
  by (cases s, cases t) simp

lemma fuse_ok_transfer:
  assumes "fuse_ok s" "handles_ok (held_files (file_fh s)) (held_dirs (dir_fh s)) (donkey.more s) t"
  shows "fuse_ok t"
proof -
  have "donkey.more t = donkey.more s" using handles_okD(6) [OF assms(2)] .
  then have "file_fh t = file_fh s" "dir_fh t = dir_fh s" using donkey_more_fuse by blast+
  then show ?thesis using assms \<open>donkey.more t = donkey.more s\<close> by (simp add: fuse_ok_def)
qed

section \<open>The hash maps\<close>

lemma held_insert:
  assumes "finite (dom m)"
  shows "held key (m(u \<mapsto> h)) = one_more (held key (m(u := None))) (key h)"
proof
  fix k
  define A where "A = {v. v \<noteq> u \<and> (\<exists>g. m v = Some g \<and> key g = k)}"
  have A: "finite A" "u \<notin> A"
    using finite_subset [OF _ assms, of A] by (auto simp: A_def)
  have "{v. \<exists>g. (m(u \<mapsto> h)) v = Some g \<and> key g = k} = (if k = key h then insert u A else A)"
    and "{v. \<exists>g. (m(u := None)) v = Some g \<and> key g = k} = A"
    by (auto simp: A_def)
  then show "held key (m(u \<mapsto> h)) k = one_more (held key (m(u := None))) (key h) k"
    using A unfolding held_def one_more_apply by auto
qed

lemma held_take:
  "finite (dom m) \<Longrightarrow> m u = Some h \<Longrightarrow> held key m = one_more (held key (m(u := None))) (key h)"
  using held_insert [of m key u h] by (simp add: fun_upd_idem)

lemma held_fresh:
  "finite (dom m) \<Longrightarrow> m u = None \<Longrightarrow> held key (m(u \<mapsto> h)) = one_more (held key m) (key h)"
  using held_insert [of m key u h] by (simp add: fun_upd_idem)

lemma one_more_commute: "one_more (one_more F a) b = one_more (one_more F b) a"
  by (auto simp: one_more_apply fun_eq_iff)

lemma held_replace:
  "finite (dom m) \<Longrightarrow> m u = Some old \<Longrightarrow>
   one_more (held key m) (key h) = one_more (held key (m(u \<mapsto> h))) (key old)"
  by (simp only: held_take [of m u old key] held_insert [of m key u h] one_more_commute)

lemma handles_ok_maps [simp]:
  "handles_ok F D z (s\<lparr>file_fh := m\<rparr>) \<longleftrightarrow> handles_ok F D (donkey.more s) s \<and> z = donkey.more (s\<lparr>file_fh := m\<rparr>)"
  "handles_ok F D z (s\<lparr>dir_fh := m'\<rparr>) \<longleftrightarrow> handles_ok F D (donkey.more s) s \<and> z = donkey.more (s\<lparr>dir_fh := m'\<rparr>)"
  by (auto simp: handles_ok_def)

lemma drop_file_maps [simp]:
  "file_fh (drop_file k s) = file_fh s" "dir_fh (drop_file k s) = dir_fh s"
  "donkey.more (drop_file k s) = donkey.more s"
  by (auto simp: drop_file_def split: option.split)

lemma drop_dir_maps [simp]:
  "file_fh (drop_dir k s) = file_fh s" "dir_fh (drop_dir k s) = dir_fh s"
  "donkey.more (drop_dir k s) = donkey.more s"
  by (auto simp: drop_dir_def split: option.split)

lemma insert_file_fh_ok:
  assumes "finite (dom (file_fh s))" "finite (dom (dir_fh s))"
    "handles_ok (one_more (held_files (file_fh s)) (fh_key h)) (held_dirs (dir_fh s)) (donkey.more s) s"
  shows "fuse_ok (insert_file_fh u h s)"
proof -
  let ?t = "s\<lparr>file_fh := (file_fh s)(u \<mapsto> h)\<rparr>"
  show ?thesis
  proof (cases "file_fh s u")
    case None
    then show ?thesis
      using assms held_fresh [OF assms(1) None, of fh_key h] by (simp add: insert_file_fh_def fuse_ok_def)
  next
    case (Some old)
    have "handles_ok (one_more (held_files ((file_fh s)(u \<mapsto> h))) (fh_key old)) (held_dirs (dir_fh s))
        (donkey.more ?t) ?t"
      using assms(3) held_replace [OF assms(1) Some, of fh_key h] by simp
    from drop_file_ok [OF this] show ?thesis
      using Some assms(1,2) by (simp add: insert_file_fh_def fuse_ok_def)
  qed
qed

lemma insert_dir_fh_ok:
  assumes "finite (dom (file_fh s))" "finite (dom (dir_fh s))"
    "handles_ok (held_files (file_fh s)) (one_more (held_dirs (dir_fh s)) (dh_key h)) (donkey.more s) s"
  shows "fuse_ok (insert_dir_fh u h s)"
proof -
  let ?t = "s\<lparr>dir_fh := (dir_fh s)(u \<mapsto> h)\<rparr>"
  show ?thesis
  proof (cases "dir_fh s u")
    case None
    then show ?thesis
      using assms held_fresh [OF assms(2) None, of dh_key h] by (simp add: insert_dir_fh_def fuse_ok_def)
  next
    case (Some old)
    have "handles_ok (held_files (file_fh s)) (one_more (held_dirs ((dir_fh s)(u \<mapsto> h))) (dh_key old))
        (donkey.more ?t) ?t"
      using assms(3) held_replace [OF assms(2) Some, of dh_key h] by simp
    from drop_dir_ok [OF this] show ?thesis
      using Some assms(1,2) by (simp add: insert_dir_fh_def fuse_ok_def)
  qed
qed

lemma remove_file_fh_ok:
  assumes "fuse_ok s" "file_fh s u = Some h"
  shows "fuse_ok (drop_file (fh_key h) (s\<lparr>file_fh := (file_fh s)(u := None)\<rparr>))"
proof -
  let ?t = "s\<lparr>file_fh := (file_fh s)(u := None)\<rparr>"
  have "handles_ok (one_more (held_files ((file_fh s)(u := None))) (fh_key h)) (held_dirs (dir_fh s))
      (donkey.more ?t) ?t"
    using assms held_take [of "file_fh s" u h fh_key] by (simp add: fuse_ok_def)
  from drop_file_ok [OF this] show ?thesis using assms(1) by (simp add: fuse_ok_def)
qed

lemma remove_dir_fh_ok:
  assumes "fuse_ok s" "dir_fh s u = Some h"
  shows "fuse_ok (drop_dir (dh_key h) (s\<lparr>dir_fh := (dir_fh s)(u := None)\<rparr>))"
proof -
  let ?t = "s\<lparr>dir_fh := (dir_fh s)(u := None)\<rparr>"
  have "handles_ok (held_files (file_fh s)) (one_more (held_dirs ((dir_fh s)(u := None))) (dh_key h))
      (donkey.more ?t) ?t"
    using assms held_take [of "dir_fh s" u h dh_key] by (simp add: fuse_ok_def)
  from drop_dir_ok [OF this] show ?thesis using assms(1) by (simp add: fuse_ok_def)
qed

section \<open>Handlers\<close>

lemma wp_respond [wp_rules]:
  "wp T (respond m f) Q E s =
   wp T m (\<lambda>a. wp T (f a) Q E) (\<lambda>e. Q (RError (errno_of e))) s"
  by (simp add: wp_def respond_def reply_error_def split: prod.split res.split)

definition safe :: "'z handler \<Rightarrow> bool" where
  "safe h \<longleftrightarrow> (\<forall>s. fuse_ok s \<longrightarrow> wp False h (\<lambda>_. fuse_ok) (\<lambda>_. fuse_ok) s)"

lemma safeI: "(\<And>s. fuse_ok s \<Longrightarrow> wp False h (\<lambda>_. fuse_ok) (\<lambda>_. fuse_ok) s) \<Longrightarrow> safe h"
  by (simp add: safe_def)

lemma safeD: "safe h \<Longrightarrow> fuse_ok s \<Longrightarrow> wp False h (\<lambda>_. fuse_ok) (\<lambda>_. fuse_ok) s"
  by (simp add: safe_def)

lemma safe_ret: "safe (ret r)"
  by (simp add: safe_def wp_ret)

lemma safe_replies:
  "safe (reply_error e)" "safe (reply_entry req st)" "safe (reply_attr st)" "safe (reply_ok u)"
  "safe (reply_xattr sz v)"
  unfolding reply_error_def reply_entry_def reply_attr_def reply_ok_def reply_xattr_def
  by (auto simp: safe_def wp_rules split: res.split)

text \<open>An operation that is neutral, answered by a safe reply.\<close>

lemma safe_respond:
  assumes "\<And>z F D. balance z (F, D) m (\<lambda>_. (F, D)) (F, D)" "\<And>a. safe (f a)"
  shows "safe (respond m f)"
proof (rule safeI)
  fix s :: "'a fuse_scheme"
  assume s: "fuse_ok s"
  let ?H = "handles_ok (held_files (file_fh s)) (held_dirs (dir_fh s)) (donkey.more s)"
  have "wp False m (\<lambda>_. ?H) (\<lambda>_. ?H) s"
    using balanceD [OF assms(1), of "held_files (file_fh s)" "held_dirs (dir_fh s)" "donkey.more s" s] s
    by (simp add: fuse_ok_def)
  then show "wp False (respond m f) (\<lambda>_. fuse_ok) (\<lambda>_. fuse_ok) s"
    unfolding wp_respond
    by (rule wp_conseq) (auto intro: safeD [OF assms(2)] fuse_ok_transfer [OF s])
qed

text \<open>An operation that consumes a clone of a handle of the kernel.\<close>

lemma cloned_file_wp:
  assumes "\<And>z F D. balance z (one_more F (fh_key h), D) m (\<lambda>_. (F, D)) (F, D)" "\<And>a. safe (f a)"
    and s: "fuse_ok s" "file_fh s u = Some h"
  shows "wp False (respond m f) (\<lambda>_. fuse_ok) (\<lambda>_. fuse_ok) (clone_file (fh_key h) s)"
proof -
  let ?F = "held_files (file_fh s)" and ?D = "held_dirs (dir_fh s)" and ?z = "donkey.more s"
  have ok: "handles_ok ?F ?D ?z s" and fin: "finite (dom (file_fh s))" using s(1) by (simp_all add: fuse_ok_def)
  have "0 < ?F (fh_key h)" using held_take [OF fin s(2), of fh_key] by (simp add: one_more_apply)
  then have "opened_files s (fh_key h) \<noteq> None"
    using handles_okD(1) [OF ok, of "fh_key h"] handles_okD(4) [OF ok, of "fh_key h"] by auto
  then have "handles_ok (one_more ?F (fh_key h)) ?D ?z (clone_file (fh_key h) s)"
    by (rule clone_file_ok [OF ok])
  then have "wp False m (\<lambda>_. handles_ok ?F ?D ?z) (\<lambda>_. handles_ok ?F ?D ?z) (clone_file (fh_key h) s)"
    using balanceD [OF assms(1), of ?F ?D ?z "clone_file (fh_key h) s"] by simp
  then show ?thesis
    unfolding wp_respond
    by (rule wp_conseq) (auto intro: safeD [OF assms(2)] fuse_ok_transfer [OF s(1)])
qed

lemma cloned_dir_wp:
  assumes "\<And>z F D. balance z (F, one_more D (dh_key h)) m (\<lambda>_. (F, D)) (F, D)" "\<And>a. safe (f a)"
    and s: "fuse_ok s" "dir_fh s u = Some h"
  shows "wp False (respond m f) (\<lambda>_. fuse_ok) (\<lambda>_. fuse_ok) (clone_dir (dh_key h) s)"
proof -
  let ?F = "held_files (file_fh s)" and ?D = "held_dirs (dir_fh s)" and ?z = "donkey.more s"
  have ok: "handles_ok ?F ?D ?z s" and fin: "finite (dom (dir_fh s))" using s(1) by (simp_all add: fuse_ok_def)
  have "0 < ?D (dh_key h)" using held_take [OF fin s(2), of dh_key] by (simp add: one_more_apply)
  then have "opened_dirs s (dh_key h) \<noteq> None" using handles_okD(5) [OF ok] by blast
  then have "handles_ok ?F (one_more ?D (dh_key h)) ?z (clone_dir (dh_key h) s)"
    by (rule clone_dir_ok [OF ok])
  then have "wp False m (\<lambda>_. handles_ok ?F ?D ?z) (\<lambda>_. handles_ok ?F ?D ?z) (clone_dir (dh_key h) s)"
    using balanceD [OF assms(1), of ?F ?D ?z "clone_dir (dh_key h) s"] by simp
  then show ?thesis
    unfolding wp_respond
    by (rule wp_conseq) (auto intro: safeD [OF assms(2)] fuse_ok_transfer [OF s(1)])
qed

lemma safe_with_file_fh:
  assumes "\<And>h z F D. balance z (one_more F (fh_key h), D) (m h) (\<lambda>_. (F, D)) (F, D)" "\<And>h a. safe (f h a)"
  shows "safe (with_file_fh u (\<lambda>h. respond (m h) (f h)))"
  by (rule safeI) (auto simp: with_file_fh_def wp_bnd wp_gets wp_modify wp_option split: option.split
      intro: safeD [OF safe_replies(1)] cloned_file_wp [OF assms])

lemma safe_with_dir_fh:
  assumes "\<And>h z F D. balance z (F, one_more D (dh_key h)) (m h) (\<lambda>_. (F, D)) (F, D)" "\<And>h a. safe (f h a)"
  shows "safe (with_dir_fh u (\<lambda>h. respond (m h) (f h)))"
  by (rule safeI) (auto simp: with_dir_fh_def wp_bnd wp_gets wp_modify wp_option split: option.split
      intro: safeD [OF safe_replies(1)] cloned_dir_wp [OF assms])

lemma fs_neutral:
  "safe (fs_lookup L X req p n)" "safe (fs_getattr L X i)" "safe (fs_readlink L X i)"
  "safe (fs_mknod L X req p n m d)" "safe (fs_mkdir L X req p n m)" "safe (fs_unlink L X p n)"
  "safe (fs_rmdir L X p n)" "safe (fs_symlink L X req p n t)" "safe (fs_rename L X p n p' n')"
  "safe (fs_link L X req i p n)" "safe (fs_setxattr L X i n v)" "safe (fs_removexattr L X i n)"
  "safe (fs_listxattr L X i sz)" "safe fs_statfs"
  unfolding fs_lookup_def fs_getattr_def fs_readlink_def fs_mknod_def fs_mkdir_def fs_unlink_def
    fs_rmdir_def fs_symlink_def fs_rename_def fs_link_def fs_setxattr_def fs_removexattr_def
    fs_listxattr_def fs_statfs_def Let_def
  by (rule safe_respond balance_intros safe_replies safe_ret)+

lemma safe_fs_getxattr: "safe (fs_getxattr L X i n sz)"
  unfolding fs_getxattr_def
  by (rule safe_respond, rule balance_intros) (auto split: option.split intro: safe_replies)

lemma fs_file:
  "safe (fs_read L X u off n)" "safe (fs_write L X u off d)" "safe (fs_flush X u)" "safe (fs_fsync X u ds)"
  "safe (fs_fsyncdir X u ds)"
  unfolding fs_read_def fs_write_def fs_flush_def fs_fsync_def fs_fsyncdir_def
  by (rule safe_with_file_fh safe_with_dir_fh balance_intros safe_replies safe_ret)+

lemma safe_fs_setattr: "safe (fs_setattr L X i q)"
proof (rule safeI)
  fix s :: "'a fuse_scheme"
  assume s: "fuse_ok s"
  let ?fh = "case fq_fh q of None \<Rightarrow> None | Some u \<Rightarrow> file_fh s u"
  show "wp False (fs_setattr L X i q) (\<lambda>_. fuse_ok) (\<lambda>_. fuse_ok) s"
  proof (cases ?fh)
    case None
    have "safe (respond (h_setattr X (real_ino L i) None (attr_request_of L q)) reply_attr)"
      by (rule safe_respond balance_h_setattr safe_replies)+
    from safeD [OF this s] show ?thesis using None by (simp add: fs_setattr_def wp_bnd wp_gets wp_ret)
  next
    case (Some h)
    then obtain u where "file_fh s u = Some h" by (auto split: option.splits)
    then have "wp False (respond (h_setattr X (real_ino L i) (Some h) (attr_request_of L q)) reply_attr)
        (\<lambda>_. fuse_ok) (\<lambda>_. fuse_ok) (clone_file (fh_key h) s)"
      by (rule cloned_file_wp [OF balance_h_setattr(1) safe_replies(3) s])
    then show ?thesis using Some by (simp add: fs_setattr_def wp_bnd wp_gets wp_modify)
  qed
qed

lemma safe_fs_release: "safe (fs_release X u)"
proof (rule safeI)
  fix s :: "'a fuse_scheme"
  assume s: "fuse_ok s"
  have rel: "safe (respond (h_apply_releases X) reply_ok)"
    by (rule safe_respond balance_intros safe_replies)+
  show "wp False (fs_release X u) (\<lambda>_. fuse_ok) (\<lambda>_. fuse_ok) s"
    using s
    by (auto intro!: safeD [OF rel] remove_file_fh_ok [OF s] simp: fs_release_def wp_bnd wp_gets wp_modify wp_option wp_ret split: option.split)
qed

lemma safe_fs_releasedir: "safe (fs_releasedir X u)"
proof (rule safeI)
  fix s :: "'a fuse_scheme"
  assume s: "fuse_ok s"
  have rel: "safe (respond (h_apply_releases X) reply_ok)"
    by (rule safe_respond balance_intros safe_replies)+
  show "wp False (fs_releasedir X u) (\<lambda>_. fuse_ok) (\<lambda>_. fuse_ok) s"
    using s
    by (auto intro!: safeD [OF rel] remove_dir_fh_ok [OF s] simp: fs_releasedir_def wp_bnd wp_gets wp_modify wp_option wp_ret split: option.split)
qed

text \<open>Opening: the new handle goes to the kernel.\<close>

lemma opened_file_wp:
  assumes "balance (donkey.more s) (held_files (file_fh s), held_dirs (dir_fh s)) m
      (\<lambda>h. (one_more (held_files (file_fh s)) (fh_key h), held_dirs (dir_fh s)))
      (held_files (file_fh s), held_dirs (dir_fh s))" "fuse_ok s"
  shows "wp False m (\<lambda>h t. fuse_ok (insert_file_fh u h t)) (\<lambda>_. fuse_ok) s"
proof -
  have s: "finite (dom (file_fh s))" "finite (dom (dir_fh s))" using assms(2) by (simp_all add: fuse_ok_def)
  have "wp False m (\<lambda>h. handles_ok (one_more (held_files (file_fh s)) (fh_key h)) (held_dirs (dir_fh s)) (donkey.more s))
     (\<lambda>_. handles_ok (held_files (file_fh s)) (held_dirs (dir_fh s)) (donkey.more s)) s"
    using balanceD [OF assms(1), of s] assms(2) by (simp add: fuse_ok_def)
  then show ?thesis
  proof (rule wp_conseq, goal_cases)
    case (1 h t)
    from handles_okD(6) [OF 1] have "donkey.more t = donkey.more s" .
    with donkey_more_fuse [OF this] show ?case using 1 s by (auto intro!: insert_file_fh_ok)
  next
    case (2 e t)
    then show ?case by (rule fuse_ok_transfer [OF assms(2)])
  qed
qed

lemma opened_dir_wp:
  assumes "balance (donkey.more s) (held_files (file_fh s), held_dirs (dir_fh s)) m
      (\<lambda>h. (held_files (file_fh s), one_more (held_dirs (dir_fh s)) (dh_key h)))
      (held_files (file_fh s), held_dirs (dir_fh s))" "fuse_ok s"
  shows "wp False m (\<lambda>h t. fuse_ok (insert_dir_fh u h t)) (\<lambda>_. fuse_ok) s"
proof -
  have s: "finite (dom (file_fh s))" "finite (dom (dir_fh s))" using assms(2) by (simp_all add: fuse_ok_def)
  have "wp False m (\<lambda>h. handles_ok (held_files (file_fh s)) (one_more (held_dirs (dir_fh s)) (dh_key h)) (donkey.more s))
     (\<lambda>_. handles_ok (held_files (file_fh s)) (held_dirs (dir_fh s)) (donkey.more s)) s"
    using balanceD [OF assms(1), of s] assms(2) by (simp add: fuse_ok_def)
  then show ?thesis
  proof (rule wp_conseq, goal_cases)
    case (1 h t)
    from handles_okD(6) [OF 1] have "donkey.more t = donkey.more s" .
    with donkey_more_fuse [OF this] show ?case using 1 s by (auto intro!: insert_dir_fh_ok)
  next
    case (2 e t)
    then show ?case by (rule fuse_ok_transfer [OF assms(2)])
  qed
qed

lemma with_file_never_fails:
  assumes "stable rest m" "\<And>fs. \<exists>a fs'. m fs = (Ok a, fs')"
  shows "balance z P (with_file k m) (\<lambda>_. P) E"
  unfolding balance_def
proof (intro allI impI)
  fix s :: "'a donkey_scheme"
  assume s: "handles_ok (fst P) (snd P) z s"
  have "wp False (with_file k m) (\<lambda>_ _. True) (\<lambda>_ _. False) s"
  proof (cases "opened_files s k")
    case (Some f)
    obtain a fs' where "m (f, s) = (Ok a, fs')" using assms(2) by blast
    then show ?thesis using Some by (simp add: wp_def with_file_def split: prod.split)
  qed (simp add: wp_def with_file_def)
  from wp_conj [OF balanceD [OF with_file_bal [OF assms(1)] s] this]
  show "wp False (with_file k m) (\<lambda>a. handles_ok (fst P) (snd P) z) (\<lambda>_. handles_ok (fst E) (snd E) z) s"
    by (rule wp_conseq) simp_all
qed

lemma balance_clear_set_bits_open:
  "balance z (one_more F (fh_key fh), D) (h_clear_set_bits fh) (\<lambda>h. (one_more F (fh_key h), D)) E"
  unfolding h_clear_set_bits_def Let_def
  by (rule balance_bnd with_file_never_fails balance_ret refl file_access_rest |
      simp add: get_file_def mod_inode_def mod_file_def set_dirty_def)+

lemma safe_fs_open: "safe (fs_open L X req i fl)"
proof (rule safeI)
  fix s :: "'a fuse_scheme"
  assume s: "fuse_ok s"
  have "balance (donkey.more s) (held_files (file_fh s), held_dirs (dir_fh s))
      (bnd (h_open X (real_ino L i) (open_flags L fl)) (\<lambda>fh.
        if rq_req_uid req \<noteq> 0 then h_clear_set_bits fh else ret fh))
      (\<lambda>h. (one_more (held_files (file_fh s)) (fh_key h), held_dirs (dir_fh s)))
      (held_files (file_fh s), held_dirs (dir_fh s))"
    by (rule balance_bnd balance_h_open balance_if balance_clear_set_bits_open balance_ret refl)+
  from opened_file_wp [OF this s, where u = "rq_unique req"] show "wp False (fs_open L X req i fl) (\<lambda>_. fuse_ok) (\<lambda>_. fuse_ok) s"
    unfolding fs_open_def wp_respond
  proof (rule wp_conseq, goal_cases)
    case (1 h t)
    then show ?case by (auto simp: wp_bnd wp_lift_res wp_modify wp_ret fuse_flags_def Let_def)
  next
    case (2 e t)
    then show ?case .
  qed
qed

lemma safe_fs_opendir: "safe (fs_opendir L X req i fl)"
proof (rule safeI)
  fix s :: "'a fuse_scheme"
  assume s: "fuse_ok s"
  show "wp False (fs_opendir L X req i fl) (\<lambda>_. fuse_ok) (\<lambda>_. fuse_ok) s"
    unfolding fs_opendir_def wp_respond wp_bnd wp_modify wp_ret
    by (rule wp_conseq [OF opened_dir_wp [OF balance_h_opendir s]])
qed

lemma safe_readdir_loop: "safe (readdir_loop X full offset es i added)"
proof (induction es arbitrary: i added)
  case Nil
  show ?case unfolding readdir_loop.simps by (rule safe_ret)
next
  case (Cons e es)
  obtain name ino where e: "e = (name, ino)" by (cases e)
  show ?case
    unfolding readdir_loop.simps e prod.case
    by (rule safe_respond, rule balance_h_getattr)
      (use Cons.IH in \<open>auto simp: safe_def Let_def wp_rules split: res.split\<close>)
qed

lemma safe_fs_readdir: "safe (fs_readdir X full u off)"
proof -
  have eq: "bnd (h_readdir dh n) (\<lambda>es. readdir_loop X full off es 0 []) =
      respond (h_readdir dh n) (\<lambda>es. readdir_loop X full off es 0 [])" for dh n
    by (rule ext) (simp add: bnd_def respond_def h_readdir_def dropping_def)
  show ?thesis
    unfolding fs_readdir_def eq by (intro safe_with_dir_fh balance_h_readdir safe_readdir_loop)
qed

theorem safe_serve: "safe (serve L X full req r)"
  by (cases r) (simp_all add: fs_unsupported_def fs_neutral safe_fs_getxattr fs_file
    safe_fs_setattr safe_fs_release safe_fs_releasedir safe_fs_open safe_fs_opendir safe_fs_readdir
    safe_ret safe_replies)

section \<open>Reachable states\<close>

text \<open>The states of a mounted file system between two requests.\<close>

inductive reachable :: "libc \<Rightarrow> ext \<Rightarrow> fuse \<Rightarrow> bool" for L X where
  mounted: "mtdk_main X opened getsize s0 = (Ok (), s) \<Longrightarrow> reachable L X s"
| request: "reachable L X s \<Longrightarrow> serve L X full req r s = (Ok rep, t) \<Longrightarrow> reachable L X t"

inductive_cases reachable_cases: "reachable L X s"

lemma held_empty: "held key Map.empty = (\<lambda>_. 0)"
  by (rule ext) (simp add: held_def)

lemma mtdk_main_ok:
  assumes "mtdk_main X opened getsize s0 = (Ok (), s)"
  shows "fuse_ok s"
proof -
  obtain t u where "open_fs X t = (Ok (), u)" and s: "s = u\<lparr>dir_fh := Map.empty, file_fh := Map.empty\<rparr>"
    using assms by (auto simp: mtdk_main_def bnd_eq_Ok)
  then have "opened_dirs u = Map.empty" "file_refs u = (\<lambda>_. 0)" "dir_refs u = (\<lambda>_. 0)"
    by (auto simp: open_fs_def bnd_eq_Ok donkey_new_def)
  then show ?thesis by (simp add: fuse_ok_def s handles_ok_def held_empty)
qed

lemma reachable_fuse_ok: "reachable L X s \<Longrightarrow> fuse_ok s"
proof (induction rule: reachable.induct)
  case (mounted opened getsize s0 s)
  then show ?case by (rule mtdk_main_ok)
next
  case (request s full req r rep t)
  from safeD [OF safe_serve request.IH, of L X full req r] request.hyps(2)
  show ?case by (simp add: wp_def)
qed

lemma fuse_ok_counts:
  assumes "fuse_ok s"
  shows "file_refs s k = held_files (file_fh s) k + (if opened_dirs s k = None then 0 else 1)"
    "dir_refs s k = held_dirs (dir_fh s) k"
    "file_fh s u = Some h \<Longrightarrow> opened_files s (fh_key h) \<noteq> None"
    "dir_fh s v = Some g \<Longrightarrow> opened_dirs s (dh_key g) \<noteq> None"
    "opened_dirs s k \<noteq> None \<Longrightarrow> opened_files s k \<noteq> None"
proof -
  have fin: "finite (dom (file_fh s))" "finite (dom (dir_fh s))"
    and ok: "handles_ok (held_files (file_fh s)) (held_dirs (dir_fh s)) (donkey.more s) s"
    using assms by (simp_all add: fuse_ok_def)
  show "file_refs s k = held_files (file_fh s) k + (if opened_dirs s k = None then 0 else 1)"
    and "dir_refs s k = held_dirs (dir_fh s) k"
    using handles_okD(1,2) [OF ok] by simp_all
  show "opened_files s (fh_key h) \<noteq> None" if "file_fh s u = Some h"
    using held_take [OF fin(1) that, of fh_key] handles_okD(1) [OF ok, of "fh_key h"]
      handles_okD(4) [OF ok, of "fh_key h"] by (simp add: one_more_apply)
  show "opened_dirs s (dh_key g) \<noteq> None" if "dir_fh s v = Some g"
    using held_take [OF fin(2) that, of dh_key] handles_okD(5) [OF ok, of "dh_key g"]
    by (simp add: one_more_apply)
  show "opened_files s k \<noteq> None" if "opened_dirs s k \<noteq> None"
    using handles_ok_dir [OF ok that] by blast
qed

end
