(* ===== verification/Interface.thy ===== *)
theory Interface
  imports FuseHandles
begin

text \<open>
  What the operations of \<open>Handle\<close> promise to their caller, for files and directories that are open.
\<close>

section \<open>Borrowing\<close>

lemma with_file_borrowed [stable_intros]: "stable rest m \<Longrightarrow> stable borrowed (with_file k m)"
  unfolding stable_def
proof
  fix s :: "'a donkey_scheme"
  assume "\<forall>s. rest (snd (m s)) = rest s"
  then have "stable rest m" by (simp add: stable_def)
  from with_file_result [OF this, of k s "fst (with_file k m s)" "snd (with_file k m s)"]
  show "borrowed (snd (with_file k m s)) = borrowed s" by simp
qed

lemma flush_dir_borrowed: "stable borrowed (flush_dir X k)"
  unfolding flush_dir_def get_dir_def mod_dir_def by (intro stable_intros rest_intros) simp

lemma fsyncdir_outcome:
  assumes "\<not> borrowed s"
  shows "fst (h_fsyncdir X dh False s) = (case fst (flush_dir X (dh_key dh) (s\<lparr>borrowed := True\<rparr>)) of
     Err e \<Rightarrow> Err e | Hang \<Rightarrow> Hang | _ \<Rightarrow> Panic)"
proof -
  obtain r t where r: "flush_dir X (dh_key dh) (s\<lparr>borrowed := True\<rparr>) = (r, t)" by fastforce
  then have b: "borrowed t" using stableD [OF flush_dir_borrowed r] by simp
  have p: "fst (h_fsync X \<lparr>fh_key = k, fh_flags = fl\<rparr> False (clone_file k t)) = Panic" for k fl
    using b by (simp add: h_fsync_def h_flush_def dropping_def borrow_mut_def bnd_def clone_file_def)
  show ?thesis
    using assms r p
    by (cases r) (auto simp: h_fsyncdir_def dropping_def borrow_mut_def bnd_def get_dir_def unwrap_def
        split: prod.split option.split res.split dest: arg_cong [of _ _ fst])
qed

section \<open>Names that are too long\<close>

text \<open>The names that a request brings along.\<close>

fun names_of :: "request \<Rightarrow> os_string list" where
  "names_of (Lookup p n) = [n]"
| "names_of (Mknod p n m d) = [n]"
| "names_of (Mkdir p n m) = [n]"
| "names_of (Unlink p n) = [n]"
| "names_of (Rmdir p n) = [n]"
| "names_of (Symlink_to p n t) = [n]"
| "names_of (Rename p n p' n') = [n, n']"
| "names_of (Link i p n) = [n]"
| "names_of (Setxattr i n v) = [n]"
| "names_of (Getxattr i n sz) = [n]"
| "names_of (Removexattr i n) = [n]"
| "names_of _ = []"

lemma check_name_long: "MAX_NAMELEN < length name \<Longrightarrow> bnd (check_name name) m s = (Err NameTooLong, s)"
  by (simp add: check_name_def bnd_def fail_def)

lemma lookup_long: "MAX_NAMELEN < length name \<Longrightarrow> h_lookup X p name s = (Err NameTooLong, s)"
  unfolding h_lookup_def by (rule check_name_long)

lemma respond_long:
  assumes "MAX_NAMELEN < length name"
  shows "respond (bnd (check_name name) m1) f1 s = (Ok (RError ENAMETOOLONG), s)"
    "respond (h_lookup X p name) f2 s = (Ok (RError ENAMETOOLONG), s)"
    "respond (bnd (h_lookup X p name) m3) f3 s = (Ok (RError ENAMETOOLONG), s)"
  by (simp_all add: respond_def reply_error_def ret_def bnd_def [of "h_lookup X p name"]
      check_name_long [OF assms] lookup_long [OF assms])

lemma long_name_refused:
  assumes "name \<in> set (names_of r)" "MAX_NAMELEN < length name"
  shows "serve L X full req r s = (Ok (RError ENAMETOOLONG), s)"
proof (cases r)
  case (Rename p n p' n')
  then have "MAX_NAMELEN < length n \<or> MAX_NAMELEN < length n'" using assms by auto
  then show ?thesis
    using Rename by (simp add: fs_rename_def respond_def reply_error_def h_rename_def bnd_def fail_def ret_def)
qed (use assms in \<open>simp_all add: fs_lookup_def fs_mknod_def fs_mkdir_def fs_unlink_def fs_rmdir_def fs_symlink_def fs_link_def
    fs_setxattr_def fs_getxattr_def fs_removexattr_def respond_long h_mknod_def h_mkdir_def h_unlink_def h_symlink_def h_link_def
    h_setxattr_def h_getxattr_def h_removexattr_def h_rmdir_def Let_def\<close>)

end
