(* ===== verification/Codec.thy ===== *)
theory Codec
  imports Blocks
begin

text \<open>
  An instance of the external functions: little endian integers, an \<open>OsString\<close> as its variant index
  (0 on Unix) followed by its byte vector, a byte vector as its length followed by its bytes one by
  one, a clock that advances by a nanosecond at each call, and a medium without faults.  The witnesses
  of the properties are evaluated with it; \<open>plain_codec_ok\<close> and \<open>plain_no_faults\<close> show that the laws the
  development relies on can hold together.
\<close>

primrec le_bytes :: "nat \<Rightarrow> nat \<Rightarrow> byte list" where
  "le_bytes 0 n = []"
| "le_bytes (Suc w) n = word_of_nat (n mod 256) # le_bytes w (n div 256)"

primrec le_value :: "byte list \<Rightarrow> nat" where
  "le_value [] = 0"
| "le_value (b # bs) = unat b + 256 * le_value bs"

primrec get_bytes :: "nat \<Rightarrow> byte list \<Rightarrow> byte list decoder" where
  "get_bytes 0 acc = Done (rev acc)"
| "get_bytes (Suc n) acc = Need 1 (\<lambda>bs. get_bytes n (hd bs # acc))"

definition plain_dec_vec :: "byte list decoder" where
  "plain_dec_vec = Need 8 (\<lambda>bs. get_bytes (le_value bs) [])"

definition plain_enc_vec :: "byte list \<Rightarrow> byte list list" where
  "plain_enc_vec s = le_bytes 8 (length s) # map (\<lambda>b. [b]) s"

definition plain_ext :: ext where
  "plain_ext = \<lparr>enc_int = le_bytes, dec_int = le_value,
     enc_str = (\<lambda>s. le_bytes 4 0 # plain_enc_vec s),
     dec_str = Need 4 (\<lambda>bs. if le_value bs = 0 then plain_dec_vec else Reject BcCustom),
     enc_vec = plain_enc_vec, dec_vec = plain_dec_vec,
     now_at = (\<lambda>k. 1500000000000000000 + int k),
     rd_fault = (\<lambda>p n. False), wr_fault = (\<lambda>p n. False), rte_buf = (\<lambda>k. 32)\<rparr>"

lemma plain_ext_simps [simp]:
  "enc_int plain_ext = le_bytes" "dec_int plain_ext = le_value"
  "enc_str plain_ext s = le_bytes 4 0 # plain_enc_vec s"
  "dec_str plain_ext = Need 4 (\<lambda>bs. if le_value bs = 0 then plain_dec_vec else Reject BcCustom)"
  "enc_vec plain_ext = plain_enc_vec" "dec_vec plain_ext = plain_dec_vec"
  "now_at plain_ext k = 1500000000000000000 + int k"
  "rd_fault plain_ext p n = False" "wr_fault plain_ext p n = False" "rte_buf plain_ext k = 32"
  by (simp_all add: plain_ext_def)

lemma length_le_bytes [simp]: "length (le_bytes w n) = w"
  by (induction w arbitrary: n) auto

lemma le_value_bytes [simp]: "n < 256 ^ w \<Longrightarrow> le_value (le_bytes w n) = n"
proof (induction w arbitrary: n)
  case 0
  then show ?case by simp
next
  case (Suc w)
  then have "n div 256 < 256 ^ w" by (simp add: less_mult_imp_div_less mult.commute)
  then show ?case by (simp add: Suc.IH unat_of_nat)
qed

lemma le_value_less: "le_value bs < 256 ^ length bs"
proof (induction bs)
  case Nil
  then show ?case by simp
next
  case (Cons b bs)
  have "unat b < 256" using unsigned_less [of b, where ?'a = nat] by simp
  then show ?case using Cons by simp
qed

lemma le_bytes_value [simp]: "length bs = w \<Longrightarrow> le_bytes w (le_value bs) = bs"
proof (induction bs arbitrary: w)
  case Nil
  then show ?case by simp
next
  case (Cons b bs)
  have "unat b < 256" using unsigned_less [of b, where ?'a = nat] by simp
  then show ?case using Cons by auto
qed

lemma run_get_bytes:
  "run_decoder take_exact (get_bytes (length s) acc) (s @ r) = (Ok (rev acc @ s), r)"
proof (induction s arbitrary: acc)
  case Nil
  then show ?case by simp
next
  case (Cons b s)
  then show ?case by (simp add: bnd_def take_exact_def)
qed

lemma concat_plain_enc_vec [simp]: "concat (plain_enc_vec s) = le_bytes 8 (length s) @ s"
  by (simp add: plain_enc_vec_def)

lemma run_plain_dec_vec:
  "length s < u64_limit \<Longrightarrow>
   run_decoder take_exact plain_dec_vec (le_bytes 8 (length s) @ s @ r) = (Ok s, r)"
  using run_get_bytes [of s "[]" r] by (simp add: plain_dec_vec_def bnd_def take_exact_def)

lemma plain_codec_ok: "codec_ok plain_ext"
proof -
  have "run_decoder take_exact (dec_str plain_ext) (concat (enc_str plain_ext s) @ r) = (Ok s, r)"
    if "length s < u64_limit" for s r
    using run_plain_dec_vec [OF that, of r] by (simp add: bnd_def take_exact_def)
  then show ?thesis
    using run_plain_dec_vec by (simp add: codec_ok_def le_value_less)
qed

lemma plain_no_faults: "no_faults plain_ext"
  by (simp add: no_faults_def)

end
