(* ===== verification/Demo.thy ===== *)
theory Demo
  imports Interface Codec
begin

text \<open>
  A small formatted device on which the properties are instantiated: eight blocks of 4096 bytes with
  one inode per block.
\<close>

definition demo_device :: device where
  "demo_device = \<lparr>content = (\<lambda>_. 0), raw_len = 32768, d_block_count = 8, d_block_size = 4096\<rparr>"

definition no_sb :: super_block where
  "no_sb = \<lparr>magic_number = 0, block_size = 0, inode_count = 0, used_inode_count = 0, db_count = 0,
     used_db_count = 0, inode_fl_ptr = 0, db_fl_ptr = 0\<rparr>"

definition demo_blank :: store where
  "demo_blank = \<lparr>dev = demo_device, sb = no_sb, clk = 0\<rparr>"

definition demo_store :: store where
  "demo_store = snd (format_store plain_ext 4096 demo_blank)"

definition demo_inodes :: "nat list" where
  "demo_inodes = [114514, 114515, 114516, 114517, 114518, 114519, 114520, 114521]"

definition demo_blocks :: "nat list" where
  "demo_blocks = [4096, 8192, 12288, 16384, 20480, 24576, 28672]"

lemma demo_size [simp]: "dev_size demo_device = 32768"
  by (simp add: dev_size_def demo_device_def)

lemma demo_formattable: "formattable demo_device 4096"
  by (simp add: formattable_def device_ok_def table_blocks_def dev_size_def demo_device_def)

lemma demo_sb:
  "formatted_sb demo_device 4096 = \<lparr>magic_number = MAGIC_NUMBER, block_size = 4096, inode_count = 8,
     used_inode_count = 0, db_count = 7, used_db_count = 0, inode_fl_ptr = 2048, db_fl_ptr = 4096\<rparr>"
  by (simp add: formatted_sb_def Let_def table_blocks_def dev_size_def demo_device_def)

lemma demo_facts:
  "format_store plain_ext 4096 demo_blank = (Ok (), demo_store) \<and>
   sb demo_store = formatted_sb demo_device 4096 \<and>
   store_ok plain_ext demo_store demo_inodes demo_blocks \<and> dev_size (dev demo_store) = 32768"
proof -
  have "formattable (dev demo_blank) 4096" using demo_formattable by (simp add: demo_blank_def)
  from format_store_establishes [OF this plain_codec_ok plain_no_faults]
  obtain s where s: "format_store plain_ext 4096 demo_blank = (Ok (), s)"
    "sb s = formatted_sb (dev demo_blank) 4096"
    "store_ok plain_ext s (all_inodes (sb s)) (all_data_blocks (sb s))"
    "dev_size (dev s) = dev_size (dev demo_blank)" by metis
  have "demo_store = s" using s(1) by (simp add: demo_store_def)
  moreover have "sb s = formatted_sb demo_device 4096" using s(2) by (simp add: demo_blank_def)
  moreover from this have "all_inodes (sb s) = demo_inodes" "all_data_blocks (sb s) = demo_blocks"
    by (simp_all add: demo_sb all_inodes_def all_data_blocks_def demo_inodes_def demo_blocks_def upt_rec)
  ultimately show ?thesis using s by (simp add: demo_blank_def)
qed

lemmas demo_format = demo_facts [THEN conjunct1]
lemmas demo_store_sb = demo_facts [THEN conjunct2, THEN conjunct1, unfolded demo_sb]
lemmas demo_ok = demo_facts [THEN conjunct2, THEN conjunct2, THEN conjunct1]
lemmas demo_dev_size = demo_facts [THEN conjunct2, THEN conjunct2, THEN conjunct2]

lemma demo_data_blocks: "data_blocks demo_store = set demo_blocks"
proof -
  have "d_block_size (dev demo_store) = 4096"
    using demo_ok demo_store_sb by (simp add: store_ok_def regions_ok_def geometry_ok_def)
  then have "d_block_count (dev demo_store) = 8" using demo_dev_size by (simp add: dev_size_def)
  then have "data_blocks demo_store = units 4096 7 4096"
    by (simp add: data_blocks_def db_base_def demo_store_sb)
  also have "\<dots> = set demo_blocks"
    by (simp add: units_def demo_blocks_def lessThan_nat_numeral lessThan_Suc insert_commute)
  finally show ?thesis .
qed

text \<open>The demo file system, mounted.\<close>

lemma demo_shape: "dev_shape demo_store = (32768, 8, 4096)"
  unfolding stableD [OF format_store_shape demo_format] by (simp add: dev_shape_def demo_blank_def demo_device_def)

lemma demo_store_dev:
  "dev demo_store = \<lparr>content = disk demo_store, raw_len = 32768, d_block_count = 8, d_block_size = 4096\<rparr>"
  by (rule device_eta) (use demo_shape in \<open>simp_all add: dev_shape_def\<close>)

definition empty_fuse :: fuse where
  "empty_fuse = \<lparr>dev = demo_device, sb = no_sb, clk = 0, opened_files = Map.empty, opened_dirs = Map.empty,
     file_refs = (\<lambda>_. 0), dir_refs = (\<lambda>_. 0), close_files = [], close_dirs = [], borrowed = False,
     dir_fh = Map.empty, file_fh = Map.empty\<rparr>"

text \<open>A regular file without contents, allocated and written on the demo device.\<close>

definition demo_inode :: "nat \<Rightarrow> nat \<Rightarrow> inode" where
  "demo_inode ino uid = \<lparr>i_ino = ino, i_mode = REGULAR_FILE OR USER_RWX, i_uid = uid, i_gid = 0, i_nlink = 1,
     i_atime = \<lparr>ts_sec = 1, ts_nsec = 2\<rparr>, i_mtime = \<lparr>ts_sec = 1, ts_nsec = 2\<rparr>,
     i_ctime = \<lparr>ts_sec = 1, ts_nsec = 2\<rparr>, i_crtime = \<lparr>ts_sec = 1, ts_nsec = 2\<rparr>,
     i_size = 0, i_blocks = 0, i_device = 0, i_xattr_ptr = 0, i_ptrs = default_ptrs\<rparr>"

lemma demo_inode_ok [simp]: "uid < 4294967296 \<Longrightarrow> ino < u64_limit \<Longrightarrow> inode_fields_ok (demo_inode ino uid)"
  by (simp add: demo_inode_def inode_fields_ok_def timespec_ok_def ptrs_shape_def ptrs_values_def default_ptrs_def)

lemma demo_inode_simps [simp]:
  "i_ino (demo_inode ino uid) = ino" "i_xattr_ptr (demo_inode ino uid) = 0"
  by (simp_all add: demo_inode_def)

definition file_store :: store where
  "file_store = snd (bnd (allocate_inode plain_ext) (\<lambda>i. write_inode plain_ext (demo_inode i 0)) demo_store)"

lemma file_store_facts:
  shows file_store_ok: "store_ok plain_ext file_store (tl demo_inodes) demo_blocks"
    and file_store_shape: "dev_shape file_store = (32768, 8, 4096)"
    and file_store_inode: "read_inode plain_ext 114514 file_store = (Ok (demo_inode 114514 0), file_store)"
proof -
  let ?is = "tl demo_inodes" and ?i = "demo_inode 114514 0"
  have "demo_inodes = 114514 # ?is" by (simp add: demo_inodes_def)
  then have ok: "store_ok plain_ext demo_store (114514 # ?is) demo_blocks" using demo_ok by simp
  obtain s1 where s1: "allocate_inode plain_ext demo_store = (Ok 114514, s1)"
    "store_ok plain_ext s1 ?is demo_blocks" "same_used (free_bytes demo_store ?is []) demo_store s1"
    by (rule allocate_inode_pop [OF ok])
  have nums: "inode_numbers (sb s1) = inode_numbers (sb demo_store)" by (rule same_used_simps(12) [OF s1(3)])
  have i: "i_ino ?i \<in> inode_numbers (sb s1)" "i_ino ?i \<notin> set ?is" "inode_fields_ok ?i"
    unfolding nums by (simp_all add: inode_numbers_def demo_store_sb demo_inodes_def)
  obtain s2 where s2: "write_inode plain_ext ?i s1 = (Ok (), s2)" "store_ok plain_ext s2 ?is demo_blocks"
    by (rule write_inode_store_ok [OF s1(2) i]) blast
  have "i_ino ?i \<in> table_keys plain_ext s1" unfolding store_ok_table [OF s1(2)] by (rule i(1))
  from inodes.put_get [OF i(3) this] have rd: "read_inode plain_ext 114514 s2 = (Ok ?i, s2)"
    unfolding s2(1) by simp
  have eq: "file_store = s2" unfolding file_store_def bnd_def s1(1) by (simp add: s2(1))
  show "store_ok plain_ext file_store ?is demo_blocks" unfolding eq by (rule s2(2))
  show "dev_shape file_store = (32768, 8, 4096)"
    unfolding eq stableD [OF store_op_shape(2) s2(1)] stableD [OF store_op_shape(1) s1(1)] by (rule demo_shape)
  show "read_inode plain_ext 114514 file_store = (Ok ?i, file_store)" unfolding eq by (rule rd)
qed

text \<open>Mounting a device with the shape of the demo device.\<close>

definition mounted :: "store \<Rightarrow> fuse" where
  "mounted s = empty_fuse\<lparr>dev := dev s, sb := sb s\<rparr>"

lemma mount_store:
  assumes "store_ok plain_ext s is ds" "dev_shape s = (32768, 8, 4096)"
  shows "mtdk_main plain_ext (Some (KRegular, disk s, 32768)) (Inl 0) empty_fuse = (Ok (), mounted s)"
proof -
  have eta: "dev s = \<lparr>content = disk s, raw_len = 32768, d_block_count = 8, d_block_size = 4096\<rparr>"
    by (rule device_eta) (use assms(2) in \<open>simp_all add: dev_shape_def\<close>)
  have d: "dev_open (Some (KRegular, disk s, 32768)) (Inl 0) = Ok (dev s)"
    by (simp add: dev_open_def image_file_new_def eta [symmetric])
  let ?t = "empty_fuse\<lparr>dev := dev s\<rparr>"
  have "open_store plain_ext ?t = (Ok (), ?t\<lparr>sb := sb s\<rparr>)"
    by (rule open_store_restores [OF assms(1)]) simp
  then show ?thesis
    by (simp add: mtdk_main_def open_fs_def donkey_new_def bnd_def d mounted_def empty_fuse_def)
qed

lemma mounted_reachable: "reachable linux plain_ext (mounted file_store)"
  by (rule reachable.mounted [OF mount_store [OF file_store_ok file_store_shape]])

definition demo_req :: fuse_req where
  "demo_req = \<lparr>rq_unique = 7, rq_req_uid = 0, rq_req_gid = 0\<rparr>"

text \<open>The mounted file system after the kernel has opened the file.\<close>

definition opened_demo :: fuse where
  "opened_demo = snd (serve linux plain_ext (\<lambda>_ _. False) demo_req (Open 1 2) (mounted file_store))"

lemma linux_root: "FUSE_ROOT_ID linux = 1"
  by (simp add: linux_def)

lemma read_inode_same_store:
  assumes "read_inode X i s = (Ok v, s)" "dev t = dev s"
  shows "read_inode X i t = (Ok v, t)"
  using assms by (auto simp: read_inode_def read_at_def bnd_def ptr_of_ino_def ck_sub_def ck_mul_def ck_add_def
      Let_def split: res.splits if_splits)

lemma open_demo:
  "serve linux plain_ext (\<lambda>_ _. False) demo_req (Open 1 2) (mounted file_store) = (Ok (ROpened 7 2), opened_demo)
   \<and> file_fh opened_demo 7 = Some \<lparr>fh_key = 114514, fh_flags = READ_WRITE\<rparr>"
proof -
  let ?t = "mounted file_store\<lparr>borrowed := True\<rparr>"
  have rd: "read_inode plain_ext 114514 ?t = (Ok (demo_inode 114514 0), ?t)"
    by (rule read_inode_same_store [where s = file_store]) (simp_all add: mounted_def file_store_inode)
  have fl: "open_flags linux 2 = READ_WRITE" "READ_WRITE \<noteq> INVALID" "fuse_flags linux READ_WRITE = Ok 2"
    by (simp_all add: open_flags_def fuse_flags_def linux_def flag_bits)
  have empty: "borrowed (mounted file_store) = False" "opened_files ?t = Map.empty" "close_files ?t = []"
    "file_fh (mounted file_store) 7 = None"
    by (simp_all add: mounted_def empty_fuse_def)
  show ?thesis
    by (simp add: opened_demo_def fs_open_def respond_def h_open_def borrow_mut_def open_file_def
        close_files_in_list_def pop_close_file_def load_file_def read_xattr_def get_file_def dkfile_new_def bnd_def rd
        fl empty demo_req_def real_ino_def linux_root insert_file_fh_def Let_def clone_file_def)
qed

lemma opened_reachable: "reachable linux plain_ext opened_demo"
  using open_demo by (blast intro: reachable.request mounted_reachable)

end
