(* ===== verification/BlockStore.thy ===== *)
theory BlockStore
  imports InodeTable
begin

text \<open>
  The data blocks of a consistent store as the files see them: which bytes an operation may change
  (\<open>evolves\<close>), reading and writing blocks that are in use, and taking a block from the free list.
\<close>

section \<open>What an operation may change\<close>

definition block_bytes :: "nat \<Rightarrow> nat set \<Rightarrow> nat set" where
  "block_bytes u P = (\<Union>p \<in> P. {p..<p + u})"

text \<open>
  \<open>evolves A s t\<close>: from \<open>s\<close> to \<open>t\<close> only bytes of \<open>A\<close>, the counters and list heads of the super block and
  the clock have changed.
\<close>

definition evolves :: "nat set \<Rightarrow> 'z store_scheme \<Rightarrow> 'z store_scheme \<Rightarrow> bool" where
  "evolves A s t \<longleftrightarrow> raw_len (dev t) = raw_len (dev s) \<and> d_block_count (dev t) = d_block_count (dev s)
     \<and> d_block_size (dev t) = d_block_size (dev s) \<and> block_size (sb t) = block_size (sb s)
     \<and> inode_count (sb t) = inode_count (sb s) \<and> db_count (sb t) = db_count (sb s)
     \<and> store.more t = store.more s \<and> clk s \<le> clk t \<and> (\<forall>a. a \<notin> A \<longrightarrow> disk t a = disk s a)"

lemma block_bytes_mono: "P \<subseteq> Q \<Longrightarrow> block_bytes u P \<subseteq> block_bytes u Q"
  by (auto simp: block_bytes_def)

lemma block_bytes_Un [simp]: "block_bytes u (P \<union> Q) = block_bytes u P \<union> block_bytes u Q"
  by (auto simp: block_bytes_def)

lemma block_bytes_insert [simp]: "block_bytes u (insert p P) = {p..<p + u} \<union> block_bytes u P"
  by (simp add: block_bytes_def)

lemma block_bytes_empty [simp]: "block_bytes u {} = {}"
  by (simp add: block_bytes_def)

lemma covered_block_bytes: "covered u ds = block_bytes u (set ds)"
  by (simp add: covered_def block_bytes_def)

lemma evolves_refl [simp]: "evolves A s s"
  by (simp add: evolves_def)

lemma evolves_trans [trans]: "evolves A s t \<Longrightarrow> evolves A t u \<Longrightarrow> evolves A s u"
  by (simp add: evolves_def)

lemma evolves_mono: "evolves A s t \<Longrightarrow> A \<subseteq> A' \<Longrightarrow> evolves A' s t"
  unfolding evolves_def by (elim conjE, intro conjI) auto

lemma evolves_disk: "evolves A s t \<Longrightarrow> a \<notin> A \<Longrightarrow> disk t a = disk s a"
  by (simp add: evolves_def)

lemma evolves_simps:
  assumes "evolves A s t"
  shows "block_size (sb t) = block_size (sb s)" "data_blocks t = data_blocks s" "db_base t = db_base s"
    "inode_numbers (sb t) = inode_numbers (sb s)" "dev_size (dev t) = dev_size (dev s)"
    "store.more t = store.more s"
  using assms by (simp_all add: evolves_def data_blocks_def db_base_def inode_numbers_def dev_size_def)

lemma evolves_set_disk: "(\<And>a. a \<notin> A \<Longrightarrow> c a = disk s a) \<Longrightarrow> evolves A s (set_disk c s)"
  by (simp add: evolves_def set_disk_def)

lemma evolves_same_used: "same_used F s t \<Longrightarrow> evolves (sb_range \<union> F) s t"
  by (auto simp: evolves_def same_used_def set_disk_def)

lemma evolves_now: "evolves A s (s\<lparr>clk := Suc (clk s)\<rparr>)"
  by (simp add: evolves_def)

lemma read_bytes_evolves:
  "evolves A s t \<Longrightarrow> {p..<p + n} \<inter> A = {} \<Longrightarrow> read_bytes (disk t) p n = read_bytes (disk s) p n"
  by (rule read_bytes_cong) (auto dest: evolves_disk)

section \<open>Pointer blocks on the device\<close>

definition pcount :: "'z store_scheme \<Rightarrow> nat" where
  "pcount s = block_size (sb s) div 8"

definition disk_ptrs :: "ext \<Rightarrow> 'z store_scheme \<Rightarrow> nat \<Rightarrow> nat list" where
  "disk_ptrs X s p = dec_fields X (replicate (pcount s) 8) (read_bytes (disk s) p (block_size (sb s)))"

lemma length_disk_ptrs [simp]: "length (disk_ptrs X s p) = pcount s"
  by (simp add: disk_ptrs_def)

lemma pcount_evolves: "evolves A s t \<Longrightarrow> pcount t = pcount s"
  by (simp add: pcount_def evolves_simps)

lemma disk_ptrs_evolves:
  "evolves A s t \<Longrightarrow> {p..<p + block_size (sb s)} \<inter> A = {} \<Longrightarrow> disk_ptrs X t p = disk_ptrs X s p"
  by (simp add: disk_ptrs_def pcount_evolves evolves_simps read_bytes_evolves)

lemma store_okD:
  assumes "store_ok X s is ds"
  shows "codec_ok X" "no_faults X" "device_ok (dev s)" "geometry_ok s" "16 \<le> block_size (sb s)"
    "8 * pcount s = block_size (sb s)" "2 \<le> pcount s" "block_size (sb s) < u64_limit"
    "distinct ds" "set ds \<subseteq> data_blocks s" "distinct is" "set is \<subseteq> inode_numbers (sb s)"
    "length ds + used_db_count (sb s) = db_count (sb s)"
proof -
  have r: "regions_ok X s is ds" using assms by (simp add: store_ok_def)
  note ok = regions_Some [OF r]
  show "codec_ok X" "no_faults X" "device_ok (dev s)" "geometry_ok s" "16 \<le> block_size (sb s)"
    "block_size (sb s) < u64_limit" by (rule ok)+
  have "block_size (sb s) mod 8 = 0" using ok(4) unfolding geometry_ok_def by (elim conjE)
  then show "8 * pcount s = block_size (sb s)" unfolding pcount_def by presburger
  then show "2 \<le> pcount s" using ok(6) by linarith
  show "distinct ds" "set ds \<subseteq> data_blocks s" "distinct is" "set is \<subseteq> inode_numbers (sb s)"
    "length ds + used_db_count (sb s) = db_count (sb s)"
    using r by (simp_all only: regions_ok_def)
qed

lemma data_block_range:
  assumes "store_ok X s is ds" "p \<in> data_blocks s"
  shows "FIRST_INODE_PTR \<le> p" "p + block_size (sb s) \<le> dev_size (dev s)"
    "p + block_size (sb s) < u64_limit" "0 < p" "db_base s \<le> p"
proof -
  note ok = store_okD [OF assms(1)]
  have "db_base s \<le> p \<and> p + block_size (sb s) \<le> db_base s + db_count (sb s) * block_size (sb s)"
    using units_range assms(2) by (simp add: data_blocks_def)
  then show "p + block_size (sb s) \<le> dev_size (dev s)" "FIRST_INODE_PTR \<le> p" "db_base s \<le> p"
    using db_end [OF ok(4)] ok(4) by (auto simp: geometry_ok_def)
  then show "p + block_size (sb s) < u64_limit" "0 < p"
    using device_ok_size [OF ok(3)] by simp_all
qed

lemma data_blocks_apart:
  "p \<in> data_blocks s \<Longrightarrow> q \<in> data_blocks s \<Longrightarrow> p \<noteq> q \<Longrightarrow>
   {p..<p + block_size (sb s)} \<inter> {q..<q + block_size (sb s)} = {}"
  using units_apart [of p "db_base s" "db_count (sb s)" "block_size (sb s)" q]
  by (auto simp: data_blocks_def)

lemma block_bytes_apart:
  "p \<in> data_blocks s \<Longrightarrow> Q \<subseteq> data_blocks s \<Longrightarrow> p \<notin> Q \<Longrightarrow>
   {p..<p + block_size (sb s)} \<inter> block_bytes (block_size (sb s)) Q = {}"
  using data_blocks_apart unfolding block_bytes_def by blast

lemma sb_apart:
  "store_ok X s is ds \<Longrightarrow> p \<in> data_blocks s \<Longrightarrow> {p..<p + n} \<inter> sb_range = {}"
  using data_block_range(1) by (fastforce simp: sb_range_def)

lemma used_block_apart:
  assumes "store_ok X s is ds" "p \<in> data_blocks s" "p \<notin> set ds"
  shows "{p..<p + block_size (sb s)} \<inter> (sb_range \<union> free_bytes s is ds) = {}"
proof -
  have r: "regions_ok X s is ds" using assms(1) by (simp add: store_ok_def)
  have "{p..<p + block_size (sb s)} \<inter> covered (block_size (sb s)) ds = {}"
    unfolding covered_block_bytes
    by (rule block_bytes_apart [OF assms(2) store_okD(10) [OF assms(1)] assms(3)])
  moreover have "{p..<p + block_size (sb s)} \<inter> covered INODE_SIZE (map inode_slot is) = {}"
    using regions_apart(1) [OF r] data_block_range(5) [OF assms(1,2)] by fastforce
  ultimately show ?thesis using sb_apart [OF assms(1,2)] by (auto simp: free_bytes_def)
qed

lemma write_used_block:
  assumes "store_ok X s is ds" "p \<in> data_blocks s" "p \<notin> set ds"
    "p \<le> a" "a + length bs \<le> p + block_size (sb s)"
  obtains t where "write_at X a bs s = (Ok (), t)" "t = set_disk (write_bytes a bs (disk s)) s"
    "store_ok X t is ds" "evolves {a..<a + length bs} s t"
proof -
  let ?c = "write_bytes a bs (disk s)"
  have "a + length bs \<le> dev_size (dev s)" using data_block_range(2) [OF assms(1,2)] assms(5) by simp
  then have w: "write_at X a bs s = (Ok (), set_disk ?c s)"
    by (rule write_at_Ok [OF store_okD(3,2) [OF assms(1)]])
  have out: "?c i = disk s i" if "i \<notin> {a..<a + length bs}" for i
    using that by (intro write_bytes_outside) auto
  have "\<forall>i \<in> sb_range \<union> free_bytes s is ds. ?c i = disk s i"
  proof (intro ballI out)
    fix i assume "i \<in> sb_range \<union> free_bytes s is ds"
    then have "i \<notin> {p..<p + block_size (sb s)}" using used_block_apart [OF assms(1-3)] by blast
    then show "i \<notin> {a..<a + length bs}" using assms(4,5) by auto
  qed
  from store_ok_write_used [OF assms(1) this] show ?thesis
    using w out evolves_set_disk by (intro that) blast+
qed

lemma read_block_Ok:
  assumes "store_ok X s is ds" "p \<in> data_blocks s"
  shows "read_block X p s = (Ok (read_bytes (disk s) p (block_size (sb s))), s)"
proof -
  note ok = store_okD [OF assms(1)]
  have "d_block_size (dev s) = block_size (sb s)" using ok(4) by (simp add: geometry_ok_def)
  then show ?thesis
    using dev_read_len_at_Ok [OF ok(3,2) data_block_range(2) [OF assms]]
    by (simp add: read_block_def dev_read_block_at_def)
qed

lemma read_ptr_block_Ok:
  assumes "store_ok X s is ds" "p \<in> data_blocks s"
  shows "read_ptr_block X p s = (Ok (disk_ptrs X s p), s)"
proof -
  have "block_size (sb s) mod 8 = 0" using store_okD(4) [OF assms(1)] unfolding geometry_ok_def by (elim conjE)
  then show ?thesis
    by (simp add: read_ptr_block_def bnd_def read_block_Ok [OF assms] ptr_block_of_bytes_def disk_ptrs_def
        pcount_def)
qed

lemma disk_ptrs_write:
  assumes "codec_ok X" "8 * pcount s = block_size (sb s)" "length pb = pcount s" "\<forall>v \<in> set pb. v < u64_limit"
  shows "disk_ptrs X (set_disk (write_bytes p (ptr_block_bytes X pb) (disk s)) s) p = pb"
proof -
  have len: "length (ptr_block_bytes X pb) = block_size (sb s)" using assms by simp
  have "ptr_block_of_bytes X (ptr_block_bytes X pb) = Ok pb"
    by (rule ptr_block_round_trip [OF assms(1,4)])
  then have "dec_fields X (replicate (pcount s) 8) (ptr_block_bytes X pb) = pb"
    using assms(1,3) by (simp add: ptr_block_of_bytes_def)
  then show ?thesis using len by (simp add: disk_ptrs_def pcount_def)
qed

lemma disk_ptrs_less: "store_ok X s is ds \<Longrightarrow> v \<in> set (disk_ptrs X s p) \<Longrightarrow> v < u64_limit"
proof -
  assume ok: "store_ok X s is ds" and v: "v \<in> set (disk_ptrs X s p)"
  have "list_all2 (\<lambda>w v. v < 256 ^ w) (replicate (pcount s) 8) (disk_ptrs X s p)"
    unfolding disk_ptrs_def
    by (rule dec_fields_less) (use store_okD(1,6) [OF ok] in \<open>simp_all add: sum_list_replicate\<close>)
  then show ?thesis using v by (auto simp: list_all2_conv_all_nth in_set_conv_nth)
qed

section \<open>Taking a block\<close>

lemma allocate_db_fresh:
  assumes "store_ok X s is (q # ds)"
  obtains t where "allocate_db X s = (Ok q, t)" "store_ok X t is ds"
    "evolves (sb_range \<union> block_bytes (block_size (sb s)) (set ds)) s t"
proof (rule allocate_db_pop [OF assms])
  fix t
  assume t: "allocate_db X s = (Ok q, t)" "store_ok X t is ds" "same_used (free_bytes s [] ds) s t"
  have "free_bytes s [] ds = block_bytes (block_size (sb s)) (set ds)"
    by (simp add: free_bytes_def covered_block_bytes)
  then show thesis using that t(1,2) evolves_same_used [OF t(3)] by simp
qed

end
