(* ===== verification/PtrTree.thy ===== *)
theory PtrTree
  imports Prelude
begin

text \<open>
  The block map of a file as a forest, apart from any state.  An inode has a row of twelve direct
  pointers (tree 0) and one root pointer for each of the trees 1 to 4; tree \<open>i\<close> has pointer blocks of
  \<open>pc\<close> entries on the depths below \<open>i\<close> and data blocks at depth \<open>i\<close>.  \<open>R i\<close> is the row of tree \<open>i\<close> and
  \<open>V p\<close> the contents of the pointer block at \<open>p\<close>; a null pointer ends a branch.
\<close>

section \<open>Places\<close>

definition place :: "nat \<Rightarrow> nat \<Rightarrow> nat \<Rightarrow> nat \<Rightarrow> bool" where
  "place pc i d j \<longleftrightarrow> i \<le> 4 \<and> d \<le> i \<and> j < (if i = 0 then 12 else pc ^ d)"

text \<open>The pointer at a place.\<close>

primrec node ::
  "nat \<Rightarrow> (nat \<Rightarrow> nat list) \<Rightarrow> (nat \<Rightarrow> nat list) \<Rightarrow> nat \<Rightarrow> nat \<Rightarrow> nat \<Rightarrow> nat" where
  "node pc R V i 0 j = R i ! j"
| "node pc R V i (Suc d) j = (let p = node pc R V i d (j div pc) in
     if p = 0 then 0 else V p ! (j mod pc))"

text \<open>The tree and the offset in it of a block of the file.\<close>

definition level_base :: "nat \<Rightarrow> nat \<Rightarrow> nat" where
  "level_base pc i = (if i = 0 then 0 else 12 + (\<Sum>k\<in>{1..<i}. pc ^ k))"

definition max_blocks :: "nat \<Rightarrow> nat" where
  "max_blocks pc = 12 + pc + pc ^ 2 + pc ^ 3 + pc ^ 4"

definition level_of :: "nat \<Rightarrow> nat \<Rightarrow> nat \<times> nat" where
  "level_of pc bi =
     (if bi < 12 then (0, bi)
      else if bi < 12 + pc then (1, bi - 12)
      else if bi < 12 + pc + pc ^ 2 then (2, bi - (12 + pc))
      else if bi < 12 + pc + pc ^ 2 + pc ^ 3 then (3, bi - (12 + pc + pc ^ 2))
      else (4, bi - (12 + pc + pc ^ 2 + pc ^ 3)))"

definition block_ptr :: "nat \<Rightarrow> (nat \<Rightarrow> nat list) \<Rightarrow> (nat \<Rightarrow> nat list) \<Rightarrow> nat \<Rightarrow> nat" where
  "block_ptr pc R V bi = (case level_of pc bi of (i, off) \<Rightarrow> node pc R V i i off)"

lemma level_base_simps [simp]:
  "level_base pc 0 = 0" "level_base pc (Suc 0) = 12" "level_base pc 2 = 12 + pc"
  "level_base pc 3 = 12 + pc + pc ^ 2" "level_base pc 4 = 12 + pc + pc ^ 2 + pc ^ 3"
  by (simp_all add: level_base_def numeral_eq_Suc atLeastLessThanSuc)

lemma level_of_base:
  "level_of pc bi = (i, off) \<Longrightarrow> bi = level_base pc i + off"
  by (auto simp: level_of_def split: if_splits)

lemma level_of_place:
  assumes "bi < max_blocks pc" "level_of pc bi = (i, off)"
  shows "place pc i i off"
  using assms by (auto simp: level_of_def place_def max_blocks_def split: if_splits)

lemma level_of_inj: "level_of pc bi = level_of pc bj \<Longrightarrow> bi = bj"
  using level_of_base by (metis surj_pair)

lemma place_parent: "place pc i (Suc d) j \<Longrightarrow> place pc i d (j div pc)"
  by (auto simp: place_def less_mult_imp_div_less mult.commute)

lemma place_mod: "place pc i (Suc d) j \<Longrightarrow> j mod pc < pc"
  by (cases "pc = 0") (auto simp: place_def)

lemma place_pc: "place pc i (Suc d) j \<Longrightarrow> 0 < pc"
  by (cases "pc = 0") (auto simp: place_def)

section \<open>Well-formed forests\<close>

definition ptr_blocks :: "nat \<Rightarrow> (nat \<Rightarrow> nat list) \<Rightarrow> (nat \<Rightarrow> nat list) \<Rightarrow> nat set" where
  "ptr_blocks pc R V = {p. p \<noteq> 0 \<and> (\<exists>i d j. place pc i d j \<and> d < i \<and> node pc R V i d j = p)}"

definition all_nodes :: "nat \<Rightarrow> (nat \<Rightarrow> nat list) \<Rightarrow> (nat \<Rightarrow> nat list) \<Rightarrow> nat set" where
  "all_nodes pc R V = {p. p \<noteq> 0 \<and> (\<exists>i d j. place pc i d j \<and> node pc R V i d j = p)}"

text \<open>
  Every pointer leads to a block of \<open>B\<close>, no block has two places, and pointer blocks have \<open>pc\<close> entries.
\<close>

definition unique_places :: "nat \<Rightarrow> (nat \<Rightarrow> nat list) \<Rightarrow> (nat \<Rightarrow> nat list) \<Rightarrow> bool" where
  "unique_places pc R V \<longleftrightarrow> (\<forall>i d j i' d' j'. place pc i d j \<longrightarrow> place pc i' d' j' \<longrightarrow>
     node pc R V i d j \<noteq> 0 \<longrightarrow> node pc R V i d j = node pc R V i' d' j' \<longrightarrow> i = i' \<and> d = d' \<and> j = j')"

definition tree_ok :: "nat \<Rightarrow> nat set \<Rightarrow> (nat \<Rightarrow> nat list) \<Rightarrow> (nat \<Rightarrow> nat list) \<Rightarrow> bool" where
  "tree_ok pc B R V \<longleftrightarrow> 0 \<notin> B \<and> length (R 0) = 12 \<and> (\<forall>i \<in> {1..4}. length (R i) = 1)
     \<and> all_nodes pc R V \<subseteq> B
     \<and> unique_places pc R V
     \<and> (\<forall>p \<in> ptr_blocks pc R V. length (V p) = pc)"

lemma tree_inj:
  "tree_ok pc B R V \<Longrightarrow> place pc i d j \<Longrightarrow> place pc i' d' j' \<Longrightarrow> node pc R V i d j \<noteq> 0 \<Longrightarrow>
   node pc R V i d j = node pc R V i' d' j' \<Longrightarrow> i = i' \<and> d = d' \<and> j = j'"
  unfolding tree_ok_def unique_places_def by meson

lemma tree_in: "tree_ok pc B R V \<Longrightarrow> place pc i d j \<Longrightarrow> node pc R V i d j \<noteq> 0 \<Longrightarrow> node pc R V i d j \<in> B"
  unfolding tree_ok_def all_nodes_def by blast

lemma tree_ptr: "place pc i d j \<Longrightarrow> d < i \<Longrightarrow> node pc R V i d j \<noteq> 0 \<Longrightarrow> node pc R V i d j \<in> ptr_blocks pc R V"
  unfolding ptr_blocks_def by blast

lemma tree_length:
  assumes "tree_ok pc B R V" "place pc i d j" "d < i" "node pc R V i d j \<noteq> 0"
  shows "length (V (node pc R V i d j)) = pc"
proof -
  have "\<forall>p \<in> ptr_blocks pc R V. length (V p) = pc" using assms(1) unfolding tree_ok_def by (elim conjE)
  then show ?thesis using tree_ptr [OF assms(2-4)] by (rule bspec)
qed

lemma ptr_blocks_nodes: "ptr_blocks pc R V \<subseteq> all_nodes pc R V"
  by (auto simp: ptr_blocks_def all_nodes_def)

lemma tree_row: "tree_ok pc B R V \<Longrightarrow> place pc i 0 j \<Longrightarrow> j < length (R i)"
  by (cases "i = 0") (auto simp: tree_ok_def place_def)

lemma tree_mono: "tree_ok pc B R V \<Longrightarrow> B \<subseteq> B' \<Longrightarrow> 0 \<notin> B' \<Longrightarrow> tree_ok pc B' R V"
  unfolding tree_ok_def by blast

text \<open>Only the contents of the pointer blocks of the forest matter.\<close>

lemma node_cong:
  assumes "place pc i d j" "\<And>p. p \<in> ptr_blocks pc R V \<Longrightarrow> V' p = V p"
  shows "node pc R V' i d j = node pc R V i d j"
  using assms(1)
proof (induction d arbitrary: j)
  case 0
  then show ?case by simp
next
  case (Suc d)
  have up: "place pc i d (j div pc)" "d < i"
    using place_parent [OF Suc.prems] Suc.prems by (auto simp: place_def)
  have "V' p = V p" if "p = node pc R V i d (j div pc)" "p \<noteq> 0" for p
    using assms(2) tree_ptr [OF up] that by blast
  then show ?case using Suc.IH [OF up(1)] by (simp add: Let_def)
qed

lemma ptr_blocks_cong:
  assumes "\<And>p. p \<in> ptr_blocks pc R V \<Longrightarrow> V' p = V p"
  shows "ptr_blocks pc R V' = ptr_blocks pc R V" "all_nodes pc R V' = all_nodes pc R V"
    "unique_places pc R V' = unique_places pc R V"
  unfolding ptr_blocks_def all_nodes_def unique_places_def using node_cong [OF _ assms]
  by (intro Collect_cong conj_cong ex_cong1 all_cong1 imp_cong refl, simp_all cong: conj_cong imp_cong)

lemma tree_cong:
  assumes "tree_ok pc B R V" "\<And>p. p \<in> ptr_blocks pc R V \<Longrightarrow> V' p = V p"
  shows "tree_ok pc B R V'"
proof -
  have "\<forall>p \<in> ptr_blocks pc R V. length (V' p) = pc" using assms by (simp add: tree_ok_def)
  then show ?thesis
    using assms(1) ptr_blocks_cong [of pc R V V', OF assms(2)] unfolding tree_ok_def by simp
qed

section \<open>Planting a block\<close>

text \<open>
  A new block \<open>q\<close> is entered at an empty place: in the row of the inode for a place without parent, in
  the pointer block of the parent otherwise.  A new pointer block is empty.
\<close>

definition planted ::
  "nat \<Rightarrow> nat set \<Rightarrow> (nat \<Rightarrow> nat list) \<Rightarrow> (nat \<Rightarrow> nat list) \<Rightarrow> (nat \<Rightarrow> nat list) \<Rightarrow> (nat \<Rightarrow> nat list) \<Rightarrow>
   nat \<Rightarrow> nat \<Rightarrow> nat \<Rightarrow> nat \<Rightarrow> bool" where
  "planted pc B R V R' V' i d j q \<longleftrightarrow> tree_ok pc B R V \<and> q \<notin> B \<and> q \<noteq> 0 \<and> place pc i d j
     \<and> node pc R V i d j = 0
     \<and> (d = 0 \<longrightarrow> R' = R(i := (R i)[j := q]) \<and> (\<forall>b \<in> B. V' b = V b))
     \<and> (0 < d \<longrightarrow> (let p = node pc R V i (d - 1) (j div pc) in
          R' = R \<and> p \<noteq> 0 \<and> V' p = (V p)[j mod pc := q] \<and> (\<forall>b \<in> B. b \<noteq> p \<longrightarrow> V' b = V b)))
     \<and> (d < i \<longrightarrow> V' q = replicate pc 0)"

lemma plantedD:
  assumes "planted pc B R V R' V' i d j q"
  shows "tree_ok pc B R V" "q \<notin> B" "q \<noteq> 0" "place pc i d j" "node pc R V i d j = 0"
    "d = 0 \<Longrightarrow> R' = R(i := (R i)[j := q])" "d = 0 \<Longrightarrow> b \<in> B \<Longrightarrow> V' b = V b"
    "0 < d \<Longrightarrow> R' = R" "0 < d \<Longrightarrow> node pc R V i (d - 1) (j div pc) \<noteq> 0"
    "0 < d \<Longrightarrow> V' (node pc R V i (d - 1) (j div pc)) = (V (node pc R V i (d - 1) (j div pc)))[j mod pc := q]"
    "0 < d \<Longrightarrow> b \<in> B \<Longrightarrow> b \<noteq> node pc R V i (d - 1) (j div pc) \<Longrightarrow> V' b = V b"
    "d < i \<Longrightarrow> V' q = replicate pc 0"
  using assms by (simp_all add: planted_def Let_def)

lemma node_planted:
  assumes "planted pc B R V R' V' i d j q" "place pc i' d' j'"
  shows "node pc R' V' i' d' j' =
    (if i' = i \<and> d' = d \<and> j' = j then q else node pc R V i' d' j')"
  using assms(2)
proof (induction d' arbitrary: j')
  note pl = plantedD [OF assms(1)]
  case 0
  show ?case
  proof (cases "d = 0")
    case True
    have "j < length (R i)" using tree_row [OF pl(1)] pl(4) True by simp
    then show ?thesis using True pl(6) by (auto simp: nth_list_update)
  next
    case False
    then show ?thesis using pl(8) by simp
  qed
next
  note pl = plantedD [OF assms(1)]
  case (Suc d')
  let ?n = "node pc R V" and ?n' = "node pc R' V'"
  have up: "place pc i' d' (j' div pc)" "d' < i'" and m: "j' mod pc < pc"
    using place_parent [OF Suc.prems] place_mod [OF Suc.prems] Suc.prems by (auto simp: place_def)
  note IH = Suc.IH [OF up(1)]
  consider (below) "i' = i" "d' = d" "j' div pc = j"
    | (null) "\<not> (i' = i \<and> d' = d \<and> j' div pc = j)" "?n i' d' (j' div pc) = 0"
    | (block) "\<not> (i' = i \<and> d' = d \<and> j' div pc = j)" "?n i' d' (j' div pc) \<noteq> 0" by blast
  then show ?case
  proof cases
    case below
    then have "?n' i' d' (j' div pc) = q" "V' q = replicate pc 0" using IH pl(12) up(2) by auto
    then have "?n' i' (Suc d') j' = 0" using m by simp
    then show ?thesis using below pl(5) by simp
  next
    case null
    then have same: "?n' i' d' (j' div pc) = 0" using IH by auto
    have no: "\<not> (i' = i \<and> Suc d' = d \<and> j' = j)" using pl(9) null(2) by auto
    show ?thesis unfolding if_not_P [OF no] using same null(2) by simp
  next
    case block
    define p where "p = ?n i' d' (j' div pc)"
    have p: "?n' i' d' (j' div pc) = p" "p \<noteq> 0" "p \<in> B"
      using IH block(1) tree_in [OF pl(1) up(1) block(2)] block(2) by (auto simp: p_def)
    show ?thesis
    proof (cases "0 < d \<and> p = ?n i (d - 1) (j div pc)")
      case True
      have "place pc i (d - 1) (j div pc)" using pl(4) True place_parent [of pc i "d - 1" j] by simp
      then have eq: "i' = i \<and> d' = d - 1 \<and> j' div pc = j div pc"
        using tree_inj [OF pl(1) up(1) _ block(2)] True p_def by simp
      have "V' p = (V p)[j mod pc := q]" "length (V p) = pc"
        using pl(10) True tree_length [OF pl(1) up block(2)] p_def by simp_all
      moreover have "j' mod pc = j mod pc \<longleftrightarrow> j' = j" using eq by (metis div_mult_mod_eq)
      moreover have "?n' i' (Suc d') j' = V' p ! (j' mod pc)" "?n i' (Suc d') j' = V p ! (j' mod pc)"
        using p p_def by simp_all
      moreover have "Suc d' = d" using eq True by simp
      ultimately show ?thesis using eq m by (auto simp: nth_list_update)
    next
      case False
      have "V' p = V p" using pl(7,11) p(3) False by (cases "d = 0") auto
      moreover have no: "\<not> (i' = i \<and> Suc d' = d \<and> j' = j)" using False p_def by auto
      ultimately show ?thesis unfolding if_not_P [OF no] using p p_def by simp
    qed
  qed
qed

lemma planted_out:
  "planted pc B R V R' V' i d j q \<Longrightarrow> place pc i' d' j' \<Longrightarrow> node pc R V i' d' j' \<noteq> q"
  using tree_in plantedD(1-3) by metis

lemma all_nodes_planted:
  assumes "planted pc B R V R' V' i d j q"
  shows "all_nodes pc R' V' = insert q (all_nodes pc R V)"
proof (intro equalityI subsetI)
  fix p
  assume "p \<in> all_nodes pc R' V'"
  then obtain i' d' j' where p: "place pc i' d' j'" "p = node pc R' V' i' d' j'" "p \<noteq> 0"
    unfolding all_nodes_def by blast
  show "p \<in> insert q (all_nodes pc R V)"
    using p node_planted [OF assms p(1)] unfolding all_nodes_def by (auto split: if_splits)
next
  fix p
  note pl = plantedD [OF assms]
  assume p: "p \<in> insert q (all_nodes pc R V)"
  show "p \<in> all_nodes pc R' V'"
  proof (cases "p = q")
    case True
    have "node pc R' V' i d j = q" using node_planted [OF assms pl(4)] by simp
    then show ?thesis using True pl(3,4) unfolding all_nodes_def by blast
  next
    case False
    then obtain i' d' j' where p': "place pc i' d' j'" "node pc R V i' d' j' = p" "p \<noteq> 0"
      using p unfolding all_nodes_def by auto
    then have no: "\<not> (i' = i \<and> d' = d \<and> j' = j)" using pl(5) by auto
    have "node pc R' V' i' d' j' = p" unfolding node_planted [OF assms p'(1)] if_not_P [OF no] by (rule p'(2))
    then show ?thesis using p' unfolding all_nodes_def by blast
  qed
qed

lemma ptr_blocks_planted:
  assumes "planted pc B R V R' V' i d j q"
  shows "ptr_blocks pc R' V' \<subseteq> insert q (ptr_blocks pc R V)"
    and "d = i \<Longrightarrow> ptr_blocks pc R' V' = ptr_blocks pc R V"
proof -
  show "ptr_blocks pc R' V' \<subseteq> insert q (ptr_blocks pc R V)"
  proof
    fix p
    assume "p \<in> ptr_blocks pc R' V'"
    then obtain i' d' j' where p: "place pc i' d' j'" "d' < i'" "p = node pc R' V' i' d' j'" "p \<noteq> 0"
      unfolding ptr_blocks_def by blast
    show "p \<in> insert q (ptr_blocks pc R V)"
      using p node_planted [OF assms p(1)] tree_ptr [OF p(1,2)] by (auto split: if_splits)
  qed
  assume di: "d = i"
  have "node pc R' V' i' d' j' = node pc R V i' d' j'" if "place pc i' d' j'" "d' < i'" for i' d' j'
    using node_planted [OF assms that(1)] that(2) di by auto
  then show "ptr_blocks pc R' V' = ptr_blocks pc R V"
    unfolding ptr_blocks_def by (intro Collect_cong conj_cong ex_cong1 refl) auto
qed

lemma length_planted:
  assumes "planted pc B R V R' V' i d j q" "p \<in> ptr_blocks pc R' V'"
  shows "length (V' p) = pc"
proof -
  note pl = plantedD [OF assms(1)]
  obtain i' d' j' where p: "place pc i' d' j'" "d' < i'" "node pc R' V' i' d' j' = p" "p \<noteq> 0"
    using assms(2) unfolding ptr_blocks_def by blast
  show ?thesis
  proof (cases "i' = i \<and> d' = d \<and> j' = j")
    case True
    then have "p = q" "d < i" using node_planted [OF assms(1) p(1)] p(2,3) by auto
    then show ?thesis using pl(12) by simp
  next
    case False
    then have n: "node pc R V i' d' j' = p"
      using p(3) unfolding node_planted [OF assms(1) p(1)] if_not_P [OF False] by simp
    have "length (V p) = pc" "p \<in> B"
      using tree_length [OF pl(1) p(1,2)] tree_in [OF pl(1) p(1)] n p(4) by simp_all
    then show ?thesis
      using pl(7,10,11) by (cases "d = 0"; cases "p = node pc R V i (d - 1) (j div pc)") auto
  qed
qed

lemma unique_planted:
  assumes "planted pc B R V R' V' i d j q"
  shows "unique_places pc R' V'"
  unfolding unique_places_def
proof (intro allI impI)
  fix i1 d1 j1 i2 d2 j2
  assume p: "place pc i1 d1 j1" "place pc i2 d2 j2" "node pc R' V' i1 d1 j1 \<noteq> 0"
    "node pc R' V' i1 d1 j1 = node pc R' V' i2 d2 j2"
  show "i1 = i2 \<and> d1 = d2 \<and> j1 = j2"
    using p(3,4) planted_out [OF assms p(1)] planted_out [OF assms p(2)]
      tree_inj [OF plantedD(1) [OF assms] p(1,2)]
    unfolding node_planted [OF assms p(1)] node_planted [OF assms p(2)]
    by (auto split: if_splits)
qed

lemma tree_planted:
  assumes "planted pc B R V R' V' i d j q"
  shows "tree_ok pc (insert q B) R' V'"
proof -
  note pl = plantedD [OF assms]
  have rows: "length (R' k) = length (R k)" for k
    using pl(6,8) by (cases "d = 0") auto
  have "0 \<notin> B" "length (R 0) = 12" "\<forall>i \<in> {1..4}. length (R i) = 1" "all_nodes pc R V \<subseteq> B"
    using pl(1) unfolding tree_ok_def by blast+
  then show ?thesis
    unfolding tree_ok_def all_nodes_planted [OF assms] rows
    using unique_planted [OF assms] length_planted [OF assms] pl(3) by auto
qed

lemma block_ptr_planted:
  assumes "planted pc B R V R' V' i i j q" "level_of pc bi = (i, j)" "bk < max_blocks pc"
  shows "block_ptr pc R' V' bk = (if bk = bi then q else block_ptr pc R V bk)"
proof -
  obtain i' j' where k: "level_of pc bk = (i', j')" by fastforce
  have "(i' = i \<and> j' = j) \<longleftrightarrow> bk = bi" using level_of_inj [of pc bk bi] k assms(2) by auto
  then show ?thesis
    using node_planted [OF assms(1) level_of_place [OF assms(3) k]] k by (auto simp: block_ptr_def)
qed

lemma block_ptr_kept:
  assumes "planted pc B R V R' V' i d j q" "d < i" "bk < max_blocks pc"
  shows "block_ptr pc R' V' bk = block_ptr pc R V bk"
proof -
  obtain i' j' where k: "level_of pc bk = (i', j')" by fastforce
  show ?thesis
    using node_planted [OF assms(1) level_of_place [OF assms(3) k]] k assms(2) by (auto simp: block_ptr_def)
qed

end
