(* ===== verification/BlockMap.thy ===== *)
theory BlockMap
  imports BlockStore PtrTree Files
begin

text \<open>
  The block map of an open file: the forest that the pointers of the inode, the cached pointer blocks
  and the pointer blocks on the device describe together, and the operations of file.rs that walk it.

  \<open>file_map X D V is ds (f, s)\<close> relates a file to the contents \<open>V\<close> of its pointer blocks: a cached block
  has the contents in the cache, every other one (those in \<open>D\<close> excepted) the contents on the device.
  The blocks of the file are in use, each has one place, and \<open>inode.blocks\<close> counts them.
\<close>

section \<open>Execution of the primitives\<close>

lemma file_run [simp]:
  "get_file g (f, s) = (Ok (g f), (f, s))"
  "mod_file h (f, s) = (Ok (), (h f, s))"
  "mod_inode h' (f, s) = (Ok (), (f\<lparr>f_inode := h' (f_inode f)\<rparr>, s))"
  "set_dirty b (f, s) = (Ok (), (f\<lparr>f_dirty := b\<rparr>, s))"
  by (simp_all add: get_file_def mod_file_def mod_inode_def set_dirty_def)

lemma dk_block_size_run [simp]: "dk_block_size (f, s) = (Ok (block_size (sb s)), (f, s))"
  by (simp add: dk_block_size_def on_dk_def)

lemma on_dk_run: "m s = (r, t) \<Longrightarrow> on_dk m (f, s) = (r, (f, t))"
  by (simp add: on_dk_def)

lemma get_cache_run: "k < length (f_cache f) \<Longrightarrow> get_cache k (f, s) = (Ok (f_cache f ! k), (f, s))"
  by (simp add: get_cache_def bnd_def)

lemma set_cache_run:
  "k < length (f_cache f) \<Longrightarrow> set_cache k c (f, s) = (Ok (), (f\<lparr>f_cache := (f_cache f)[k := Some c]\<rparr>, s))"
  by (simp add: set_cache_def bnd_def)

lemma empty_ptr_block_run [simp]: "empty_ptr_block (f, s) = (Ok (replicate (pcount s) 0), (f, s))"
  by (simp add: empty_ptr_block_def bnd_def pcount_def)

section \<open>The invariant\<close>

definition rows :: "dkfile \<Rightarrow> nat \<Rightarrow> nat list" where
  "rows f i = (case ptrs_index (i_ptrs (f_inode f)) i of None \<Rightarrow> [] | Some r \<Rightarrow> r)"

definition cached :: "dkfile \<Rightarrow> nat \<Rightarrow> nat \<Rightarrow> nat list \<Rightarrow> bool" where
  "cached f k p pb \<longleftrightarrow> k < 4 \<and> f_cache f ! k = Some (p, pb)"

definition cache_ok :: "nat \<Rightarrow> dkfile \<Rightarrow> (nat \<Rightarrow> nat list) \<Rightarrow> bool" where
  "cache_ok pc f V \<longleftrightarrow> length (f_cache f) = 4 \<and> (\<forall>k p pb. cached f k p pb \<longrightarrow>
     p \<noteq> 0 \<and> V p = pb \<and> (\<forall>v \<in> set pb. v < u64_limit) \<and>
     (\<exists>d j. place pc (d + Suc k) d j \<and> node pc (rows f) V (d + Suc k) d j = p))"

definition disk_view :: "ext \<Rightarrow> nat set \<Rightarrow> (nat \<Rightarrow> nat list) \<Rightarrow> dkfile \<Rightarrow> 'z store_scheme \<Rightarrow> bool" where
  "disk_view X D V f s \<longleftrightarrow> (\<forall>p \<in> ptr_blocks (pcount s) (rows f) V - D.
     (\<forall>k pb. \<not> cached f k p pb) \<longrightarrow> V p = disk_ptrs X s p)"

definition blocks_ok :: "nat \<Rightarrow> nat set \<Rightarrow> dkfile \<Rightarrow> (nat \<Rightarrow> nat list) \<Rightarrow> bool" where
  "blocks_ok pc B f V \<longleftrightarrow>
     i_blocks (f_inode f) = card (all_nodes pc (rows f) V) + (if i_xattr_ptr (f_inode f) = 0 then 0 else 1)
     \<and> (i_xattr_ptr (f_inode f) \<noteq> 0 \<longrightarrow> i_xattr_ptr (f_inode f) \<in> B - all_nodes pc (rows f) V)"

definition file_map ::
  "ext \<Rightarrow> nat set \<Rightarrow> (nat \<Rightarrow> nat list) \<Rightarrow> nat list \<Rightarrow> nat list \<Rightarrow> dkfile \<times> 'z store_scheme \<Rightarrow> bool" where
  "file_map X D V is ds fs \<longleftrightarrow> (case fs of (f, s) \<Rightarrow>
     store_ok X s is ds \<and> pcount s ^ 4 < u64_limit
     \<and> tree_ok (pcount s) (data_blocks s - set ds) (rows f) V
     \<and> cache_ok (pcount s) f V \<and> disk_view X D V f s
     \<and> blocks_ok (pcount s) (data_blocks s - set ds) f V)"

text \<open>The bytes that walking and extending the map may change.\<close>

definition footprint :: "(nat \<Rightarrow> nat list) \<Rightarrow> nat list \<Rightarrow> dkfile \<times> 'z store_scheme \<Rightarrow> nat set" where
  "footprint V ds fs = (case fs of (f, s) \<Rightarrow>
     sb_range \<union> block_bytes (block_size (sb s)) (set ds \<union> ptr_blocks (pcount s) (rows f) V))"

lemma file_mapD:
  assumes "file_map X D V is ds (f, s)"
  shows "store_ok X s is ds" "pcount s ^ 4 < u64_limit"
    "tree_ok (pcount s) (data_blocks s - set ds) (rows f) V" "cache_ok (pcount s) f V"
    "disk_view X D V f s" "blocks_ok (pcount s) (data_blocks s - set ds) f V"
  using assms by (simp_all add: file_map_def)

lemma cacheD:
  assumes "cache_ok pc f V"
  shows "length (f_cache f) = 4" "cached f k p pb \<Longrightarrow> p \<noteq> 0" "cached f k p pb \<Longrightarrow> V p = pb"
    "cached f k p pb \<Longrightarrow> v \<in> set pb \<Longrightarrow> v < u64_limit"
    "cached f k p pb \<Longrightarrow> \<exists>d j. place pc (d + Suc k) d j \<and> node pc (rows f) V (d + Suc k) d j = p"
  using assms unfolding cache_ok_def by blast+

lemma cached_ptr_block:
  assumes "cache_ok pc f V" "cached f k p pb"
  shows "p \<in> ptr_blocks pc (rows f) V"
proof -
  obtain d j where "place pc (d + Suc k) d j" "node pc (rows f) V (d + Suc k) d j = p"
    using cacheD(5) [OF assms] by blast
  then show ?thesis using tree_ptr [of pc "d + Suc k" d j "rows f" V] cacheD(2) [OF assms] by simp
qed

lemma ptr_block_used:
  assumes "file_map X D V is ds (f, s)" "p \<in> ptr_blocks (pcount s) (rows f) V"
  shows "p \<in> data_blocks s" "p \<notin> set ds" "length (V p) = pcount s"
proof -
  have "ptr_blocks (pcount s) (rows f) V \<subseteq> data_blocks s - set ds"
    using file_mapD(3) [OF assms(1)] ptr_blocks_nodes unfolding tree_ok_def by blast
  then show "p \<in> data_blocks s" "p \<notin> set ds" using assms(2) by blast+
  show "length (V p) = pcount s" using file_mapD(3) [OF assms(1)] assms(2) unfolding tree_ok_def by blast
qed

text \<open>The caches of different levels hold different blocks.\<close>

lemma cached_level:
  assumes "tree_ok pc B (rows f) V" "cache_ok pc f V" "cached f k p pb"
    "place pc (d + Suc k') d j" "node pc (rows f) V (d + Suc k') d j = p"
  shows "k = k'"
proof -
  obtain d' j' where p: "place pc (d' + Suc k) d' j'" "node pc (rows f) V (d' + Suc k) d' j' = p"
    using cacheD(5) [OF assms(2,3)] by blast
  then have "d' + Suc k = d + Suc k' \<and> d' = d \<and> j' = j"
    using cacheD(2) [OF assms(2,3)] assms(4,5) by (intro tree_inj [OF assms(1)]) auto
  then show ?thesis by simp
qed

section \<open>Frame\<close>

lemma file_map_store:
  assumes "file_map X D V is ds (f, s)" "store_ok X t is' ds'" "evolves A s t"
    "set ds' \<subseteq> set ds"
    "\<And>p. p \<in> ptr_blocks (pcount s) (rows f) V \<Longrightarrow> (\<forall>k pb. \<not> cached f k p pb) \<Longrightarrow>
       {p..<p + block_size (sb s)} \<inter> A = {}"
  shows "file_map X D V is' ds' (f, t)"
proof -
  note m = file_mapD [OF assms(1)] and e = evolves_simps [OF assms(3)] pcount_evolves [OF assms(3)]
  let ?B = "data_blocks s - set ds" and ?B' = "data_blocks s - set ds'"
  have sub: "?B \<subseteq> ?B'" "0 \<notin> ?B'"
    using assms(4) data_block_range(4) [OF m(1)] by (blast, fastforce)
  have "V p = disk_ptrs X t p"
    if p: "p \<in> ptr_blocks (pcount s) (rows f) V" "p \<notin> D" "\<forall>k pb. \<not> cached f k p pb" for p
    using m(5) p disk_ptrs_evolves [OF assms(3) assms(5) [OF p(1,3)]] unfolding disk_view_def by auto
  then have "disk_view X D V f t" unfolding disk_view_def e by blast
  moreover have "blocks_ok (pcount s) ?B' f V" using m(6) sub(1) unfolding blocks_ok_def by blast
  ultimately show ?thesis
    using m assms(2) tree_mono [OF m(3) sub] by (simp add: file_map_def e)
qed

section \<open>Loading a pointer block into its cache\<close>

text \<open>A cached block is written to its place on the device.\<close>

lemma write_back:
  assumes "file_map X D V is ds (f, s)" "cached f k p pb"
  obtains t where "write_at X p (ptr_block_bytes X pb) s = (Ok (), t)" "file_map X D V is ds (f, t)"
    "evolves {p..<p + block_size (sb s)} s t" "disk_ptrs X t p = pb" "p \<in> ptr_blocks (pcount s) (rows f) V"
proof -
  note m = file_mapD [OF assms(1)] and ok = store_okD [OF file_mapD(1) [OF assms(1)]]
  have pt: "p \<in> ptr_blocks (pcount s) (rows f) V" by (rule cached_ptr_block [OF m(4) assms(2)])
  note used = ptr_block_used [OF assms(1) pt]
  have pb: "length pb = pcount s" "\<forall>v \<in> set pb. v < u64_limit"
    using used(3) cacheD(3,4) [OF m(4) assms(2)] by auto
  then have len: "length (ptr_block_bytes X pb) = block_size (sb s)" using ok(1,6) by simp
  obtain t where t: "write_at X p (ptr_block_bytes X pb) s = (Ok (), t)"
    "t = set_disk (write_bytes p (ptr_block_bytes X pb) (disk s)) s" "store_ok X t is ds"
    "evolves {p..<p + block_size (sb s)} s t"
    using write_used_block [OF m(1) used(1,2), of p "ptr_block_bytes X pb"] len by auto
  have "file_map X D V is ds (f, t)"
  proof (rule file_map_store [OF assms(1) t(3,4) subset_refl])
    fix p' assume p': "p' \<in> ptr_blocks (pcount s) (rows f) V" "\<forall>k pb. \<not> cached f k p' pb"
    then have "p' \<noteq> p" using assms(2) by blast
    then show "{p'..<p' + block_size (sb s)} \<inter> {p..<p + block_size (sb s)} = {}"
      by (rule data_blocks_apart [OF ptr_block_used(1) [OF assms(1) p'(1)] used(1)])
  qed
  moreover have "disk_ptrs X t p = pb" unfolding t(2) by (rule disk_ptrs_write [OF ok(1,6) pb])
  ultimately show thesis using that t(1,4) pt by blast
qed

lemma evict_Ok:
  assumes "file_map X D V is ds (f, s)" "k < 4"
  obtains hit t where "evict X k ptr (f, s) = (Ok hit, (f, t))" "file_map X D V is ds (f, t)"
    "evolves (block_bytes (block_size (sb s)) (ptr_blocks (pcount s) (rows f) V)) s t"
    "hit \<longleftrightarrow> (\<exists>pb. cached f k ptr pb)"
    "\<not> hit \<Longrightarrow> \<forall>p pb. cached f k p pb \<longrightarrow> disk_ptrs X t p = pb"
proof -
  note m = file_mapD [OF assms(1)]
  have k: "k < length (f_cache f)" using cacheD(1) [OF m(4)] assms(2) by simp
  note get = get_cache_run [OF k]
  show thesis
  proof (cases "f_cache f ! k")
    case None
    then show thesis
      using assms by (intro that [of False s]) (auto simp: evict_def bnd_def cached_def get)
  next
    case (Some c)
    obtain p pb where c: "c = (p, pb)" by fastforce
    then have here: "cached f k p pb" using Some assms(2) by (simp add: cached_def)
    then have only: "\<And>p' pb'. cached f k p' pb' \<longleftrightarrow> p' = p \<and> pb' = pb" by (auto simp: cached_def)
    show thesis
    proof (cases "p = ptr")
      case True
      then show thesis
        using assms Some c here
        by (intro that [of True s]) (auto simp: evict_def bnd_def get)
    next
      case False
      obtain t where t: "write_at X p (ptr_block_bytes X pb) s = (Ok (), t)" "file_map X D V is ds (f, t)"
        "evolves {p..<p + block_size (sb s)} s t" "disk_ptrs X t p = pb" "p \<in> ptr_blocks (pcount s) (rows f) V"
        by (rule write_back [OF assms(1) here])
      have "evolves (block_bytes (block_size (sb s)) (ptr_blocks (pcount s) (rows f) V)) s t"
        by (rule evolves_mono [OF t(3)]) (use t(5) in \<open>auto simp: block_bytes_def\<close>)
      moreover have "evict X k ptr (f, s) = (Ok False, (f, t))"
        using Some c False t(1) by (simp add: evict_def bnd_def on_dk_def get)
      ultimately show thesis using only False t(2,4) by (intro that [of False t]) auto
    qed
  qed
qed

text \<open>A block takes the place of another one in its cache, once that one is on the device.\<close>

abbreviation put_cache :: "nat \<Rightarrow> nat \<Rightarrow> nat list \<Rightarrow> dkfile \<Rightarrow> dkfile" where
  "put_cache k p pb f \<equiv> f\<lparr>f_cache := (f_cache f)[k := Some (p, pb)]\<rparr>"

lemma rows_cache [simp]: "rows (f\<lparr>f_cache := c\<rparr>) = rows f"
  by (simp add: rows_def fun_eq_iff)

lemma cached_put:
  "length (f_cache f) = 4 \<Longrightarrow> cached (put_cache k p pb f) k' p' pb' \<longleftrightarrow>
   (if k' = k then k < 4 \<and> p' = p \<and> pb' = pb else cached f k' p' pb')"
  by (auto simp: cached_def nth_list_update)

lemma put_cache_map:
  assumes "file_map X D V is ds (f, s)" "k < 4"
    "place (pcount s) (d + Suc k) d j" "node (pcount s) (rows f) V (d + Suc k) d j = p" "p \<noteq> 0"
    "\<forall>v \<in> set (V p). v < u64_limit" "\<forall>p' pb. cached f k p' pb \<longrightarrow> disk_ptrs X s p' = pb"
  shows "file_map X (D - {p}) V is ds (put_cache k p (V p) f, s)"
proof -
  note m = file_mapD [OF assms(1)] and c = cacheD [OF file_mapD(4) [OF assms(1)]]
  let ?f = "put_cache k p (V p) f"
  have "cache_ok (pcount s) ?f V"
    unfolding cache_ok_def
  proof (intro conjI allI impI)
    show "length (f_cache ?f) = 4" using c(1) by simp
    fix k' p' pb' assume "cached ?f k' p' pb'"
    then have k': "if k' = k then p' = p \<and> pb' = V p else cached f k' p' pb'"
      using cached_put [OF c(1)] by (simp split: if_splits)
    show "p' \<noteq> 0" "V p' = pb'" "\<forall>v \<in> set pb'. v < u64_limit"
      "\<exists>d j. place (pcount s) (d + Suc k') d j \<and> node (pcount s) (rows ?f) V (d + Suc k') d j = p'"
      using k' assms(3-6) c(2-5) by (auto split: if_splits)
  qed
  moreover have "disk_view X (D - {p}) V ?f s"
    unfolding disk_view_def rows_cache
  proof (intro ballI impI)
    fix p' assume p': "p' \<in> ptr_blocks (pcount s) (rows f) V - (D - {p})" "\<forall>k pb. \<not> cached ?f k p' pb"
    have ne: "p' \<noteq> p" using p'(2) [rule_format, of k "V p"] cached_put [OF c(1)] assms(2) by simp
    show "V p' = disk_ptrs X s p'"
    proof (cases "\<exists>pb. cached f k p' pb")
      case True
      then show ?thesis using assms(7) c(3) by metis
    next
      case False
      then have "\<forall>k pb. \<not> cached f k p' pb" using p'(2) cached_put [OF c(1)] by metis
      then show ?thesis using m(5) p'(1) ne unfolding disk_view_def by blast
    qed
  qed
  ultimately show ?thesis using m by (simp add: file_map_def blocks_ok_def)
qed

text \<open>What the four loading methods have in common when the block exists.\<close>

definition load :: "ext \<Rightarrow> nat \<Rightarrow> nat \<Rightarrow> ('z, dk_error, 'a) fprog \<Rightarrow> ('z, dk_error, 'a) fprog" where
  "load X k ptr m = bnd (evict X k ptr) (\<lambda>hit. if hit then m
     else bnd (on_dk (read_ptr_block X ptr)) (\<lambda>pb. bnd (set_cache k (ptr, pb)) (\<lambda>_. m)))"

lemma load_Ok:
  assumes "file_map X {} V is ds (f, s)" "k < 4"
    "place (pcount s) (d + Suc k) d j" "node (pcount s) (rows f) V (d + Suc k) d j = p" "p \<noteq> 0"
  obtains c t where "\<And>m. load X k p m (f, s) = m (f\<lparr>f_cache := c\<rparr>, t)"
    "file_map X {} V is ds (f\<lparr>f_cache := c\<rparr>, t)"
    "evolves (block_bytes (block_size (sb s)) (ptr_blocks (pcount s) (rows f) V)) s t"
    "c ! k = Some (p, V p)" "\<And>k'. k' \<noteq> k \<Longrightarrow> c ! k' = f_cache f ! k'"
proof -
  note c4 = cacheD(1) [OF file_mapD(4) [OF assms(1)]]
  obtain hit t where t: "evict X k p (f, s) = (Ok hit, (f, t))" "file_map X {} V is ds (f, t)"
    "evolves (block_bytes (block_size (sb s)) (ptr_blocks (pcount s) (rows f) V)) s t"
    "hit \<longleftrightarrow> (\<exists>pb. cached f k p pb)" "\<not> hit \<Longrightarrow> \<forall>p pb. cached f k p pb \<longrightarrow> disk_ptrs X t p = pb"
    by (rule evict_Ok [OF assms(1,2)]) blast
  note pc = pcount_evolves [OF t(3)] and m = file_mapD [OF t(2)]
  show thesis
  proof (cases hit)
    case True
    then obtain pb where pb: "cached f k p pb" using t(4) by blast
    then have "f_cache f ! k = Some (p, V p)" using cacheD(3) [OF m(4) pb] by (simp add: cached_def)
    then show thesis
      using t(1-3) True by (intro that [of "f_cache f" t]) (simp_all add: load_def bnd_def)
  next
    case False
    have pt: "p \<in> ptr_blocks (pcount t) (rows f) V"
      using tree_ptr [of "pcount s" "d + Suc k" d j "rows f" V, OF assms(3)] assms(4,5) pc by simp
    have "\<forall>k' pb. \<not> cached f k' p pb"
      using cached_level [OF m(3,4)] assms(3,4) pc t(4) False by metis
    then have V: "V p = disk_ptrs X t p" using m(5) pt unfolding disk_view_def by blast
    have rd: "read_ptr_block X p t = (Ok (V p), t)"
      unfolding V by (rule read_ptr_block_Ok [OF m(1) ptr_block_used(1) [OF t(2) pt]])
    have "file_map X ({} - {p}) V is ds (put_cache k p (V p) f, t)"
      using assms(3,4) pc t(5) [OF False] disk_ptrs_less [OF m(1)] V
      by (intro put_cache_map [OF t(2) assms(2) _ _ assms(5)]) auto
    moreover have "load X k p m' (f, s) = m' (put_cache k p (V p) f, t)" for m'
      using False assms(2) c4 by (simp add: load_def bnd_def t(1) on_dk_def rd set_cache_run)
    ultimately show thesis
      using t(3) assms(2) c4 by (intro that [of "(f_cache f)[k := Some (p, V p)]" t]) auto
  qed
qed

section \<open>The tree of a block\<close>

lemma rows_simps:
  "rows f 0 = direct (i_ptrs (f_inode f))" "rows f (Suc 0) = ind1 (i_ptrs (f_inode f))"
  "rows f 1 = ind1 (i_ptrs (f_inode f))" "rows f 2 = ind2 (i_ptrs (f_inode f))"
  "rows f 3 = ind3 (i_ptrs (f_inode f))" "rows f 4 = ind4 (i_ptrs (f_inode f))"
  by (simp_all add: rows_def)

lemma ptrs_index_rows: "i \<le> 4 \<Longrightarrow> ptrs_index (i_ptrs (f_inode f)) i = Some (rows f i)"
  by (cases "i = 0"; cases "i = 1"; cases "i = 2"; cases "i = 3") (auto simp: rows_def)

text \<open>
  The loop stops at the tree of the block; for a block beyond the fourth tree it reaches
  \<open>unreachable!()\<close> (or overflows before it).
\<close>

lemma level_off_step:
  assumes "ptrs_index p l = Some row" "length row * multi < u64_limit"
  shows "level_off_loop p pc (l # ls) bi multi =
    (if bi < length row * multi then ret (l, bi)
     else bnd (ck_mul multi pc) (\<lambda>multi'. level_off_loop p pc ls (bi - length row * multi) multi'))"
  using assms by (simp del: ptrs_index.simps)

lemma level_off_run:
  assumes "tree_ok pc B (rows f) V" "pc = pcount s" "pc ^ 4 < u64_limit" "2 \<le> pc"
  shows "level_off bi (f, s) =
    (if bi < max_blocks pc then Ok (level_of pc bi) else Panic, (f, s))"
proof -
  have len: "length (rows f 0) = 12" "length (rows f 1) = 1" "length (rows f 2) = 1"
    "length (rows f 3) = 1" "length (rows f 4) = 1"
    using assms(1) by (simp_all add: tree_ok_def)
  have pw: "pc ^ k < u64_limit" if "k \<le> 4" for k
    using power_increasing [OF that, of pc] assms(3,4) by linarith
  define p2 p3 p4 where "p2 = pc ^ 2" "p3 = pc ^ 3" "p4 = pc ^ 4"
  note p = this [symmetric]
  have small: "pc < u64_limit" "p2 < u64_limit" "p3 < u64_limit" "p4 < u64_limit"
    using pw [of 1] pw [of 2] pw [of 3] pw [of 4] by (simp_all add: p)
  have mul: "pc * pc = p2" "p2 * pc = p3" "p3 * pc = p4"
    by (simp_all add: p [symmetric] power_numeral_reduce mult_ac)
  have idx: "ptrs_index (i_ptrs (f_inode f)) 0 = Some (rows f 0)"
    "ptrs_index (i_ptrs (f_inode f)) 1 = Some (rows f 1)"
    "ptrs_index (i_ptrs (f_inode f)) 2 = Some (rows f 2)"
    "ptrs_index (i_ptrs (f_inode f)) 3 = Some (rows f 3)"
    "ptrs_index (i_ptrs (f_inode f)) 4 = Some (rows f 4)"
    by (simp_all add: rows_simps)
  note steps = idx [THEN level_off_step]
  have stop: "bnd (ck_mul p4 pc) (level_off_loop q pc [] bk) fs = (Panic, fs)" for q bk and fs :: "dkfile \<times> 'a store_scheme"
    by (simp add: ck_mul_def)
  have "level_off_loop (i_ptrs (f_inode f)) pc [0, 1, 2, 3, 4] bi 1 (f, s) =
    (if bi < max_blocks pc then Ok (level_of pc bi) else Panic, (f, s))"
  proof -
    consider "bi < 12" | "12 \<le> bi" "bi < 12 + pc" | "12 + pc \<le> bi" "bi < 12 + pc + p2"
      | "12 + pc + p2 \<le> bi" "bi < 12 + pc + p2 + p3"
      | "12 + pc + p2 + p3 \<le> bi" "bi < 12 + pc + p2 + p3 + p4" | "12 + pc + p2 + p3 + p4 \<le> bi"
      by linarith
    then show ?thesis
      by cases (simp_all del: level_off_loop.simps ptrs_index.simps One_nat_def
          add: steps len small mul stop level_of_def max_blocks_def p less_diff_conv2)
  qed
  then show ?thesis using assms(2) by (simp add: level_off_def bnd_def pcount_def)
qed

section \<open>Looking up a block\<close>

lemma get_ptr_run:
  "i \<le> 4 \<Longrightarrow> k < length (rows f i) \<Longrightarrow> get_ptr i k (f, s) = (Ok (rows f i ! k), (f, s))"
  by (simp del: ptrs_index.simps add: get_ptr_def bnd_def ptrs_index_rows)

abbreviation put_row :: "nat \<Rightarrow> nat \<Rightarrow> nat \<Rightarrow> dkfile \<Rightarrow> dkfile" where
  "put_row i k p f \<equiv> f\<lparr>f_inode := (f_inode f)\<lparr>i_ptrs := ptrs_update i ((rows f i)[k := p]) (i_ptrs (f_inode f))\<rparr>\<rparr>"

lemma set_ptr_run:
  "i \<le> 4 \<Longrightarrow> k < length (rows f i) \<Longrightarrow> set_ptr i k p (f, s) = (Ok (), (put_row i k p f, s))"
  by (simp del: ptrs_index.simps add: set_ptr_def bnd_def ptrs_index_rows)

lemma ptrs_update_same: "i \<le> 4 \<Longrightarrow> ptrs_update i (rows f i) (i_ptrs (f_inode f)) = i_ptrs (f_inode f)"
  by (cases "i_ptrs (f_inode f)"; cases "i = 0"; cases "i = 1"; cases "i = 2"; cases "i = 3")
    (auto simp: rows_def)

lemma put_row_same:
  assumes "i \<le> 4" "rows f i ! k = p"
  shows "put_row i k p f = f"
proof -
  have "(rows f i)[k := p] = rows f i" using assms(2) by (metis list_update_id)
  then show ?thesis using ptrs_update_same [OF assms(1)] by simp
qed

lemma set_ptr_same:
  assumes "i \<le> 4" "k < length (rows f i)" "rows f i ! k = p"
  shows "set_ptr i k p (f, s) = (Ok (), (f, s))"
  unfolding set_ptr_run [OF assms(1,2)] put_row_same [OF assms(1,3)] ..

lemma load_ptrs_eq:
  "load_ptrs X (Suc k) ptr = (if ptr = 0 then ret None else load X k ptr (ret (Some ptr)))"
  by (simp add: load_ptrs_def load_def fun_eq_iff cong: if_cong)

lemma load_ptrs_in_cache_eq:
  "load_ptrs_in_cache X (Suc (Suc k)) i = bnd (cached_ptr (Suc k) i) (\<lambda>new_ptr.
     if new_ptr = 0 then ret False else load X k new_ptr (ret True))"
  by (simp add: load_ptrs_in_cache_def load_def cong: if_cong)

lemma cached_ptr_run:
  "k < length (f_cache f) \<Longrightarrow> f_cache f ! k = Some (p, pb) \<Longrightarrow> i < length pb \<Longrightarrow>
   cached_ptr k i (f, s) = (Ok (pb ! i), (f, s))"
  by (simp add: cached_ptr_def bnd_def get_cache_run)

text \<open>Nothing hangs below a null pointer.\<close>

lemma node_below_null: "node pc R V i d (j div pc ^ e) = 0 \<Longrightarrow> node pc R V i (d + e) j = 0"
proof (induction e arbitrary: j)
  case 0
  then show ?case by simp
next
  case (Suc e)
  have "node pc R V i d (j div pc div pc ^ e) = 0" using Suc.prems by (simp add: div_mult2_eq)
  then have "node pc R V i (d + e) (j div pc) = 0" by (rule Suc.IH)
  then show ?case by simp
qed

lemma place_on_path:
  assumes "i \<le> 4" "1 \<le> i" "off < pc ^ i" "d + l = i"
  shows "place pc i d (off div pc ^ l)"
proof -
  have "off < pc ^ d * pc ^ l" using assms(3,4) by (simp add: power_add [symmetric])
  then have "off div pc ^ l < pc ^ d" by (rule less_mult_imp_div_less)
  then show ?thesis using assms by (simp add: place_def)
qed

text \<open>One step down the path of the offset \<open>off\<close> in tree \<open>i\<close>.\<close>

lemma node_step:
  assumes "l < i" "node pc R V i (i - Suc l) (off div pc ^ Suc l) \<noteq> 0"
  shows "node pc R V i (i - l) (off div pc ^ l) =
    V (node pc R V i (i - Suc l) (off div pc ^ Suc l)) ! (off mod pc ^ Suc l div pc ^ l)"
proof -
  have d: "i - l = Suc (i - Suc l)" using assms(1) by simp
  have q: "off mod pc ^ Suc l div pc ^ l = off div pc ^ l mod pc"
    by (cases "pc ^ l = 0") (simp_all add: mult.commute [of pc] mod_mult2_eq)
  have "off div pc ^ l div pc = off div pc ^ Suc l" by (simp add: div_mult2_eq [symmetric] mult.commute)
  then show ?thesis using assms(2) unfolding d q by simp
qed

text \<open>What walking the map leaves: the same map, other caches, pointer blocks written back.\<close>

definition walked ::
  "ext \<Rightarrow> (nat \<Rightarrow> nat list) \<Rightarrow> nat list \<Rightarrow> nat list \<Rightarrow> dkfile \<times> 'z store_scheme \<Rightarrow> dkfile \<times> 'z store_scheme \<Rightarrow> bool" where
  "walked X V is ds fs gt \<longleftrightarrow> (case (fs, gt) of ((f, s), (g, t)) \<Rightarrow>
     (\<exists>c. g = f\<lparr>f_cache := c\<rparr>) \<and> file_map X {} V is ds (g, t) \<and>
     evolves (block_bytes (block_size (sb s)) (ptr_blocks (pcount s) (rows f) V)) s t)"

lemma walked_refl: "file_map X {} V is ds fs \<Longrightarrow> walked X V is ds fs fs"
  by (cases fs) (auto simp: walked_def intro: exI [of _ "f_cache (fst fs)"])

lemma walked_rows: "walked X V is ds (f, s) (g, t) \<Longrightarrow>
    rows g = rows f \<and> pcount t = pcount s \<and> block_size (sb t) = block_size (sb s)"
  by (auto simp: walked_def pcount_evolves evolves_simps)

lemma walked_trans:
  assumes "walked X V is ds fs gt" "walked X V is ds gt hu"
  shows "walked X V is ds fs hu"
proof -
  obtain f s g t h u where eq: "fs = (f, s)" "gt = (g, t)" "hu = (h, u)" by (metis surj_pair)
  then show ?thesis
    using assms walked_rows [of X V "is" ds f s g t] evolves_trans unfolding walked_def by fastforce
qed

lemma load_walks:
  fixes m :: "('z, dk_error, 'a) fprog"
  assumes "file_map X {} V is ds (f, s)" "k < 4"
    "place (pcount s) (d + Suc k) d j" "node (pcount s) (rows f) V (d + Suc k) d j = p" "p \<noteq> 0"
  shows "\<exists>g t. load X k p m (f, s) = m (g, t) \<and> walked X V is ds (f, s) (g, t) \<and>
    f_cache g ! k = Some (p, V p)"
proof -
  obtain c t where "\<And>m :: ('z, dk_error, 'a) fprog. load X k p m (f, s) = m (f\<lparr>f_cache := c\<rparr>, t)"
    "file_map X {} V is ds (f\<lparr>f_cache := c\<rparr>, t)"
    "evolves (block_bytes (block_size (sb s)) (ptr_blocks (pcount s) (rows f) V)) s t"
    "c ! k = Some (p, V p)"
    by (rule load_Ok [OF assms]) blast
  then show ?thesis
    by (intro exI [of _ "f\<lparr>f_cache := c\<rparr>"] exI [of _ t]) (auto simp: walked_def)
qed

lemma descend_Ok:
  assumes "file_map X {} V is ds (f, s)" "1 \<le> l" "l \<le> i" "i \<le> 4" "pc = pcount s" "off < pc ^ i"
    "f_cache f ! (l - 1) = Some (p, V p)" "p = node pc (rows f) V i (i - l) (off div pc ^ l)" "p \<noteq> 0"
  shows "\<exists>r g t. descend X pc l (pc ^ l) (off mod pc ^ l) (f, s) = (Ok r, (g, t)) \<and>
    walked X V is ds (f, s) (g, t) \<and>
    (case r of None \<Rightarrow> node pc (rows f) V i i off = 0
     | Some o' \<Rightarrow> o' = off mod pc \<and> (\<exists>p. f_cache g ! 0 = Some (p, V p) \<and> p \<noteq> 0 \<and>
         p = node pc (rows f) V i (i - 1) (off div pc)))"
  using assms
proof (induction l arbitrary: f s p)
  case 0
  then show ?case by simp
next
  case (Suc l)
  note m = file_mapD [OF Suc.prems(1)] and ok = store_okD [OF file_mapD(1) [OF Suc.prems(1)]]
  note c4 = cacheD(1) [OF m(4)]
  have pc2: "2 \<le> pc" "pc \<noteq> 0" using ok(7) Suc.prems(5) by simp_all
  show ?case
  proof (cases l)
    case 0
    then show ?thesis
      using Suc.prems walked_refl by (intro exI [of _ "Some (off mod pc)"] exI [of _ f] exI [of _ s]) simp
  next
    case (Suc l')
    define q where "q = off mod pc ^ Suc l div pc ^ l"
    have l: "l - 1 = l'" "Suc l - 1 = Suc l'" "i - l + Suc l' = i" using Suc Suc.prems(3) by simp_all
    have q: "q < pc"
      using pc2 unfolding q_def by (intro less_mult_imp_div_less) simp
    have pt: "p \<in> ptr_blocks (pcount s) (rows f) V"
    proof -
      have "place pc i (i - Suc l) (off div pc ^ Suc l)"
        using Suc.prems(3,4,6) by (intro place_on_path) auto
      then show ?thesis using tree_ptr [of pc i "i - Suc l"] Suc.prems(3,5,8,9) by simp
    qed
    have len: "length (V p) = pc" using ptr_block_used(3) [OF Suc.prems(1) pt] Suc.prems(5) by simp
    have child: "node pc (rows f) V i (i - l) (off div pc ^ l) = V p ! q"
      using node_step [of l i pc "rows f" V off] Suc.prems(3,8,9) by (simp add: q_def)
    have pl: "place pc i (i - l) (off div pc ^ l)"
      using Suc.prems(3,4,6) by (intro place_on_path) auto
    have cl: "Suc l' < length (f_cache f)" "f_cache f ! Suc l' = Some (p, V p)" "q < length (V p)"
      using c4 Suc Suc.prems(3,4,7) l q len by auto
    note cp = cached_ptr_run [OF cl]
    have run: "descend X pc (Suc l) (pc ^ Suc l) (off mod pc ^ Suc l) (f, s) =
      bnd (load_ptrs_in_cache X (Suc l) q) (\<lambda>found.
        if \<not> found then ret None else descend X pc l (pc ^ l) (off mod pc ^ l)) (f, s)"
      using Suc pc2 by (simp add: q_def mod_mod_cancel cong: if_cong)
    show ?thesis
    proof (cases "V p ! q = 0")
      case True
      have "i - l + l = i" using Suc.prems(3) by simp
      then have "node pc (rows f) V i i off = 0"
        using node_below_null [of pc "rows f" V i "i - l" off l] child True by simp
      moreover have "load_ptrs_in_cache X (Suc l) q (f, s) = (Ok False, (f, s))"
        unfolding Suc load_ptrs_in_cache_eq using True by (simp add: bnd_def cp)
      ultimately show ?thesis
        unfolding run using walked_refl [OF Suc.prems(1)] by (simp add: bnd_def)
    next
      case False
      have kl: "l' < 4" using Suc Suc.prems(3,4) by simp
      obtain g t where gt: "load X l' (V p ! q) (ret True) (f, s) = (Ok True, (g, t))"
        "walked X V is ds (f, s) (g, t)" "f_cache g ! l' = Some (V p ! q, V (V p ! q))"
        using load_walks [OF Suc.prems(1) kl, of "i - l" "off div pc ^ l" "V p ! q" "ret True"]
          pl child False Suc.prems(5) l(3) by auto
      have eq: "rows g = rows f" "pcount t = pcount s" using walked_rows [OF gt(2)] by simp_all
      have fm: "file_map X {} V is ds (g, t)" using gt(2) by (auto simp: walked_def)
      have "load_ptrs_in_cache X (Suc l) q (f, s) = (Ok True, (g, t))"
        unfolding Suc load_ptrs_in_cache_eq using False gt(1) by (simp add: bnd_def cp)
      then have run': "descend X pc (Suc l) (pc ^ Suc l) (off mod pc ^ Suc l) (f, s) =
          descend X pc l (pc ^ l) (off mod pc ^ l) (g, t)"
        unfolding run by (simp add: bnd_def)
      have "\<exists>r h u. descend X pc l (pc ^ l) (off mod pc ^ l) (g, t) = (Ok r, (h, u)) \<and>
        walked X V is ds (g, t) (h, u) \<and>
        (case r of None \<Rightarrow> node pc (rows g) V i i off = 0
         | Some o' \<Rightarrow> o' = off mod pc \<and> (\<exists>p. f_cache h ! 0 = Some (p, V p) \<and> p \<noteq> 0 \<and>
             p = node pc (rows g) V i (i - 1) (off div pc)))"
        by (rule Suc.IH [OF fm, where p = "V p ! q"])
          (use Suc Suc.prems gt(3) child False eq l in auto)
      then show ?thesis unfolding run' eq(1) using walked_trans [OF gt(2)] by blast
    qed
  qed
qed

lemma locate_Ok:
  assumes "file_map X {} V is ds (f, s)" "bi < max_blocks (pcount s)"
  obtains g t where "locate X bi (f, s) = (Ok (let p = block_ptr (pcount s) (rows f) V bi in
      if p = 0 then None else Some p), (g, t))" "walked X V is ds (f, s) (g, t)"
proof -
  let ?pc = "pcount s"
  note m = file_mapD [OF assms(1)] and ok = store_okD [OF file_mapD(1) [OF assms(1)]]
  obtain i off where lo: "level_of ?pc bi = (i, off)" by fastforce
  have pl: "place ?pc i i off" by (rule level_of_place [OF _ lo]) (rule assms(2))
  then have i4: "i \<le> 4" by (simp add: place_def)
  note lev = level_off_run [OF m(3) refl m(2) ok(7), of bi, unfolded lo if_P [OF assms(2)]]
  show thesis
  proof (cases "i = 0")
    case True
    have "off < length (rows f 0)" using tree_row [OF m(3), of 0 off] pl True by auto
    note gp = get_ptr_run [OF _ this, of s, simplified]
    have "locate X bi (f, s) = (Ok (let p = block_ptr ?pc (rows f) V bi in
        if p = 0 then None else Some p), (f, s))"
      using True lo by (simp add: locate_def bnd_def lev gp block_ptr_def Let_def)
    then show thesis using that walked_refl [OF assms(1)]  by blast
  next
    case False
    then obtain k where i: "i = Suc k" by (cases i) auto
    have off: "off < ?pc ^ i" using pl False by (simp add: place_def)
    have pc0: "?pc \<noteq> 0" using ok(7)  by simp
    have root: "place ?pc i 0 0" using i4 by (simp add: place_def)
    then have row: "0 < length (rows f i)" using tree_row [OF m(3), of i 0]  by simp
    define p where "p = rows f i ! 0"
    note gp = get_ptr_run [OF i4 row, of s, folded p_def]
    have bp: "block_ptr ?pc (rows f) V bi = node ?pc (rows f) V i i off" using lo by (simp add: block_ptr_def)
    show thesis
    proof (cases "p = 0")
      case True
      have "node ?pc (rows f) V i i off = 0"
        using node_below_null [of ?pc "rows f" V i 0 off i] off True p_def by simp
      moreover have "locate X bi (f, s) = (Ok None, (f, s))"
        using False True by (simp add: locate_def bnd_def load_ptrs_eq i lev [unfolded i] gp [unfolded i])
      ultimately show thesis using that walked_refl [OF assms(1)] bp by (simp add: )
    next
      case p0: False
      have k4: "k < 4" using i i4 by simp
      obtain g t where gt: "load X k p (ret (Some p)) (f, s) = (Ok (Some p), (g, t))"
        "walked X V is ds (f, s) (g, t)" "f_cache g ! k = Some (p, V p)"
        using load_walks [OF assms(1) k4, of 0 0 p "ret (Some p)"] root i p0 p_def by auto
      have eq: "rows g = rows f" "pcount t = ?pc" "block_size (sb t) = block_size (sb s)"
        using walked_rows [OF gt(2)] by (simp_all add: )
      have fm: "file_map X {} V is ds (g, t)" using gt(2) by (auto simp: walked_def)
      have "0 < length (rows g i)" using row eq by simp
      note sp = set_ptr_same [OF i4 this, of p t, unfolded eq, OF p_def [symmetric]]
      have "?pc ^ i \<le> ?pc ^ 4" using i4 pc0 by (intro power_increasing) auto
      then have pw: "?pc ^ i < u64_limit" using m(2)  by simp
      have "off mod ?pc ^ i = off" "off div ?pc ^ i = 0" using off by simp_all
      then obtain r h u where d: "descend X ?pc i (?pc ^ i) off (g, t) = (Ok r, (h, u))"
        "walked X V is ds (g, t) (h, u)"
        "case r of None \<Rightarrow> node ?pc (rows g) V i i off = 0
         | Some o' \<Rightarrow> o' = off mod ?pc \<and> (\<exists>p. f_cache h ! 0 = Some (p, V p) \<and> p \<noteq> 0 \<and>
             p = node ?pc (rows g) V i (i - 1) (off div ?pc))"
        using descend_Ok [OF fm, of i i ?pc off p] i4 i off gt(3) eq p0 p_def by auto
      have wk: "walked X V is ds (f, s) (h, u)" by (rule walked_trans [OF gt(2) d(2)])
      have pre: "locate X bi (f, s) = bnd (descend X ?pc i (?pc ^ i) off) (\<lambda>o'. case o' of
           None \<Rightarrow> ret None
         | Some off' \<Rightarrow> bnd (cached_ptr 0 off') (\<lambda>v. ret (if v = 0 then None else Some v))) (g, t)"
        using p0 gt(1) pw eq(3)
        by (simp del: descend.simps power_Suc add: locate_def bnd_def load_ptrs_eq i lev [unfolded i] gp [unfolded i]
              sp [unfolded i] pcount_def)
          (simp add: bnd_def split: prod.split res.split option.split)
      show thesis
      proof (cases r)
        case None
        then show thesis using that [OF _ wk] d(1,3) bp eq pre by (simp add: bnd_def )
      next
        case (Some o')
        then obtain p1 where p1: "o' = off mod ?pc" "f_cache h ! 0 = Some (p1, V p1)" "p1 \<noteq> 0"
          "p1 = node ?pc (rows f) V i k (off div ?pc)"
          using d(3) eq i by auto
        have fh: "file_map X {} V is ds (h, u)" using wk by (auto simp: walked_def)
        have eqh: "rows h = rows f" "pcount u = ?pc" using walked_rows [OF wk] by (simp_all add: )
        have "place ?pc i k (off div ?pc)" using place_parent [of ?pc i k off] pl i by simp
        then have "p1 \<in> ptr_blocks ?pc (rows f) V" using tree_ptr [of ?pc i k] i p1(3,4) by simp
        then have len: "length (V p1) = ?pc" using ptr_block_used(3) [OF fh, of p1] eqh by simp
        have "0 < length (f_cache h)" using cacheD(1) [OF file_mapD(4) [OF fh]] by simp
        note cp = cached_ptr_run [OF this p1(2), of "off mod pcount s" u]
        have "node ?pc (rows f) V i i off = V p1 ! o'" using p1(1,3,4) i by (simp add: Let_def)
        then show thesis
          using that [OF _ wk] d(1) bp pre Some p1(1) len pc0 by (simp add: bnd_def cp Let_def)
      qed
    qed
  qed
qed

end
