(* ===== verification/BlockAlloc.thy ===== *)
theory BlockAlloc
  imports BlockMap
begin

text \<open>
  The allocating walk \<open>locate_alloc\<close>: it enters a block at the place it looks for, with the pointer
  blocks on the way, and changes no other entry of the map.  When the free blocks run out on the way,
  the pointer blocks entered so far stay and the map is as before.
\<close>

section \<open>A new block in the map\<close>

abbreviation count_block :: "dkfile \<Rightarrow> dkfile" where
  "count_block f \<equiv> f\<lparr>f_inode := (f_inode f)\<lparr>i_blocks := Suc (i_blocks (f_inode f))\<rparr>\<rparr>"

text \<open>A block that is in use but not in the map yet.\<close>

definition spare :: "nat \<Rightarrow> (nat \<Rightarrow> nat list) \<Rightarrow> nat list \<Rightarrow> dkfile \<times> 'z store_scheme \<Rightarrow> bool" where
  "spare q V ds fs \<longleftrightarrow> (case fs of (f, s) \<Rightarrow> q \<in> data_blocks s \<and> q \<notin> set ds
     \<and> q \<notin> all_nodes (pcount s) (rows f) V \<and> q \<noteq> i_xattr_ptr (f_inode f))"

lemma finite_data_blocks [simp]: "finite (data_blocks s)"
  by (simp add: data_blocks_def)

lemma all_nodes_used:
  assumes "file_map X D V is ds (f, s)"
  shows "all_nodes (pcount s) (rows f) V \<subseteq> data_blocks s - set ds" "finite (all_nodes (pcount s) (rows f) V)"
proof -
  show sub: "all_nodes (pcount s) (rows f) V \<subseteq> data_blocks s - set ds"
    using file_mapD(3) [OF assms] unfolding tree_ok_def by blast
  show "finite (all_nodes (pcount s) (rows f) V)"
    by (rule finite_subset [OF sub]) simp
qed

lemma spare_counted:
  assumes "file_map X D V is ds (f, s)" "spare q V ds (f, s)"
  shows "Suc (i_blocks (f_inode f)) < u64_limit"
proof -
  let ?N = "all_nodes (pcount s) (rows f) V" and ?x = "i_xattr_ptr (f_inode f)"
  note m = file_mapD [OF assms(1)] and n = all_nodes_used [OF assms(1)]
  have r: "regions_ok X s is ds" using m(1) by (simp add: store_ok_def)
  define A where "A = (if ?x = 0 then ?N else insert ?x ?N)"
  have A: "A \<subseteq> data_blocks s - {q}" "card A = i_blocks (f_inode f)"
    using m(6) n assms(2) unfolding blocks_ok_def A_def spare_def by auto
  have "q \<in> data_blocks s" using assms(2) by (simp add: spare_def)
  then have "card A < card (data_blocks s)"
    using A(1) by (intro psubset_card_mono) auto
  also have "\<dots> = db_count (sb s)"
    using store_okD(5) [OF m(1)] by (simp add: data_blocks_def card_units)
  finally have "i_blocks (f_inode f) < db_count (sb s)" using A(2) by simp
  then show ?thesis using regions_Some(8) [OF r] by linarith
qed

lemma inc_blocks_run:
  assumes "Suc (i_blocks (f_inode f)) < u64_limit"
  shows "inc_blocks (f, s) = (Ok (), (count_block f, s))"
  using assms by (simp add: inc_blocks_def bnd_def)

lemma rows_count [simp]: "rows (count_block f) = rows f"
  by (simp add: rows_def fun_eq_iff)

lemma cached_inode [simp]: "cached (f\<lparr>f_inode := i\<rparr>) k p pb = cached f k p pb"
  by (simp add: cached_def)

lemma allocate_block:
  assumes "file_map X {} V is (q # ds) (f, s)"
  obtains t where "allocate_db X s = (Ok q, t)" "file_map X {} V is ds (f, t)" "spare q V ds (f, t)"
    "evolves (sb_range \<union> block_bytes (block_size (sb s)) (set ds)) s t"
proof -
  note m = file_mapD [OF assms] and ok = store_okD [OF file_mapD(1) [OF assms]]
  obtain t where t: "allocate_db X s = (Ok q, t)" "store_ok X t is ds"
    "evolves (sb_range \<union> block_bytes (block_size (sb s)) (set ds)) s t"
    by (rule allocate_db_fresh [OF m(1)])
  have ds: "set ds \<subseteq> data_blocks s" "q \<notin> set ds" "q \<in> data_blocks s" using ok(9,10) by auto
  have "file_map X {} V is ds (f, t)"
  proof (rule file_map_store [OF assms t(2,3)])
    fix p assume "p \<in> ptr_blocks (pcount s) (rows f) V"
    note p = ptr_block_used [OF assms this]
    show "{p..<p + block_size (sb s)} \<inter> (sb_range \<union> block_bytes (block_size (sb s)) (set ds)) = {}"
      using sb_apart [OF m(1) p(1)] block_bytes_apart [OF p(1) ds(1)] p(2) by auto
  qed auto
  moreover have "spare q V ds (f, t)"
    using all_nodes_used(1) [OF assms] m(6) ds(2,3) evolves_simps [OF t(3)] pcount_evolves [OF t(3)]
      data_block_range(4) [OF m(1) ds(3)]
    by (auto simp: spare_def blocks_ok_def)
  ultimately show thesis using that t(1,3) by blast
qed

lemma allocate_block_none:
  "file_map X D V is [] (f, s) \<Longrightarrow> allocate_db X s = (Err Exhausted, s)"
  using allocate_db_none file_mapD(1) by blast

text \<open>
  Entering a spare block: the caches keep their keys, and the contents of pointer blocks that are not
  cached do not change.
\<close>

lemma planted_map:
  assumes "file_map X {} V is ds (f, s)" "spare q V ds (f, s)"
    "planted (pcount s) (data_blocks s - set ds - {q}) (rows f) V (rows g) V' i d j q"
    "i_blocks (f_inode g) = Suc (i_blocks (f_inode f))" "i_xattr_ptr (f_inode g) = i_xattr_ptr (f_inode f)"
    "length (f_cache g) = 4"
    "\<And>k p pb. cached g k p pb \<Longrightarrow> (\<exists>pb. cached f k p pb) \<and> V' p = pb \<and> (\<forall>v \<in> set pb. v < u64_limit)"
    "\<And>k p pb. cached f k p pb \<Longrightarrow> \<exists>pb. cached g k p pb"
    "\<And>p. p \<in> ptr_blocks (pcount s) (rows f) V \<Longrightarrow> (\<forall>k pb. \<not> cached f k p pb) \<Longrightarrow> V' p = V p"
  shows "file_map X (if d < i then {q} else {}) V' is ds (g, s)"
proof -
  let ?pc = "pcount s" and ?B = "data_blocks s - set ds"
  note m = file_mapD [OF assms(1)] and n = all_nodes_used [OF assms(1)] and pl = plantedD [OF assms(3)]
  have q: "q \<in> ?B" "q \<notin> all_nodes ?pc (rows f) V" "q \<noteq> i_xattr_ptr (f_inode f)"
    using assms(2) by (auto simp: spare_def)
  have "insert q (?B - {q}) = ?B" using q(1) by blast
  then have tree: "tree_ok ?pc ?B (rows g) V'" using tree_planted [OF assms(3)] by simp
  have "cache_ok ?pc g V'"
    unfolding cache_ok_def
  proof (intro conjI allI impI)
    show "length (f_cache g) = 4" by (rule assms(6))
    fix k p pb assume g: "cached g k p pb"
    then obtain pb' where f: "cached f k p pb'" using assms(7) by blast
    obtain d' j' where p: "place ?pc (d' + Suc k) d' j'" "node ?pc (rows f) V (d' + Suc k) d' j' = p"
      using cacheD(5) [OF m(4) f] by blast
    show p0: "p \<noteq> 0" by (rule cacheD(2) [OF m(4) f])
    show "V' p = pb" "\<forall>v \<in> set pb. v < u64_limit" using assms(7) [OF g] by simp_all
    have no: "\<not> (d' + Suc k = i \<and> d' = d \<and> j' = j)" using pl(5) p(2) p0 by auto
    have "node ?pc (rows g) V' (d' + Suc k) d' j' = p"
      unfolding node_planted [OF assms(3) p(1)] if_not_P [OF no] by (rule p(2))
    then show "\<exists>d j. place ?pc (d + Suc k) d j \<and> node ?pc (rows g) V' (d + Suc k) d j = p"
      using p(1) by blast
  qed
  moreover have "disk_view X (if d < i then {q} else {}) V' g s"
    unfolding disk_view_def
  proof (intro ballI impI)
    fix p assume p: "p \<in> ptr_blocks ?pc (rows g) V' - (if d < i then {q} else {})"
      "\<forall>k pb. \<not> cached g k p pb"
    have "d \<le> i" using pl(4) by (simp add: place_def)
    then have old: "p \<in> ptr_blocks ?pc (rows f) V"
      using p(1) ptr_blocks_planted(1) [OF assms(3)] ptr_blocks_planted(2) [OF assms(3)]
      by (cases "d < i") auto
    have "\<forall>k pb. \<not> cached f k p pb" using p(2) assms(8) by blast
    then show "V' p = disk_ptrs X s p"
      using assms(9) [OF old] old m(5) unfolding disk_view_def by simp
  qed
  moreover have "blocks_ok ?pc ?B g V'"
    using m(6) n(2) q unfolding blocks_ok_def all_nodes_planted [OF assms(3)] assms(4,5) by auto
  ultimately show ?thesis using m(1,2) tree by (simp add: file_map_def)
qed

lemma spare_tree:
  assumes "file_map X D V is ds (f, s)" "spare q V ds (f, s)"
  shows "tree_ok (pcount s) (data_blocks s - set ds - {q}) (rows f) V" "q \<noteq> 0"
proof -
  note m = file_mapD [OF assms(1)]
  have "q \<in> data_blocks s" "q \<notin> all_nodes (pcount s) (rows f) V" using assms(2) by (auto simp: spare_def)
  then show "q \<noteq> 0" "tree_ok (pcount s) (data_blocks s - set ds - {q}) (rows f) V"
    using m(3) data_block_range(4) [OF m(1), of q] unfolding tree_ok_def by auto
qed

section \<open>Slots of a cached pointer block\<close>

lemma planted_in_block:
  assumes "file_map X D V is ds (f, s)" "spare q V ds (f, s)"
    "place (pcount s) (d + Suc k) d j" "node (pcount s) (rows f) V (d + Suc k) d j = p" "p \<noteq> 0"
    "idx < pcount s" "V p ! idx = 0"
  shows "planted (pcount s) (data_blocks s - set ds - {q}) (rows f) V (rows f)
    (V(p := (V p)[idx := q], q := replicate (pcount s) 0)) (d + Suc k) (Suc d) (j * pcount s + idx) q"
proof -
  let ?pc = "pcount s"
  note tree = spare_tree [OF assms(1,2)]
  have p: "p \<in> all_nodes ?pc (rows f) V" using assms(3-5) unfolding all_nodes_def by blast
  then have pq: "p \<noteq> q" using assms(2) by (auto simp: spare_def)
  have "j * ?pc + idx < Suc j * ?pc" using assms(6) by simp
  also have "\<dots> \<le> ?pc ^ d * ?pc" using assms(3) by (intro mult_right_mono) (auto simp: place_def)
  finally have "place ?pc (d + Suc k) (Suc d) (j * ?pc + idx)"
    using assms(3) by (simp add: place_def mult.commute)
  moreover have "(j * ?pc + idx) div ?pc = j" "(j * ?pc + idx) mod ?pc = idx"
    using assms(6) by simp_all
  ultimately show ?thesis
    using tree assms(4,5,7) pq by (simp add: planted_def Let_def)
qed

lemma slot_alloc_old:
  assumes "k < length (f_cache f)" "f_cache f ! k = Some (p, pb)" "idx < length pb" "pb ! idx \<noteq> 0"
  shows "slot_alloc X k idx (f, s) = (Ok (pb ! idx, False), (f, s))"
  using assms by (simp add: slot_alloc_def bnd_def get_cache_run)

lemma slot_alloc_none:
  assumes "k < length (f_cache f)" "f_cache f ! k = Some (p, pb)" "idx < length pb" "pb ! idx = 0"
    "allocate_db X s = (Err Exhausted, s)"
  shows "slot_alloc X k idx (f, s) = (Err Exhausted, (f, s))"
  using assms by (simp add: slot_alloc_def bnd_def get_cache_run on_dk_def)

lemma slot_alloc_new:
  assumes "file_map X {} V is (q # ds) (f, s)" "k < 4" "f_cache f ! k = Some (p, V p)"
    "place (pcount s) (d + Suc k) d j" "node (pcount s) (rows f) V (d + Suc k) d j = p" "p \<noteq> 0"
    "idx < pcount s" "V p ! idx = 0"
    "V' = V(p := (V p)[idx := q], q := replicate (pcount s) 0)"
    "g = count_block (put_cache k p (V' p) f)"
  obtains t where "slot_alloc X k idx (f, s) = (Ok (q, True), (g, t))"
    "file_map X (if 0 < k then {q} else {}) V' is ds (g, t)" "spare q V ds (f, t)"
    "planted (pcount s) (data_blocks s - set ds - {q}) (rows f) V (rows g) V' (d + Suc k) (Suc d) (j * pcount s + idx) q"
    "evolves (sb_range \<union> block_bytes (block_size (sb s)) (set ds)) s t"
proof -
  obtain t where t: "allocate_db X s = (Ok q, t)" "file_map X {} V is ds (f, t)" "spare q V ds (f, t)"
    "evolves (sb_range \<union> block_bytes (block_size (sb s)) (set ds)) s t"
    by (rule allocate_block [OF assms(1)])
  have pc: "pcount t = pcount s" and db: "data_blocks t = data_blocks s"
    using pcount_evolves [OF t(4)] evolves_simps [OF t(4)] by simp_all
  note m = file_mapD [OF t(2)] and c = cacheD [OF file_mapD(4) [OF t(2)]]
  have here: "cached f k p (V p)" using assms(2,3) by (simp add: cached_def)
  have pt: "p \<in> ptr_blocks (pcount t) (rows f) V" by (rule cached_ptr_block [OF m(4) here])
  then have pq: "p \<noteq> q" using t(3) ptr_blocks_nodes [of "pcount t" "rows f" V] by (auto simp: spare_def)
  have len: "length (V p) = pcount s" using ptr_block_used(3) [OF t(2) pt] pc by simp
  have V': "V' p = (V p)[idx := q]" "\<And>b. b \<noteq> p \<Longrightarrow> b \<noteq> q \<Longrightarrow> V' b = V b"
    using pq by (simp_all add: assms(9))
  have rg: "rows g = rows f" by (simp add: assms(10) rows_def fun_eq_iff)
  have pl: "planted (pcount t) (data_blocks t - set ds - {q}) (rows f) V (rows g) V' (d + Suc k) (Suc d)
      (j * pcount t + idx) q"
    unfolding rg assms(9) using planted_in_block [OF t(2,3), of d k j p idx] assms(4-8) by (simp add: pc)
  have "q < u64_limit"
    using data_block_range(3) [OF m(1), of q] t(3) by (simp add: spare_def)
  then have small: "\<forall>v \<in> set (V' p). v < u64_limit"
    using c(4) [OF here] set_update_subset_insert [of "V p" idx q] unfolding V'(1) by blast
  have cg: "cached g k' p' pb' \<longleftrightarrow> (if k' = k then k < 4 \<and> p' = p \<and> pb' = V' p else cached f k' p' pb')" for k' p' pb'
    using cached_put [OF c(1), of k p "V' p" k' p' pb'] by (simp add: assms(10) cached_def)
  have fm: "file_map X (if Suc d < d + Suc k then {q} else {}) V' is ds (g, t)"
  proof (rule planted_map [OF t(2,3) pl])
    show "length (f_cache g) = 4" using c(1) by (simp add: assms(10))
    fix k' p' pb'
    show "(\<exists>pb. cached f k' p' pb) \<and> V' p' = pb' \<and> (\<forall>v \<in> set pb'. v < u64_limit)" if "cached g k' p' pb'"
    proof (cases "k' = k")
      case True
      then show ?thesis using that cg here small by auto
    next
      case False
      then have f': "cached f k' p' pb'" using that cg by simp
      have "p' \<noteq> p" using cached_level [OF m(3,4) f'] assms(4,5) pc False by metis
      moreover have "p' \<noteq> q"
        using cached_ptr_block [OF m(4) f'] t(3) ptr_blocks_nodes [of "pcount t" "rows f" V]
        by (auto simp: spare_def)
      ultimately show ?thesis using f' V'(2) c(3,4) [OF f'] by auto
    qed
    show "\<exists>pb. cached g k' p' pb" if "cached f k' p' pb'"
      using that here assms(2) unfolding cg by (cases "k' = k") (auto simp: cached_def)
    show "V' p' = V p'" if "p' \<in> ptr_blocks (pcount t) (rows f) V" "\<forall>k pb. \<not> cached f k p' pb"
    proof -
      have "p' \<noteq> p" using that(2) here by blast
      moreover have "p' \<noteq> q"
        using that(1) t(3) ptr_blocks_nodes [of "pcount t" "rows f" V] by (auto simp: spare_def)
      ultimately show ?thesis by (rule V'(2))
    qed
  qed (simp_all add: assms(10))
  have "slot_alloc X k idx (f, s) = (Ok (q, True), (g, t))"
    using c(1) assms(2,3,7,8) len t(1) spare_counted [OF t(2,3)]
    by (simp add: slot_alloc_def bnd_def get_cache_run set_cache_run on_dk_def inc_blocks_run assms(10) V'(1))
  then show thesis using that fm t(3,4) pl pc db by simp
qed

section \<open>Growing maps\<close>

text \<open>
  \<open>grown X is n V ds (f, s) M V' ds' (g, t)\<close>: at most \<open>n\<close> free blocks were taken, all of them from the
  front of the free list; only the map of the inode, the block count and the caches of the file differ;
  nothing outside the footprint was written; and the blocks of the file are now given by \<open>M\<close>.
\<close>

definition same_meta :: "dkfile \<Rightarrow> dkfile \<Rightarrow> bool" where
  "same_meta f g \<longleftrightarrow> (\<exists>b p c. g = f\<lparr>f_inode := (f_inode f)\<lparr>i_blocks := b, i_ptrs := p\<rparr>, f_cache := c\<rparr>)"

definition grown ::
  "ext \<Rightarrow> nat list \<Rightarrow> nat \<Rightarrow> (nat \<Rightarrow> nat list) \<Rightarrow> nat list \<Rightarrow> dkfile \<times> 'z store_scheme \<Rightarrow> (nat \<Rightarrow> nat) \<Rightarrow>
   (nat \<Rightarrow> nat list) \<Rightarrow> nat list \<Rightarrow> dkfile \<times> 'z store_scheme \<Rightarrow> bool" where
  "grown X is n V ds fs M V' ds' gt \<longleftrightarrow> (case (fs, gt) of ((f, s), (g, t)) \<Rightarrow>
     file_map X {} V' is ds' (g, t) \<and> same_meta f g \<and> evolves (footprint V ds (f, s)) s t \<and>
     (\<exists>us. ds = us @ ds' \<and> length us \<le> n \<and>
        ptr_blocks (pcount s) (rows g) V' \<subseteq> ptr_blocks (pcount s) (rows f) V \<union> set us \<and>
        all_nodes (pcount s) (rows g) V' \<subseteq> all_nodes (pcount s) (rows f) V \<union> set us) \<and>
     (\<forall>bk < max_blocks (pcount s). block_ptr (pcount s) (rows g) V' bk = M bk))"

lemma same_meta_refl: "same_meta f f"
  unfolding same_meta_def
  by (intro exI [of _ "i_blocks (f_inode f)"] exI [of _ "i_ptrs (f_inode f)"] exI [of _ "f_cache f"]) simp

lemma same_meta_trans: "same_meta f g \<Longrightarrow> same_meta g h \<Longrightarrow> same_meta f h"
  unfolding same_meta_def by (elim exE, hypsubst, simp, intro exI, rule refl)

lemma same_meta_cache: "same_meta f (f\<lparr>f_cache := c\<rparr>)"
  unfolding same_meta_def
  by (intro exI [of _ "i_blocks (f_inode f)"] exI [of _ "i_ptrs (f_inode f)"] exI [of _ c]) simp

lemma walked_grown:
  assumes "walked X V is ds (f, s) (g, t)"
  shows "grown X is 0 V ds (f, s) (block_ptr (pcount s) (rows f) V) V ds (g, t)"
proof -
  obtain c where c: "g = f\<lparr>f_cache := c\<rparr>" using assms by (auto simp: walked_def)
  have "evolves (block_bytes (block_size (sb s)) (ptr_blocks (pcount s) (rows f) V)) s t"
    using assms by (simp add: walked_def)
  then have "evolves (footprint V ds (f, s)) s t"
    by (rule evolves_mono) (auto simp: footprint_def block_bytes_def)
  then show ?thesis
    using assms same_meta_cache [of f c] by (auto simp: grown_def walked_def c)
qed

lemma grown_footprint:
  assumes "grown X is n V ds (f, s) M V' ds' (g, t)"
  shows "footprint V' ds' (g, t) \<subseteq> footprint V ds (f, s)"
proof -
  obtain us where us: "ds = us @ ds'" "ptr_blocks (pcount s) (rows g) V' \<subseteq> ptr_blocks (pcount s) (rows f) V \<union> set us"
    and e: "evolves (footprint V ds (f, s)) s t" using assms by (auto simp: grown_def)
  have "set ds' \<union> ptr_blocks (pcount s) (rows g) V' \<subseteq> set ds \<union> ptr_blocks (pcount s) (rows f) V"
    using us by auto
  from block_bytes_mono [OF this, of "block_size (sb s)"] show ?thesis
    by (simp add: footprint_def pcount_evolves [OF e] evolves_simps [OF e] Un_assoc) blast
qed

lemma grown_trans:
  assumes "grown X is a V ds fs M V' ds' gt" "grown X is b V' ds' gt M' V'' ds'' hu"
  shows "grown X is (a + b) V ds fs M' V'' ds'' hu"
proof -
  obtain f s g t h u where eq: "fs = (f, s)" "gt = (g, t)" "hu = (h, u)" by (metis surj_pair)
  note one = assms(1) [unfolded eq] and two = assms(2) [unfolded eq]
  have e1: "evolves (footprint V ds (f, s)) s t" using one by (simp add: grown_def)
  have "evolves (footprint V' ds' (g, t)) t u" using two by (simp add: grown_def)
  then have "evolves (footprint V ds (f, s)) t u" by (rule evolves_mono [OF _ grown_footprint [OF one]])
  then have e: "evolves (footprint V ds (f, s)) s u" by (rule evolves_trans [OF e1])
  note pc = pcount_evolves [OF e1]
  obtain us where us: "ds = us @ ds'" "length us \<le> a"
    "ptr_blocks (pcount s) (rows g) V' \<subseteq> ptr_blocks (pcount s) (rows f) V \<union> set us"
    "all_nodes (pcount s) (rows g) V' \<subseteq> all_nodes (pcount s) (rows f) V \<union> set us"
    using one by (auto simp: grown_def)
  obtain vs where vs: "ds' = vs @ ds''" "length vs \<le> b"
    "ptr_blocks (pcount s) (rows h) V'' \<subseteq> ptr_blocks (pcount s) (rows g) V' \<union> set vs"
    "all_nodes (pcount s) (rows h) V'' \<subseteq> all_nodes (pcount s) (rows g) V' \<union> set vs"
    using two pc by (auto simp: grown_def)
  have "ds = (us @ vs) @ ds'' \<and> length (us @ vs) \<le> a + b \<and>
      ptr_blocks (pcount s) (rows h) V'' \<subseteq> ptr_blocks (pcount s) (rows f) V \<union> set (us @ vs) \<and>
      all_nodes (pcount s) (rows h) V'' \<subseteq> all_nodes (pcount s) (rows f) V \<union> set (us @ vs)"
    using us vs by auto
  moreover have "same_meta f h" using one two same_meta_trans by (auto simp: grown_def)
  ultimately show ?thesis using two e pc unfolding eq by (auto simp: grown_def)
qed

lemma grown_D:
  assumes "grown X is n V ds (f, s) M V' ds' (g, t)"
  shows "file_map X {} V' is ds' (g, t)" "same_meta f g" "pcount t = pcount s"
    "block_size (sb t) = block_size (sb s)" "evolves (footprint V ds (f, s)) s t"
proof -
  show e: "evolves (footprint V ds (f, s)) s t" using assms by (simp add: grown_def)
  show "pcount t = pcount s" "block_size (sb t) = block_size (sb s)"
    using pcount_evolves [OF e] evolves_simps [OF e] by simp_all
  show "file_map X {} V' is ds' (g, t)" "same_meta f g" using assms by (simp_all add: grown_def)
qed

lemma grown_cong:
  assumes "grown X is n V ds (f, s) M V' ds' gt" "n \<le> n'"
    "\<And>bk. bk < max_blocks (pcount s) \<Longrightarrow> M bk = M' bk"
  shows "grown X is n' V ds (f, s) M' V' ds' gt"
proof -
  obtain g t where gt: "gt = (g, t)" by fastforce
  obtain us where us: "ds = us @ ds'" "length us \<le> n"
    "ptr_blocks (pcount s) (rows g) V' \<subseteq> ptr_blocks (pcount s) (rows f) V \<union> set us"
    "all_nodes (pcount s) (rows g) V' \<subseteq> all_nodes (pcount s) (rows f) V \<union> set us"
    using assms(1) by (auto simp: grown_def gt)
  then have "length us \<le> n'" using assms(2) by simp
  then show ?thesis using assms(1,3) us by (auto simp: grown_def gt intro!: exI [of _ us])
qed

text \<open>A map that has grown by planting one block.\<close>

lemma planted_grown:
  assumes "file_map X D V is (q # ds) (f, s)"
    "planted (pcount s) B (rows f) V (rows g) V' i d j q"
    "file_map X {} V' is ds (g, t)" "same_meta f g"
    "evolves (footprint V (q # ds) (f, s)) s t"
    "d = i \<Longrightarrow> level_of (pcount s) bi = (i, j)"
  shows "grown X is 1 V (q # ds) (f, s)
    (if d = i then (block_ptr (pcount s) (rows f) V)(bi := q) else block_ptr (pcount s) (rows f) V) V' ds (g, t)"
proof -
  have le: "d \<le> i" using plantedD(4) [OF assms(2)] by (simp add: place_def)
  have "ptr_blocks (pcount s) (rows g) V' \<subseteq> ptr_blocks (pcount s) (rows f) V \<union> set [q]"
    using ptr_blocks_planted(1) [OF assms(2)] by auto
  moreover have "all_nodes (pcount s) (rows g) V' \<subseteq> all_nodes (pcount s) (rows f) V \<union> set [q]"
    using all_nodes_planted [OF assms(2)] by auto
  moreover have "block_ptr (pcount s) (rows g) V' bk =
      (if d = i then (block_ptr (pcount s) (rows f) V)(bi := q) else block_ptr (pcount s) (rows f) V) bk"
    if "bk < max_blocks (pcount s)" for bk
    using le that block_ptr_planted [of "pcount s" B "rows f" V "rows g" V' i j q bi bk]
      block_ptr_kept [OF assms(2) _ that] assms(2,6) by (cases "d = i") auto
  ultimately show ?thesis
    using assms(3-5) by (auto simp: grown_def intro!: exI [of _ "[q]"])
qed

end
