(* ===== verification/LocateAlloc.thy ===== *)
theory LocateAlloc
  imports BlockAlloc
begin

text \<open>
  The allocating walk \<open>locate_alloc\<close> as a whole: the step into a child block, the descent through the
  levels, the root of a tree, and the result for every block number.
\<close>

section \<open>Into a child\<close>

lemma load_child_eq:
  "load_ptrs_in_cache_alloc X (Suc (Suc k)) idx = bnd (slot_alloc X (Suc k) idx) (\<lambda>(new_ptr, empty).
     if empty then bnd (evict X k new_ptr) (\<lambda>hit. if hit then ret () else
       bnd empty_ptr_block (\<lambda>pb. set_cache k (new_ptr, pb)))
     else load X k new_ptr (ret ()))"
proof -
  have "set_cache k c = bnd (set_cache k c) (\<lambda>_. ret ())" for c :: "nat \<times> nat list"
    by (simp add: fun_eq_iff set_cache_def mod_file_def get_file_def bnd_def index_def gets_def modify_def
        split: prod.split res.split)
  note [simp] = this [symmetric]
  show ?thesis
    unfolding load_ptrs_in_cache_alloc_def load_def
    by (simp cong: if_cong) (rule arg_cong [where f = "bnd _"], auto simp: fun_eq_iff cong: if_cong)
qed

lemma load_child_alloc:
  assumes "file_map X {} V is ds (f, s)" "Suc k < 4" "f_cache f ! Suc k = Some (p, V p)"
    "place (pcount s) (d + Suc (Suc k)) d j" "node (pcount s) (rows f) V (d + Suc (Suc k)) d j = p" "p \<noteq> 0"
    "idx < pcount s"
  shows "\<exists>r g t V' ds'. load_ptrs_in_cache_alloc X (Suc (Suc k)) idx (f, s) = (r, (g, t)) \<and>
    grown X is 1 V ds (f, s) (block_ptr (pcount s) (rows f) V) V' ds' (g, t) \<and>
    (node (pcount s) (rows f) V (d + Suc (Suc k)) (Suc d) (j * pcount s + idx) \<noteq> 0 \<longrightarrow> ds' = ds) \<and>
    (case r of
       Ok _ \<Rightarrow> (\<exists>c. c \<noteq> 0 \<and> node (pcount s) (rows g) V' (d + Suc (Suc k)) (Suc d) (j * pcount s + idx) = c \<and>
         f_cache g ! k = Some (c, V' c))
     | Err e \<Rightarrow> e = Exhausted \<and> ds' = [] \<and>
         node (pcount s) (rows f) V (d + Suc (Suc k)) (Suc d) (j * pcount s + idx) = 0
     | _ \<Rightarrow> False)"
proof -
  let ?pc = "pcount s" and ?i = "d + Suc (Suc k)"
  note m = file_mapD [OF assms(1)] and c4 = cacheD(1) [OF file_mapD(4) [OF assms(1)]]
  have pt: "p \<in> ptr_blocks ?pc (rows f) V" using tree_ptr [OF assms(4), of "rows f" V] assms(5,6) by auto
  have len: "idx < length (V p)" using ptr_block_used(3) [OF assms(1) pt] assms(7) by simp
  have cl: "Suc k < length (f_cache f)" using c4 assms(2) by simp
  have jj: "(j * ?pc + idx) div ?pc = j" "(j * ?pc + idx) mod ?pc = idx" using assms(7) by simp_all
  have child: "node ?pc (rows f) V ?i (Suc d) (j * ?pc + idx) = V p ! idx"
    using assms(5-7) by (simp add: jj)
  have pl: "place ?pc (Suc d + Suc k) (Suc d) (j * ?pc + idx)"
  proof -
    have "j * ?pc + idx < Suc j * ?pc" using assms(7) by simp
    also have "\<dots> \<le> ?pc ^ d * ?pc" using assms(4) by (intro mult_right_mono) (auto simp: place_def)
    finally show ?thesis using assms(4) by (simp add: place_def mult.commute)
  qed
  show ?thesis
  proof (cases "V p ! idx = 0")
    case False
    note old = slot_alloc_old [OF cl assms(3) len False, of X s]
    obtain g t where gt: "load X k (V p ! idx) (ret ()) (f, s) = (Ok (), (g, t))"
      "walked X V is ds (f, s) (g, t)" "f_cache g ! k = Some (V p ! idx, V (V p ! idx))"
      using load_walks [OF assms(1) _ pl _ False, of "ret ()"] assms(2) child by auto
    have "load_ptrs_in_cache_alloc X (Suc (Suc k)) idx (f, s) = (Ok (), (g, t))"
      unfolding load_child_eq using gt(1) by (simp add: bnd_def old)
    moreover have "grown X is 1 V ds (f, s) (block_ptr ?pc (rows f) V) V ds (g, t)"
      by (rule grown_cong [OF walked_grown [OF gt(2)]]) simp_all
    moreover have "rows g = rows f" using walked_rows [OF gt(2)] by simp
    ultimately show ?thesis using gt(3) child False by (intro exI [of _ "Ok ()"]) auto
  next
    case null: True
    show ?thesis
    proof (cases ds)
      case Nil
      then have "slot_alloc X (Suc k) idx (f, s) = (Err Exhausted, (f, s))"
        using allocate_block_none assms(1) by (intro slot_alloc_none [OF cl assms(3) len null]) blast
      then have "load_ptrs_in_cache_alloc X (Suc (Suc k)) idx (f, s) = (Err Exhausted, (f, s))"
        unfolding load_child_eq by (simp add: bnd_def)
      moreover have "grown X is 1 V ds (f, s) (block_ptr ?pc (rows f) V) V ds (f, s)"
        by (rule grown_cong [OF walked_grown [OF walked_refl [OF assms(1)]]]) simp_all
      ultimately show ?thesis using Nil null child by (intro exI [of _ "Err Exhausted"]) auto
    next
      case (Cons q ds')
      define V' where "V' = V(p := (V p)[idx := q], q := replicate ?pc 0)"
      define g where "g = count_block (put_cache (Suc k) p (V' p) f)"
      have fm: "file_map X {} V is (q # ds') (f, s)" using assms(1) Cons by simp
      obtain t where t: "slot_alloc X (Suc k) idx (f, s) = (Ok (q, True), (g, t))"
        "file_map X (if 0 < Suc k then {q} else {}) V' is ds' (g, t)" "spare q V ds' (f, t)"
        "planted ?pc (data_blocks s - set ds' - {q}) (rows f) V (rows g) V' (d + Suc (Suc k)) (Suc d) (j * ?pc + idx) q"
        "evolves (sb_range \<union> block_bytes (block_size (sb s)) (set ds')) s t"
        by (rule slot_alloc_new [OF fm assms(2,3) assms(4-6) assms(7) null V'_def g_def])
      have pct: "pcount t = ?pc" "block_size (sb t) = block_size (sb s)"
        using pcount_evolves [OF t(5)] evolves_simps [OF t(5)] by simp_all
      have k4: "k < 4" using assms(2) by simp
      have fg: "file_map X {q} V' is ds' (g, t)" using t(2) by simp
      obtain hit u where u: "evict X k q (g, t) = (Ok hit, (g, u))" "file_map X {q} V' is ds' (g, u)"
        "evolves (block_bytes (block_size (sb t)) (ptr_blocks (pcount t) (rows g) V')) t u"
        "hit \<longleftrightarrow> (\<exists>pb. cached g k q pb)" "\<not> hit \<Longrightarrow> \<forall>p pb. cached g k p pb \<longrightarrow> disk_ptrs X u p = pb"
        by (rule evict_Ok [OF fg k4]) blast
      have pcu: "pcount u = ?pc" using pcount_evolves [OF u(3)] pct by simp
      have "\<not> cached g k q pb" for pb
      proof
        assume "cached g k q pb"
        then have "cached f k q pb" by (simp add: g_def cached_def)
        then have "q \<in> all_nodes ?pc (rows f) V"
          using cached_ptr_block [OF m(4)] ptr_blocks_nodes by blast
        then show False using t(3) pct by (simp add: spare_def)
      qed
      then have miss: "\<not> hit" using u(4) by blast
      have V'q: "V' q = replicate ?pc 0" by (simp add: V'_def)
      define h where "h = put_cache k q (V' q) g"
      have c4g: "k < length (f_cache g)" using c4 k4 by (simp add: g_def)
      have nq: "node ?pc (rows g) V' (Suc d + Suc k) (Suc d) (j * ?pc + idx) = q"
        using node_planted [OF t(4) plantedD(4) [OF t(4)]] by simp
      have "file_map X ({q} - {q}) V' is ds' (h, u)"
        unfolding h_def
        by (rule put_cache_map [OF u(2) k4, of "Suc d" "j * ?pc + idx"])
          (use pl nq pcu u(5) [OF miss] plantedD(3) [OF t(4)] V'q in auto)
      then have fh: "file_map X {} V' is ds' (h, u)" by simp
      have "load_ptrs_in_cache_alloc X (Suc (Suc k)) idx (f, s) = (Ok (), (h, u))"
        unfolding load_child_eq using c4g miss pcu V'q
        by (simp add: bnd_def t(1) u(1) set_cache_run h_def)
      moreover have "grown X is 1 V (q # ds') (f, s) (block_ptr ?pc (rows f) V) V' ds' (h, u)"
      proof -
        have rh: "rows h = rows g" by (simp add: h_def)
        have e1: "evolves (footprint V (q # ds') (f, s)) s t"
          by (rule evolves_mono [OF t(5)]) (auto simp: footprint_def)
        have "ptr_blocks ?pc (rows g) V' \<subseteq> insert q (ptr_blocks ?pc (rows f) V)"
          by (rule ptr_blocks_planted(1) [OF t(4)])
        from block_bytes_mono [OF this, of "block_size (sb s)"]
        have "evolves (footprint V (q # ds') (f, s)) t u"
          by (intro evolves_mono [OF u(3)]) (auto simp: footprint_def pct)
        then have e: "evolves (footprint V (q # ds') (f, s)) s u" by (rule evolves_trans [OF e1])
        have sm: "same_meta f h" unfolding same_meta_def
          by (intro exI [of _ "i_blocks (f_inode h)"] exI [of _ "i_ptrs (f_inode h)"] exI [of _ "f_cache h"])
            (simp add: h_def g_def)
        show ?thesis
          using planted_grown [OF fm t(4) [folded rh] fh sm e, of 0] by simp
      qed
      ultimately show ?thesis
        using Cons plantedD(3) [OF t(4)] nq c4g null child
        by (intro exI [of _ "Ok ()"] exI [of _ h] exI [of _ u] exI [of _ V'] exI [of _ ds']) (simp add: h_def)
    qed
  qed
qed

section \<open>Down a tree\<close>

lemma grown_ptr:
  assumes "grown X is n V ds (f, s) M V' ds' (g, t)" "bk < max_blocks (pcount s)"
  shows "block_ptr (pcount t) (rows g) V' bk = M bk"
  using assms grown_D(3) [OF assms(1)] by (simp add: grown_def)

lemma grown_same_trans:
  assumes "grown X is a V ds (f, s) M V' ds' (g, t)"
    "grown X is b V' ds' (g, t) (block_ptr (pcount t) (rows g) V') V'' ds'' hu"
  shows "grown X is (a + b) V ds (f, s) M V'' ds'' hu"
proof (rule grown_cong [OF grown_trans [OF assms] order_refl])
  fix bk assume "bk < max_blocks (pcount s)"
  then show "block_ptr (pcount t) (rows g) V' bk = M bk" by (rule grown_ptr [OF assms(1)])
qed

lemma descend_alloc_run:
  assumes "file_map X {} V is ds (f, s)" "1 \<le> l" "l \<le> i" "pc = pcount s"
    "bi < max_blocks pc" "level_of pc bi = (i, off)"
    "f_cache f ! (l - 1) = Some (p, V p)" "p = node pc (rows f) V i (i - l) (off div pc ^ l)" "p \<noteq> 0"
  shows "\<exists>r g t V' ds'. descend_alloc X pc l (pc ^ l) (off mod pc ^ l) (f, s) = (r, (g, t)) \<and>
    grown X is (l - 1) V ds (f, s) (block_ptr pc (rows f) V) V' ds' (g, t) \<and>
    (block_ptr pc (rows f) V bi \<noteq> 0 \<longrightarrow> ds' = ds) \<and>
    (case r of
       Ok o' \<Rightarrow> o' = off mod pc \<and> (\<exists>p. f_cache g ! 0 = Some (p, V' p) \<and> p \<noteq> 0 \<and>
         p = node pc (rows g) V' i (i - 1) (off div pc))
     | Err e \<Rightarrow> e = Exhausted \<and> ds' = [] \<and> block_ptr pc (rows f) V bi = 0
     | _ \<Rightarrow> False)"
  using assms
proof (induction l arbitrary: f s V ds p)
  case 0
  then show ?case by simp
next
  case (Suc l)
  note m = file_mapD [OF Suc.prems(1)] and ok = store_okD [OF file_mapD(1) [OF Suc.prems(1)]]
  have pc2: "2 \<le> pc" "pc \<noteq> 0" using ok(7) Suc.prems(4) by simp_all
  have pl: "place pc i i off" by (rule level_of_place [OF Suc.prems(5,6)])
  then have off: "i \<le> 4" "off < pc ^ i" using Suc.prems(2,3) by (simp_all add: place_def split: if_splits)
  show ?case
  proof (cases l)
    case 0
    then show ?thesis
      using Suc.prems walked_grown [OF walked_refl [OF Suc.prems(1)]]
      by (intro exI [of _ "Ok (off mod pc)"] exI [of _ f] exI [of _ s] exI [of _ V] exI [of _ ds]) simp
  next
    case (Suc l')
    define q where "q = off mod pc ^ Suc l div pc ^ l"
    have q: "q < pc" using pc2 unfolding q_def by (intro less_mult_imp_div_less) simp
    have il: "i - Suc l + Suc (Suc l') = i" "Suc (i - Suc l) = i - l" using Suc Suc.prems(3) by simp_all
    have here: "place pc i (i - Suc l) (off div pc ^ Suc l)"
      using Suc.prems(3) off by (intro place_on_path) auto
    have jq: "off div pc ^ Suc l * pc + q = off div pc ^ l"
    proof -
      have "q = off div pc ^ l mod pc"
        unfolding q_def by (cases "pc ^ l = 0") (simp_all add: mult.commute [of pc] mod_mult2_eq)
      moreover have "off div pc ^ Suc l = off div pc ^ l div pc"
        by (simp add: div_mult2_eq [symmetric] mult.commute)
      ultimately show ?thesis by (simp only: div_mult_mod_eq)
    qed
    have kl: "Suc l' < 4" using Suc Suc.prems(3) off by simp
    have "\<exists>r g t V' ds'. load_ptrs_in_cache_alloc X (Suc (Suc l')) q (f, s) = (r, (g, t)) \<and>
      grown X is 1 V ds (f, s) (block_ptr pc (rows f) V) V' ds' (g, t) \<and>
      (node pc (rows f) V i (i - l) (off div pc ^ l) \<noteq> 0 \<longrightarrow> ds' = ds) \<and>
      (case r of
         Ok _ \<Rightarrow> (\<exists>c. c \<noteq> 0 \<and> node pc (rows g) V' i (i - l) (off div pc ^ l) = c \<and> f_cache g ! l' = Some (c, V' c))
       | Err e \<Rightarrow> e = Exhausted \<and> ds' = [] \<and> node pc (rows f) V i (i - l) (off div pc ^ l) = 0
       | _ \<Rightarrow> False)"
      using load_child_alloc [OF Suc.prems(1) kl, of p "i - Suc l" "off div pc ^ Suc l" q]
        Suc Suc.prems(4,7-9) here q
      unfolding il jq Suc.prems(4) [symmetric] by simp
    then obtain r g t V1 ds1 where st: "load_ptrs_in_cache_alloc X (Suc l) q (f, s) = (r, (g, t))"
      "grown X is 1 V ds (f, s) (block_ptr pc (rows f) V) V1 ds1 (g, t)"
      "node pc (rows f) V i (i - l) (off div pc ^ l) \<noteq> 0 \<longrightarrow> ds1 = ds"
      "case r of
         Ok _ \<Rightarrow> (\<exists>c. c \<noteq> 0 \<and> node pc (rows g) V1 i (i - l) (off div pc ^ l) = c \<and> f_cache g ! l' = Some (c, V1 c))
       | Err e \<Rightarrow> e = Exhausted \<and> ds1 = [] \<and> node pc (rows f) V i (i - l) (off div pc ^ l) = 0
       | _ \<Rightarrow> False"
      unfolding Suc by blast
    have "i - l + l = i" using Suc.prems(3) by simp
    then have below: "node pc (rows f) V i (i - l) (off div pc ^ l) = 0 \<Longrightarrow> block_ptr pc (rows f) V bi = 0"
      using node_below_null [of pc "rows f" V i "i - l" off l] Suc.prems(6) by (simp add: block_ptr_def)
    have run: "descend_alloc X pc (Suc l) (pc ^ Suc l) (off mod pc ^ Suc l) (f, s) =
      bnd (load_ptrs_in_cache_alloc X (Suc l) q) (\<lambda>_. descend_alloc X pc l (pc ^ l) (off mod pc ^ l)) (f, s)"
      using Suc pc2 by (simp add: q_def mod_mod_cancel cong: if_cong)
    show ?thesis
    proof (cases r)
      case (Err e)
      have "block_ptr pc (rows f) V bi = 0" using st(4) Err below by simp
      moreover have "grown X is (Suc l - 1) V ds (f, s) (block_ptr pc (rows f) V) V1 ds1 (g, t)"
        by (rule grown_cong [OF st(2)]) (use Suc in auto)
      ultimately show ?thesis
        unfolding run using st(1,4) Err
        by (intro exI [of _ "Err e"] exI [of _ g] exI [of _ t] exI [of _ V1] exI [of _ ds1]) (simp add: bnd_def)
    next
      case (Ok x)
      then obtain c where c: "c \<noteq> 0" "c = node pc (rows g) V1 i (i - l) (off div pc ^ l)"
        "f_cache g ! l' = Some (c, V1 c)" using st(4) by auto
      note D = grown_D [OF st(2)]
      have pct: "pcount t = pc" using D(3) Suc.prems(4) by simp
      have same: "block_ptr pc (rows g) V1 bi = block_ptr pc (rows f) V bi"
        using grown_ptr [OF st(2), of bi] Suc.prems(4,5) pct by simp
      have "\<exists>r h u V' ds'. descend_alloc X pc l (pc ^ l) (off mod pc ^ l) (g, t) = (r, (h, u)) \<and>
        grown X is (l - 1) V1 ds1 (g, t) (block_ptr pc (rows g) V1) V' ds' (h, u) \<and>
        (block_ptr pc (rows g) V1 bi \<noteq> 0 \<longrightarrow> ds' = ds1) \<and>
        (case r of
           Ok o' \<Rightarrow> o' = off mod pc \<and> (\<exists>p. f_cache h ! 0 = Some (p, V' p) \<and> p \<noteq> 0 \<and>
             p = node pc (rows h) V' i (i - 1) (off div pc))
         | Err e \<Rightarrow> e = Exhausted \<and> ds' = [] \<and> block_ptr pc (rows g) V1 bi = 0
         | _ \<Rightarrow> False)"
        by (rule Suc.IH [OF D(1) _ _ pct [symmetric] Suc.prems(5,6) _ c(2,1)]) (use Suc Suc.prems(3) c(3) in auto)
      then obtain r' h u V2 ds2 where d: "descend_alloc X pc l (pc ^ l) (off mod pc ^ l) (g, t) = (r', (h, u))"
        "grown X is (l - 1) V1 ds1 (g, t) (block_ptr pc (rows g) V1) V2 ds2 (h, u)"
        "block_ptr pc (rows g) V1 bi \<noteq> 0 \<longrightarrow> ds2 = ds1"
        "case r' of
           Ok o' \<Rightarrow> o' = off mod pc \<and> (\<exists>p. f_cache h ! 0 = Some (p, V2 p) \<and> p \<noteq> 0 \<and>
             p = node pc (rows h) V2 i (i - 1) (off div pc))
         | Err e \<Rightarrow> e = Exhausted \<and> ds2 = [] \<and> block_ptr pc (rows g) V1 bi = 0
         | _ \<Rightarrow> False"
        by blast
      have "grown X is (1 + (l - 1)) V ds (f, s) (block_ptr pc (rows f) V) V2 ds2 (h, u)"
        by (rule grown_same_trans [OF st(2)]) (use d(2) pct in simp)
      then have "grown X is (Suc l - 1) V ds (f, s) (block_ptr pc (rows f) V) V2 ds2 (h, u)"
        using Suc by simp
      moreover have "descend_alloc X pc (Suc l) (pc ^ Suc l) (off mod pc ^ Suc l) (f, s) = (r', (h, u))"
        unfolding run using st(1) Ok d(1) by (simp add: bnd_def)
      moreover have "block_ptr pc (rows f) V bi \<noteq> 0 \<longrightarrow> ds2 = ds" using d(3) st(3) below same by auto
      ultimately show ?thesis using d(4) [unfolded same] by (intro exI conjI) assumption+
    qed (use st(4) in auto)
  qed
qed

section \<open>In the inode\<close>

lemma rows_put_row:
  "i \<le> 4 \<Longrightarrow> rows (put_row i k p f) = (rows f)(i := (rows f i)[k := p])"
proof -
  assume i: "i \<le> 4"
  obtain p0 p1 p2 p3 p4 where ptrs: "i_ptrs (f_inode f) = InodePtrs p0 p1 p2 p3 p4"
    by (cases "i_ptrs (f_inode f)")
  consider "i = 0" | "i = 1" | "i = 2" | "i = 3" | "i = 4" using i by linarith
  then show ?thesis by cases (auto simp: rows_def ptrs fun_eq_iff)
qed

lemma plant_row:
  assumes "file_map X {} V is ds (f, s)" "spare q V ds (f, s)" "place (pcount s) i 0 j" "rows f i ! j = 0"
    "V' = (if 0 < i then V(q := replicate (pcount s) 0) else V)" "g = count_block (put_row i j q f)"
  shows "planted (pcount s) (data_blocks s - set ds - {q}) (rows f) V (rows g) V' i 0 j q"
    "file_map X (if 0 < i then {q} else {}) V' is ds (g, s)"
proof -
  note m = file_mapD [OF assms(1)] and c = cacheD [OF file_mapD(4) [OF assms(1)]]
  have i: "i \<le> 4" using assms(3) by (simp add: place_def)
  have rg: "rows g = (rows f)(i := (rows f i)[j := q])"
    unfolding assms(6) rows_count by (rule rows_put_row [OF i])
  have V': "V' b = V b" if "b \<noteq> q" for b using that by (simp add: assms(5))
  show pl: "planted (pcount s) (data_blocks s - set ds - {q}) (rows f) V (rows g) V' i 0 j q"
    using spare_tree [OF assms(1,2)] assms(3,4) V' by (simp add: planted_def rg) (simp add: assms(5))
  have cg: "cached g k p pb \<longleftrightarrow> cached f k p pb" for k p pb by (simp add: assms(6) cached_def)
  have q: "q \<notin> ptr_blocks (pcount s) (rows f) V"
    using assms(2) ptr_blocks_nodes [of "pcount s" "rows f" V] by (auto simp: spare_def)
  show "file_map X (if 0 < i then {q} else {}) V' is ds (g, s)"
  proof (rule planted_map [OF assms(1,2) pl])
    fix k p pb
    show "(\<exists>pb. cached f k p pb) \<and> V' p = pb \<and> (\<forall>v \<in> set pb. v < u64_limit)" if "cached g k p pb"
    proof -
      have f: "cached f k p pb" using that cg by simp
      then have "p \<noteq> q" using cached_ptr_block [OF m(4)] q by blast
      then show ?thesis using f V' c(3,4) [OF f] by auto
    qed
    show "V' p = V p" if "p \<in> ptr_blocks (pcount s) (rows f) V" by (rule V') (use that q in blast)
  qed (use cg c(1) in \<open>auto simp: assms(6)\<close>)
qed

definition enter_root :: "ext \<Rightarrow> nat \<Rightarrow> ('z, dk_error, unit) fprog" where
  "enter_root X i = bnd (get_ptr i 0) (\<lambda>p. bnd (load_ptrs_alloc X i p) (set_ptr i 0))"

lemma load_ptrs_alloc_eq:
  "load_ptrs_alloc X (Suc k) ptr = (if ptr = 0 then bnd (evict X k 0) (\<lambda>hit. if hit then ret 0 else
     bnd (on_dk (allocate_db X)) (\<lambda>q. bnd inc_blocks (\<lambda>_. bnd empty_ptr_block (\<lambda>pb.
       bnd (set_cache k (q, pb)) (\<lambda>_. ret q)))))
   else load X k ptr (ret ptr))"
  by (simp add: load_ptrs_alloc_def load_def cong: if_cong)

lemma enter_root_run:
  assumes "file_map X {} V is ds (f, s)" "Suc k \<le> 4"
  shows "\<exists>r g t V' ds'. enter_root X (Suc k) (f, s) = (r, (g, t)) \<and>
    grown X is 1 V ds (f, s) (block_ptr (pcount s) (rows f) V) V' ds' (g, t) \<and>
    (rows f (Suc k) ! 0 \<noteq> 0 \<longrightarrow> ds' = ds) \<and>
    (case r of
       Ok _ \<Rightarrow> (\<exists>p. p \<noteq> 0 \<and> rows g (Suc k) ! 0 = p \<and> f_cache g ! k = Some (p, V' p))
     | Err e \<Rightarrow> e = Exhausted \<and> ds' = [] \<and> rows f (Suc k) ! 0 = 0
     | _ \<Rightarrow> False)"
proof -
  let ?pc = "pcount s" and ?i = "Suc k"
  note m = file_mapD [OF assms(1)] and c4 = cacheD(1) [OF file_mapD(4) [OF assms(1)]]
  have k4: "k < 4" using assms(2) by simp
  have root: "place ?pc (0 + Suc k) 0 0" using assms(2) by (simp add: place_def)
  then have row: "0 < length (rows f ?i)" using tree_row [OF m(3), of ?i 0] by simp
  define p where "p = rows f ?i ! 0"
  note gp = get_ptr_run [OF assms(2) row, of s, folded p_def]
  show ?thesis
  proof (cases "p = 0")
    case False
    obtain g t where gt: "load X k p (ret p) (f, s) = (Ok p, (g, t))"
      "walked X V is ds (f, s) (g, t)" "f_cache g ! k = Some (p, V p)"
      using load_walks [OF assms(1) k4 root _ False, of "ret p"] p_def by auto
    have eq: "rows g = rows f" using walked_rows [OF gt(2)] by simp
    have "0 < length (rows g ?i)" using row eq by simp
    note sp = set_ptr_same [OF assms(2) this, of p t, unfolded eq, OF p_def [symmetric]]
    have "enter_root X ?i (f, s) = (Ok (), (g, t))"
      using False gt(1) by (simp add: enter_root_def bnd_def gp load_ptrs_alloc_eq sp)
    moreover have "grown X is 1 V ds (f, s) (block_ptr ?pc (rows f) V) V ds (g, t)"
      by (rule grown_cong [OF walked_grown [OF gt(2)]]) simp_all
    ultimately show ?thesis using gt(3) False p_def eq by (intro exI [of _ "Ok ()"]) auto
  next
    case null: True
    obtain hit t where t: "evict X k 0 (f, s) = (Ok hit, (f, t))" "file_map X {} V is ds (f, t)"
      "evolves (block_bytes (block_size (sb s)) (ptr_blocks ?pc (rows f) V)) s t"
      "hit \<longleftrightarrow> (\<exists>pb. cached f k 0 pb)" "\<not> hit \<Longrightarrow> \<forall>p pb. cached f k p pb \<longrightarrow> disk_ptrs X t p = pb"
      by (rule evict_Ok [OF assms(1) k4]) blast
    have miss: "\<not> hit" using t(4) cacheD(2) [OF m(4)] by blast
    have wk: "walked X V is ds (f, s) (f, t)"
      using t(2,3) by (auto simp: walked_def intro: exI [of _ "f_cache f"])
    have pct: "pcount t = ?pc" "block_size (sb t) = block_size (sb s)" using walked_rows [OF wk] by simp_all
    show ?thesis
    proof (cases ds)
      case Nil
      then have "allocate_db X t = (Err Exhausted, t)" using allocate_block_none t(2) by blast
      then have "enter_root X ?i (f, s) = (Err Exhausted, (f, t))"
        using null t(1) miss by (simp add: enter_root_def bnd_def gp load_ptrs_alloc_eq on_dk_def)
      moreover have "grown X is 1 V ds (f, s) (block_ptr ?pc (rows f) V) V ds (f, t)"
        by (rule grown_cong [OF walked_grown [OF wk]]) simp_all
      ultimately show ?thesis using Nil null p_def by (intro exI [of _ "Err Exhausted"]) auto
    next
      case (Cons q ds')
      have ft: "file_map X {} V is (q # ds') (f, t)" using t(2) Cons by simp
      obtain u where u: "allocate_db X t = (Ok q, u)" "file_map X {} V is ds' (f, u)" "spare q V ds' (f, u)"
        "evolves (sb_range \<union> block_bytes (block_size (sb t)) (set ds')) t u"
        by (rule allocate_block [OF ft])
      have pcu: "pcount u = ?pc" "data_blocks u = data_blocks t"
        using pcount_evolves [OF u(4)] evolves_simps [OF u(4)] pct by simp_all
      define V' where "V' = V(q := replicate ?pc 0)"
      define g where "g = count_block (put_row ?i 0 q f)"
      have V'1: "V' = (if 0 < ?i then V(q := replicate (pcount u) 0) else V)" by (simp add: V'_def pcu)
      have root': "place (pcount u) ?i 0 0" "rows f ?i ! 0 = 0" using root pcu null p_def by simp_all
      note pr = plant_row [OF u(2,3) root' V'1 g_def]
      have fg: "file_map X {q} V' is ds' (g, u)" using pr(2) by simp
      have old: "disk_ptrs X u p' = pb" if "cached g k p' pb" for p' pb
      proof -
        have f: "cached f k p' pb" using that by (simp add: g_def cached_def)
        note us = ptr_block_used [OF ft cached_ptr_block [OF file_mapD(4) [OF ft] f]]
        have "{p'..<p' + block_size (sb t)} \<inter> (sb_range \<union> block_bytes (block_size (sb t)) (set ds')) = {}"
          using sb_apart [OF file_mapD(1) [OF ft] us(1)] us(2) store_okD(10) [OF file_mapD(1) [OF ft]]
            block_bytes_apart [OF us(1), of "set ds'"] by (simp add: Int_Un_distrib)
        from disk_ptrs_evolves [OF u(4) this] show ?thesis using t(5) [OF miss] f by simp
      qed
      have V'q: "V' q = replicate ?pc 0" by (simp add: V'_def)
      have nq: "node (pcount u) (rows g) V' (0 + Suc k) 0 0 = q" "q \<noteq> 0"
        using node_planted [OF pr(1) plantedD(4) [OF pr(1)]] plantedD(3) [OF pr(1)] by simp_all
      define h where "h = put_cache k q (V' q) g"
      have "file_map X ({q} - {q}) V' is ds' (h, u)"
        unfolding h_def
        by (rule put_cache_map [OF fg k4 _ nq]) (use root pcu V'q old in auto)
      then have fh: "file_map X {} V' is ds' (h, u)" by simp
      have rh: "rows h = rows g" by (simp add: h_def)
      have rgi: "rows g ?i ! 0 = q" using nq(1) by simp
      have h_eq: "h = put_row ?i 0 q (put_cache k q (replicate ?pc 0) (count_block f))"
        by (simp add: h_def g_def V'q rows_def)
      note sp = set_ptr_run [OF assms(2), of 0 "count_block f\<lparr>f_cache := (f_cache f)[k := Some (q, replicate ?pc 0)]\<rparr>" q u]
      have "enter_root X ?i (f, s) = (Ok (), (h, u))"
        using null t(1) miss u(1) c4 k4 row spare_counted [OF u(2,3)] pcu unfolding h_eq
        by (simp add: enter_root_def bnd_def gp load_ptrs_alloc_eq on_dk_def inc_blocks_run set_cache_run sp)
      moreover have "grown X is 1 V (q # ds') (f, s) (block_ptr ?pc (rows f) V) V' ds' (h, u)"
      proof -
        have e1: "evolves (footprint V (q # ds') (f, s)) s t"
          by (rule evolves_mono [OF t(3)]) (auto simp: footprint_def block_bytes_def)
        have "evolves (footprint V (q # ds') (f, s)) t u"
          by (rule evolves_mono [OF u(4)]) (auto simp: footprint_def pct)
        then have e: "evolves (footprint V (q # ds') (f, s)) s u" by (rule evolves_trans [OF e1])
        have sm: "same_meta f h" unfolding same_meta_def
          by (intro exI [of _ "i_blocks (f_inode h)"] exI [of _ "i_ptrs (f_inode h)"] exI [of _ "f_cache h"])
            (simp add: h_def g_def)
        have fm: "file_map X {} V is (q # ds') (f, s)" using assms(1) Cons by simp
        show ?thesis
          using planted_grown [OF fm pr(1) [folded rh, unfolded pcu(1)] fh sm e, of 0] by simp
      qed
      ultimately show ?thesis
        using Cons nq(2) rh rgi c4 k4 null p_def
        by (intro exI [of _ "Ok ()"] exI [of _ h] exI [of _ u] exI [of _ V'] exI [of _ ds'])
          (simp add: h_def g_def)
    qed
  qed
qed

section \<open>The whole walk\<close>

text \<open>
  The two ways an allocating operation ends: with a block \<open>v\<close> at \<open>bi\<close>, which is the one that was there
  if there was one, or with the free blocks used up and the map as it was.
\<close>

definition placed ::
  "ext \<Rightarrow> nat list \<Rightarrow> nat \<Rightarrow> (nat \<Rightarrow> nat list) \<Rightarrow> nat list \<Rightarrow> dkfile \<times> 'z store_scheme \<Rightarrow> (nat \<Rightarrow> nat) \<Rightarrow> nat \<Rightarrow>
   (dk_error, nat) res \<Rightarrow> (nat \<Rightarrow> nat list) \<Rightarrow> nat list \<Rightarrow> dkfile \<times> 'z store_scheme \<Rightarrow> bool" where
  "placed X is n V ds fs M bi r V' ds' gt \<longleftrightarrow> (case r of
     Ok v \<Rightarrow> v \<noteq> 0 \<and> (M bi \<noteq> 0 \<longrightarrow> v = M bi \<and> ds' = ds) \<and> grown X is n V ds fs (M(bi := v)) V' ds' gt
   | Err e \<Rightarrow> e = Exhausted \<and> ds' = [] \<and> M bi = 0 \<and> grown X is n V ds fs M V' ds' gt
   | _ \<Rightarrow> False)"

lemma placed_trans:
  assumes "grown X is a V ds (f, s) M V1 ds1 (g, t)"
    "placed X is b V1 ds1 (g, t) (block_ptr (pcount t) (rows g) V1) bi r V' ds' hu"
    "a + b \<le> n" "bi < max_blocks (pcount s)" "M bi \<noteq> 0 \<Longrightarrow> ds1 = ds"
  shows "placed X is n V ds (f, s) M bi r V' ds' hu"
proof -
  have bi: "block_ptr (pcount t) (rows g) V1 bi = M bi" by (rule grown_ptr [OF assms(1,4)])
  note ptr = grown_ptr [OF assms(1)]
  show ?thesis
  proof (cases r)
    case (Ok v)
    then have b: "grown X is b V1 ds1 (g, t) ((block_ptr (pcount t) (rows g) V1)(bi := v)) V' ds' hu"
      using assms(2) by (simp add: placed_def)
    have "grown X is n V ds (f, s) (M(bi := v)) V' ds' hu"
      by (rule grown_cong [OF grown_trans [OF assms(1) b] assms(3)]) (simp add: ptr)
    then show ?thesis using Ok assms(2,5) bi by (simp add: placed_def)
  next
    case (Err e)
    then have b: "grown X is b V1 ds1 (g, t) (block_ptr (pcount t) (rows g) V1) V' ds' hu"
      using assms(2) by (auto simp: placed_def)
    have "grown X is n V ds (f, s) M V' ds' hu"
      by (rule grown_cong [OF grown_trans [OF assms(1) b] assms(3)]) (simp add: ptr)
    then show ?thesis using Err assms(2) bi by (auto simp: placed_def)
  qed (use assms(2) in \<open>simp_all add: placed_def\<close>)
qed

lemma last_slot:
  assumes "file_map X {} V is ds (f, s)" "bi < max_blocks (pcount s)" "level_of (pcount s) bi = (Suc d, off)"
    "f_cache f ! 0 = Some (p, V p)" "p = node (pcount s) (rows f) V (Suc d) d (off div pcount s)" "p \<noteq> 0"
  shows "\<exists>r g t V' ds'. bnd (slot_alloc X 0 (off mod pcount s)) (\<lambda>(v, _). ret v) (f, s) = (r, (g, t)) \<and>
    placed X is 1 V ds (f, s) (block_ptr (pcount s) (rows f) V) bi r V' ds' (g, t)"
proof -
  let ?pc = "pcount s" and ?M = "block_ptr (pcount s) (rows f) V"
  note m = file_mapD [OF assms(1)] and ok = store_okD [OF file_mapD(1) [OF assms(1)]]
  have pl: "place ?pc (Suc d) (Suc d) off" by (rule level_of_place [OF assms(2,3)])
  have up: "place ?pc (d + Suc 0) d (off div ?pc)" using place_parent [OF pl] by simp
  have pt: "p \<in> ptr_blocks ?pc (rows f) V" using tree_ptr [OF up, of "rows f" V] assms(5,6) by simp
  have idx: "off mod ?pc < ?pc" using ok(7) by simp
  have len: "off mod ?pc < length (V p)" using ptr_block_used(3) [OF assms(1) pt] idx by simp
  have cl: "0 < length (f_cache f)" using cacheD(1) [OF m(4)] by simp
  have M: "?M bi = V p ! (off mod ?pc)" using assms(3,5,6) by (simp add: block_ptr_def Let_def)
  show ?thesis
  proof (cases "V p ! (off mod ?pc) = 0")
    case False
    have "grown X is 1 V ds (f, s) (?M(bi := ?M bi)) V ds (f, s)"
      by (rule grown_cong [OF walked_grown [OF walked_refl [OF assms(1)]]]) simp_all
    then show ?thesis
      using slot_alloc_old [OF cl assms(4) len False, of X s] M False
      by (intro exI [of _ "Ok (?M bi)"] exI [of _ f] exI [of _ s] exI [of _ V] exI [of _ ds])
        (simp add: bnd_def placed_def)
  next
    case null: True
    show ?thesis
    proof (cases ds)
      case Nil
      then have "allocate_db X s = (Err Exhausted, s)" using allocate_block_none assms(1) by blast
      then have "slot_alloc X 0 (off mod ?pc) (f, s) = (Err Exhausted, (f, s))"
        by (rule slot_alloc_none [OF cl assms(4) len null])
      moreover have "grown X is 1 V ds (f, s) ?M V ds (f, s)"
        by (rule grown_cong [OF walked_grown [OF walked_refl [OF assms(1)]]]) simp_all
      ultimately show ?thesis
        using Nil null M
        by (intro exI [of _ "Err Exhausted"] exI [of _ f] exI [of _ s] exI [of _ V] exI [of _ ds])
          (simp add: bnd_def placed_def)
    next
      case (Cons q ds')
      define V' where "V' = V(p := (V p)[off mod ?pc := q], q := replicate ?pc 0)"
      define g where "g = count_block (put_cache 0 p (V' p) f)"
      have fm: "file_map X {} V is (q # ds') (f, s)" using assms(1) Cons by simp
      obtain t where t: "slot_alloc X 0 (off mod ?pc) (f, s) = (Ok (q, True), (g, t))"
        "file_map X (if 0 < (0 :: nat) then {q} else {}) V' is ds' (g, t)"
        "planted ?pc (data_blocks s - set ds' - {q}) (rows f) V (rows g) V' (d + Suc 0) (Suc d) (off div ?pc * ?pc + off mod ?pc) q"
        "evolves (sb_range \<union> block_bytes (block_size (sb s)) (set ds')) s t"
        by (rule slot_alloc_new [OF fm _ assms(4) up _ assms(6) idx null V'_def g_def]) (use assms(5) in auto)
      have pl': "planted ?pc (data_blocks s - set ds' - {q}) (rows f) V (rows g) V' (Suc d) (Suc d) off q"
        using t(3) by simp
      have e: "evolves (footprint V (q # ds') (f, s)) s t"
        by (rule evolves_mono [OF t(4)]) (auto simp: footprint_def)
      have sm: "same_meta f g" unfolding same_meta_def
        by (intro exI [of _ "i_blocks (f_inode g)"] exI [of _ "i_ptrs (f_inode g)"] exI [of _ "f_cache g"])
          (simp add: g_def)
      have fg: "file_map X {} V' is ds' (g, t)" using t(2) by simp
      have "grown X is 1 V (q # ds') (f, s) (?M(bi := q)) V' ds' (g, t)"
        using planted_grown [OF fm pl' fg sm e assms(3)] by simp
      then show ?thesis
        using Cons t(1) plantedD(3) [OF pl'] M null
        by (intro exI [of _ "Ok q"] exI [of _ g] exI [of _ t] exI [of _ V'] exI [of _ ds'])
          (simp add: bnd_def placed_def)
    qed
  qed
qed

lemma direct_slot:
  assumes "file_map X {} V is ds (f, s)" "bi < max_blocks (pcount s)" "level_of (pcount s) bi = (0, off)"
  shows "\<exists>r g t V' ds'. locate_alloc X bi (f, s) = (r, (g, t)) \<and>
    placed X is 1 V ds (f, s) (block_ptr (pcount s) (rows f) V) bi r V' ds' (g, t)"
proof -
  let ?pc = "pcount s" and ?M = "block_ptr (pcount s) (rows f) V"
  note m = file_mapD [OF assms(1)] and ok = store_okD [OF file_mapD(1) [OF assms(1)]]
  have pl: "place ?pc 0 0 off" by (rule level_of_place [OF assms(2,3)])
  note lev = level_off_run [OF m(3) refl m(2) ok(7), of bi, unfolded assms(3) if_P [OF assms(2)]]
  have row: "off < length (rows f 0)" using tree_row [OF m(3) pl] .
  note gp = get_ptr_run [OF _ row, of s, simplified]
  have M: "?M bi = rows f 0 ! off" using assms(3) by (simp add: block_ptr_def)
  show ?thesis
  proof (cases "rows f 0 ! off = 0")
    case False
    have "grown X is 1 V ds (f, s) (?M(bi := ?M bi)) V ds (f, s)"
      by (rule grown_cong [OF walked_grown [OF walked_refl [OF assms(1)]]]) simp_all
    then show ?thesis
      using M False
      by (intro exI [of _ "Ok (?M bi)"] exI [of _ f] exI [of _ s] exI [of _ V] exI [of _ ds])
        (simp add: locate_alloc_def bnd_def lev gp placed_def)
  next
    case null: True
    show ?thesis
    proof (cases ds)
      case Nil
      then have "allocate_db X s = (Err Exhausted, s)" using allocate_block_none assms(1) by blast
      moreover have "grown X is 1 V ds (f, s) ?M V ds (f, s)"
        by (rule grown_cong [OF walked_grown [OF walked_refl [OF assms(1)]]]) simp_all
      ultimately show ?thesis
        using Nil null M
        by (intro exI [of _ "Err Exhausted"] exI [of _ f] exI [of _ s] exI [of _ V] exI [of _ ds])
          (simp add: locate_alloc_def bnd_def lev gp on_dk_def placed_def)
    next
      case (Cons q ds')
      have fm: "file_map X {} V is (q # ds') (f, s)" using assms(1) Cons by simp
      obtain t where t: "allocate_db X s = (Ok q, t)" "file_map X {} V is ds' (f, t)" "spare q V ds' (f, t)"
        "evolves (sb_range \<union> block_bytes (block_size (sb s)) (set ds')) s t"
        by (rule allocate_block [OF fm])
      have pct: "pcount t = ?pc" using pcount_evolves [OF t(4)] .
      define g where "g = count_block (put_row 0 off q f)"
      have pl': "place (pcount t) 0 0 off" using pl pct by simp
      have V0: "V = (if 0 < (0 :: nat) then V(q := replicate (pcount t) 0) else V)" by simp
      note pr = plant_row [OF t(2,3) pl' null V0 g_def]
      have fg: "file_map X {} V is ds' (g, t)" using pr(2) by simp
      have e: "evolves (footprint V (q # ds') (f, s)) s t"
        by (rule evolves_mono [OF t(4)]) (auto simp: footprint_def)
      have sm: "same_meta f g" unfolding same_meta_def
        by (intro exI [of _ "i_blocks (f_inode g)"] exI [of _ "i_ptrs (f_inode g)"] exI [of _ "f_cache g"])
          (simp add: g_def)
      have "grown X is 1 V (q # ds') (f, s) (?M(bi := q)) V ds' (g, t)"
        using planted_grown [OF fm pr(1) [unfolded pct] fg sm e assms(3)] by simp
      moreover have "locate_alloc X bi (f, s) = (Ok q, (g, t))"
      proof -
        note sp = set_ptr_run [OF _ row, of q t, simplified]
        have "rows g = (rows f)(0 := (rows f 0)[off := q])"
          unfolding g_def rows_count by (rule rows_put_row) simp
        then have new: "off < length (rows g 0)" "rows g 0 ! off = q" using row by simp_all
        note gp' = get_ptr_run [OF _ new(1), of t, simplified, unfolded new(2)]
        note inc = inc_blocks_run [of "put_row 0 off q f" t, folded g_def]
        show ?thesis using null spare_counted [OF t(2,3)]
          by (simp add: locate_alloc_def bnd_def lev gp on_dk_def t(1) sp inc gp' del: file_run)
      qed
      ultimately show ?thesis
        using Cons plantedD(3) [OF pr(1)] M null
        by (intro exI [of _ "Ok q"] exI [of _ g] exI [of _ t] exI [of _ V] exI [of _ ds'])
          (simp add: placed_def)
    qed
  qed
qed

lemma locate_alloc_eq:
  "locate_alloc X bi = bnd (level_off bi) (\<lambda>(level, off).
     if level = 0 then
       bnd (get_ptr 0 off) (\<lambda>p.
       bnd (if p = 0 then bnd (on_dk (allocate_db X)) (\<lambda>q. bnd (set_ptr 0 off q) (\<lambda>_. inc_blocks)) else ret ())
         (\<lambda>_. get_ptr 0 off))
     else bnd (enter_root X level) (\<lambda>_. bnd dk_block_size (\<lambda>bs. bnd (ck_pow (bs div 8) level) (\<lambda>ipc.
       bnd (descend_alloc X (bs div 8) level ipc off) (\<lambda>off'. bnd (slot_alloc X 0 off') (\<lambda>(v, _). ret v))))))"
  by (simp add: locate_alloc_def enter_root_def bnd_assoc cong: if_cong)

lemma tree_slot:
  assumes "file_map X {} V is ds (f, s)" "bi < max_blocks (pcount s)" "level_of (pcount s) bi = (Suc k, off)"
  shows "\<exists>r g t V' ds'. locate_alloc X bi (f, s) = (r, (g, t)) \<and>
    placed X is 5 V ds (f, s) (block_ptr (pcount s) (rows f) V) bi r V' ds' (g, t)"
proof -
  let ?pc = "pcount s" and ?M = "block_ptr (pcount s) (rows f) V"
  note m = file_mapD [OF assms(1)] and ok = store_okD [OF file_mapD(1) [OF assms(1)]]
  have pl: "place ?pc (Suc k) (Suc k) off" by (rule level_of_place [OF assms(2,3)])
  then have i4: "Suc k \<le> 4" "off < ?pc ^ Suc k" by (simp_all add: place_def)
  note lev = level_off_run [OF m(3) refl m(2) ok(7), of bi, unfolded assms(3) if_P [OF assms(2)]]
  obtain r g t V1 ds1 where root: "enter_root X (Suc k) (f, s) = (r, (g, t))"
    "grown X is 1 V ds (f, s) ?M V1 ds1 (g, t)"
    "rows f (Suc k) ! 0 \<noteq> 0 \<longrightarrow> ds1 = ds"
    "case r of
       Ok _ \<Rightarrow> (\<exists>p. p \<noteq> 0 \<and> rows g (Suc k) ! 0 = p \<and> f_cache g ! k = Some (p, V1 p))
     | Err e \<Rightarrow> e = Exhausted \<and> ds1 = [] \<and> rows f (Suc k) ! 0 = 0
     | _ \<Rightarrow> False"
    using enter_root_run [OF assms(1) i4(1)] by blast
  have div0: "off div ?pc ^ Suc k = 0" "off mod ?pc ^ Suc k = off" using i4(2) by simp_all
  have below: "rows f (Suc k) ! 0 = 0 \<Longrightarrow> ?M bi = 0"
    using node_below_null [of ?pc "rows f" V "Suc k" 0 off "Suc k"] div0(1) assms(3)
    by (simp del: power_Suc add: block_ptr_def)
  show ?thesis
  proof (cases r)
    case (Err e)
    have "?M bi = 0" using below root(4) Err by simp
    moreover have "grown X is 5 V ds (f, s) ?M V1 ds1 (g, t)" by (rule grown_cong [OF root(2)]) simp_all
    moreover have "locate_alloc X bi (f, s) = (Err e, (g, t))"
      using root(1) Err by (simp add: locate_alloc_eq bnd_def lev)
    ultimately show ?thesis using root(4) Err
      by (intro exI [of _ "Err e"] exI [of _ g] exI [of _ t] exI [of _ V1] exI [of _ ds1]) (auto simp: placed_def)
  next
    case (Ok x)
    then obtain p where p: "p \<noteq> 0" "rows g (Suc k) ! 0 = p" "f_cache g ! k = Some (p, V1 p)"
      using root(4) by auto
    note D = grown_D [OF root(2)]
    have "?pc ^ Suc k \<le> ?pc ^ 4" using i4(1) ok(7) by (intro power_increasing) auto
    then have pw: "?pc ^ Suc k < u64_limit" using m(2) by linarith
    have run: "locate_alloc X bi (f, s) = bnd (descend_alloc X ?pc (Suc k) (?pc ^ Suc k) off)
        (\<lambda>off'. bnd (slot_alloc X 0 off') (\<lambda>(v, _). ret v)) (g, t)"
      using root(1) Ok pw D(3,4)
      by (simp del: power_Suc descend_alloc.simps add: locate_alloc_eq bnd_def lev pcount_def ck_pow_def)
    have p_node: "p = node ?pc (rows g) V1 (Suc k) (Suc k - Suc k) (off div ?pc ^ Suc k)"
      using p(2) div0(1) by (simp del: power_Suc)
    have "f_cache g ! (Suc k - 1) = Some (p, V1 p)" using p(3) by simp
    note down = descend_alloc_run [OF D(1) _ order_refl D(3) [symmetric] assms(2,3) this p_node p(1)]
    obtain r' h u V2 ds2 where d: "descend_alloc X ?pc (Suc k) (?pc ^ Suc k) (off mod ?pc ^ Suc k) (g, t) = (r', (h, u))"
      "grown X is (Suc k - 1) V1 ds1 (g, t) (block_ptr ?pc (rows g) V1) V2 ds2 (h, u)"
      "block_ptr ?pc (rows g) V1 bi \<noteq> 0 \<longrightarrow> ds2 = ds1"
      "case r' of
         Ok o' \<Rightarrow> o' = off mod ?pc \<and> (\<exists>p. f_cache h ! 0 = Some (p, V2 p) \<and> p \<noteq> 0 \<and>
           p = node ?pc (rows h) V2 (Suc k) (Suc k - 1) (off div ?pc))
       | Err e \<Rightarrow> e = Exhausted \<and> ds2 = [] \<and> block_ptr ?pc (rows g) V1 bi = 0
       | _ \<Rightarrow> False"
      using down by (elim meta_impE exE conjE) simp_all
    have two: "grown X is (1 + (Suc k - 1)) V ds (f, s) ?M V2 ds2 (h, u)"
      by (rule grown_same_trans [OF root(2)]) (use d(2) D(3) in simp)
    have kept: "?M bi \<noteq> 0 \<Longrightarrow> ds2 = ds"
      using d(3) root(3) below grown_ptr [OF root(2) assms(2)] D(3) by auto
    note d1 = d(1) [unfolded div0(2)]
    show ?thesis
    proof (cases r')
      case (Err e)
      have "?M bi = 0" using d(4) Err grown_ptr [OF root(2) assms(2)] D(3) by simp
      moreover have "grown X is 5 V ds (f, s) ?M V2 ds2 (h, u)" by (rule grown_cong [OF two]) (use i4 in auto)
      moreover have "locate_alloc X bi (f, s) = (Err e, (h, u))" unfolding run using d1 Err by (simp add: bnd_Err)
      ultimately show ?thesis using d(4) Err
        by (intro exI [of _ "Err e"] exI [of _ h] exI [of _ u] exI [of _ V2] exI [of _ ds2]) (auto simp: placed_def)
    next
      case (Ok o')
      note E = grown_D [OF two]
      obtain p' where p': "o' = off mod pcount u" "f_cache h ! 0 = Some (p', V2 p')" "p' \<noteq> 0"
        "p' = node (pcount u) (rows h) V2 (Suc k) k (off div pcount u)"
        using d(4) Ok E(3) by auto
      have bu: "bi < max_blocks (pcount u)" "level_of (pcount u) bi = (Suc k, off)" using assms(2,3) E(3) by simp_all
      obtain r3 h3 u3 V3 ds3 where l: "bnd (slot_alloc X 0 o') (\<lambda>(v, _). ret v) (h, u) = (r3, (h3, u3))"
        "placed X is 1 V2 ds2 (h, u) (block_ptr (pcount u) (rows h) V2) bi r3 V3 ds3 (h3, u3)"
        using last_slot [OF E(1) bu p'(2,4,3)] p'(1) by blast
      have "locate_alloc X bi (f, s) = (r3, (h3, u3))" unfolding run using d1 Ok l(1) by (simp add: bnd_Ok)
      moreover have "placed X is 5 V ds (f, s) ?M bi r3 V3 ds3 (h3, u3)"
        by (rule placed_trans [OF two l(2) _ assms(2)]) (use i4 kept in auto)
      ultimately show ?thesis by blast
    qed (use d(4) in auto)
  qed (use root(4) in auto)
qed

lemma locate_alloc_run:
  assumes "file_map X {} V is ds (f, s)" "bi < max_blocks (pcount s)"
  obtains r g t V' ds' where "locate_alloc X bi (f, s) = (r, (g, t))"
    "placed X is 5 V ds (f, s) (block_ptr (pcount s) (rows f) V) bi r V' ds' (g, t)"
proof -
  let ?M = "block_ptr (pcount s) (rows f) V"
  obtain i off where lo: "level_of (pcount s) bi = (i, off)" by fastforce
  show thesis
  proof (cases i)
    case 0
    then obtain r g t V' ds' where w: "locate_alloc X bi (f, s) = (r, (g, t))"
      "placed X is 1 V ds (f, s) ?M bi r V' ds' (g, t)"
      using direct_slot [OF assms] lo by blast
    have z: "grown X is 0 V ds (f, s) ?M V ds (f, s)"
      by (rule walked_grown [OF walked_refl [OF assms(1)]])
    have "placed X is 5 V ds (f, s) ?M bi r V' ds' (g, t)"
      by (rule placed_trans [OF z w(2) _ assms(2)]) simp_all
    then show thesis by (rule that [OF w(1)])
  next
    case (Suc k)
    then show thesis using tree_slot [OF assms, of k off] lo that by blast
  qed
qed

lemma locate_alloc_beyond:
  assumes "file_map X D V is ds (f, s)" "max_blocks (pcount s) \<le> bi"
  shows "locate_alloc X bi (f, s) = (Panic, (f, s))" "locate X bi (f, s) = (Panic, (f, s))"
proof -
  note m = file_mapD [OF assms(1)] and ok = store_okD [OF file_mapD(1) [OF assms(1)]]
  have "\<not> bi < max_blocks (pcount s)" using assms(2) by simp
  note lev = level_off_run [OF m(3) refl m(2) ok(7), of bi, unfolded if_not_P [OF this]]
  show "locate_alloc X bi (f, s) = (Panic, (f, s))" "locate X bi (f, s) = (Panic, (f, s))"
    by (simp_all add: locate_alloc_def locate_def bnd_def lev)
qed

end
