(* ===== verification/FileBytes.thy ===== *)
theory FileBytes
  imports LocateAlloc
begin

text \<open>
  The bytes of an open file: what \<open>dk_read\<close>, \<open>dk_write\<close> and the loops of the standard library over them
  do to the sequence of bytes that a file without holes stands for.
\<close>

section \<open>What does not matter to the map\<close>

lemma file_map_inode:
  assumes "i_ptrs (f_inode g) = i_ptrs (f_inode f)" "i_blocks (f_inode g) = i_blocks (f_inode f)"
    "i_xattr_ptr (f_inode g) = i_xattr_ptr (f_inode f)" "f_cache g = f_cache f"
  shows "rows g = rows f" "file_map X D V is ds (g, s) = file_map X D V is ds (f, s)"
proof -
  show r: "rows g = rows f" using assms(1) by (simp add: rows_def fun_eq_iff)
  have c: "cached g k p pb = cached f k p pb" for k p pb using assms(4) by (simp add: cached_def)
  show "file_map X D V is ds (g, s) = file_map X D V is ds (f, s)"
    using assms by (simp add: file_map_def cache_ok_def disk_view_def blocks_ok_def r c)
qed

lemma clk_irrelevant [simp]:
  "data_blocks (s\<lparr>clk := c\<rparr>) = data_blocks s" "db_base (s\<lparr>clk := c\<rparr>) = db_base s"
  "pcount (s\<lparr>clk := c\<rparr>) = pcount s" "geometry_ok (s\<lparr>clk := c\<rparr>) = geometry_ok s"
  "sb_synced X (s\<lparr>clk := c\<rparr>) = sb_synced X s" "regions_ok X (s\<lparr>clk := c\<rparr>) is ds = regions_ok X s is ds"
  "store_ok X (s\<lparr>clk := c\<rparr>) is ds = store_ok X s is ds"
  "disk_ptrs X (s\<lparr>clk := c\<rparr>) p = disk_ptrs X s p"
  by (simp_all add: data_blocks_def db_base_def pcount_def geometry_ok_def sb_synced_def regions_ok_def
      store_ok_def disk_ptrs_def)

lemma file_map_clk [simp]: "file_map X D V is ds (f, s\<lparr>clk := c\<rparr>) = file_map X D V is ds (f, s)"
  by (simp add: file_map_def disk_view_def)

section \<open>What identifies a file\<close>

text \<open>\<open>same_id f g\<close>: only the size, the map, the times, the position and the caches differ.\<close>

definition stem :: "dkfile \<Rightarrow> dkfile" where
  "stem f = f\<lparr>f_inode := (f_inode f)\<lparr>i_size := 0, i_blocks := 0, i_ptrs := InodePtrs [] [] [] [] [],
     i_mtime := \<lparr>ts_sec = 0, ts_nsec = 0\<rparr>, i_ctime := \<lparr>ts_sec = 0, ts_nsec = 0\<rparr>\<rparr>,
     f_pos := 0, f_dirty := False, f_cache := []\<rparr>"

definition same_id :: "dkfile \<Rightarrow> dkfile \<Rightarrow> bool" where
  "same_id f g \<longleftrightarrow> stem g = stem f"

lemma same_id_refl [simp]: "same_id f f"
  by (simp add: same_id_def)

lemma same_id_trans: "same_id f g \<Longrightarrow> same_id g h \<Longrightarrow> same_id f h"
  by (simp add: same_id_def)

lemma same_id_fields:
  assumes "same_id f g"
  shows "i_mode (f_inode g) = i_mode (f_inode f)" "i_ino (f_inode g) = i_ino (f_inode f)"
    "i_nlink (f_inode g) = i_nlink (f_inode f)" "i_xattr_ptr (f_inode g) = i_xattr_ptr (f_inode f)"
    "f_xattr g = f_xattr f" "i_uid (f_inode g) = i_uid (f_inode f)" "i_gid (f_inode g) = i_gid (f_inode f)"
    "i_device (f_inode g) = i_device (f_inode f)" "i_atime (f_inode g) = i_atime (f_inode f)"
    "i_crtime (f_inode g) = i_crtime (f_inode f)"
proof -
  have e: "stem g = stem f" using assms by (simp add: same_id_def)
  have keep: "h (f_inode g) = h (f_inode f)" if "\<And>f. h (f_inode (stem f)) = h (f_inode f)" for h :: "inode \<Rightarrow> 'a"
    using arg_cong [OF e, of "\<lambda>f. h (f_inode f)"] by (simp add: that)
  show "i_mode (f_inode g) = i_mode (f_inode f)" "i_ino (f_inode g) = i_ino (f_inode f)"
    "i_nlink (f_inode g) = i_nlink (f_inode f)" "i_xattr_ptr (f_inode g) = i_xattr_ptr (f_inode f)"
    "i_uid (f_inode g) = i_uid (f_inode f)" "i_gid (f_inode g) = i_gid (f_inode f)"
    "i_device (f_inode g) = i_device (f_inode f)" "i_atime (f_inode g) = i_atime (f_inode f)"
    "i_crtime (f_inode g) = i_crtime (f_inode f)"
    by (rule keep; simp add: stem_def)+
  show "f_xattr g = f_xattr f" using arg_cong [OF e, of f_xattr] by (simp add: stem_def)
qed

lemma stem_updates [simp]:
  "stem (g\<lparr>f_pos := p\<rparr>) = stem g" "stem (g\<lparr>f_dirty := b\<rparr>) = stem g" "stem (g\<lparr>f_cache := c\<rparr>) = stem g"
  "stem (g\<lparr>f_inode := (f_inode g)\<lparr>i_size := n\<rparr>\<rparr>) = stem g"
  "stem (g\<lparr>f_inode := (f_inode g)\<lparr>i_size := n, i_mtime := mt, i_ctime := ct\<rparr>\<rparr>) = stem g"
  "stem (g\<lparr>f_inode := (f_inode g)\<lparr>i_blocks := n, i_ptrs := ps\<rparr>\<rparr>) = stem g"
  by (simp_all add: stem_def)

lemma same_id_meta: "same_meta f g \<Longrightarrow> same_id f g"
  by (auto simp: same_meta_def same_id_def stem_def)

text \<open>The pointers and the block count of a mapped file fit into the fields of an inode.\<close>

lemma file_map_fields:
  assumes "file_map X D V is ds (f, s)"
  shows "ptrs_shape (i_ptrs (f_inode f))" "\<forall>v \<in> set (ptrs_values (i_ptrs (f_inode f))). v < u64_limit"
    "i_blocks (f_inode f) < u64_limit" "i_xattr_ptr (f_inode f) < u64_limit"
proof -
  note m = file_mapD [OF assms] and n = all_nodes_used [OF assms]
  have len: "length (rows f 0) = 12" "length (rows f 1) = 1" "length (rows f 2) = 1"
    "length (rows f 3) = 1" "length (rows f 4) = 1" using m(3) by (simp_all add: tree_ok_def)
  then show "ptrs_shape (i_ptrs (f_inode f))" by (simp add: ptrs_shape_def rows_simps)
  have block: "p < u64_limit" if "p \<in> data_blocks s" for p
    using data_block_range(3) [OF m(1) that] by linarith
  have row: "v < u64_limit" if v: "v \<in> set (rows f i)" and i: "i \<le> 4" for v i
  proof -
    obtain j where j: "j < length (rows f i)" "rows f i ! j = v" using v by (auto simp: in_set_conv_nth)
    have "i = 0 \<or> i \<in> {1..4}" using i by auto
    then have "length (rows f i) = (if i = 0 then 12 else 1)" using m(3) by (auto simp: tree_ok_def)
    then have "place (pcount s) i 0 j" using i j(1) by (simp add: place_def split: if_splits)
    then have "v = 0 \<or> v \<in> all_nodes (pcount s) (rows f) V" using j(2) unfolding all_nodes_def by fastforce
    then show ?thesis using n(1) block by auto
  qed
  show "\<forall>v \<in> set (ptrs_values (i_ptrs (f_inode f))). v < u64_limit"
    using row [of _ 0] row [of _ 1] row [of _ 2] row [of _ 3] row [of _ 4]
    by (auto simp: ptrs_values_def rows_simps)
  let ?N = "all_nodes (pcount s) (rows f) V" and ?x = "i_xattr_ptr (f_inode f)"
  define A where "A = (if ?x = 0 then ?N else insert ?x ?N)"
  have A: "A \<subseteq> data_blocks s" "card A = i_blocks (f_inode f)"
    using m(6) n unfolding blocks_ok_def A_def by auto
  have "card A \<le> card (data_blocks s)" by (rule card_mono [OF _ A(1)]) simp
  also have "\<dots> = db_count (sb s)" using store_okD(5) [OF m(1)] by (simp add: data_blocks_def card_units)
  also have "\<dots> < u64_limit"
    using regions_Some(8) [of X s "is" ds] m(1) by (simp add: store_ok_def)
  finally show "i_blocks (f_inode f) < u64_limit" using A(2) by simp
  show "i_xattr_ptr (f_inode f) < u64_limit" using m(6) block by (cases "?x = 0") (auto simp: blocks_ok_def)
qed

lemma inode_fields_kept:
  assumes "inode_fields_ok (f_inode f)" "same_id f g" "file_map X D V is ds (g, t)"
    "i_size (f_inode g) < u64_limit" "timespec_ok (i_mtime (f_inode g))" "timespec_ok (i_ctime (f_inode g))"
  shows "inode_fields_ok (f_inode g)"
  using assms(1,4-6) same_id_fields [OF assms(2)] file_map_fields [OF assms(3)]
  by (simp add: inode_fields_ok_def)

section \<open>Contents\<close>

definition data_ptr :: "(nat \<Rightarrow> nat list) \<Rightarrow> dkfile \<times> 'z store_scheme \<Rightarrow> nat \<Rightarrow> nat" where
  "data_ptr V fs bk = (case fs of (f, s) \<Rightarrow> block_ptr (pcount s) (rows f) V bk)"

definition file_byte :: "(nat \<Rightarrow> nat list) \<Rightarrow> dkfile \<times> 'z store_scheme \<Rightarrow> nat \<Rightarrow> byte" where
  "file_byte V fs i = (case fs of (f, s) \<Rightarrow>
     disk s (data_ptr V fs (i div block_size (sb s)) + i mod block_size (sb s)))"

definition contents :: "(nat \<Rightarrow> nat list) \<Rightarrow> dkfile \<times> 'z store_scheme \<Rightarrow> byte list" where
  "contents V fs = map (file_byte V fs) [0..<i_size (f_inode (fst fs))]"

text \<open>The largest size of a file: what its pointers can reach, in the range of \<open>u64\<close>.\<close>

definition file_limit :: "'z store_scheme \<Rightarrow> nat" where
  "file_limit s = min (max_blocks (pcount s) * block_size (sb s)) (u64_limit - 1)"

definition dense :: "ext \<Rightarrow> (nat \<Rightarrow> nat list) \<Rightarrow> nat list \<Rightarrow> nat list \<Rightarrow> dkfile \<times> 'z store_scheme \<Rightarrow> bool" where
  "dense X V is ds fs \<longleftrightarrow> (case fs of (f, s) \<Rightarrow> file_map X {} V is ds (f, s)
     \<and> i_size (f_inode f) \<le> file_limit s \<and> inode_fields_ok (f_inode f)
     \<and> (\<forall>bk. bk * block_size (sb s) < i_size (f_inode f) \<longrightarrow> data_ptr V (f, s) bk \<noteq> 0))"

text \<open>The bytes on the device that belong to a file or to nobody.\<close>

definition own :: "(nat \<Rightarrow> nat list) \<Rightarrow> nat list \<Rightarrow> dkfile \<times> 'z store_scheme \<Rightarrow> nat set" where
  "own V ds fs = (case fs of (f, s) \<Rightarrow>
     sb_range \<union> block_bytes (block_size (sb s)) (set ds \<union> all_nodes (pcount s) (rows f) V))"

lemma length_contents [simp]: "length (contents V (f, s)) = i_size (f_inode f)"
  by (simp add: contents_def)

lemma footprint_own: "footprint V ds fs \<subseteq> own V ds fs"
proof -
  obtain f s where fs: "fs = (f, s)" by fastforce
  have "set ds \<union> ptr_blocks (pcount s) (rows f) V \<subseteq> set ds \<union> all_nodes (pcount s) (rows f) V"
    using ptr_blocks_nodes by blast
  from block_bytes_mono [OF this, of "block_size (sb s)"] show ?thesis
    by (simp add: fs footprint_def own_def) blast
qed

lemma data_ptr_used:
  assumes "file_map X D V is ds (f, s)" "bk < max_blocks (pcount s)" "data_ptr V (f, s) bk \<noteq> 0"
  shows "data_ptr V (f, s) bk \<in> data_blocks s" "data_ptr V (f, s) bk \<notin> set ds"
    "data_ptr V (f, s) bk \<notin> ptr_blocks (pcount s) (rows f) V"
    "data_ptr V (f, s) bk \<in> all_nodes (pcount s) (rows f) V"
    "\<And>bj. bj < max_blocks (pcount s) \<Longrightarrow> data_ptr V (f, s) bj = data_ptr V (f, s) bk \<Longrightarrow> bj = bk"
proof -
  note m = file_mapD [OF assms(1)]
  obtain i off where lo: "level_of (pcount s) bk = (i, off)" by fastforce
  note pl = level_of_place [OF assms(2) lo]
  have p: "data_ptr V (f, s) bk = node (pcount s) (rows f) V i i off"
    using lo by (simp add: data_ptr_def block_ptr_def)
  show n: "data_ptr V (f, s) bk \<in> all_nodes (pcount s) (rows f) V"
    using assms(3) pl p unfolding all_nodes_def by auto
  have "all_nodes (pcount s) (rows f) V \<subseteq> data_blocks s - set ds" using m(3) by (simp add: tree_ok_def)
  then show "data_ptr V (f, s) bk \<in> data_blocks s" "data_ptr V (f, s) bk \<notin> set ds" using n by blast+
  show "data_ptr V (f, s) bk \<notin> ptr_blocks (pcount s) (rows f) V"
  proof
    assume "data_ptr V (f, s) bk \<in> ptr_blocks (pcount s) (rows f) V"
    then obtain i' d' j' where x: "place (pcount s) i' d' j'" "d' < i'"
      "node (pcount s) (rows f) V i' d' j' = data_ptr V (f, s) bk" unfolding ptr_blocks_def by blast
    have "i = i' \<and> i = d' \<and> off = j'"
      by (rule tree_inj [OF m(3) pl x(1)]) (use x assms(3) p in simp_all)
    then show False using x(2) by simp
  qed
  fix bj assume bj: "bj < max_blocks (pcount s)" "data_ptr V (f, s) bj = data_ptr V (f, s) bk"
  obtain i' off' where lo': "level_of (pcount s) bj = (i', off')" by fastforce
  have p': "data_ptr V (f, s) bj = node (pcount s) (rows f) V i' i' off'"
    using lo' by (simp add: data_ptr_def block_ptr_def)
  have "i' = i \<and> i' = i \<and> off' = off"
    by (rule tree_inj [OF m(3) level_of_place [OF bj(1) lo'] pl]) (use bj(2) assms(3) p p' in simp_all)
  then show "bj = bk" using lo lo' by (intro level_of_inj [of "pcount s"]) simp
qed

lemma data_block_apart:
  assumes "file_map X D V is ds (f, s)" "bk < max_blocks (pcount s)" "data_ptr V (f, s) bk \<noteq> 0"
  shows "{data_ptr V (f, s) bk..<data_ptr V (f, s) bk + block_size (sb s)} \<inter> footprint V ds (f, s) = {}"
proof -
  note u = data_ptr_used [OF assms] and ok = store_okD [OF file_mapD(1) [OF assms(1)]]
  have "set ds \<union> ptr_blocks (pcount s) (rows f) V \<subseteq> data_blocks s"
    using ok(10) ptr_block_used(1) [OF assms(1)] by blast
  from block_bytes_apart [OF u(1) this] show ?thesis
    using u(2,3) sb_apart [OF file_mapD(1) [OF assms(1)] u(1)]
    by (simp add: footprint_def Int_Un_distrib)
qed

lemma block_below_limit:
  "i < file_limit s \<Longrightarrow> i div block_size (sb s) < max_blocks (pcount s)"
  unfolding file_limit_def by (rule less_mult_imp_div_less) simp

lemma denseD:
  assumes "dense X V is ds (f, s)"
  shows "file_map X {} V is ds (f, s)" "i_size (f_inode f) \<le> file_limit s"
    "bk * block_size (sb s) < i_size (f_inode f) \<Longrightarrow> data_ptr V (f, s) bk \<noteq> 0"
    "i < i_size (f_inode f) \<Longrightarrow> i div block_size (sb s) < max_blocks (pcount s)"
    "i < i_size (f_inode f) \<Longrightarrow> data_ptr V (f, s) (i div block_size (sb s)) \<noteq> 0"
    "i_size (f_inode f) < u64_limit" "inode_fields_ok (f_inode f)"
proof -
  show "inode_fields_ok (f_inode f)" using assms by (simp add: dense_def)
  show a: "file_map X {} V is ds (f, s)" "i_size (f_inode f) \<le> file_limit s"
    "bk * block_size (sb s) < i_size (f_inode f) \<Longrightarrow> data_ptr V (f, s) bk \<noteq> 0" for bk
    using assms by (simp_all add: dense_def)
  show "i_size (f_inode f) < u64_limit" using a(2) by (simp add: file_limit_def)
  show "i div block_size (sb s) < max_blocks (pcount s)" if "i < i_size (f_inode f)"
    by (rule block_below_limit) (use that a(2) in simp)
  show "data_ptr V (f, s) (i div block_size (sb s)) \<noteq> 0" if "i < i_size (f_inode f)"
  proof -
    have "i div block_size (sb s) * block_size (sb s) \<le> i" by simp
    then show ?thesis using that by (intro a(3)) linarith
  qed
qed

text \<open>Bytes in a row of one block.\<close>

lemma in_block:
  assumes "pos mod (bs :: nat) + j < bs"
  shows "(pos + j) div bs = pos div bs" "(pos + j) mod bs = pos mod bs + j"
proof -
  have "pos + j = pos div bs * bs + (pos mod bs + j)" by simp
  then show "(pos + j) div bs = pos div bs" "(pos + j) mod bs = pos mod bs + j"
    using assms by (metis div_mult_self3 div_less add.right_neutral mod_mult_self3 mod_less gr_implies_not0)+
qed

lemma contents_chunk:
  assumes "k \<le> block_size (sb s) - pos mod block_size (sb s)" "pos + k \<le> i_size (f_inode f)"
  shows "take k (drop pos (contents V (f, s))) =
    read_bytes (disk s) (data_ptr V (f, s) (pos div block_size (sb s)) + pos mod block_size (sb s)) k"
proof (rule nth_equalityI)
  show "length (take k (drop pos (contents V (f, s)))) =
      length (read_bytes (disk s) (data_ptr V (f, s) (pos div block_size (sb s)) + pos mod block_size (sb s)) k)"
    using assms(2) by simp
  fix j assume "j < length (take k (drop pos (contents V (f, s))))"
  then have j: "j < k" "pos + j < i_size (f_inode f)" using assms(2) by simp_all
  then have "pos mod block_size (sb s) + j < block_size (sb s)" using assms(1) by linarith
  note in_block [OF this]
  then show "take k (drop pos (contents V (f, s))) ! j =
      read_bytes (disk s) (data_ptr V (f, s) (pos div block_size (sb s)) + pos mod block_size (sb s)) k ! j"
    using j by (simp add: contents_def file_byte_def add.assoc)
qed

text \<open>Walking and extending the map keep the contents.\<close>

lemma contents_grown:
  assumes "dense X V is ds (f, s)" "grown X is n V ds (f, s) M V' ds' (g, t)"
    "\<And>bk. bk < max_blocks (pcount s) \<Longrightarrow> data_ptr V (f, s) bk \<noteq> 0 \<Longrightarrow> M bk = data_ptr V (f, s) bk"
  shows "contents V' (g, t) = contents V (f, s)" "dense X V' is ds' (g, t)" "i_size (f_inode g) = i_size (f_inode f)"
proof -
  note d = denseD [OF assms(1)] and D = grown_D [OF assms(2)]
  show sz: "i_size (f_inode g) = i_size (f_inode f)" using D(2) by (auto simp: same_meta_def)
  have ptr: "data_ptr V' (g, t) bk = data_ptr V (f, s) bk"
    if "bk < max_blocks (pcount s)" "data_ptr V (f, s) bk \<noteq> 0" for bk
    using assms(3) [OF that] grown_ptr [OF assms(2) that(1)] by (simp add: data_ptr_def)
  have "file_byte V' (g, t) i = file_byte V (f, s) i" if i: "i < i_size (f_inode f)" for i
  proof -
    let ?p = "data_ptr V (f, s) (i div block_size (sb s))"
    have "block_size (sb s) \<noteq> 0" using store_okD(5) [OF file_mapD(1) [OF d(1)]] by simp
    then have "?p + i mod block_size (sb s) \<in> {?p..<?p + block_size (sb s)}" by simp
    then have "?p + i mod block_size (sb s) \<notin> footprint V ds (f, s)"
      using data_block_apart [OF d(1) d(4) [OF i] d(5) [OF i]] by blast
    from evolves_disk [OF D(5) this] show ?thesis
      using ptr [OF d(4,5) [OF i]] D(4) by (simp add: file_byte_def)
  qed
  then show "contents V' (g, t) = contents V (f, s)" by (simp add: contents_def sz)
  have "data_ptr V' (g, t) bk \<noteq> 0" if "bk * block_size (sb t) < i_size (f_inode g)" for bk
  proof -
    have bk: "bk * block_size (sb s) < i_size (f_inode f)" using that D(4) sz by simp
    have "bk < max_blocks (pcount s)"
      using d(4) [OF bk] store_okD(5) [OF file_mapD(1) [OF d(1)]] by simp
    then show ?thesis using ptr d(3) [OF bk] by simp
  qed
  moreover have "inode_fields_ok (f_inode g)"
  proof (rule inode_fields_kept [OF d(7) same_id_meta [OF D(2)] D(1)])
    show "i_size (f_inode g) < u64_limit" using sz d(6) by simp
    show "timespec_ok (i_mtime (f_inode g))" "timespec_ok (i_ctime (f_inode g))"
      using D(2) d(7) by (auto simp: same_meta_def inode_fields_ok_def)
  qed
  ultimately show "dense X V' is ds' (g, t)"
    using D(1,3,4) d(2) sz by (simp add: dense_def file_limit_def)
qed

section \<open>Steps of an open file\<close>

text \<open>
  \<open>steps_to X is n V ds fs V' ds' gt\<close>: at most \<open>n\<close> free blocks were taken, and no byte was written that
  belongs to another file, to the inode table or to a block in use elsewhere.
\<close>

definition steps_to ::
  "ext \<Rightarrow> nat list \<Rightarrow> nat \<Rightarrow> (nat \<Rightarrow> nat list) \<Rightarrow> nat list \<Rightarrow> dkfile \<times> 'z store_scheme \<Rightarrow>
   (nat \<Rightarrow> nat list) \<Rightarrow> nat list \<Rightarrow> dkfile \<times> 'z store_scheme \<Rightarrow> bool" where
  "steps_to X is n V ds fs V' ds' gt \<longleftrightarrow> (case (fs, gt) of ((f, s), (g, t)) \<Rightarrow>
     dense X V' is ds' (g, t) \<and> same_id f g \<and> evolves (own V ds (f, s)) s t \<and>
     (\<exists>us. ds = us @ ds' \<and> length us \<le> n \<and>
        all_nodes (pcount s) (rows g) V' \<subseteq> all_nodes (pcount s) (rows f) V \<union> set us))"

lemma steps_own:
  assumes "steps_to X is n V ds (f, s) V' ds' (g, t)"
  shows "own V' ds' (g, t) \<subseteq> own V ds (f, s)"
proof -
  obtain us where us: "ds = us @ ds'" "all_nodes (pcount s) (rows g) V' \<subseteq> all_nodes (pcount s) (rows f) V \<union> set us"
    and e: "evolves (own V ds (f, s)) s t" using assms by (auto simp: steps_to_def)
  have "set ds' \<union> all_nodes (pcount s) (rows g) V' \<subseteq> set ds \<union> all_nodes (pcount s) (rows f) V"
    using us by auto
  from block_bytes_mono [OF this, of "block_size (sb s)"] show ?thesis
    by (simp add: own_def pcount_evolves [OF e] evolves_simps [OF e] Un_assoc) blast
qed

lemma steps_trans:
  assumes "steps_to X is a V ds fs V' ds' gt" "steps_to X is b V' ds' gt V'' ds'' hu" "a + b \<le> n"
  shows "steps_to X is n V ds fs V'' ds'' hu"
proof -
  obtain f s g t h u where eq: "fs = (f, s)" "gt = (g, t)" "hu = (h, u)" by (metis surj_pair)
  note one = assms(1) [unfolded eq] and two = assms(2) [unfolded eq]
  have e1: "evolves (own V ds (f, s)) s t" using one by (simp add: steps_to_def)
  have "evolves (own V' ds' (g, t)) t u" using two by (simp add: steps_to_def)
  then have "evolves (own V ds (f, s)) t u" by (rule evolves_mono [OF _ steps_own [OF one]])
  then have e: "evolves (own V ds (f, s)) s u" by (rule evolves_trans [OF e1])
  note pc = pcount_evolves [OF e1]
  obtain us where us: "ds = us @ ds'" "length us \<le> a"
    "all_nodes (pcount s) (rows g) V' \<subseteq> all_nodes (pcount s) (rows f) V \<union> set us"
    using one by (auto simp: steps_to_def)
  obtain vs where vs: "ds' = vs @ ds''" "length vs \<le> b"
    "all_nodes (pcount s) (rows h) V'' \<subseteq> all_nodes (pcount s) (rows g) V' \<union> set vs"
    using two pc by (auto simp: steps_to_def)
  have "ds = (us @ vs) @ ds'' \<and> length (us @ vs) \<le> n \<and>
      all_nodes (pcount s) (rows h) V'' \<subseteq> all_nodes (pcount s) (rows f) V \<union> set (us @ vs)"
    using us vs assms(3) by auto
  moreover have "same_id f h" using one two same_id_trans by (auto simp: steps_to_def)
  ultimately show ?thesis using two e unfolding eq by (auto simp: steps_to_def)
qed

lemma steps_refl: "dense X V is ds fs \<Longrightarrow> steps_to X is n V ds fs V ds fs"
  by (cases fs) (auto simp: steps_to_def)

lemma steps_D:
  assumes "steps_to X is n V ds (f, s) V' ds' (g, t)"
  shows "dense X V' is ds' (g, t)" "same_id f g" "evolves (own V ds (f, s)) s t"
    "block_size (sb t) = block_size (sb s)" "file_limit t = file_limit s" "pcount t = pcount s"
    "\<exists>us. ds = us @ ds' \<and> length us \<le> n"
proof -
  show e: "evolves (own V ds (f, s)) s t" using assms by (simp add: steps_to_def)
  show "block_size (sb t) = block_size (sb s)" "file_limit t = file_limit s" "pcount t = pcount s"
    using evolves_simps [OF e] pcount_evolves [OF e] by (simp_all add: file_limit_def)
  show "dense X V' is ds' (g, t)" "same_id f g" using assms by (simp_all add: steps_to_def)
  show "\<exists>us. ds = us @ ds' \<and> length us \<le> n" using assms by (auto simp: steps_to_def)
qed

lemma steps_grown:
  assumes "dense X V is ds (f, s)" "grown X is n V ds (f, s) M V' ds' (g, t)"
    "\<And>bk. bk < max_blocks (pcount s) \<Longrightarrow> data_ptr V (f, s) bk \<noteq> 0 \<Longrightarrow> M bk = data_ptr V (f, s) bk"
  shows "steps_to X is n V ds (f, s) V' ds' (g, t)"
proof -
  have "evolves (own V ds (f, s)) s t" by (rule evolves_mono [OF grown_D(5) [OF assms(2)] footprint_own])
  moreover obtain us where "ds = us @ ds'" "length us \<le> n"
    "all_nodes (pcount s) (rows g) V' \<subseteq> all_nodes (pcount s) (rows f) V \<union> set us"
    using assms(2) by (auto simp: grown_def)
  ultimately show ?thesis
    using contents_grown(2) [OF assms] same_id_meta [OF grown_D(2) [OF assms(2)]] by (auto simp: steps_to_def)
qed

text \<open>The position and the dirty flag are not part of the map or the contents.\<close>

lemma dense_pos [simp]:
  "dense X V is ds (f\<lparr>f_pos := p\<rparr>, s) = dense X V is ds (f, s)"
  "dense X V is ds (f\<lparr>f_dirty := b\<rparr>, s) = dense X V is ds (f, s)"
  "data_ptr V (f\<lparr>f_pos := p\<rparr>, s) bk = data_ptr V (f, s) bk"
  "data_ptr V (f\<lparr>f_dirty := b\<rparr>, s) bk = data_ptr V (f, s) bk"
  "contents V (f\<lparr>f_pos := p\<rparr>, s) = contents V (f, s)"
  "contents V (f\<lparr>f_dirty := b\<rparr>, s) = contents V (f, s)"
  "own V ds (f\<lparr>f_dirty := b\<rparr>, s) = own V ds (f, s)"
  "rows (f\<lparr>f_dirty := b\<rparr>) = rows f" "rows (f\<lparr>f_pos := p\<rparr>) = rows f"
proof -
  show d: "data_ptr V (f\<lparr>f_pos := p\<rparr>, s) bk = data_ptr V (f, s) bk"
    "data_ptr V (f\<lparr>f_dirty := b\<rparr>, s) bk = data_ptr V (f, s) bk" for bk
    by (simp_all add: data_ptr_def file_map_inode(1) [of "f\<lparr>f_pos := p\<rparr>" f]
        file_map_inode(1) [of "f\<lparr>f_dirty := b\<rparr>" f])
  show "dense X V is ds (f\<lparr>f_pos := p\<rparr>, s) = dense X V is ds (f, s)"
    "dense X V is ds (f\<lparr>f_dirty := b\<rparr>, s) = dense X V is ds (f, s)"
    by (simp_all add: dense_def d file_map_inode(2) [of "f\<lparr>f_pos := p\<rparr>" f]
        file_map_inode(2) [of "f\<lparr>f_dirty := b\<rparr>" f])
  show "contents V (f\<lparr>f_pos := p\<rparr>, s) = contents V (f, s)" "contents V (f\<lparr>f_dirty := b\<rparr>, s) = contents V (f, s)"
    by (simp_all add: contents_def file_byte_def d)
  show r: "rows (f\<lparr>f_dirty := b\<rparr>) = rows f" "rows (f\<lparr>f_pos := p\<rparr>) = rows f"
    by (simp_all add: rows_def fun_eq_iff)
  show "own V ds (f\<lparr>f_dirty := b\<rparr>, s) = own V ds (f, s)" by (simp add: own_def r)
qed

lemma steps_pos [simp]:
  "steps_to X is n V ds (f, s) V' ds' (g, t) \<Longrightarrow> steps_to X is n V ds (f, s) V' ds' (g\<lparr>f_pos := p\<rparr>, t)"
  by (auto simp: steps_to_def same_id_def)

lemma steps_dirty:
  "steps_to X is n V ds (f\<lparr>f_dirty := b\<rparr>, s) V' ds' (g, t) \<Longrightarrow> steps_to X is n V ds (f, s) V' ds' (g, t)"
  by (auto simp: steps_to_def same_id_def)

section \<open>Reading\<close>

lemma take_upto_length: "take (min (min a (length xs)) n) xs = take (min a n) xs"
  by (cases "a \<le> length xs") (auto simp: min_def)

lemma dk_read_run:
  assumes "dense X V is ds (f, s)"
  shows "\<exists>g t. dk_read X n (f, s) =
      (Ok (take (min (block_size (sb s) - f_pos f mod block_size (sb s)) n) (drop (f_pos f) (contents V (f, s)))), (g, t))
    \<and> steps_to X is 0 V ds (f, s) V ds (g, t) \<and> contents V (g, t) = contents V (f, s)
    \<and> f_pos g = f_pos f + min (min (block_size (sb s) - f_pos f mod block_size (sb s)) n) (i_size (f_inode f) - f_pos f)
    \<and> f_dirty g = f_dirty f"
proof -
  let ?bs = "block_size (sb s)" and ?pos = "f_pos f" and ?size = "i_size (f_inode f)"
  note d = denseD [OF assms] and ok = store_okD [OF file_mapD(1) [OF denseD(1) [OF assms]]]
  have bs0: "0 < ?bs" using ok(5) by simp
  show ?thesis
  proof (cases "?size \<le> ?pos")
    case True
    then show ?thesis
      using assms steps_refl by (intro exI [of _ f] exI [of _ s]) (auto simp: dk_read_def bnd_def)
  next
    case False
    then have pos: "?pos < ?size" by simp
    define k where "k = min (min (?bs - ?pos mod ?bs) (?size - ?pos)) n"
    define p where "p = data_ptr V (f, s) (?pos div ?bs)"
    have p0: "p \<noteq> 0" using d(5) [OF pos] by (simp add: p_def)
    obtain g t where lo: "locate X (?pos div ?bs) (f, s) = (Ok (let p = block_ptr (pcount s) (rows f) V (?pos div ?bs) in
        if p = 0 then None else Some p), (g, t))" and gt2: "walked X V is ds (f, s) (g, t)"
      by (rule locate_Ok [OF d(1) d(4) [OF pos]])
    have "locate X (?pos div ?bs) (f, s) = (Ok (Some p), (g, t))"
      using lo p0 by (simp add: p_def data_ptr_def)
    note gt = this gt2
    have gr: "grown X is 0 V ds (f, s) (block_ptr (pcount s) (rows f) V) V ds (g, t)"
      by (rule walked_grown [OF gt(2)])
    note c = contents_grown [OF assms gr, unfolded data_ptr_def prod.case, OF refl]
    note st = steps_grown [OF assms gr, unfolded data_ptr_def prod.case, OF refl]
    have fm: "file_map X {} V is ds (g, t)" using grown_D(1) [OF gr] .
    have bst: "block_size (sb t) = ?bs" "d_block_size (dev t) = d_block_size (dev s)" "dev_size (dev t) = dev_size (dev s)"
      "data_blocks t = data_blocks s"
      using evolves_simps [OF grown_D(5) [OF gr]] grown_D(5) [OF gr] by (simp_all add: evolves_def)
    obtain ch where ch: "g = f\<lparr>f_cache := ch\<rparr>" using gt(2) by (auto simp: walked_def)
    have pt: "p \<in> data_blocks s" using data_ptr_used(1) [OF d(1) d(4) [OF pos]] p0 by (simp add: p_def)
    note rng = data_block_range [OF file_mapD(1) [OF d(1)] pt]
    have bo: "?pos mod ?bs < ?bs" using bs0 by simp
    have kb: "k \<le> ?bs - ?pos mod ?bs" "?pos + k \<le> ?size" using pos by (simp_all add: k_def)
    have in_dev: "p + ?pos mod ?bs + k \<le> dev_size (dev t)" using rng(2) kb(1) bo bst by linarith
    have ptg: "data_ptr V (g, t) (?pos div ?bs) = p"
      using walked_rows [OF gt(2)] by (simp add: data_ptr_def p_def)
    have data: "read_bytes (disk t) (p + ?pos mod ?bs) k = take k (drop ?pos (contents V (f, s)))"
      using contents_chunk [of k t ?pos g V] kb bst(1) c(3) ptg by (simp add: c(1))
    have tk: "take k (drop ?pos (contents V (f, s))) =
        take (min (?bs - ?pos mod ?bs) n) (drop ?pos (contents V (f, s)))"
      unfolding k_def using take_upto_length [of "?bs - ?pos mod ?bs" "drop ?pos (contents V (f, s))" n] by simp
    have run: "dk_read X n (f, s) = (Ok (take k (drop ?pos (contents V (f, s)))), (g\<lparr>f_pos := ?pos + k\<rparr>, t))"
    proof -
      have a: "p + ?pos mod ?bs < u64_limit" using rng(3) bo by linarith
      have b: "?pos + k < u64_limit" using kb(2) d(6) by linarith
      have rd: "read_into X (p + ?pos mod ?bs) k t = (Ok (take k (drop ?pos (contents V (f, s)))), t)"
        unfolding data [symmetric]
        by (simp add: read_into_def dev_read_len_at_Ok [OF store_okD(3,2) [OF file_mapD(1) [OF fm]] in_dev])
      show ?thesis
        using bs0 False gt(1) a b rd kb(2)
        by (simp add: dk_read_def bnd_def block_of_pos_def on_dk_def k_def [symmetric] ck_add_def
            ck_div_def ck_mod_def ch min_absorb2)
    qed
    have fg: "f_pos g = ?pos" "f_dirty g = f_dirty f" by (simp_all add: ch)
    have kk: "k = min (min (?bs - ?pos mod ?bs) n) (?size - ?pos)"
      unfolding k_def by (simp only: min.commute min.left_commute min.assoc)
    show ?thesis
    proof (intro exI conjI)
      show "dk_read X n (f, s) = (Ok (take (min (?bs - ?pos mod ?bs) n) (drop ?pos (contents V (f, s)))),
          (g\<lparr>f_pos := ?pos + k\<rparr>, t))"
        unfolding tk [symmetric] by (rule run)
      show "steps_to X is 0 V ds (f, s) V ds (g\<lparr>f_pos := ?pos + k\<rparr>, t)" by (rule steps_pos [OF st])
      show "contents V (g\<lparr>f_pos := ?pos + k\<rparr>, t) = contents V (f, s)" using c(1) by simp
      show "f_pos (g\<lparr>f_pos := ?pos + k\<rparr>) = ?pos + min (min (?bs - ?pos mod ?bs) n) (?size - ?pos)"
        using kk by simp
      show "f_dirty (g\<lparr>f_pos := ?pos + k\<rparr>) = f_dirty f" using fg by simp
    qed
  qed
qed

end
