(* ===== verification/FileWrite.thy ===== *)
theory FileWrite
  imports FileBytes
begin

text \<open>
  Writing to an open file: \<open>update_size\<close> when a file grows, one \<open>dk_write\<close>, and \<open>Write::write_all\<close> as
  the loop over it.
\<close>

section \<open>Growing\<close>

definition clock_ok :: "ext \<Rightarrow> bool" where
  "clock_ok X \<longleftrightarrow> (\<forall>k. 0 \<le> now_at X k)"

definition stamp :: "ext \<Rightarrow> 'z store_scheme \<Rightarrow> dk_timespec" where
  "stamp X s = \<lparr>ts_sec = as_i64 (nat (now_at X (clk s) div 1000000000)),
     ts_nsec = nat (now_at X (clk s) mod 1000000000)\<rparr>"

lemma now_Ok: "clock_ok X \<Longrightarrow> now X s = (Ok (stamp X s), s\<lparr>clk := Suc (clk s)\<rparr>)"
  by (simp add: clock_ok_def dk_timespec_of_system_time_def now_def stamp_def not_less [symmetric])

lemma now_run:
  "clock_ok X \<Longrightarrow> bnd (on_dk (now X)) m (f, s) = m (stamp X s) (f, s\<lparr>clk := Suc (clk s)\<rparr>)"
  by (simp add: bnd_def on_dk_def now_Ok)

lemma stamp_ok: "timespec_ok (stamp X s)"
proof -
  have "- 9223372036854775808 \<le> as_i64 n \<and> as_i64 n < 9223372036854775808" for n
  proof -
    have "n mod u64_limit < u64_limit" by (rule mod_less_divisor) simp
    then show ?thesis by (auto simp: as_i64_def Let_def)
  qed
  moreover have "now_at X (clk s) mod 1000000000 < 1000000000" by simp
  then have "nat (now_at X (clk s) mod 1000000000) < 4294967296" by linarith
  ultimately show ?thesis by (simp add: timespec_ok_def stamp_def)
qed

lemma update_size_grow:
  assumes "clock_ok X" "i_size (f_inode f) \<le> n" "timespec_ok (i_mtime (f_inode f))" "timespec_ok (i_ctime (f_inode f))"
  shows "\<exists>mt ct c. update_size X n (f, s) =
    (Ok (), (f\<lparr>f_dirty := True, f_inode := (f_inode f)\<lparr>i_size := n, i_mtime := mt, i_ctime := ct\<rparr>\<rparr>, s\<lparr>clk := c\<rparr>))
    \<and> clk s \<le> c \<and> timespec_ok mt \<and> timespec_ok ct"
proof (cases "is_directory (i_mode (f_inode f))")
  case True
  then show ?thesis using assms(2-4)
    by (intro exI [of _ "i_mtime (f_inode f)"] exI [of _ "i_ctime (f_inode f)"] exI [of _ "clk s"])
      (simp add: update_size_def bnd_def)
next
  case False
  show ?thesis
    using False assms
    by (intro exI [of _ "stamp X s"] exI [of _ "stamp X (s\<lparr>clk := Suc (clk s)\<rparr>)"] exI [of _ "Suc (Suc (clk s))"])
      (simp add: update_size_def bnd_Ok [of "set_dirty True"] bnd_Ok [of "get_file _"] bnd_Ok [of "mod_inode _"] now_run stamp_ok)
qed

section \<open>Writing into a block of the file\<close>

lemma write_data:
  assumes "file_map X {} V is ds (f, s)" "bi < max_blocks (pcount s)" "data_ptr V (f, s) bi = v" "v \<noteq> 0"
    "bo + length bs \<le> block_size (sb s)"
  obtains t where "write_at X (v + bo) bs s = (Ok (), t)" "t = set_disk (write_bytes (v + bo) bs (disk s)) s"
    "file_map X {} V is ds (f, t)" "evolves {v + bo..<v + bo + length bs} s t"
proof -
  note u = data_ptr_used [OF assms(1,2), unfolded assms(3), OF assms(4)]
  obtain t where t: "write_at X (v + bo) bs s = (Ok (), t)" "t = set_disk (write_bytes (v + bo) bs (disk s)) s"
    "store_ok X t is ds" "evolves {v + bo..<v + bo + length bs} s t"
    by (rule write_used_block [OF file_mapD(1) [OF assms(1)] u(1,2), of "v + bo" bs]) (use assms(5) in auto)
  have "file_map X {} V is ds (f, t)"
  proof (rule file_map_store [OF assms(1) t(3,4) subset_refl])
    fix p assume p: "p \<in> ptr_blocks (pcount s) (rows f) V"
    then have "p \<noteq> v" using u(3) by blast
    from data_blocks_apart [OF ptr_block_used(1) [OF assms(1) p] u(1) this]
    show "{p..<p + block_size (sb s)} \<inter> {v + bo..<v + bo + length bs} = {}" using assms(5) by fastforce
  qed
  then show thesis using that t by blast
qed

lemma contents_write:
  assumes "dense X V is ds (f, s)" "pos \<le> i_size (f_inode f)" "data_ptr V (f, s) (pos div block_size (sb s)) = v"
    "v \<noteq> 0" "pos div block_size (sb s) < max_blocks (pcount s)"
    "pos mod block_size (sb s) + length bs \<le> block_size (sb s)"
    "t = set_disk (write_bytes (v + pos mod block_size (sb s)) bs (disk s)) s"
    "rows g = rows f" "i_size (f_inode g) = max (i_size (f_inode f)) (pos + length bs)"
  shows "contents V (g, t) =
    take pos (contents V (f, s)) @ bs @ drop (pos + length bs) (contents V (f, s))"
proof (rule nth_equalityI)
  let ?bs = "block_size (sb s)" and ?C = "contents V (f, s)" and ?size = "i_size (f_inode f)"
  note d = denseD [OF assms(1)]
  have bs0: "0 < ?bs" using store_okD(5) [OF file_mapD(1) [OF d(1)]] by simp
  show "length (contents V (g, t)) = length (take pos ?C @ bs @ drop (pos + length bs) ?C)"
    using assms(2,9) by simp
  fix i assume "i < length (contents V (g, t))"
  then have i: "i < max ?size (pos + length bs)" using assms(9) by simp
  have st: "sb t = sb s" "pcount t = pcount s" by (simp_all add: assms(7) set_disk_def pcount_def)
  have ptr: "data_ptr V (g, t) bk = data_ptr V (f, s) bk" for bk
    using st assms(8) by (simp add: data_ptr_def)
  have byte: "contents V (g, t) ! i = disk t (data_ptr V (f, s) (i div ?bs) + i mod ?bs)"
    using i assms(9) st ptr by (simp add: contents_def file_byte_def)
  have disk: "disk t = write_bytes (v + pos mod ?bs) bs (disk s)" by (simp add: assms(7))
  show "contents V (g, t) ! i = (take pos ?C @ bs @ drop (pos + length bs) ?C) ! i"
  proof (cases "pos \<le> i \<and> i < pos + length bs")
    case True
    define j where "j = i - pos"
    have j: "i = pos + j" "j < length bs" using True by (auto simp: j_def)
    then have "pos mod ?bs + j < ?bs" using assms(6) by linarith
    note in_block [OF this]
    then have "contents V (g, t) ! i = bs ! j"
      unfolding byte disk using j assms(3) by (simp add: write_bytes_def)
    then show ?thesis using j assms(2) by (simp add: nth_append)
  next
    case False
    then have old: "i < ?size" using i assms(2) by auto
    let ?p = "data_ptr V (f, s) (i div ?bs)"
    have out: "?p + i mod ?bs < v + pos mod ?bs \<or> v + pos mod ?bs + length bs \<le> ?p + i mod ?bs"
    proof (cases "i div ?bs = pos div ?bs")
      case True
      then have "?p = v" using assms(3) by simp
      moreover have "i mod ?bs < pos mod ?bs \<or> pos mod ?bs + length bs \<le> i mod ?bs"
        using False arg_cong [OF True, of "\<lambda>q. q * ?bs"] div_mult_mod_eq [of i ?bs] div_mult_mod_eq [of pos ?bs]
        by linarith
      ultimately show ?thesis by linarith
    next
      case other: False
      have "?p \<noteq> v"
        using data_ptr_used(5) [OF d(1) assms(5), unfolded assms(3), OF assms(4) d(4) [OF old]] other by blast
      from data_blocks_apart [OF data_ptr_used(1) [OF d(1) d(4) [OF old] d(5) [OF old]]
          data_ptr_used(1) [OF d(1) assms(5), unfolded assms(3), OF assms(4)] this]
      have "?p + i mod ?bs \<notin> {v..<v + ?bs}" using mod_less_divisor [OF bs0, of i] by fastforce
      then show ?thesis using assms(6) by auto
    qed
    have "contents V (g, t) ! i = ?C ! i"
      unfolding byte disk using write_bytes_outside [OF out] old by (simp add: contents_def file_byte_def)
    then show ?thesis using False assms(2) old by (auto simp: nth_append)
  qed
qed

section \<open>One write\<close>

text \<open>What one \<open>dk_write\<close> takes of the buffer: what fits in the block.\<close>

definition chunk_len :: "'z store_scheme \<Rightarrow> nat \<Rightarrow> nat \<Rightarrow> nat" where
  "chunk_len s pos n = min (block_size (sb s) - pos mod block_size (sb s)) n"

text \<open>The contents after a write of \<open>bs\<close> at \<open>pos\<close>.\<close>

definition overwrite :: "nat \<Rightarrow> byte list \<Rightarrow> byte list \<Rightarrow> byte list" where
  "overwrite pos bs C = take pos C @ bs @ drop (pos + length bs) C"

text \<open>Growing to the end of the written bytes, when they reach beyond the end.\<close>

definition grow_to :: "ext \<Rightarrow> nat \<Rightarrow> ('z, dk_error, unit) fprog" where
  "grow_to X n = bnd (get_file (\<lambda>f. i_size (f_inode f))) (\<lambda>size. if size < n then update_size X n else ret ())"

lemma grow_to_run:
  assumes "clock_ok X" "f_dirty f" "timespec_ok (i_mtime (f_inode f))" "timespec_ok (i_ctime (f_inode f))"
  shows "\<exists>mt ct c. grow_to X n (f, s) =
    (Ok (), (f\<lparr>f_inode := (f_inode f)\<lparr>i_size := max (i_size (f_inode f)) n, i_mtime := mt, i_ctime := ct\<rparr>\<rparr>,
      s\<lparr>clk := c\<rparr>)) \<and> clk s \<le> c \<and> timespec_ok mt \<and> timespec_ok ct"
proof (cases "i_size (f_inode f) < n")
  case True
  have "f\<lparr>f_dirty := True, f_inode := i\<rparr> = f\<lparr>f_inode := i\<rparr>" for i using assms(2) by (cases f) simp
  then show ?thesis
    using True update_size_grow [OF assms(1) _ assms(3,4), of n s] by (simp add: grow_to_def bnd_def max_def)
next
  case False
  then show ?thesis using assms(3,4)
    by (intro exI [of _ "i_mtime (f_inode f)"] exI [of _ "i_ctime (f_inode f)"] exI [of _ "clk s"])
      (simp add: grow_to_def bnd_def max_def)
qed

lemma dk_write_eq:
  "dk_write X buf (f, s) = bnd (locate_alloc X (f_pos f div block_size (sb s))) (\<lambda>p.
     bnd (ck_add p (f_pos f mod block_size (sb s))) (\<lambda>ptr.
     bnd (on_dk (write_at X ptr (take (chunk_len s (f_pos f) (length buf)) buf))) (\<lambda>_.
     bnd (ck_add (f_pos f) (chunk_len s (f_pos f) (length buf))) (\<lambda>pos'.
     bnd (mod_file (\<lambda>f. f\<lparr>f_pos := pos'\<rparr>)) (\<lambda>_.
     bnd (grow_to X pos') (\<lambda>_. ret (chunk_len s (f_pos f) (length buf))))))))
     (f\<lparr>f_dirty := True\<rparr>, s)"
  if "0 < block_size (sb s)"
  using that by (simp add: dk_write_def grow_to_def bnd_assoc block_of_pos_def chunk_len_def Let_def ck_div_def ck_mod_def
      bnd_Ok [of "set_dirty True"] bnd_Ok [of dk_block_size] bnd_Ok [of "get_file _"])

lemma dk_write_run:
  assumes "dense X V is ds (f, s)" "clock_ok X" "f_pos f \<le> i_size (f_inode f)" "buf \<noteq> []"
    "f_pos f + length buf \<le> file_limit s"
  shows "\<exists>r g t V' ds'. dk_write X buf (f, s) = (r, (g, t)) \<and> steps_to X is 5 V ds (f, s) V' ds' (g, t) \<and>
    f_dirty g \<and>
    (f_pos f div block_size (sb s) * block_size (sb s) < i_size (f_inode f) \<longrightarrow> ds' = ds \<and> (\<exists>k. r = Ok k)) \<and>
    (case r of
      Ok k \<Rightarrow> k = chunk_len s (f_pos f) (length buf) \<and> f_pos g = f_pos f + k
        \<and> contents V' (g, t) = overwrite (f_pos f) (take k buf) (contents V (f, s))
    | Err e \<Rightarrow> e = Exhausted \<and> ds' = [] \<and> f_pos g = f_pos f \<and> contents V' (g, t) = contents V (f, s)
    | _ \<Rightarrow> False)"
proof -
  let ?bs = "block_size (sb s)" and ?pos = "f_pos f" and ?f = "f\<lparr>f_dirty := True\<rparr>"
  define bi bo len where "bi = ?pos div ?bs" and "bo = ?pos mod ?bs" and "len = chunk_len s ?pos (length buf)"
  note defs = bi_def [symmetric] bo_def [symmetric] len_def [symmetric]
  have df: "dense X V is ds (?f, s)" using assms(1) by simp
  note d = denseD [OF df]
  have bs0: "0 < ?bs" using store_okD(5) [OF file_mapD(1) [OF d(1)]] by simp
  have bo: "bo < ?bs" "bo + len \<le> ?bs" "len \<le> length buf"
    using mod_less_divisor [OF bs0, of ?pos] unfolding bo_def len_def chunk_len_def by linarith+
  have "0 < length buf" using assms(4) by simp
  then have "?pos < file_limit s" using assms(5) by linarith
  then have bi: "bi < max_blocks (pcount s)" unfolding bi_def by (rule block_below_limit)
  obtain r g t V' ds' where la: "locate_alloc X bi (?f, s) = (r, (g, t))"
    "placed X is 5 V ds (?f, s) (block_ptr (pcount s) (rows ?f) V) bi r V' ds' (g, t)"
    by (rule locate_alloc_run [OF d(1) bi])
  have mapped: "block_ptr (pcount s) (rows ?f) V bi \<noteq> 0" if "bi * ?bs < i_size (f_inode f)"
    using d(3) [of bi] that by (simp add: data_ptr_def)
  note run = dk_write_eq [OF bs0, of X buf f, unfolded defs]
  show ?thesis
  proof (cases r)
    case (Err e)
    then have e: "e = Exhausted" "ds' = []"
      and gr: "grown X is 5 V ds (?f, s) (block_ptr (pcount s) (rows ?f) V) V' ds' (g, t)"
      and null: "block_ptr (pcount s) (rows ?f) V bi = 0"
      using la(2) by (auto simp: placed_def)
    have same: "\<And>bk. block_ptr (pcount s) (rows ?f) V bk = data_ptr V (?f, s) bk" by (simp add: data_ptr_def)
    have g: "f_pos g = ?pos" "f_dirty g" using grown_D(2) [OF gr] by (auto simp: same_meta_def)
    have "dk_write X buf (f, s) = (Err e, (g, t))" unfolding run using la(1) Err by (simp add: bnd_Err)
    moreover have "contents V' (g, t) = contents V (f, s)" using contents_grown(1) [OF df gr same] by simp
    ultimately show ?thesis
      using e g steps_dirty [OF steps_grown [OF df gr same]] mapped [unfolded bi_def] null [unfolded bi_def]
      by (intro exI [of _ "Err e"] exI [of _ g] exI [of _ t] exI [of _ V'] exI [of _ ds']) auto
  next
    case (Ok v)
    define M where "M = (block_ptr (pcount s) (rows ?f) V)(bi := v)"
    have kept: "block_ptr (pcount s) (rows ?f) V bi \<noteq> 0 \<Longrightarrow> ds' = ds" using la(2) Ok by (auto simp: placed_def)
    have v: "v \<noteq> 0" "block_ptr (pcount s) (rows ?f) V bi \<noteq> 0 \<Longrightarrow> v = block_ptr (pcount s) (rows ?f) V bi"
      and gr: "grown X is 5 V ds (?f, s) M V' ds' (g, t)"
      using la(2) Ok by (auto simp: placed_def M_def)
    have same: "M bk = data_ptr V (?f, s) bk" if "data_ptr V (?f, s) bk \<noteq> 0" for bk
      using v(2) that by (auto simp: data_ptr_def M_def)
    note D = grown_D [OF gr] and c = contents_grown [OF df gr same] and st = steps_grown [OF df gr same]
    have vt: "data_ptr V' (g, t) bi = v"
      using grown_ptr [OF gr bi] by (simp add: data_ptr_def M_def)
    have bt: "block_size (sb t) = ?bs" "pcount t = pcount s" using D by simp_all
    have g: "f_pos g = ?pos" "f_dirty g" using D(2) by (auto simp: same_meta_def)
    have bit: "bi < max_blocks (pcount t)" and bot: "bo + length (take len buf) \<le> block_size (sb t)"
      using bi bo bt by simp_all
    obtain u where u: "write_at X (v + bo) (take len buf) t = (Ok (), u)"
      "u = set_disk (write_bytes (v + bo) (take len buf) (disk t)) t" "file_map X {} V' is ds' (g, u)"
      "evolves {v + bo..<v + bo + length (take len buf)} t u"
      by (rule write_data [OF D(1) bit vt v(1) bot])
    define g2 where "g2 = g\<lparr>f_pos := ?pos + len\<rparr>"
    have gi: "inode_fields_ok (f_inode g)" by (rule denseD(7) [OF c(2)])
    have "f_dirty g2" "timespec_ok (i_mtime (f_inode g2))" "timespec_ok (i_ctime (f_inode g2))"
      using g(2) gi by (simp_all add: g2_def inode_fields_ok_def)
    from grow_to_run [OF assms(2) this, of "?pos + len" u] obtain mt ct c where
      gt: "grow_to X (?pos + len) (g2, u) =
        (Ok (), (g2\<lparr>f_inode := (f_inode g2)\<lparr>i_size := max (i_size (f_inode g2)) (?pos + len),
          i_mtime := mt, i_ctime := ct\<rparr>\<rparr>, u\<lparr>clk := c\<rparr>)) \<and> clk u \<le> c \<and> timespec_ok mt \<and> timespec_ok ct" by blast
    define h where "h = g2\<lparr>f_inode := (f_inode g2)\<lparr>i_size := max (i_size (f_inode g2)) (?pos + len),
      i_mtime := mt, i_ctime := ct\<rparr>\<rparr>"
    have gt': "grow_to X (?pos + len) (g2, u) = (Ok (), (h, u\<lparr>clk := c\<rparr>))" using gt by (simp add: h_def)
    have vr: "v + bo < u64_limit"
      using data_block_range(3) [OF file_mapD(1) [OF D(1)] data_ptr_used(1) [OF D(1) bit, unfolded vt, OF v(1)]] bo(1) bt
      by linarith
    have pr: "?pos + len < u64_limit" using assms(5) bo(3) by (simp add: file_limit_def)
    have W: "dk_write X buf (f, s) = (Ok len, (h, u\<lparr>clk := c\<rparr>))"
      unfolding run using la(1) Ok vr pr u(1) gt' by (simp add: bnd_def ck_add_def on_dk_def g2_def)
    have hg: "i_ptrs (f_inode h) = i_ptrs (f_inode g)" "i_blocks (f_inode h) = i_blocks (f_inode g)"
      "i_xattr_ptr (f_inode h) = i_xattr_ptr (f_inode g)" "f_cache h = f_cache g"
      "i_size (f_inode h) = max (i_size (f_inode g)) (?pos + len)" "f_pos h = ?pos + len" "f_dirty h" "stem h = stem g"
      using g(2) by (simp_all add: h_def g2_def stem_def)
    have rh: "rows h = rows g" by (rule file_map_inode(1) [OF hg(1-4)])
    have fh: "file_map X {} V' is ds' (h, u)" using u(3) by (simp add: file_map_inode(2) [OF hg(1-4)])
    have len': "length (take len buf) = len" using bo(3) by simp
    have sz: "i_size (f_inode g) = i_size (f_inode f)" using c(3) by simp
    have C: "contents V' (h, u) = overwrite ?pos (take len buf) (contents V (f, s))"
    proof -
      have "contents V' (h, u) = take ?pos (contents V' (g, t)) @ take len buf @
          drop (?pos + length (take len buf)) (contents V' (g, t))"
        by (rule contents_write [OF c(2)])
          (use assms(3) sz bt vt v(1) bit bot u(2) rh hg(5) len' in \<open>simp_all add: defs\<close>)
      then show ?thesis using c(1) by (simp add: overwrite_def)
    qed
    have Ck: "contents V' (h, u\<lparr>clk := c\<rparr>) = contents V' (h, u)"
      by (simp add: contents_def file_byte_def data_ptr_def)
    have limit: "i_size (f_inode h) \<le> file_limit u" "block_size (sb u) = ?bs" "pcount u = pcount s"
      using d(2) hg(5) sz assms(5) bo(3) bt u(2) by (simp_all add: file_limit_def set_disk_def pcount_def)
    have "data_ptr V' (h, u\<lparr>clk := c\<rparr>) bk \<noteq> 0" if "bk * ?bs < i_size (f_inode h)" for bk
    proof -
      have dp: "data_ptr V' (h, u\<lparr>clk := c\<rparr>) bk = data_ptr V' (g, t) bk"
        using rh limit bt by (simp add: data_ptr_def)
      show ?thesis
      proof (cases "bk * ?bs < i_size (f_inode g)")
        case True
        then show ?thesis using denseD(3) [OF c(2), of bk] bt dp by simp
      next
        case False
        then have "?pos \<le> bk * ?bs" "bk * ?bs < ?pos + len" using that hg(5) sz assms(3) by (simp_all add: max_def split: if_splits)
        moreover have "?pos + len \<le> bi * ?bs + ?bs" using bo(2) div_mult_mod_eq [of ?pos ?bs] unfolding bi_def bo_def by linarith
        moreover have "bi * ?bs \<le> ?pos" by (simp add: bi_def)
        ultimately have "bi * ?bs \<le> bk * ?bs" "bk * ?bs < Suc bi * ?bs" unfolding mult_Suc by linarith+
        then have "bi \<le> bk" "bk < Suc bi" using bs0 mult_less_cancel2 [of bk ?bs "Suc bi"] by simp_all
        then have "bk = bi" by simp
        then show ?thesis using dp vt v(1) by simp
      qed
    qed
    moreover have "inode_fields_ok (f_inode h)"
    proof (rule inode_fields_kept [OF gi _ fh])
      show "same_id g h" using hg(8) by (simp add: same_id_def)
      show "i_size (f_inode h) < u64_limit" using limit(1) by (simp add: file_limit_def)
      show "timespec_ok (i_mtime (f_inode h))" "timespec_ok (i_ctime (f_inode h))" using gt by (simp_all add: h_def)
    qed
    ultimately have dh: "dense X V' is ds' (h, u\<lparr>clk := c\<rparr>)"
      using fh limit by (simp add: dense_def file_limit_def)
    have "steps_to X is 0 V' ds' (g, t) V' ds' (h, u\<lparr>clk := c\<rparr>)"
    proof -
      have "v \<in> all_nodes (pcount t) (rows g) V'"
        using data_ptr_used(4) [OF D(1) bit, unfolded vt, OF v(1)] .
      then have "{v..<v + block_size (sb t)} \<subseteq> own V' ds' (g, t)" by (auto simp: own_def block_bytes_def)
      then have "{v + bo..<v + bo + length (take len buf)} \<subseteq> own V' ds' (g, t)" using bot by fastforce
      from evolves_mono [OF u(4) this] have "evolves (own V' ds' (g, t)) t u" .
      moreover have "evolves (own V' ds' (g, t)) u (u\<lparr>clk := c\<rparr>)" using gt by (simp add: evolves_def)
      ultimately have "evolves (own V' ds' (g, t)) t (u\<lparr>clk := c\<rparr>)" by (rule evolves_trans)
      then show ?thesis using dh hg(8) rh by (simp add: steps_to_def same_id_def)
    qed
    from steps_dirty [OF steps_trans [OF st this, of 5]]
    have S: "steps_to X is 5 V ds (f, s) V' ds' (h, u\<lparr>clk := c\<rparr>)" by simp
    show ?thesis
      using W S C Ck hg(6,7) kept [OF mapped, unfolded bi_def]
      by (intro exI [of _ "Ok len"] exI [of _ h] exI [of _ "u\<lparr>clk := c\<rparr>"] exI [of _ V'] exI [of _ ds'])
        (simp add: len_def)
  qed (use la(2) in \<open>simp_all add: placed_def\<close>)
qed

end
