(* ===== verification/FileStream.thy ===== *)
theory FileStream
  imports FileWrite
begin

text \<open>
  The interface between an open file and the loops of the standard library: a source and sink of bytes
  with a position.  The locale \<open>byte_stream\<close> states what one \<open>read\<close> and one \<open>write\<close> promise; in it,
  \<open>write_all\<close> and \<open>read_to_end\<close> are proved; the open file of dkfs is an instance.
\<close>

section \<open>The loops\<close>

text \<open>\<open>Write::write_all\<close> and \<open>Read::read_to_end\<close> over any implementation of \<open>write\<close> and \<open>read\<close>.\<close>

primrec write_loop ::
  "(byte list \<Rightarrow> ('s, io_error, nat) prog) \<Rightarrow> nat \<Rightarrow> byte list \<Rightarrow> ('s, io_error, unit) prog" where
  "write_loop w 0 buf = (if buf = [] then ret () else hang)"
| "write_loop w (Suc n) buf = (if buf = [] then ret ()
     else bnd (w buf) (\<lambda>k. if k = 0 then fail (IoKind WriteZero) else write_loop w n (drop k buf)))"

primrec read_loop ::
  "(nat \<Rightarrow> ('s, io_error, byte list) prog) \<Rightarrow> (nat \<Rightarrow> nat) \<Rightarrow> nat \<Rightarrow> nat \<Rightarrow> nat \<Rightarrow> ('s, io_error, byte list) prog" where
  "read_loop r sz 0 k limit = hang"
| "read_loop r sz (Suc n) k limit = (if limit = 0 then ret []
     else bnd (r (min (sz k) limit)) (\<lambda>data. if length data = 0 then ret []
        else bnd (read_loop r sz n (Suc k) (limit - length data)) (\<lambda>rest. ret (data @ rest))))"

lemma write_all_is_loop: "write_all_loop X n buf = write_loop (io_write X) n buf"
  by (induction n arbitrary: buf) (simp_all cong: if_cong)

lemma read_to_end_is_loop: "read_to_end_loop X n k limit = read_loop (io_read X) (rte_buf X) n k limit"
  by (induction n arbitrary: k limit) (simp_all cong: if_cong)

lemma min_rest: "l \<le> n \<Longrightarrow> l \<le> m \<Longrightarrow> l + min (n - l) (m - l) = min n (m :: nat)"
  by (simp add: min_def) linarith

lemma overwrite_Nil: "pos \<le> length C \<Longrightarrow> overwrite pos [] C = C"
  by (simp add: overwrite_def)

lemma length_overwrite: "pos \<le> length C \<Longrightarrow> length (overwrite pos bs C) = max (length C) (pos + length bs)"
  by (simp add: overwrite_def)

lemma overwrite_overwrite:
  "pos \<le> length C \<Longrightarrow> overwrite (pos + length a) b (overwrite pos a C) = overwrite pos (a @ b) C"
  by (simp add: overwrite_def ac_simps)

section \<open>The interface\<close>

text \<open>
  \<open>at C pos d s\<close>: the stream holds the bytes \<open>C\<close>, stands at \<open>pos\<close>, and has \<open>d\<close> free blocks.  One transfer
  moves \<open>chunk pos n\<close> of \<open>n\<close> bytes; \<open>n\<close> bytes take \<open>need n\<close> blocks of data, each of which costs at most
  \<open>cost\<close> free blocks; and \<open>full\<close> is the error of a device without free blocks.
\<close>

locale byte_stream =
  fixes read :: "nat \<Rightarrow> ('s, io_error, byte list) prog"
    and "write" :: "byte list \<Rightarrow> ('s, io_error, nat) prog"
    and at :: "byte list \<Rightarrow> nat \<Rightarrow> nat \<Rightarrow> 's \<Rightarrow> bool"
    and chunk :: "nat \<Rightarrow> nat \<Rightarrow> nat"
    and need :: "nat \<Rightarrow> nat"
    and cost limit :: nat
    and full :: io_error
  assumes chunk: "at C p d s \<Longrightarrow> 0 < n \<Longrightarrow> 0 < chunk pos n" "chunk pos n \<le> n"
    and need: "at C p d s \<Longrightarrow> m \<le> n \<Longrightarrow> need m \<le> need n"
    and read: "at C pos d s \<Longrightarrow> \<exists>s'. read n s = (Ok (take (chunk pos n) (drop pos C)), s')
      \<and> at C (pos + min (chunk pos n) (length C - pos)) d s'"
    and write_step: "at C pos d s \<Longrightarrow> pos \<le> length C \<Longrightarrow> buf \<noteq> [] \<Longrightarrow> pos + length buf \<le> limit \<Longrightarrow>
      (\<exists>s' d'. write buf s = (Ok (chunk pos (length buf)), s')
         \<and> d + cost * need (length C) \<le> d' + cost * need (max (length C) (pos + chunk pos (length buf)))
         \<and> at (overwrite pos (take (chunk pos (length buf)) buf) C) (pos + chunk pos (length buf)) d' s')
      \<or> (\<exists>s'. write buf s = (Err full, s') \<and> d \<le> cost \<and> need (length C) < need (pos + length buf)
         \<and> at C pos 0 s')"
begin

text \<open>\<open>read_to_end\<close> through \<open>take(n)\<close> returns the next \<open>n\<close> bytes, or all that are left.\<close>

lemma read_loop_run:
  assumes "at C pos d s" "\<And>k. 0 < sz k" "n < fuel"
  shows "\<exists>s'. read_loop read sz fuel k n s = (Ok (take n (drop pos C)), s')
    \<and> at C (pos + min n (length C - pos)) d s'"
  using assms
proof (induction fuel arbitrary: pos s k n)
  case 0
  then show ?case by simp
next
  case (Suc fuel)
  show ?case
  proof (cases "n = 0")
    case True
    then show ?thesis using Suc.prems(1) by simp
  next
    case False
    let ?m = "min (sz k) n"
    define c where "c = chunk pos ?m"
    have m: "0 < ?m" using False Suc.prems(2) by simp
    have c: "0 < c" "c \<le> n" using chunk(1) [OF Suc.prems(1) m, of pos] chunk(2) [of pos ?m] by (simp_all add: c_def)
    obtain s1 where s1: "read ?m s = (Ok (take c (drop pos C)), s1)" "at C (pos + min c (length C - pos)) d s1"
      using read [OF Suc.prems(1), of ?m] by (auto simp: c_def)
    show ?thesis
    proof (cases "length C \<le> pos")
      case True
      then show ?thesis using False s1 by (simp add: bnd_Ok)
    next
      case False
      define l where "l = min c (length C - pos)"
      have l: "0 < l" "length (take c (drop pos C)) = l" "l \<le> n" using False c by (auto simp: l_def)
      have "n - l < fuel" using l Suc.prems(3) by simp
      from Suc.IH [OF s1(2) [folded l_def] Suc.prems(2) this, of "Suc k"] obtain s2 where
        s2: "read_loop read sz fuel (Suc k) (n - l) s1 = (Ok (take (n - l) (drop (pos + l) C)), s2)"
        "at C (pos + l + min (n - l) (length C - (pos + l))) d s2" by blast
      have "take c (drop pos C) = take l (drop pos C)"
        using take_upto_length [of c "drop pos C" c] by (simp add: l_def min.commute)
      then have "take c (drop pos C) @ take (n - l) (drop (pos + l) C) = take n (drop pos C)"
        using take_add [of l "n - l" "drop pos C"] l(3) by (simp add: add.commute)
      moreover have eq: "pos + l + min (n - l) (length C - (pos + l)) = pos + min n (length C - pos)"
        using min_rest [of l n "length C - pos"] l(3) by (simp add: l_def)
      moreover have "take c (drop pos C) \<noteq> []" using l(1,2) by (metis length_greater_0_conv)
      ultimately show ?thesis
        using \<open>n \<noteq> 0\<close> s1(1) s2(1) s2(2) [unfolded eq] l(2) by (simp add: bnd_Ok)
    qed
  qed
qed

text \<open>
  \<open>write_all\<close> writes a prefix of its bytes: all of them, unless the free blocks are used up; and they are
  not when there are more than \<open>cost\<close> of them for every block of data that the stream grows by.
\<close>

lemma write_loop_run:
  assumes "at C pos d s" "pos \<le> length C" "pos + length buf \<le> limit" "length buf \<le> fuel"
  shows "\<exists>m s' d'. m \<le> length buf \<and> at (overwrite pos (take m buf) C) (pos + m) d' s'
    \<and> write_loop write fuel buf s = (if m = length buf then Ok () else Err full, s')
    \<and> (m = length buf \<longrightarrow> d + cost * need (length C) \<le> d' + cost * need (max (length C) (pos + length buf)))
    \<and> (m < length buf \<longrightarrow> d' = 0 \<and> need (length C) < need (pos + length buf)
        \<and> d + cost * need (length C) \<le> cost * need (pos + length buf))"
  using assms
proof (induction fuel arbitrary: C pos d s buf)
  case 0
  then show ?case by (intro exI [of _ 0] exI [of _ s] exI [of _ d]) (simp add: overwrite_Nil max_absorb1)
next
  case (Suc fuel)
  let ?n = "length buf"
  show ?case
  proof (cases "buf = []")
    case True
    then show ?thesis
      using Suc.prems by (intro exI [of _ 0] exI [of _ s] exI [of _ d]) (simp add: overwrite_Nil max_absorb1)
  next
    case False
    define c where "c = chunk pos ?n"
    have c: "0 < c" "c \<le> ?n"
      using chunk(1) [OF Suc.prems(1), of ?n pos] chunk(2) [of pos ?n] False by (simp_all add: c_def)
    note mono = need [OF Suc.prems(1)]
    consider (Ok) s1 d1 where "write buf s = (Ok c, s1)"
        "d + cost * need (length C) \<le> d1 + cost * need (max (length C) (pos + c))"
        "at (overwrite pos (take c buf) C) (pos + c) d1 s1"
      | (Full) s1 where "write buf s = (Err full, s1)" "d \<le> cost" "need (length C) < need (pos + ?n)" "at C pos 0 s1"
      using write_step [OF Suc.prems(1,2) False Suc.prems(3)] unfolding c_def by blast
    then show ?thesis
    proof cases
      case Ok
      let ?C = "overwrite pos (take c buf) C"
      have len: "length ?C = max (length C) (pos + c)" using c(2) Suc.prems(2) by (simp add: length_overwrite)
      have pre: "pos + c \<le> length ?C" "pos + c + length (drop c buf) \<le> limit" "length (drop c buf) \<le> fuel"
        using c Suc.prems(2-4) by (simp_all add: len)
      from Suc.IH [OF Ok(3) pre] obtain m s2 d2 where
        m: "m \<le> length (drop c buf)" "at (overwrite (pos + c) (take m (drop c buf)) ?C) (pos + c + m) d2 s2"
        "write_loop write fuel (drop c buf) s1 = (if m = length (drop c buf) then Ok () else Err full, s2)"
        "m = length (drop c buf) \<longrightarrow>
          d1 + cost * need (length ?C) \<le> d2 + cost * need (max (length ?C) (pos + c + length (drop c buf)))"
        "m < length (drop c buf) \<longrightarrow> d2 = 0 \<and> need (length ?C) < need (pos + c + length (drop c buf))
          \<and> d1 + cost * need (length ?C) \<le> cost * need (pos + c + length (drop c buf))" by blast
      have "overwrite (pos + c) (take m (drop c buf)) ?C = overwrite pos (take (c + m) buf) C"
        using overwrite_overwrite [OF Suc.prems(2), of "take c buf" "take m (drop c buf)"] c(2)
        by (simp add: take_add)
      then have "at (overwrite pos (take (c + m) buf) C) (pos + (c + m)) d2 s2" using m(2) by (simp add: add.assoc)
      moreover have "write_loop write (Suc fuel) buf s = (if c + m = ?n then Ok () else Err full, s2)"
        using False c Ok(1) m(1,3) by (auto simp: bnd_Ok)
      moreover have "pos + c + length (drop c buf) = pos + ?n" "max (length ?C) (pos + ?n) = max (length C) (pos + ?n)"
        using c(2) by (simp_all add: len)
      then have "c + m = ?n \<longrightarrow> d + cost * need (length C) \<le> d2 + cost * need (max (length C) (pos + ?n))"
        "c + m < ?n \<longrightarrow> d2 = 0 \<and> need (length C) < need (pos + ?n) \<and> d + cost * need (length C) \<le> cost * need (pos + ?n)"
        using m(4,5) Ok(2) mono [of "length C" "length ?C"] by (auto simp: len)
      ultimately show ?thesis
        using m(1) c(2) by (intro exI [of _ "c + m"] exI [of _ s2] exI [of _ d2]) simp
    next
      case Full
      have "cost + cost * need (length C) \<le> cost * need (pos + ?n)"
        using mult_le_mono2 [of "Suc (need (length C))" "need (pos + ?n)" cost] Full(3) by simp
      then have "d + cost * need (length C) \<le> cost * need (pos + ?n)" using Full(2) by linarith
      then show ?thesis
        using False Full(1,3,4) Suc.prems(2)
        by (intro exI [of _ 0] exI [of _ s1] exI [of _ 0]) (simp add: bnd_Err overwrite_Nil)
    qed
  qed
qed

end

section \<open>The open file as a stream\<close>

text \<open>
  \<open>stream X is V ds fs\<close> is the relation \<open>at\<close> for the states that a file reaches from \<open>fs\<close>: so what the
  locale proves of \<open>at\<close> also bounds what the loops change, and a file that has to be written back stays so.
\<close>

definition stream ::
  "ext \<Rightarrow> nat list \<Rightarrow> (nat \<Rightarrow> nat list) \<Rightarrow> nat list \<Rightarrow> dkfile \<times> 'z store_scheme \<Rightarrow> byte list \<Rightarrow> nat \<Rightarrow> nat \<Rightarrow>
   dkfile \<times> 'z store_scheme \<Rightarrow> bool" where
  "stream X is V ds fs C pos d gt \<longleftrightarrow> clock_ok X \<and> (f_dirty (fst fs) \<longrightarrow> f_dirty (fst gt)) \<and> (\<exists>V' ds' n. steps_to X is n V ds fs V' ds' gt
     \<and> contents V' gt = C \<and> f_pos (fst gt) = pos \<and> length ds' = d)"

definition blocks_for :: "'z store_scheme \<Rightarrow> nat \<Rightarrow> nat" where
  "blocks_for s n = (n + block_size (sb s) - 1) div block_size (sb s)"

lemma streamE:
  assumes "stream X is V ds (f0, s0) C pos d gt"
  obtains g t V' ds' n where "gt = (g, t)" "clock_ok X" "steps_to X is n V ds (f0, s0) V' ds' (g, t)"
    "contents V' (g, t) = C" "f_pos g = pos" "length ds' = d"
  using assms by (cases gt) (auto simp: stream_def)

lemma stream_dirty: "stream X is V ds (f0, s0) C pos d (g, t) \<Longrightarrow> f_dirty f0 \<Longrightarrow> f_dirty g"
  by (simp add: stream_def)

lemma stream_block_size:
  assumes "stream X is V ds (f0, s0) C pos d gt"
  shows "0 < block_size (sb s0)"
proof -
  obtain g t V' ds' n where st: "steps_to X is n V ds (f0, s0) V' ds' (g, t)" using assms by (rule streamE)
  show ?thesis
    using store_okD(5) [OF file_mapD(1) [OF denseD(1) [OF steps_D(1) [OF st]]]] steps_D(4) [OF st] by simp
qed

text \<open>A write that takes blocks begins in a new one.\<close>

lemma new_block_needed:
  assumes "\<not> pos div bs * bs < (n :: nat)" "pos \<le> n" "0 < bs" "0 < k"
  shows "Suc ((n + bs - 1) div bs) \<le> (pos + k + bs - 1) div bs"
proof -
  have "pos div bs * bs \<le> pos" by simp
  then have eq: "pos = pos div bs * bs" "n = pos div bs * bs" using assms(1,2) by linarith+
  have "(n + bs - 1) div bs = pos div bs"
  proof -
    have "n + bs - 1 = pos div bs * bs + (bs - 1)" using eq(2) assms(3) by linarith
    then have "(n + bs - 1) div bs = pos div bs + (bs - 1) div bs"
      using div_mult_self3 [of bs "pos div bs" "bs - 1"] assms(3) by (simp only:)
    then show ?thesis using assms(3) by simp
  qed
  moreover have "(pos + bs) div bs \<le> (pos + k + bs - 1) div bs" using assms(4) by (intro div_le_mono) linarith
  moreover have "(pos + bs) div bs = pos div bs + 1" using assms(3) by (intro div_add_self2) simp
  ultimately show ?thesis by simp
qed

interpretation io: byte_stream "io_read X" "io_write X" "stream X is V ds (f0, s0)" "chunk_len s0" "blocks_for s0" 5
  "file_limit s0" "io_error_of_dk Exhausted"
proof
  fix C p d n pos and gt :: "dkfile \<times> 'a store_scheme"
  assume at: "stream X is V ds (f0, s0) C p d gt" and n: "0 < (n :: nat)"
  have bs: "0 < block_size (sb s0)" by (rule stream_block_size [OF at])
  then show "0 < chunk_len s0 pos n" using n mod_less_divisor [OF bs, of pos] by (simp add: chunk_len_def)
next
  fix C p d and m n :: nat and gt :: "dkfile \<times> 'a store_scheme"
  assume "stream X is V ds (f0, s0) C p d gt" "m \<le> n"
  from this(2) show "blocks_for s0 m \<le> blocks_for s0 n" unfolding blocks_for_def by (intro div_le_mono) simp
next
  show "chunk_len s0 pos n \<le> n" for pos n by (simp add: chunk_len_def)
next
  fix C pos d n and gt :: "dkfile \<times> 'a store_scheme"
  assume at: "stream X is V ds (f0, s0) C pos d gt"
  then obtain g t V' ds' k where st: "gt = (g, t)" "clock_ok X" "steps_to X is k V ds (f0, s0) V' ds' (g, t)"
    "contents V' (g, t) = C" "f_pos g = pos" "length ds' = d" by (rule streamE)
  have sz: "i_size (f_inode g) = length C" using st(4) by auto
  obtain h u where r: "dk_read X n (g, t) = (Ok (take (chunk_len s0 pos n) (drop pos C)), (h, u))"
    "steps_to X is 0 V' ds' (g, t) V' ds' (h, u)" "contents V' (h, u) = C"
    "f_pos h = pos + min (chunk_len s0 pos n) (length C - pos)" "f_dirty h = f_dirty g"
    using dk_read_run [OF steps_D(1) [OF st(3)], of n] st(4,5) steps_D(4) [OF st(3)] sz
    by (auto simp: chunk_len_def)
  have "steps_to X is k V ds (f0, s0) V' ds' (h, u)" by (rule steps_trans [OF st(3) r(2)]) simp
  then have "stream X is V ds (f0, s0) C (pos + min (chunk_len s0 pos n) (length C - pos)) d (h, u)"
    using at st(1,2,6) r(3-5) by (auto simp: stream_def)
  then show "\<exists>s'. io_read X n gt = (Ok (take (chunk_len s0 pos n) (drop pos C)), s')
      \<and> stream X is V ds (f0, s0) C (pos + min (chunk_len s0 pos n) (length C - pos)) d s'"
    using r(1) st(1) by (auto simp: io_read_def map_err_def)
next
  fix C pos d and buf :: "byte list" and gt :: "dkfile \<times> 'a store_scheme"
  assume "stream X is V ds (f0, s0) C pos d gt"
    and pre: "pos \<le> length C" "buf \<noteq> []" "pos + length buf \<le> file_limit s0"
  then obtain g t V' ds' k where st: "gt = (g, t)" "clock_ok X" "steps_to X is k V ds (f0, s0) V' ds' (g, t)"
    "contents V' (g, t) = C" "f_pos g = pos" "length ds' = d" by (elim streamE)
  have sz: "i_size (f_inode g) = length C" using st(4) by auto
  have ch: "chunk_len t = chunk_len s0" using steps_D(4) [OF st(3)] by (simp add: chunk_len_def fun_eq_iff)
  have "f_pos g \<le> i_size (f_inode g)" "f_pos g + length buf \<le> file_limit t"
    using pre st(5) sz steps_D(5) [OF st(3)] by simp_all
  from dk_write_run [OF steps_D(1) [OF st(3)] st(2) this(1) pre(2) this(2)] obtain r h u V2 ds2 where
    w: "dk_write X buf (g, t) = (r, (h, u))" "steps_to X is 5 V' ds' (g, t) V2 ds2 (h, u)" "f_dirty h"
    "pos div block_size (sb t) * block_size (sb t) < i_size (f_inode g) \<longrightarrow> ds2 = ds' \<and> (\<exists>k. r = Ok k)"
    "case r of
      Ok k \<Rightarrow> k = chunk_len s0 pos (length buf) \<and> f_pos h = pos + k \<and> contents V2 (h, u) = overwrite pos (take k buf) C
    | Err e \<Rightarrow> e = Exhausted \<and> ds2 = [] \<and> f_pos h = pos \<and> contents V2 (h, u) = C
    | _ \<Rightarrow> False" unfolding ch st(4,5) by blast
  have s2: "steps_to X is (k + 5) V ds (f0, s0) V2 ds2 (h, u)" by (rule steps_trans [OF st(3) w(2)]) simp
  have d: "d \<le> length ds2 + 5" using steps_D(7) [OF w(2)] st(6) by auto
  have bt: "block_size (sb t) = block_size (sb s0)" by (rule steps_D(4) [OF st(3)])
  have bs: "0 < block_size (sb s0)"
    using store_okD(5) [OF file_mapD(1) [OF denseD(1) [OF steps_D(1) [OF st(3)]]]] bt by simp
  define k0 where "k0 = chunk_len s0 pos (length buf)"
  have k0: "0 < k0" "k0 \<le> length buf"
    using pre(2) mod_less_divisor [OF bs, of pos] by (simp_all add: k0_def chunk_len_def)
  have grow: "Suc (blocks_for s0 (length C)) \<le> blocks_for s0 (pos + k)"
    if "\<not> pos div block_size (sb s0) * block_size (sb s0) < length C" "0 < k" for k
    using new_block_needed [OF that(1) pre(1) bs that(2)] by (simp add: blocks_for_def)
  show "(\<exists>s' d'. io_write X buf gt = (Ok (chunk_len s0 pos (length buf)), s')
         \<and> d + 5 * blocks_for s0 (length C) \<le> d' + 5 * blocks_for s0 (max (length C) (pos + chunk_len s0 pos (length buf)))
         \<and> stream X is V ds (f0, s0) (overwrite pos (take (chunk_len s0 pos (length buf)) buf) C)
             (pos + chunk_len s0 pos (length buf)) d' s')
      \<or> (\<exists>s'. io_write X buf gt = (Err (io_error_of_dk Exhausted), s') \<and> d \<le> 5
         \<and> blocks_for s0 (length C) < blocks_for s0 (pos + length buf) \<and> stream X is V ds (f0, s0) C pos 0 s')"
  proof (cases r)
    case (Ok n)
    then have n: "n = k0" using w(5) by (simp add: k0_def)
    have "stream X is V ds (f0, s0) (overwrite pos (take k0 buf) C) (pos + k0) (length ds2) (h, u)"
      using s2 st(2) w(3,5) Ok n by (auto simp: stream_def)
    moreover have "d + 5 * blocks_for s0 (length C) \<le> length ds2 + 5 * blocks_for s0 (max (length C) (pos + k0))"
    proof (cases "pos div block_size (sb s0) * block_size (sb s0) < length C")
      case True
      then have "length ds2 = d" using w(4) st(6) sz bt by simp
      moreover have "blocks_for s0 (length C) \<le> blocks_for s0 (max (length C) (pos + k0))"
        unfolding blocks_for_def by (intro div_le_mono) simp
      ultimately show ?thesis by simp
    next
      case False
      have "blocks_for s0 (pos + k0) \<le> blocks_for s0 (max (length C) (pos + k0))"
        unfolding blocks_for_def by (intro div_le_mono) simp
      then show ?thesis using grow [OF False k0(1)] d by simp
    qed
    moreover have "io_write X buf gt = (Ok k0, (h, u))" using Ok n w(1) st(1) by (simp add: io_write_def map_err_def)
    ultimately show ?thesis unfolding k0_def [symmetric] by blast
  next
    case (Err e)
    then have e: "e = Exhausted" "ds2 = []" using w(5) by simp_all
    have "stream X is V ds (f0, s0) C pos 0 (h, u)"
      using s2 st(2) w(3,5) Err by (auto simp: stream_def)
    moreover have "\<not> pos div block_size (sb s0) * block_size (sb s0) < length C" using w(4) Err sz bt by auto
    then have "blocks_for s0 (length C) < blocks_for s0 (pos + length buf)"
      using grow [of "length buf"] pre(2) by simp
    moreover have "io_write X buf gt = (Err (io_error_of_dk Exhausted), (h, u))"
      using Err e w(1) st(1) by (simp add: io_write_def map_err_def)
    ultimately show ?thesis using d e(2) by auto
  qed (use w(5) in simp_all)
qed

section \<open>Whole transfers\<close>

lemma stream_start:
  "dense X V is ds (f, s) \<Longrightarrow> clock_ok X \<Longrightarrow>
   stream X is V ds (f, s) (contents V (f, s)) (f_pos f) (length ds) (f, s)"
  unfolding stream_def using steps_refl by force

lemma write_all_run:
  assumes "dense X V is ds (f, s)" "clock_ok X" "f_pos f \<le> i_size (f_inode f)"
    "f_pos f + length buf \<le> file_limit s"
  obtains m g t d' where "m \<le> length buf"
    "write_all X buf (f, s) = (if m = length buf then Ok () else Err (io_error_of_dk Exhausted), (g, t))"
    "stream X is V ds (f, s) (overwrite (f_pos f) (take m buf) (contents V (f, s))) (f_pos f + m) d' (g, t)"
    "5 * (blocks_for s (f_pos f + length buf) - blocks_for s (i_size (f_inode f))) < length ds \<longrightarrow> m = length buf"
proof -
  let ?C = "contents V (f, s)" and ?p = "f_pos f" and ?n = "length buf"
  have le: "?p \<le> length ?C" using assms(3) by simp
  from io.write_loop_run [OF stream_start [OF assms(1,2)] le assms(4) order_refl]
  obtain m gt d' where m: "m \<le> ?n" "stream X is V ds (f, s) (overwrite ?p (take m buf) ?C) (?p + m) d' gt"
    "write_loop (io_write X) ?n buf (f, s) = (if m = ?n then Ok () else Err (io_error_of_dk Exhausted), gt)"
    "m < ?n \<longrightarrow> d' = 0 \<and> blocks_for s (length ?C) < blocks_for s (?p + ?n)
        \<and> length ds + 5 * blocks_for s (length ?C) \<le> 5 * blocks_for s (?p + ?n)"
    by (elim exE conjE)
  obtain g t where gt: "gt = (g, t)" by fastforce
  show thesis
  proof (rule that [of m g t d'])
    show "5 * (blocks_for s (?p + ?n) - blocks_for s (i_size (f_inode f))) < length ds \<longrightarrow> m = ?n"
      using m(1,4) unfolding length_contents by linarith
    show "write_all X buf (f, s) = (if m = ?n then Ok () else Err (io_error_of_dk Exhausted), (g, t))"
      unfolding write_all_def write_all_is_loop m(3) gt ..
  qed (use m(1,2) gt in simp_all)
qed

lemma seek_start: "p < 9223372036854775808 \<Longrightarrow> seek (SeekStart p) (f, s) = (Ok p, (f\<lparr>f_pos := p\<rparr>, s))"
  by (simp add: seek_def bnd_def)

lemma stream_seek: "stream X is V ds fs C pos d (g, t) \<Longrightarrow> stream X is V ds fs C p d (g\<lparr>f_pos := p\<rparr>, t)"
proof -
  assume a: "stream X is V ds fs C pos d (g, t)"
  obtain f s where fs: "fs = (f, s)" by fastforce
  obtain V' ds' n where st: "clock_ok X" "steps_to X is n V ds (f, s) V' ds' (g, t)" "contents V' (g, t) = C"
    "length ds' = d" using a unfolding fs by (auto elim: streamE)
  have "f_dirty f \<longrightarrow> f_dirty g" using a unfolding fs by (simp add: stream_def)
  then show ?thesis
    unfolding fs stream_def using steps_pos [OF st(2), of p] st(1,3,4)
    by (intro conjI exI [of _ V'] exI [of _ ds'] exI [of _ n]) simp_all
qed

lemma read_back:
  assumes "stream X is V ds (f, s) C pos d (g, t)" "codec_ok X" "p < 9223372036854775808"
  shows "\<exists>h u. bnd (seek (SeekStart p)) (\<lambda>_. take_read_to_end X n) (g, t) = (Ok (take n (drop p C)), (h, u))"
proof -
  note st = stream_seek [OF assms(1), of p]
  have rte: "0 < rte_buf X k" for k using assms(2) unfolding codec_ok_def by blast
  from io.read_loop_run [where k = 0 and n = n and sz = "rte_buf X", OF st rte lessI] obtain hu where
    "take_read_to_end X n (g\<lparr>f_pos := p\<rparr>, t) = (Ok (take n (drop p C)), hu)"
    unfolding take_read_to_end_def read_to_end_is_loop by (elim exE conjE)
  then show ?thesis by (cases hu) (simp add: bnd_def seek_start [OF assms(3)])
qed

end
