(* ===== verification/FileFlush.thy ===== *)
theory FileFlush
  imports FileStream
begin

text \<open>
  Flushing an open file and loading it again: after \<open>flush\<close> the device alone holds what the file and
  its caches held.
\<close>

section \<open>Writing the caches\<close>

lemma write_caches_run:
  assumes "file_map X {} V is ds (f, s)" "\<And>p pb. Some (p, pb) \<in> set cs \<Longrightarrow> \<exists>k. cached f k p pb"
  shows "\<exists>t. write_caches X cs s = (Ok (), t) \<and> file_map X {} V is ds (f, t)
    \<and> evolves (block_bytes (block_size (sb s)) (ptr_blocks (pcount s) (rows f) V)) s t
    \<and> (\<forall>p \<in> ptr_blocks (pcount s) (rows f) V.
        disk_ptrs X s p = V p \<or> (\<exists>pb. Some (p, pb) \<in> set cs) \<longrightarrow> disk_ptrs X t p = V p)"
  using assms
proof (induction cs arbitrary: s)
  case Nil
  then show ?case by simp
next
  case (Cons c cs)
  let ?P = "ptr_blocks (pcount s) (rows f) V" and ?A = "block_bytes (block_size (sb s)) (ptr_blocks (pcount s) (rows f) V)"
  have rest: "Some (p, pb) \<in> set cs \<Longrightarrow> \<exists>k. cached f k p pb" for p pb using Cons.prems(2) by simp
  show ?case
  proof (cases c)
    case None
    then show ?thesis using Cons.IH [OF Cons.prems(1) rest] by simp
  next
    case (Some d)
    obtain p pb where d: "d = (p, pb)" by fastforce
    obtain k where k: "cached f k p pb" using Cons.prems(2) [of p pb] Some d by auto
    have V: "V p = pb" by (rule cacheD(3) [OF file_mapD(4) [OF Cons.prems(1)] k])
    obtain t where t: "write_at X p (ptr_block_bytes X pb) s = (Ok (), t)" "file_map X {} V is ds (f, t)"
      "evolves {p..<p + block_size (sb s)} s t" "disk_ptrs X t p = pb" "p \<in> ?P"
      by (rule write_back [OF Cons.prems(1) k])
    note e = evolves_simps(1) [OF t(3)] pcount_evolves [OF t(3)]
    have e1: "evolves ?A s t" by (rule evolves_mono [OF t(3)]) (use t(5) in \<open>auto simp: block_bytes_def\<close>)
    obtain u where u: "write_caches X cs t = (Ok (), u)" "file_map X {} V is ds (f, u)" "evolves ?A t u"
      "\<forall>p \<in> ?P. disk_ptrs X t p = V p \<or> (\<exists>pb. Some (p, pb) \<in> set cs) \<longrightarrow> disk_ptrs X u p = V p"
      using Cons.IH [OF t(2) rest] unfolding e by blast
    have "disk_ptrs X u p' = V p'"
      if p': "p' \<in> ?P" "disk_ptrs X s p' = V p' \<or> (\<exists>pb. Some (p', pb) \<in> set (c # cs))" for p'
    proof (cases "p' = p")
      case True
      have "disk_ptrs X t p = V p" using t(4) V by simp
      then have "disk_ptrs X u p = V p" using u(4) t(5) by blast
      then show ?thesis using True by simp
    next
      case False
      then have "{p'..<p' + block_size (sb s)} \<inter> {p..<p + block_size (sb s)} = {}"
        by (rule data_blocks_apart [OF ptr_block_used(1) [OF Cons.prems(1) p'(1)] ptr_block_used(1) [OF Cons.prems(1) t(5)]])
      then have "disk_ptrs X t p' = disk_ptrs X s p'" by (rule disk_ptrs_evolves [OF t(3)])
      then show ?thesis using u(4) p' False Some d by auto
    qed
    then show ?thesis
      using u(1-3) t(1) e1 Some d by (auto simp: bnd_def intro: evolves_trans)
  qed
qed

text \<open>After that the caches can be dropped.\<close>

lemma write_ptr_cache_run:
  assumes "file_map X {} V is ds (f, s)"
  obtains t where "write_ptr_cache X (f, s) = (Ok (), (f, t))" "file_map X {} V is ds (f, t)"
    "file_map X {} V is ds (f\<lparr>f_cache := [None, None, None, None]\<rparr>, t)"
    "evolves (block_bytes (block_size (sb s)) (ptr_blocks (pcount s) (rows f) V)) s t"
proof -
  note m = file_mapD [OF assms]
  have len: "length (f_cache f) = 4" by (rule cacheD(1) [OF m(4)])
  have "\<exists>k. cached f k p pb" if "Some (p, pb) \<in> set (f_cache f)" for p pb
    using that len by (auto simp: cached_def in_set_conv_nth)
  from write_caches_run [OF assms this] obtain t where t: "write_caches X (f_cache f) s = (Ok (), t)"
    "file_map X {} V is ds (f, t)"
    "evolves (block_bytes (block_size (sb s)) (ptr_blocks (pcount s) (rows f) V)) s t"
    "\<forall>p \<in> ptr_blocks (pcount s) (rows f) V.
      disk_ptrs X s p = V p \<or> (\<exists>pb. Some (p, pb) \<in> set (f_cache f)) \<longrightarrow> disk_ptrs X t p = V p" by blast
  note pc = pcount_evolves [OF t(3)] and mt = file_mapD [OF t(2)]
  have disk: "disk_ptrs X t p = V p" if p: "p \<in> ptr_blocks (pcount s) (rows f) V" for p
  proof (cases "\<exists>k pb. cached f k p pb")
    case True
    then have "\<exists>pb. Some (p, pb) \<in> set (f_cache f)"
      using len by (auto simp: cached_def in_set_conv_nth)
    then show ?thesis using t(4) p by blast
  next
    case False
    then have "V p = disk_ptrs X s p" using m(5) p unfolding disk_view_def by blast
    then show ?thesis using t(4) p by simp
  qed
  have "file_map X {} V is ds (f\<lparr>f_cache := [None, None, None, None]\<rparr>, t)"
  proof -
    let ?c = "[None, None, None, None] :: (nat \<times> nat list) option list"
    have c: "length ?c = 4" "\<forall>e \<in> set ?c. e = None" by simp_all
    have none: "\<not> cached (f\<lparr>f_cache := ?c\<rparr>) k p pb" for k p pb
    proof
      assume c: "cached (f\<lparr>f_cache := ?c\<rparr>) k p pb"
      then have "k = 0 \<or> k = Suc 0 \<or> k = Suc (Suc 0) \<or> k = Suc (Suc (Suc 0))" by (simp add: cached_def) linarith
      then show False using c by (elim disjE) (simp_all add: cached_def)
    qed
    then have "cache_ok (pcount t) (f\<lparr>f_cache := ?c\<rparr>) V" using c(1) by (simp add: cache_ok_def)
    moreover have "disk_view X {} V (f\<lparr>f_cache := ?c\<rparr>) t"
      using disk none pc by (simp add: disk_view_def)
    ultimately show ?thesis using mt by (simp add: file_map_def blocks_ok_def)
  qed
  then show thesis
    using that t(1-3) by (simp add: write_ptr_cache_def bnd_def on_dk_def)
qed

section \<open>Writing the inode\<close>

text \<open>The inode of the file is in use.\<close>

definition inode_used :: "nat list \<Rightarrow> dkfile \<times> 'z store_scheme \<Rightarrow> bool" where
  "inode_used is fs \<longleftrightarrow> (case fs of (f, s) \<Rightarrow>
     i_ino (f_inode f) \<in> inode_numbers (sb s) \<and> i_ino (f_inode f) \<notin> set is)"

definition inode_bytes_of :: "nat \<Rightarrow> nat set" where
  "inode_bytes_of ino = {inode_slot ino..<inode_slot ino + INODE_SIZE}"

lemma inode_below_data:
  assumes "store_ok X s is ds" "i \<in> inode_numbers (sb s)" "p \<in> data_blocks s"
  shows "{p..<p + n} \<inter> inode_bytes_of i = {}"
proof -
  have "inode_slot i + INODE_SIZE \<le> FIRST_INODE_PTR + inode_count (sb s) * INODE_SIZE"
    using units_range [OF inode_slot_units [OF assms(2)]] by simp
  also have "\<dots> \<le> db_base s" using store_okD(4) [OF assms(1)] by (simp add: geometry_ok_def)
  also have "\<dots> \<le> p" by (rule data_block_range(5) [OF assms(1,3)])
  finally show ?thesis by (auto simp: inode_bytes_of_def)
qed

lemma write_inode_run:
  assumes "file_map X {} V is ds (f, s)" "inode_fields_ok (f_inode f)" "inode_used is (f, s)"
  obtains t where "write_inode X (f_inode f) s = (Ok (), t)" "file_map X {} V is ds (f, t)"
    "evolves (inode_bytes_of (i_ino (f_inode f))) s t"
    "read_inode X (i_ino (f_inode f)) t = (Ok (f_inode f), t)"
proof -
  let ?i = "f_inode f"
  note m = file_mapD [OF assms(1)]
  have ino: "i_ino ?i \<in> inode_numbers (sb s)" "i_ino ?i \<notin> set is" using assms(3) by (simp_all add: inode_used_def)
  have tab: "table_ok X s" using m(1) by (simp add: store_ok_def regions_ok_def table_ok_def)
  obtain t where t: "write_inode X ?i s = (Ok (), t)" "store_ok X t is ds"
    "\<forall>a. a \<notin> {inode_slot (i_ino ?i)..<inode_slot (i_ino ?i) + INODE_SIZE} \<longrightarrow> disk t a = disk s a"
    by (rule write_inode_store_ok [OF m(1) ino assms(2)])
  have set: "t = set_disk (write_bytes (inode_slot (i_ino ?i)) (inode_bytes X ?i) (disk s)) s"
    using t(1) write_inode_Ok [OF tab ino(1) assms(2)] by simp
  have e: "evolves (inode_bytes_of (i_ino ?i)) s t"
    unfolding set by (rule evolves_set_disk) (use t(3) set in \<open>auto simp: inode_bytes_of_def\<close>)
  have "file_map X {} V is ds (f, t)"
    by (rule file_map_store [OF assms(1) t(2) e subset_refl])
      (rule inode_below_data [OF m(1) ino(1) ptr_block_used(1) [OF assms(1)]])
  moreover have "read_inode X (i_ino ?i) t = (Ok ?i, t)"
    using inodes.put_get [of ?i X s] assms(2) t(1) store_ok_table [OF m(1)] ino(1) by auto
  ultimately show thesis using that t(1) e by blast
qed

section \<open>Flush and load\<close>

lemma contents_frame:
  assumes "dense X V is ds (f, s)" "evolves A s t" "rows g = rows f" "i_size (f_inode g) = i_size (f_inode f)"
    "\<And>p. p \<in> data_blocks s \<Longrightarrow> p \<notin> set ds \<union> ptr_blocks (pcount s) (rows f) V \<Longrightarrow>
      p \<in> all_nodes (pcount s) (rows f) V \<Longrightarrow> {p..<p + block_size (sb s)} \<inter> A = {}"
  shows "contents V (g, t) = contents V (f, s)"
proof -
  note d = denseD [OF assms(1)]
  have bs0: "0 < block_size (sb s)" using store_okD(5) [OF file_mapD(1) [OF d(1)]] by simp
  have ptr: "data_ptr V (g, t) bk = data_ptr V (f, s) bk" for bk
    using assms(3) pcount_evolves [OF assms(2)] by (simp add: data_ptr_def)
  have "file_byte V (g, t) i = file_byte V (f, s) i" if i: "i < i_size (f_inode f)" for i
  proof -
    let ?p = "data_ptr V (f, s) (i div block_size (sb s))"
    note u = data_ptr_used [OF d(1) d(4,5) [OF i]]
    have "?p \<notin> set ds \<union> ptr_blocks (pcount s) (rows f) V" using u(2,3) by blast
    from assms(5) [OF u(1) this u(4)] have "?p + i mod block_size (sb s) \<notin> A"
      using mod_less_divisor [OF bs0, of i] by (auto simp: disjoint_iff)
    then show ?thesis
      using evolves_disk [OF assms(2)] evolves_simps(1) [OF assms(2)] by (simp add: file_byte_def ptr)
  qed
  then show ?thesis by (simp add: contents_def assms(4))
qed

lemma dense_cong:
  assumes "dense X V is ds (f, s)" "file_map X {} V is ds (g, t)" "f_inode g = f_inode f"
    "block_size (sb t) = block_size (sb s)"
  shows "dense X V is ds (g, t)"
proof -
  have "rows g = rows f" using assms(3) by (simp add: rows_def fun_eq_iff)
  moreover have "pcount t = pcount s" using assms(4) by (simp add: pcount_def)
  ultimately show ?thesis using assms by (simp add: dense_def data_ptr_def file_limit_def)
qed

lemma contents_inode:
  assumes "f_inode g = f_inode f"
  shows "contents V (g, s) = contents V (f, s)"
proof -
  have "rows g = rows f" using assms by (simp add: rows_def fun_eq_iff)
  then show ?thesis using assms by (simp add: contents_def file_byte_def data_ptr_def)
qed

text \<open>What \<open>flush\<close> leaves: the file as it was, and a device on which the inode leads to the same file.\<close>

definition no_attributes :: "dkfile \<Rightarrow> bool" where
  "no_attributes f \<longleftrightarrow> f_xattr f = [] \<and> i_xattr_ptr (f_inode f) = 0"

lemma write_xattr_none: "no_attributes f \<Longrightarrow> write_xattr X (f, s) = (Ok (), (f, s))"
  by (simp add: no_attributes_def write_xattr_def bnd_def)

lemma read_xattr_none: "i_xattr_ptr (f_inode f) = 0 \<Longrightarrow> read_xattr X (f, s) = (Ok (), (f, s))"
  by (simp add: read_xattr_def bnd_def)

lemma flush_run:
  assumes "dense X V is ds (f, s)" "inode_used is (f, s)" "no_attributes f" "f_dirty f" "0 < i_nlink (f_inode f)"
  obtains t where "flush_file X (f, s) = (Ok (), (f\<lparr>f_dirty := False\<rparr>, t))"
    "dense X V is ds (f, t)" "contents V (f, t) = contents V (f, s)"
    "read_inode X (i_ino (f_inode f)) t = (Ok (f_inode f), t)"
    "dense X V is ds (dkfile_new (f_inode f), t)" "contents V (dkfile_new (f_inode f), t) = contents V (f, s)"
    "evolves (footprint V ds (f, s) \<union> inode_bytes_of (i_ino (f_inode f))) s t"
proof -
  let ?i = "f_inode f" and ?P = "ptr_blocks (pcount s) (rows f) V"
  let ?c = "[None, None, None, None] :: (nat \<times> nat list) option list"
  note d = denseD [OF assms(1)]
  obtain t where t: "write_ptr_cache X (f, s) = (Ok (), (f, t))" "file_map X {} V is ds (f, t)"
    "file_map X {} V is ds (f\<lparr>f_cache := ?c\<rparr>, t)" "evolves (block_bytes (block_size (sb s)) ?P) s t"
    by (rule write_ptr_cache_run [OF d(1)])
  note ft = t(3)
  have ut: "inode_used is (f\<lparr>f_cache := ?c\<rparr>, t)"
    using assms(2) evolves_simps(4) [OF t(4)] by (simp add: inode_used_def)
  have fi: "inode_fields_ok (f_inode (f\<lparr>f_cache := ?c\<rparr>))" using d(7) by simp
  obtain u where u: "write_inode X ?i t = (Ok (), u)" "file_map X {} V is ds (f\<lparr>f_cache := ?c\<rparr>, u)"
    "evolves (inode_bytes_of (i_ino ?i)) t u" "read_inode X (i_ino ?i) u = (Ok ?i, u)"
    by (rule write_inode_run [OF ft fi ut, simplified])
  have ut': "inode_used is (f, t)" using ut by (simp add: inode_used_def)
  have fu: "file_map X {} V is ds (f, u)"
    by (rule write_inode_run [OF t(2) d(7) ut']) (use u(1) in simp)
  let ?A = "footprint V ds (f, s) \<union> inode_bytes_of (i_ino ?i)"
  have "evolves ?A s t" by (rule evolves_mono [OF t(4)]) (auto simp: footprint_def block_bytes_def)
  moreover have "evolves ?A t u" by (rule evolves_mono [OF u(3)]) simp
  ultimately have e: "evolves ?A s u" by (rule evolves_trans)
  have out: "{p..<p + block_size (sb s)} \<inter> ?A = {}"
    if p: "p \<in> data_blocks s" "p \<notin> set ds \<union> ?P" for p
  proof -
    note ok = file_mapD(1) [OF d(1)]
    have sub: "set ds \<union> ?P \<subseteq> data_blocks s" using store_okD(10) [OF ok] ptr_block_used(1) [OF d(1)] by blast
    have "{p..<p + block_size (sb s)} \<inter> block_bytes (block_size (sb s)) (set ds \<union> ?P) = {}"
      by (rule block_bytes_apart [OF p(1) sub p(2)])
    moreover have "{p..<p + block_size (sb s)} \<inter> inode_bytes_of (i_ino ?i) = {}"
      by (rule inode_below_data [OF ok _ p(1)]) (use assms(2) in \<open>simp add: inode_used_def\<close>)
    ultimately show ?thesis using sb_apart [OF ok p(1)] by (simp add: footprint_def Int_Un_distrib)
  qed
  note bs = evolves_simps(1) [OF e]
  have new: "file_map X {} V is ds (dkfile_new ?i, u)"
    using u(2) file_map_inode(2) [of "dkfile_new ?i" "f\<lparr>f_cache := ?c\<rparr>" X "{}" V "is" ds u]
    by (simp add: dkfile_new_def)
  have c: "contents V (g, u) = contents V (f, s)" if "f_inode g = ?i" for g
    by (rule contents_frame [OF assms(1) e]) (use that out in \<open>auto simp: rows_def fun_eq_iff\<close>)
  have run: "io_flush X (f, s) = (Ok (), (f\<lparr>f_dirty := False\<rparr>, u))"
    using assms(4,5) t(1) u(1)
    by (simp add: write_xattr_none [OF assms(3)] io_flush_def bnd_def map_err_def on_dk_def)
  show thesis
  proof (rule that)
    show "flush_file X (f, s) = (Ok (), (f\<lparr>f_dirty := False\<rparr>, u))"
      using run by (simp add: flush_file_def map_err_def)
    show "dense X V is ds (f, u)" by (rule dense_cong [OF assms(1) fu _ bs]) simp
    show "dense X V is ds (dkfile_new ?i, u)" by (rule dense_cong [OF assms(1) new _ bs]) (simp add: dkfile_new_def)
    show "contents V (dkfile_new ?i, u) = contents V (f, s)" by (rule c) (simp add: dkfile_new_def)
    show "read_inode X (i_ino ?i) u = (Ok ?i, u)" by (rule u(4))
    show "evolves ?A s u" by (rule e)
    show "contents V (f, u) = contents V (f, s)" by (rule c) simp
  qed
qed

end
