(* ===== verification/FileLife.thy ===== *)
theory FileLife
  imports FileFlush Table
begin

text \<open>
  The life of a file: \<open>mknod\<close> makes an empty one, and what \<open>close_file\<close> leaves on the device is what
  \<open>load_file\<close> finds.
\<close>

section \<open>New files\<close>

definition blank_inode :: "inode \<Rightarrow> bool" where
  "blank_inode i \<longleftrightarrow> inode_fields_ok i \<and> i_ptrs i = default_ptrs \<and> i_blocks i = 0 \<and> i_xattr_ptr i = 0 \<and> i_size i = 0"

lemma fresh_nodes:
  assumes "blank_inode i"
  shows "rows (dkfile_new i) 0 = replicate 12 0" "rows (dkfile_new i) 1 = [0]" "rows (dkfile_new i) 2 = [0]"
    "rows (dkfile_new i) 3 = [0]" "rows (dkfile_new i) 4 = [0]"
    "place pc k d j \<Longrightarrow> node pc (rows (dkfile_new i)) V k d j = 0"
    "all_nodes pc (rows (dkfile_new i)) V = {}" "ptr_blocks pc (rows (dkfile_new i)) V = {}"
proof -
  let ?R = "rows (dkfile_new i)"
  show R: "?R 0 = replicate 12 0" "?R 1 = [0]" "?R 2 = [0]" "?R 3 = [0]" "?R 4 = [0]"
    using assms by (simp_all add: blank_inode_def rows_simps dkfile_new_def default_ptrs_def)
  have row: "?R k ! j = 0" if "place pc k 0 j" for k j
  proof -
    have "k = 0 \<or> k = 1 \<or> k = 2 \<or> k = 3 \<or> k = 4" using that by (auto simp: place_def)
    then show ?thesis using that R by (elim disjE) (simp_all add: place_def)
  qed
  show null: "place pc k d j \<Longrightarrow> node pc ?R V k d j = 0" for k d j
  proof (induction d arbitrary: j)
    case 0
    then show ?case using row by simp
  next
    case (Suc d)
    then show ?case using place_parent [OF Suc.prems] by simp
  qed
  then show "all_nodes pc ?R V = {}" "ptr_blocks pc ?R V = {}"
    by (auto simp: all_nodes_def ptr_blocks_def)
qed

lemma fresh_dense:
  assumes "store_ok X s is ds" "pcount s ^ 4 < u64_limit" "blank_inode i"
  shows "dense X V is ds (dkfile_new i, s)" "contents V (dkfile_new i, s) = []"
proof -
  let ?f = "dkfile_new i" and ?R = "rows (dkfile_new i)"
  have i: "f_inode ?f = i" "f_cache ?f = [None, None, None, None]" by (simp_all add: dkfile_new_def)
  note R = fresh_nodes(1-5) [OF assms(3)] and null = fresh_nodes(6) [OF assms(3)] and none = fresh_nodes(7,8) [OF assms(3)]
  have "unique_places pc ?R V" for pc using null by (auto simp: unique_places_def)
  moreover have "length (?R k) = 1" if "k \<in> {1..4}" for k
  proof -
    have "k = 1 \<or> k = 2 \<or> k = 3 \<or> k = 4" using that by auto
    then show ?thesis using R by (elim disjE) simp_all
  qed
  moreover have "0 \<notin> data_blocks s" using data_block_range(4) [OF assms(1)] by fastforce
  ultimately have "tree_ok (pcount s) (data_blocks s - set ds) ?R V"
    using R(1) by (simp add: tree_ok_def none)
  moreover have "cache_ok (pcount s) ?f V"
  proof -
    have "\<not> cached ?f k p pb" for k p pb
    proof
      assume c: "cached ?f k p pb"
      then have "k = 0 \<or> k = Suc 0 \<or> k = Suc (Suc 0) \<or> k = Suc (Suc (Suc 0))" by (simp add: cached_def) linarith
      then show False using c by (elim disjE) (simp_all add: cached_def i)
    qed
    then show ?thesis by (simp add: cache_ok_def i)
  qed
  moreover have "disk_view X {} V ?f s" by (simp add: disk_view_def none)
  moreover have "blocks_ok (pcount s) (data_blocks s - set ds) ?f V"
    using assms(3) by (simp add: blocks_ok_def none i blank_inode_def)
  ultimately have "file_map X {} V is ds (?f, s)" using assms(1,2) by (simp add: file_map_def)
  then show "dense X V is ds (?f, s)" using assms(3) by (simp add: dense_def i blank_inode_def)
  show "contents V (?f, s) = []" using assms(3) by (simp add: contents_def i blank_inode_def)
qed

lemma allocate_inode_evolves:
  assumes "store_ok X s (i # is) ds"
  obtains t where "allocate_inode X s = (Ok i, t)" "store_ok X t is ds" "inode_numbers (sb t) = inode_numbers (sb s)"
    "pcount t = pcount s" "i \<in> inode_numbers (sb t)" "i \<notin> set is"
proof -
  obtain t where t: "allocate_inode X s = (Ok i, t)" "store_ok X t is ds" "same_used (free_bytes s is []) s t"
    by (rule allocate_inode_pop [OF assms])
  have "distinct (i # is)" "set (i # is) \<subseteq> inode_numbers (sb s)" using store_okD(11,12) [OF assms] .
  then show thesis
    using that t same_used_simps(12) [OF t(3)] evolves_simps(1) [OF evolves_same_used [OF t(3)]]
    by (simp add: pcount_def)
qed

lemma inode_number_range:
  assumes "store_ok X s is ds" "i \<in> inode_numbers (sb s)"
  shows "i < u64_limit"
proof -
  note ok = store_okD [OF assms(1)]
  have "FIRST_INODE_PTR + inode_count (sb s) * INODE_SIZE \<le> db_base s" using ok(4) by (simp add: geometry_ok_def)
  also have "\<dots> \<le> dev_size (dev s)" using db_end [OF ok(4)] by linarith
  also have "\<dots> < u64_limit" by (rule device_ok_size [OF ok(3)])
  finally have "inode_count (sb s) * 256 < u64_limit" by simp
  then show ?thesis using assms(2) by (simp add: inode_numbers_def)
qed

lemma mknod_run:
  assumes "store_ok X s (ino # is) ds" "clock_ok X" "pcount s ^ 4 < u64_limit"
    "uid < 4294967296" "gid < 4294967296" "nlink < u64_limit" "\<And>v. rdev = Some v \<Longrightarrow> v < u64_limit"
  obtains i t where "mknod X mode uid gid nlink rdev s = (Ok ino, t)" "store_ok X t is ds"
    "read_inode X ino t = (Ok i, t)" "blank_inode i" "i_ino i = ino" "i_mode i = mode" "i_uid i = uid"
    "i_gid i = gid" "i_nlink i = nlink" "inode_used is (dkfile_new i, t)" "pcount t = pcount s"
proof -
  obtain t where t: "allocate_inode X s = (Ok ino, t)" "store_ok X t is ds" "inode_numbers (sb t) = inode_numbers (sb s)"
    "pcount t = pcount s" "ino \<in> inode_numbers (sb t)" "ino \<notin> set is"
    by (rule allocate_inode_evolves [OF assms(1)])
  let ?t = "t\<lparr>clk := Suc (clk t)\<rparr>"
  define i where "i = \<lparr>i_ino = ino, i_mode = mode, i_uid = uid, i_gid = gid, i_nlink = nlink,
       i_atime = stamp X t, i_mtime = stamp X t, i_ctime = stamp X t, i_crtime = stamp X t, i_size = 0, i_blocks = 0,
       i_device = (case rdev of None \<Rightarrow> 0 | Some v \<Rightarrow> v), i_xattr_ptr = 0, i_ptrs = default_ptrs\<rparr>"
  have "ino < u64_limit" by (rule inode_number_range [OF t(2,5)])
  then have fi: "inode_fields_ok i"
    using assms(4-7) stamp_ok [of X t]
    by (simp add: i_def inode_fields_ok_def ptrs_shape_def ptrs_values_def default_ptrs_def split: option.split)
  have ok: "store_ok X ?t is ds" using t(2) by simp
  have used: "i_ino i \<in> inode_numbers (sb ?t)" "i_ino i \<notin> set is" using t(5,6) by (simp_all add: i_def)
  obtain u where u: "write_inode X i ?t = (Ok (), u)" "store_ok X u is ds"
    by (rule write_inode_store_ok [OF ok used fi]) blast
  have tab: "table_ok X ?t" using ok by (simp add: store_ok_def regions_ok_def table_ok_def)
  have set: "u = set_disk (write_bytes (inode_slot (i_ino i)) (inode_bytes X i) (disk ?t)) ?t"
    using u(1) write_inode_Ok [OF tab used(1) fi] by simp
  have "read_inode X (i_ino i) u = (Ok i, u)"
    using inodes.put_get [of i X ?t] fi u(1) store_ok_table [OF ok] used(1) by auto
  moreover have "mknod X mode uid gid nlink rdev s = (Ok ino, u)"
    using t(1) u(1) by (simp add: mknod_def bnd_def Let_def i_def now_Ok [OF assms(2)])
  ultimately show thesis
    using that [of u i] u(2) fi used set t(4)
    by (simp add: i_def blank_inode_def inode_used_def dkfile_new_def set_disk_def pcount_def)
qed

section \<open>Closing and loading\<close>

text \<open>The tables are no part of the store: a file is judged by the device and the super block alone.\<close>

lemma store_ok_dev: "dev t = dev s \<Longrightarrow> sb t = sb s \<Longrightarrow> store_ok X t is ds = store_ok X s is ds"
  by (simp add: store_ok_def regions_ok_def geometry_ok_def sb_synced_def data_blocks_def db_base_def)

lemma dense_dev:
  assumes "dev t = dev s" "sb t = sb s"
  shows "dense X V is ds (f, t) = dense X V is ds (f, s)" "contents V (f, t) = contents V (f, s)"
    "inode_used is (f, t) = inode_used is (f, s)" "file_limit t = file_limit s" "blocks_for t n = blocks_for s n"
  using assms
  by (simp_all add: dense_def file_map_def disk_view_def data_ptr_def file_limit_def contents_def file_byte_def
      store_ok_dev [OF assms] pcount_def data_blocks_def db_base_def disk_ptrs_def inode_used_def blocks_for_def)

lemma read_inode_dev:
  assumes "read_inode X i s = (Ok v, s)" "dev t = dev s"
  shows "read_inode X i t = (Ok v, t)"
  using assms by (auto simp: read_inode_def read_at_def bnd_def ptr_of_ino_def ck_sub_def ck_mul_def ck_add_def
      Let_def split: res.splits if_splits)

text \<open>\<open>close_file\<close> takes an unused file out of the table and leaves its inode on the device.\<close>

lemma close_file_flushed:
  assumes "opened_files s k = Some f" "file_refs s k = 0" "flush_file X (f, s) = (Ok (), (g, t))"
    "store.more t = store.more s" "0 < i_nlink (f_inode g)"
  shows "close_file X k s = (Ok (), t\<lparr>opened_files := (opened_files s)(k := None)\<rparr>)"
proof -
  have of: "opened_files t = opened_files s" using assms(4) by (cases s, cases t) simp
  let ?t1 = "t\<lparr>opened_files := (opened_files t)(k \<mapsto> g)\<rparr>"
  have w1: "with_file k (flush_file X) s = (Ok (), ?t1)" using assms(1) by (simp add: with_file_def assms(3))
  have w2: "with_file k (get_file (\<lambda>f. i_nlink (f_inode f))) ?t1 = (Ok (i_nlink (f_inode g)), ?t1)"
    by (simp add: with_file_def)
  have unused: "file_unused k s" using assms(1,2) by (simp add: file_unused_def)
  show ?thesis
    unfolding close_file_def bnd_gets if_P [OF unused] bnd_Ok [of "with_file k (flush_file X)", OF w1]
      bnd_Ok [of "with_file k (get_file _)" , OF w2]
    using assms(5) by (simp add: of)
qed

lemma close_file_run:
  assumes "opened_files s k = Some f" "file_refs s k = 0" "k = i_ino (f_inode f)"
    "dense X V is ds (f, s)" "inode_used is (f, s)" "no_attributes f" "f_dirty f" "0 < i_nlink (f_inode f)"
  obtains t where "close_file X k s = (Ok (), t\<lparr>opened_files := (opened_files s)(k := None)\<rparr>)"
    "store.more t = store.more s" "read_inode X k t = (Ok (f_inode f), t)"
    "dense X V is ds (dkfile_new (f_inode f), t)" "contents V (dkfile_new (f_inode f), t) = contents V (f, s)"
proof -
  let ?i = "f_inode f" and ?g = "f\<lparr>f_dirty := False\<rparr>"
  obtain t where t: "flush_file X (f, s) = (Ok (), (?g, t))"
    "dense X V is ds (f, t)" "contents V (f, t) = contents V (f, s)"
    "read_inode X (i_ino ?i) t = (Ok ?i, t)"
    "dense X V is ds (dkfile_new ?i, t)" "contents V (dkfile_new ?i, t) = contents V (f, s)"
    "evolves (footprint V ds (f, s) \<union> inode_bytes_of (i_ino ?i)) s t"
    by (rule flush_run [OF assms(4-8)])
  note more = evolves_simps(6) [OF t(7)]
  have "0 < i_nlink (f_inode ?g)" using assms(8) by simp
  from close_file_flushed [OF assms(1,2) t(1) more this] show thesis
    using that more t(4-6) assms(3) by blast
qed

text \<open>\<open>load_file\<close> enters what \<open>read_inode\<close> finds.\<close>

lemma load_file_run:
  assumes "read_inode X k s = (Ok i, s)" "i_xattr_ptr i = 0"
  shows "load_file X k s = (Ok (), s\<lparr>opened_files := (opened_files s)(k \<mapsto> dkfile_new i),
    file_refs := (file_refs s)(k := 0)\<rparr>)"
proof -
  have "i_xattr_ptr (f_inode (dkfile_new i)) = 0" using assms(2) by (simp add: dkfile_new_def)
  then show ?thesis by (simp add: load_file_def bnd_def assms(1) read_xattr_none)
qed

text \<open>Opening a file that waits to be closed closes it first and loads it again.\<close>

lemma close_pending:
  assumes "close_files s = [k]" "close_file X k (s\<lparr>close_files := []\<rparr>) = (Ok (), t)" "close_files t = []"
  shows "close_files_in_list X s = (Ok (), t)"
  using assms by (simp add: close_files_in_list_def bnd_def gets_def pop_close_file_def ret_def)

lemma open_file_reload:
  assumes "close_files s = [k]" "close_file X k (s\<lparr>close_files := []\<rparr>) = (Ok (), t)" "close_files t = []"
    "opened_files t k = None" "read_inode X k t = (Ok i, t)" "read_xattr X (dkfile_new i, t) = (Ok (), (g, t))" "fl \<noteq> INVALID"
  shows "open_file X k fl s = (Ok \<lparr>fh_key = k, fh_flags = fl\<rparr>,
    t\<lparr>opened_files := (opened_files t)(k \<mapsto> g), file_refs := (file_refs t)(k := 1)\<rparr>)"
  using assms(4-7)
  by (simp add: open_file_def bnd_def close_pending [OF assms(1-3)] gets_def modify_def clone_file_def ret_def load_file_def)

lemma close_and_load:
  assumes "opened_files s k = Some f" "file_refs s k = 0" "k = i_ino (f_inode f)"
    "dense X V is ds (f, s)" "inode_used is (f, s)" "no_attributes f" "f_dirty f" "0 < i_nlink (f_inode f)"
  obtains t u where "close_file X k s = (Ok (), t)" "opened_files t k = None"
    "load_file X k t = (Ok (), u)" "opened_files u k = Some (dkfile_new (f_inode f))"
    "dense X V is ds (dkfile_new (f_inode f), u)" "contents V (dkfile_new (f_inode f), u) = contents V (f, s)"
proof -
  let ?f = "dkfile_new (f_inode f)"
  obtain t where t: "close_file X k s = (Ok (), t\<lparr>opened_files := (opened_files s)(k := None)\<rparr>)"
    "read_inode X k t = (Ok (f_inode f), t)" "dense X V is ds (?f, t)" "contents V (?f, t) = contents V (f, s)"
    by (rule close_file_run [OF assms])
  let ?t = "t\<lparr>opened_files := (opened_files s)(k := None)\<rparr>"
  let ?u = "?t\<lparr>opened_files := (opened_files ?t)(k \<mapsto> ?f), file_refs := (file_refs ?t)(k := 0)\<rparr>"
  have "read_inode X k ?t = (Ok (f_inode f), ?t)" by (rule read_inode_dev [OF t(2)]) simp
  then have load: "load_file X k ?t = (Ok (), ?u)"
    by (rule load_file_run) (use assms(6) in \<open>simp add: no_attributes_def\<close>)
  have du: "dev ?u = dev t" "sb ?u = sb t" by simp_all
  show thesis
  proof (rule that [OF t(1) _ load])
    show "dense X V is ds (?f, ?u)" using dense_dev(1) [OF du] t(3) by blast
    show "contents V (?f, ?u) = contents V (f, s)" using dense_dev(2) [OF du] t(4) by simp
  qed simp_all
qed

end
