(* ===== verification/DemoFile.thy ===== *)
theory DemoFile
  imports Demo FileLife
begin

text \<open>
  The regular file of the demo device, opened: an empty file on a device with seven free blocks.
\<close>

definition demo_file :: dkfile where
  "demo_file = dkfile_new (demo_inode 114514 0)"

lemma plain_clock_ok: "clock_ok plain_ext"
  by (simp add: clock_ok_def)

lemma file_store_size: "block_size (sb file_store) = 4096" "pcount file_store = 512"
proof -
  show bs: "block_size (sb file_store) = 4096"
    using store_okD(4) [OF file_store_ok] file_store_shape by (simp add: geometry_ok_def dev_shape_def)
  show "pcount file_store = 512" by (simp add: pcount_def bs)
qed

lemma file_store_numbers: "inode_numbers (sb file_store) = {114514..<114522}"
proof -
  let ?is = "tl demo_inodes"
  have "demo_inodes = 114514 # ?is" by (simp add: demo_inodes_def)
  then have "store_ok plain_ext demo_store (114514 # ?is) demo_blocks" using demo_ok by simp
  from allocate_inode_evolves [OF this] obtain t where
    t: "allocate_inode plain_ext demo_store = (Ok 114514, t)" "store_ok plain_ext t ?is demo_blocks"
    "inode_numbers (sb t) = inode_numbers (sb demo_store)" "114514 \<in> inode_numbers (sb t)" "114514 \<notin> set ?is"
    by blast
  have i: "i_ino (demo_inode 114514 0) \<in> inode_numbers (sb t)" "i_ino (demo_inode 114514 0) \<notin> set ?is"
    "inode_fields_ok (demo_inode 114514 0)" using t(4,5) by simp_all
  obtain u where u: "write_inode plain_ext (demo_inode 114514 0) t = (Ok (), u)"
    by (rule write_inode_store_ok [OF t(2) i]) blast
  have eq: "file_store = u" unfolding file_store_def bnd_def t(1) by (simp add: u)
  have "table_ok plain_ext t" using t(2) by (simp add: store_ok_def regions_ok_def table_ok_def)
  from write_inode_Ok [OF this i(1,3)] have "sb file_store = sb t"
    unfolding eq using u by (auto simp: set_disk_def)
  then show ?thesis using t(3) by (simp add: inode_numbers_def demo_store_sb)
qed

lemma demo_blank_inode: "blank_inode (demo_inode 114514 0)"
  by (simp add: blank_inode_def) (simp add: demo_inode_def)

lemma demo_dense:
  "dense plain_ext V (tl demo_inodes) demo_blocks (demo_file, file_store)"
  "contents V (demo_file, file_store) = []"
  unfolding demo_file_def
  by (rule fresh_dense [OF file_store_ok _ demo_blank_inode], simp add: file_store_size)+

lemma demo_file_simps [simp]:
  "f_pos demo_file = 0" "i_size (f_inode demo_file) = 0" "i_ino (f_inode demo_file) = 114514"
  "i_nlink (f_inode demo_file) = 1" "no_attributes demo_file"
  by (simp_all add: demo_file_def dkfile_new_def demo_inode_def no_attributes_def)

lemma demo_inode_used: "inode_used (tl demo_inodes) (demo_file, file_store)"
  by (simp add: inode_used_def file_store_numbers demo_inodes_def)

lemma file_store_limit: "file_limit file_store = 282025808412672"
  by (simp add: file_limit_def file_store_size max_blocks_def)

lemma demo_blocks_for: "n \<le> 4096 \<Longrightarrow> blocks_for file_store n \<le> 1"
  by (simp add: blocks_for_def file_store_size)

section \<open>A file with contents, open in a table\<close>

text \<open>The demo device under any state around it.\<close>

lemma mounted_dense:
  "dense plain_ext V (tl demo_inodes) demo_blocks (demo_file, mounted file_store)"
  "contents V (demo_file, mounted file_store) = []"
proof -
  have m: "dev (mounted file_store) = dev file_store" "sb (mounted file_store) = sb file_store"
    by (simp_all add: mounted_def)
  have ok: "store_ok plain_ext (mounted file_store) (tl demo_inodes) demo_blocks"
    using file_store_ok store_ok_dev [OF m] by blast
  have "pcount (mounted file_store) ^ 4 < u64_limit"
    using file_store_size m by (simp add: pcount_def)
  from fresh_dense [OF ok this demo_blank_inode] show
    "dense plain_ext V (tl demo_inodes) demo_blocks (demo_file, mounted file_store)"
    "contents V (demo_file, mounted file_store) = []" by (simp_all add: demo_file_def)
qed

lemma demo_room:
  "f_pos demo_file \<le> i_size (f_inode demo_file)"
  "f_pos demo_file + length [7 :: byte, 8, 9] \<le> file_limit file_store"
  "5 * (blocks_for file_store (f_pos demo_file + length [7 :: byte, 8, 9]) - blocks_for file_store (i_size (f_inode demo_file)))
      < length demo_blocks"
  using demo_blocks_for [of "Suc (Suc (Suc 0))"] by (simp_all add: file_store_limit demo_blocks_def)

lemma demo_write_all: "\<exists>g t. write_all plain_ext [7, 8, 9] (demo_file, file_store) = (Ok (), (g, t))"
proof -
  obtain m g t d' where m: "m \<le> length [7 :: byte, 8, 9]" "write_all plain_ext [7, 8, 9] (demo_file, file_store) =
      (if m = length [7 :: byte, 8, 9] then Ok () else Err (io_error_of_dk Exhausted), (g, t))"
    "stream plain_ext (tl demo_inodes) (\<lambda>_. []) demo_blocks (demo_file, file_store)
      (overwrite (f_pos demo_file) (take m [7, 8, 9]) (contents (\<lambda>_. []) (demo_file, file_store)))
      (f_pos demo_file + m) d' (g, t)"
    "5 * (blocks_for file_store (f_pos demo_file + length [7 :: byte, 8, 9]) - blocks_for file_store (i_size (f_inode demo_file)))
      < length demo_blocks \<longrightarrow> m = length [7 :: byte, 8, 9]"
    by (rule write_all_run [OF demo_dense(1) plain_clock_ok demo_room(1,2)])
  have "m = length [7 :: byte, 8, 9]" using m(4) demo_room(3) by (rule mp)
  then show ?thesis using m(2) by (intro exI) simp
qed

lemma demo_write:
  "\<exists>g t V ds. dk_write plain_ext [7, 8, 9] (demo_file, mounted file_store) = (Ok 3, (g, t))
    \<and> steps_to plain_ext (tl demo_inodes) 5 (\<lambda>_. []) demo_blocks (demo_file, mounted file_store) V ds (g, t)
    \<and> contents V (g, t) = [7, 8, 9] \<and> f_dirty g"
proof -
  let ?s = "mounted file_store"
  have s: "sb ?s = sb file_store" "pcount ?s = 512" using file_store_size by (simp_all add: mounted_def pcount_def)
  then have lim: "file_limit ?s = file_limit file_store" by (simp add: file_limit_def pcount_def)
  have "chunk_len ?s 0 (Suc (Suc (Suc 0))) = 3" using s file_store_size by (simp add: chunk_len_def)
  note len = this
  have "f_pos demo_file \<le> i_size (f_inode demo_file)" "f_pos demo_file + length [7 :: byte, 8, 9] \<le> file_limit ?s"
    by (simp_all add: lim file_store_limit)
  note pos = this
  have "[7 :: byte, 8, 9] \<noteq> []" by simp
  from dk_write_run [OF mounted_dense(1) [of "\<lambda>_. []"] plain_clock_ok pos(1) this pos(2)]
  obtain r g t V ds where w: "dk_write plain_ext [7, 8, 9] (demo_file, ?s) = (r, (g, t))"
    "steps_to plain_ext (tl demo_inodes) 5 (\<lambda>_. []) demo_blocks (demo_file, ?s) V ds (g, t)" "f_dirty g"
    "case r of
      Ok k \<Rightarrow> k = chunk_len ?s (f_pos demo_file) (length [7 :: byte, 8, 9]) \<and> f_pos g = f_pos demo_file + k
        \<and> contents V (g, t) = overwrite (f_pos demo_file) (take k [7, 8, 9]) (contents (\<lambda>_. []) (demo_file, ?s))
    | Err e \<Rightarrow> e = Exhausted \<and> ds = [] \<and> f_pos g = f_pos demo_file
        \<and> contents V (g, t) = contents (\<lambda>_. []) (demo_file, ?s)
    | _ \<Rightarrow> False" by (elim exE conjE)
  have "ds \<noteq> []" using steps_D(7) [OF w(2)] by (auto simp: demo_blocks_def)
  then have "r = Ok 3 \<and> contents V (g, t) = [7, 8, 9]"
    using w(4) len mounted_dense(2) [of "\<lambda>_. []"] by (cases r) (simp_all add: overwrite_def)
  then show ?thesis using w(1-3) by blast
qed

lemma demo_table_room:
  obtains s :: fuse and f V ds where "opened_files s 114514 = Some f" "file_refs s 114514 = 0"
    "114514 = i_ino (f_inode f)" "dense plain_ext V (tl demo_inodes) ds (f, s)" "inode_used (tl demo_inodes) (f, s)"
    "no_attributes f" "f_dirty f" "0 < i_nlink (f_inode f)" "contents V (f, s) = [7, 8, 9]"
    "ds \<noteq> []" "\<not> borrowed s" "block_size (sb s) = 4096"
proof -
  let ?s = "mounted file_store"
  obtain g t V ds where
    w: "steps_to plain_ext (tl demo_inodes) 5 (\<lambda>_. []) demo_blocks (demo_file, ?s) V ds (g, t)"
    "contents V (g, t) = [7, 8, 9]" "f_dirty g"
    using demo_write by blast
  note D = steps_D [OF w(1)]
  note same = same_id_fields [OF D(2)]
  have "store.more t = store.more ?s" by (rule evolves_simps(6) [OF D(3)])
  then have refs: "file_refs t = file_refs ?s" by (cases t) (simp add: mounted_def empty_fuse_def)
  have nb: "\<not> borrowed ?s" by (simp add: mounted_def empty_fuse_def)
  have "ds \<noteq> []" using D(7) by (auto simp: demo_blocks_def)
  note room = this
  have nums: "inode_numbers (sb t) = {114514..<114522}"
    using evolves_simps(4) [OF D(3)] file_store_numbers by (simp add: mounted_def)
  let ?t = "t\<lparr>opened_files := (opened_files t)(114514 \<mapsto> g)\<rparr>"
  have dt: "dev ?t = dev t" "sb ?t = sb t" by simp_all
  show thesis
  proof (rule that [of ?t g V ds])
    show "dense plain_ext V (tl demo_inodes) ds (g, ?t)" using dense_dev(1) [OF dt] D(1) by blast
    show "contents V (g, ?t) = [7, 8, 9]" using dense_dev(2) [OF dt] w(2) by metis
    show "file_refs ?t 114514 = 0" using refs by (simp add: mounted_def empty_fuse_def)
    show "no_attributes g" using same(4,5) demo_file_simps(5) unfolding no_attributes_def by simp
    show "0 < i_nlink (f_inode g)" using same(3) by simp
    show "inode_used (tl demo_inodes) (g, ?t)"
      using nums same(2) by (simp add: inode_used_def demo_inodes_def)
    show "114514 = i_ino (f_inode g)" using same(2) by simp
    show "\<not> borrowed ?t"
      using nb \<open>store.more t = store.more ?s\<close> by (cases t) (simp add: mounted_def empty_fuse_def)
    show "ds \<noteq> []" by (rule room)
    show "block_size (sb ?t) = 4096" using D(4) file_store_size by (simp add: mounted_def)
  qed (use w(3) in simp_all)
qed

lemma demo_table:
  obtains s :: fuse and f V ds where "opened_files s 114514 = Some f" "file_refs s 114514 = 0"
    "114514 = i_ino (f_inode f)" "dense plain_ext V (tl demo_inodes) ds (f, s)" "inode_used (tl demo_inodes) (f, s)"
    "no_attributes f" "f_dirty f" "0 < i_nlink (f_inode f)" "contents V (f, s) = [7, 8, 9]" "block_size (sb s) = 4096"
  using demo_table_room by metis

end
