(* ===== verification/DirStream.thy ===== *)
theory DirStream
  imports FileStream Dirs
begin

text \<open>
  What the two buffers of Dirs do to the bytes of the file under them: a \<open>BufWriter\<close> holds the end of
  what has been written and a \<open>BufReader\<close> the beginning of what is still to be read.  So the
  entries that \<open>write_dir\<close> writes are the entries that \<open>read_dir\<close> reads.
\<close>

section \<open>Writing behind a buffer\<close>

text \<open>
  \<open>writer X is V ds fs C N A gt\<close>: from a file with the contents \<open>C\<close> at position 0 the state \<open>gt\<close> has been
  reached by writing \<open>A\<close>, and there are free blocks enough to go on to \<open>N\<close> bytes.
\<close>

definition writer ::
  "ext \<Rightarrow> nat list \<Rightarrow> (nat \<Rightarrow> nat list) \<Rightarrow> nat list \<Rightarrow> dkfile \<times> 'z store_scheme \<Rightarrow> byte list \<Rightarrow> nat \<Rightarrow> byte list \<Rightarrow>
   dkfile \<times> 'z store_scheme \<Rightarrow> bool" where
  "writer X is V ds fs C N A gt \<longleftrightarrow> N \<le> file_limit (snd fs) \<and> (A \<noteq> [] \<longrightarrow> f_dirty (fst gt))
     \<and> (\<exists>d. stream X is V ds fs (overwrite 0 A C) (length A) d gt
     \<and> 5 * blocks_for (snd fs) N < d + 5 * blocks_for (snd fs) (length (overwrite 0 A C)))"

lemma stream_write_dirty:
  assumes "stream X is V ds (f0, s0) C pos d gt" "pos \<le> length C" "buf \<noteq> []" "pos + length buf \<le> file_limit s0"
  shows "f_dirty (fst (snd (io_write X buf gt)))"
proof -
  obtain g t V' ds' k where st: "gt = (g, t)" "clock_ok X" "steps_to X is k V ds (f0, s0) V' ds' (g, t)"
    "contents V' (g, t) = C" "f_pos g = pos" using assms(1) by (elim streamE)
  have "length C = i_size (f_inode g)" using st(4) by auto
  then have "f_pos g \<le> i_size (f_inode g)" "f_pos g + length buf \<le> file_limit t"
    using assms(2,4) st(5) steps_D(5) [OF st(3)] by simp_all
  from dk_write_run [OF steps_D(1) [OF st(3)] st(2) this(1) assms(3) this(2)] obtain r h u
    where "dk_write X buf (g, t) = (r, (h, u))" "f_dirty h" by metis
  then show ?thesis by (simp add: st(1) io_write_def map_err_def)
qed

lemma writer_put:
  assumes "writer X is V ds (f0, s0) C N A gt" "buf \<noteq> []" "length A + length buf \<le> N"
  obtains k gt' where "0 < k" "k \<le> length buf" "io_write X buf gt = (Ok k, gt')"
    "writer X is V ds (f0, s0) C N (A @ take k buf) gt'"
proof -
  let ?C = "overwrite 0 A C" and ?at = "stream X is V ds (f0, s0)" and ?need = "blocks_for s0"
  define k where "k = chunk_len s0 (length A) (length buf)"
  obtain d where d: "?at ?C (length A) d gt" "5 * ?need N < d + 5 * ?need (length ?C)"
    and N: "N \<le> file_limit s0"
    using assms(1) by (auto simp: writer_def)
  have k: "0 < k" "k \<le> length buf" using io.chunk(1) [OF d(1), of "length buf"] io.chunk(2) assms(2) by (simp_all add: k_def)
  have len: "length ?C = max (length C) (length A)" by (simp add: length_overwrite)
  have le: "length A \<le> length ?C" "length A + length buf \<le> file_limit s0" using N assms(3) by (simp_all add: len)
  have C': "overwrite (length A) (take k buf) ?C = overwrite 0 (A @ take k buf) C"
    using overwrite_overwrite [of 0 C A "take k buf"] by simp
  from io.write_step [OF d(1) le(1) assms(2) le(2)] consider
      (Ok) gt' d' where "io_write X buf gt = (Ok k, gt')"
        "d + 5 * ?need (length ?C) \<le> d' + 5 * ?need (max (length ?C) (length A + k))"
        "?at (overwrite (length A) (take k buf) ?C) (length A + k) d' gt'"
    | (Full) "d \<le> 5" "?need (length ?C) < ?need (length A + length buf)"
    unfolding k_def by blast
  then show thesis
  proof cases
    case Ok
    have "length (overwrite 0 (A @ take k buf) C) = max (length ?C) (length A + k)"
      using k(2) by (simp add: length_overwrite len)
    moreover have "f_dirty (fst gt')" using stream_write_dirty [OF d(1) le(1) assms(2) le(2)] Ok(1) by simp
    ultimately have "writer X is V ds (f0, s0) C N (A @ take k buf) gt'"
      unfolding writer_def using N Ok(2,3) d(2) k(2) C' by (auto intro!: exI [of _ d'])
    then show ?thesis using that k Ok(1) by blast
  next
    case Full
    have "?need (length A + length buf) \<le> ?need N" by (rule io.need [OF d(1) assms(3)])
    then show ?thesis using Full d(2) by linarith
  qed
qed

lemma on_io_Ok: "m gt = (Ok a, gt') \<Longrightarrow> on_io m (b, gt) = (Ok a, (b, gt'))"
  by (simp add: on_io_def)

lemma buf_simps [simp]:
  "bnd get_buf h (b, gt) = h b (b, gt)" "bnd (set_buf b') h' (b, gt) = h' () (b', gt)"
  by (simp_all add: get_buf_def set_buf_def bnd_def gets_def modify_def)

lemma flush_buf_run:
  assumes "writer X is V ds (f0, s0) C N A gt" "length A + length b \<le> N"
  obtains gt' where "flush_buf X (b, gt) = (Ok (), ([], gt'))" "writer X is V ds (f0, s0) C N (A @ b) gt'"
proof -
  have "\<exists>gt'. flush_buf_loop X n (b, gt) = (Ok (), ([], gt')) \<and> writer X is V ds (f0, s0) C N (A @ b) gt'"
    if "length b \<le> n" for n using that assms
  proof (induction n arbitrary: b A gt)
    case 0
    then show ?case by (simp add: ret_def)
  next
    case (Suc n)
    show ?case
    proof (cases "b = []")
      case True
      then show ?thesis using Suc.prems(2) by (simp add: ret_def)
    next
      case False
      obtain k gt1 where k: "0 < k" "k \<le> length b" "io_write X b gt = (Ok k, gt1)"
        "writer X is V ds (f0, s0) C N (A @ take k b) gt1"
        by (rule writer_put [OF Suc.prems(2) False Suc.prems(3)])
      have "length (drop k b) \<le> n" "length (A @ take k b) + length (drop k b) \<le> N"
        using k(1,2) Suc.prems(1,3) by auto
      from Suc.IH [OF this(1) k(4) this(2)] show ?thesis
        using False k(1) by (simp add: bnd_Ok on_io_Ok [of "io_write X b", OF k(3)])
    qed
  qed
  then show thesis using that unfolding flush_buf_def by (metis buf_simps(1) order_refl)
qed

lemma bw_write_run:
  assumes "writer X is V ds (f0, s0) C N A gt" "p \<noteq> []" "length A + length b + length p \<le> N"
  obtains k A' b' gt' where "0 < k" "k \<le> length p" "bw_write X p (b, gt) = (Ok k, (b', gt'))"
    "A' @ b' = A @ b @ take k p" "writer X is V ds (f0, s0) C N A' gt'"
proof -
  obtain A1 b1 gt1 where pre: "(if BUF_SIZE < length b + length p then flush_buf X else ret ()) (b, gt) = (Ok (), (b1, gt1))"
    "writer X is V ds (f0, s0) C N A1 gt1" "A1 @ b1 = A @ b" "BUF_SIZE \<le> length p \<longrightarrow> b1 = []"
  proof (cases "BUF_SIZE < length b + length p")
    case True
    have "length A + length b \<le> N" using assms(3) by simp
    from flush_buf_run [OF assms(1) this] obtain gt1 where
      "flush_buf X (b, gt) = (Ok (), ([], gt1))" "writer X is V ds (f0, s0) C N (A @ b) gt1" .
    then show ?thesis using True by (intro that [of "[]" gt1 "A @ b"]) simp_all
  next
    case False
    then have "BUF_SIZE \<le> length p \<longrightarrow> b = []" by (cases b) auto
    then show ?thesis using False assms(1) by (intro that [of b gt A]) (simp_all add: ret_def)
  qed
  have len: "length A1 + length b1 + length p \<le> N" using assms(3) arg_cong [OF pre(3), of length] by simp
  show thesis
  proof (cases "BUF_SIZE \<le> length p")
    case True
    then have b1: "b1 = []" "A1 = A @ b" using pre(3,4) by simp_all
    have "length A1 + length p \<le> N" using len by simp
    from writer_put [OF pre(2) assms(2) this] obtain k gt2 where k: "0 < k" "k \<le> length p"
      "io_write X p gt1 = (Ok k, gt2)" "writer X is V ds (f0, s0) C N (A1 @ take k p) gt2" .
    have "bw_write X p (b, gt) = (Ok k, ([], gt2))"
      unfolding bw_write_def buf_simps bnd_Ok [of "if BUF_SIZE < length b + length p then flush_buf X else ret ()", OF pre(1)] if_P [OF True] unfolding b1 by (rule on_io_Ok [of "io_write X p", OF k(3)])
    then show ?thesis using that [of k "[]" gt2] k b1 by simp
  next
    case False
    have "bw_write X p (b, gt) = (Ok (length p), (b1 @ p, gt1))"
      unfolding bw_write_def buf_simps bnd_Ok [of "if BUF_SIZE < length b + length p then flush_buf X else ret ()", OF pre(1)] if_not_P [OF False] by (simp add: ret_def)
    then show ?thesis using that [of "length p" "b1 @ p" gt1 A1] assms(2) pre(2,3) by simp
  qed
qed

lemma bw_write_all_run:
  assumes "writer X is V ds (f0, s0) C N A gt" "length A + length b + length p \<le> N"
  obtains A' b' gt' where "bw_write_all X p (b, gt) = (Ok (), (b', gt'))" "A' @ b' = A @ b @ p"
    "writer X is V ds (f0, s0) C N A' gt'"
proof -
  have "\<exists>A' b' gt'. bw_write_all_loop X n p (b, gt) = (Ok (), (b', gt')) \<and> A' @ b' = A @ b @ p
    \<and> writer X is V ds (f0, s0) C N A' gt'" if "length p \<le> n" for n using that assms
  proof (induction n arbitrary: p b A gt)
    case 0
    then show ?case by (auto simp: ret_def)
  next
    case (Suc n)
    show ?case
    proof (cases "p = []")
      case True
      then show ?thesis using Suc.prems(2) by (auto simp: ret_def)
    next
      case False
      obtain k A1 b1 gt1 where k: "0 < k" "k \<le> length p" "bw_write X p (b, gt) = (Ok k, (b1, gt1))"
        "A1 @ b1 = A @ b @ take k p" "writer X is V ds (f0, s0) C N A1 gt1"
        by (rule bw_write_run [OF Suc.prems(2) False Suc.prems(3)])
      have "length A1 + length b1 = length A + length b + k" using arg_cong [OF k(4), of length] k(2) by simp
      then have "length (drop k p) \<le> n" "length A1 + length b1 + length (drop k p) \<le> N"
        using k(1,2) Suc.prems(1,3) by auto
      from Suc.IH [OF this(1) k(5) this(2)] obtain A' b' gt' where
        "bw_write_all_loop X n (drop k p) (b1, gt1) = (Ok (), (b', gt'))" "A' @ b' = A1 @ b1 @ drop k p"
        "writer X is V ds (f0, s0) C N A' gt'" by blast
      moreover have "A1 @ b1 @ drop k p = A @ b @ p" using k(4) by (metis append.assoc append_take_drop_id)
      ultimately show ?thesis using False k(1) by (auto simp: bnd_Ok [of "bw_write X p", OF k(3)])
    qed
  qed
  then show thesis using that unfolding bw_write_all_def by blast
qed

lemma serialize_into_run:
  assumes "writer X is V ds (f0, s0) C N A gt" "length A + length b + length (concat ps) \<le> N"
  obtains A' b' gt' where "serialize_into X ps (b, gt) = (Ok (), (b', gt'))" "A' @ b' = A @ b @ concat ps"
    "writer X is V ds (f0, s0) C N A' gt'"
proof -
  have "\<exists>A' b' gt'. serialize_into X ps (b, gt) = (Ok (), (b', gt')) \<and> A' @ b' = A @ b @ concat ps
    \<and> writer X is V ds (f0, s0) C N A' gt'" using assms
  proof (induction ps arbitrary: A b gt)
    case Nil
    then show ?case by (auto simp: ret_def)
  next
    case (Cons p ps)
    have "length A + length b + length p \<le> N" using Cons.prems(2) by simp
    from bw_write_all_run [OF Cons.prems(1) this] obtain A1 b1 gt1 where
      w: "bw_write_all X p (b, gt) = (Ok (), (b1, gt1))" "A1 @ b1 = A @ b @ p" "writer X is V ds (f0, s0) C N A1 gt1" .
    have "length A1 + length b1 + length (concat ps) \<le> N" using arg_cong [OF w(2), of length] Cons.prems(2) by simp
    from Cons.IH [OF w(3) this] obtain A' b' gt' where
      r: "serialize_into X ps (b1, gt1) = (Ok (), (b', gt'))" "A' @ b' = A1 @ b1 @ concat ps"
      "writer X is V ds (f0, s0) C N A' gt'" by blast
    have "serialize_into X (p # ps) (b, gt) = (Ok (), (b', gt'))"
      using r(1) by (simp add: bnd_def map_err_def w(1))
    moreover have "A1 @ b1 @ concat ps = A @ b @ concat (p # ps)" using w(2) by (metis append.assoc concat.simps(2))
    ultimately show ?case using r(2,3) by metis
  qed
  then show thesis using that by blast
qed

section \<open>The bytes of a directory\<close>

definition entry_bytes :: "ext \<Rightarrow> os_string \<times> nat \<Rightarrow> byte list" where
  "entry_bytes X e = enc_int X 8 (snd e) @ concat (enc_str X (fst e))"

definition dir_bytes :: "ext \<Rightarrow> nat omap \<Rightarrow> byte list" where
  "dir_bytes X es = concat (map (entry_bytes X) es) @ enc_int X 8 (ROOT_INODE - 1)"

lemma entries_Cons:
  "concat (map (entry_bytes X) ((name, ino) # es)) =
   concat [enc_int X 8 ino] @ concat (enc_str X name) @ concat (map (entry_bytes X) es)"
  by (simp add: entry_bytes_def)

lemma write_entries_run:
  assumes "writer X is V ds (f0, s0) C N A gt" "length A + length b + length (concat (map (entry_bytes X) es)) \<le> N"
  shows "\<exists>A' b' gt'. write_entries X es (b, gt) = (Ok (), (b', gt')) \<and> A' @ b' = A @ b @ concat (map (entry_bytes X) es)
    \<and> writer X is V ds (f0, s0) C N A' gt'"
  using assms
proof (induction es arbitrary: A b gt)
  case Nil
  then show ?case by (auto simp: ret_def)
next
  case (Cons e es)
  obtain name ino where e: "e = (name, ino)" by fastforce
  have "length A + length b + length (concat [enc_int X 8 ino]) \<le> N"
    using Cons.prems(2) unfolding e entries_Cons length_append by linarith
  from serialize_into_run [OF Cons.prems(1) this] obtain A1 b1 gt1 where
    w1: "serialize_into X [enc_int X 8 ino] (b, gt) = (Ok (), (b1, gt1))" "A1 @ b1 = A @ b @ concat [enc_int X 8 ino]"
    "writer X is V ds (f0, s0) C N A1 gt1" .
  note l1 = arg_cong [OF w1(2), of length]
  have "length A1 + length b1 + length (concat (enc_str X name)) \<le> N"
    using Cons.prems(2) l1 unfolding e entries_Cons length_append by linarith
  from serialize_into_run [OF w1(3) this] obtain A2 b2 gt2 where
    w2: "serialize_into X (enc_str X name) (b1, gt1) = (Ok (), (b2, gt2))" "A2 @ b2 = A1 @ b1 @ concat (enc_str X name)"
    "writer X is V ds (f0, s0) C N A2 gt2" .
  note l2 = arg_cong [OF w2(2), of length]
  have "length A2 + length b2 + length (concat (map (entry_bytes X) es)) \<le> N"
    using Cons.prems(2) l1 l2 unfolding e entries_Cons length_append by linarith
  from Cons.IH [OF w2(3) this] obtain A' b' gt' where
    w3: "write_entries X es (b2, gt2) = (Ok (), (b', gt'))" "A' @ b' = A2 @ b2 @ concat (map (entry_bytes X) es)"
    "writer X is V ds (f0, s0) C N A' gt'" by blast
  have "write_entries X (e # es) (b, gt) = (Ok (), (b', gt'))"
    unfolding write_entries.simps e prod.case bnd_Ok [of "serialize_into X [enc_int X 8 ino]", OF w1(1)]
      bnd_Ok [of "serialize_into X (enc_str X name)", OF w2(1)] by (rule w3(1))
  moreover have "A2 @ b2 @ concat (map (entry_bytes X) es) = A @ b @ concat (map (entry_bytes X) (e # es))"
  proof -
    have "A2 @ b2 @ z = A1 @ b1 @ concat (enc_str X name) @ z" for z using w2(2) by (metis append.assoc)
    moreover have "A1 @ b1 @ z = A @ b @ enc_int X 8 ino @ z" for z using w1(2) by simp
    ultimately show ?thesis unfolding e entries_Cons by simp
  qed
  ultimately show ?case using w3(2,3) by metis
qed

lemma write_dir_run:
  assumes "dense X V is ds (f, s)" "clock_ok X" "length (dir_bytes X es) \<le> file_limit s"
    "5 * blocks_for s (length (dir_bytes X es)) < length ds + 5 * blocks_for s (i_size (f_inode f))" "codec_ok X"
  obtains d g t where "write_dir X es (f, s) = (Ok (), (g, t))"
    "stream X is V ds (f, s) (overwrite 0 (dir_bytes X es) (contents V (f, s))) (length (dir_bytes X es)) d (g, t)" "f_dirty g"
proof -
  let ?f = "f\<lparr>f_pos := 0\<rparr>" and ?W = "dir_bytes X es" and ?C = "contents V (f, s)"
  let ?eod = "enc_int X 8 (ROOT_INODE - 1)"
  have lenC: "length ?C = i_size (f_inode f)" by simp
  have W: "?W = concat (map (entry_bytes X) es) @ concat [?eod]" by (simp add: dir_bytes_def)
  have "stream X is V ds (f, s) ?C 0 (length ds) (?f, s)" by (rule stream_seek [OF stream_start [OF assms(1,2)]])
  then have w0: "writer X is V ds (f, s) ?C (length ?W) [] (?f, s)"
    unfolding writer_def using assms(3,4) lenC by (auto simp: overwrite_Nil)
  have "length [] + length [] + length (concat (map (entry_bytes X) es)) \<le> length ?W" by (simp add: W)
  from write_entries_run [OF w0 this] obtain A1 b1 gt1 where
    w1: "write_entries X es ([], (?f, s)) = (Ok (), (b1, gt1))" "A1 @ b1 = concat (map (entry_bytes X) es)"
    "writer X is V ds (f, s) ?C (length ?W) A1 gt1" by auto
  have "length A1 + length b1 + length (concat [?eod]) \<le> length ?W"
    using arg_cong [OF w1(2), of length] by (simp add: W)
  from serialize_into_run [OF w1(3) this] obtain A2 b2 gt2 where
    w2: "serialize_into X [?eod] (b1, gt1) = (Ok (), (b2, gt2))" "A2 @ b2 = A1 @ b1 @ concat [?eod]"
    "writer X is V ds (f, s) ?C (length ?W) A2 gt2" .
  have w2': "serialize_into X [enc_int X 8 114513] (b1, gt1) = (Ok (), (b2, gt2))"
    using w2(1) by (simp del: serialize_into.simps)
  have W2: "A2 @ b2 = ?W" using w1(2) w2(2) by (simp add: W)
  then have "length A2 + length b2 \<le> length ?W" by (metis length_append order_refl)
  from flush_buf_run [OF w2(3) this] obtain gt3 where
    w3: "flush_buf X (b2, gt2) = (Ok (), ([], gt3))" "writer X is V ds (f, s) ?C (length ?W) ?W gt3"
    unfolding W2 .
  obtain g t where gt3: "gt3 = (g, t)" by fastforce
  have "length ?eod = 8" using assms(5) by simp
  then have "?W \<noteq> []" by (auto simp: dir_bytes_def)
  then obtain d where "stream X is V ds (f, s) (overwrite 0 ?W ?C) (length ?W) d (g, t)" "f_dirty g"
    using w3(2) by (auto simp: writer_def gt3)
  moreover have "write_dir X es (f, s) = (Ok (), (g, t))"
    by (simp add: write_dir_def bnd_def map_err_def seek_start with_buf_def bw_drop_def attempt_def w1(1) w2' w3(1) gt3 ret_def
      del: serialize_into.simps)
  ultimately show thesis using that by blast
qed

section \<open>Reading through a buffer\<close>

text \<open>
  \<open>reader X is V ds fs C d R (b, gt)\<close>: what is still to be read of a stream with the contents \<open>C\<close> is \<open>R\<close>,
  the beginning of it in the buffer.
\<close>

definition reader ::
  "ext \<Rightarrow> nat list \<Rightarrow> (nat \<Rightarrow> nat list) \<Rightarrow> nat list \<Rightarrow> dkfile \<times> 'z store_scheme \<Rightarrow> byte list \<Rightarrow> nat \<Rightarrow> byte list \<Rightarrow>
   byte list \<times> dkfile \<times> 'z store_scheme \<Rightarrow> bool" where
  "reader X is V ds fs C d R bgt \<longleftrightarrow> (\<exists>pos. stream X is V ds fs C pos d (snd bgt) \<and> R = fst bgt @ drop pos C)"

text \<open>A read of an empty buffer passes on what a read of the file returns.\<close>

lemma reader_io:
  assumes "reader X is V ds (f0, s0) C d R ([], gt)" "0 < n"
  obtains k gt' where "io_read X n gt = (Ok (take k R), gt')" "k \<le> n" "R \<noteq> [] \<longrightarrow> 0 < k" "k \<le> length R"
    "reader X is V ds (f0, s0) C d (drop k R) ([], gt')" "reader X is V ds (f0, s0) C d R (take k R, gt')"
proof -
  obtain pos where pos: "stream X is V ds (f0, s0) C pos d gt" "R = drop pos C"
    using assms(1) by (auto simp: reader_def)
  define c where "c = chunk_len s0 pos n"
  define k where "k = min c (length C - pos)"
  have c: "0 < c" "c \<le> n" using io.chunk(1) [OF pos(1) assms(2)] io.chunk(2) by (simp_all add: c_def)
  obtain gt' where gt': "io_read X n gt = (Ok (take c R), gt')" "stream X is V ds (f0, s0) C (pos + k) d gt'"
    using io.read [OF pos(1), of n] unfolding c_def k_def pos(2) by blast
  have "take k R = take c R" using take_upto_length [of c R c] by (simp add: k_def pos(2) min.commute)
  moreover have "drop (pos + k) C = drop k R" by (simp add: pos(2) add.commute)
  then have "reader X is V ds (f0, s0) C d (drop k R) ([], gt')" "reader X is V ds (f0, s0) C d R (take k R, gt')"
    using gt'(2) by (auto simp: reader_def intro!: exI [of _ "pos + k"])
  ultimately show thesis
    using gt'(1) c by (intro that [of k gt']) (auto simp: k_def pos(2))
qed

lemma br_read_run:
  assumes "reader X is V ds (f0, s0) C d R (b, gt)" "0 < n"
  obtains k s' where "br_read X n (b, gt) = (Ok (take k R), s')" "k \<le> n" "k \<le> length R" "R \<noteq> [] \<longrightarrow> 0 < k"
    "reader X is V ds (f0, s0) C d (drop k R) s'"
proof (cases "b = []")
  case True
  note r = assms(1) [unfolded True]
  show thesis
  proof (cases "BUF_SIZE \<le> n")
    case True
    from reader_io [OF r assms(2)] obtain k gt' where k: "io_read X n gt = (Ok (take k R), gt')" "k \<le> n"
      "R \<noteq> [] \<longrightarrow> 0 < k" "k \<le> length R" "reader X is V ds (f0, s0) C d (drop k R) ([], gt')" .
    have "br_read X n (b, gt) = (Ok (take k R), ([], gt'))"
      using True \<open>b = []\<close> by (simp add: br_read_def on_io_def k(1))
    then show thesis using that k by blast
  next
    case False
    have "0 < BUF_SIZE" by simp
    from reader_io [OF r this] obtain k gt' where k: "io_read X BUF_SIZE gt = (Ok (take k R), gt')"
      "R \<noteq> [] \<longrightarrow> 0 < k" "k \<le> length R" "reader X is V ds (f0, s0) C d R (take k R, gt')" .
    have "br_read X n (b, gt) = (Ok (take (min n k) R), (drop n (take k R), gt'))"
      using False \<open>b = []\<close> k(1) by (simp add: br_read_def fill_buf_def on_io_def bnd_def get_buf_def set_buf_def gets_def modify_def ret_def)
    moreover have "reader X is V ds (f0, s0) C d (drop (min n k) R) (drop n (take k R), gt')"
    proof -
      obtain pos where pos: "stream X is V ds (f0, s0) C pos d gt'" "R = take k R @ drop pos C"
        using k(4) by (auto simp: reader_def)
      have "drop (min n k) R = drop n (take k R) @ drop pos C"
      proof (cases "n \<le> k")
        case True
        then show ?thesis using k(3) arg_cong [OF pos(2), of "drop n"] by simp
      next
        case False
        then show ?thesis using k(3) arg_cong [OF pos(2), of "drop k"] by simp
      qed
      then show ?thesis using pos(1) by (auto simp: reader_def)
    qed
    ultimately show thesis using that [of "min n k"] k(2,3) assms(2) by simp
  qed
next
  case False
  obtain pos where pos: "stream X is V ds (f0, s0) C pos d gt" "R = b @ drop pos C"
    using assms(1) by (auto simp: reader_def)
  have "br_read X n (b, gt) = (Ok (take (min n (length b)) R), (drop n b, gt))"
    using False pos(2) by (simp add: br_read_def fill_buf_def bnd_def get_buf_def set_buf_def gets_def modify_def ret_def min_def)
  moreover have "reader X is V ds (f0, s0) C d (drop (min n (length b)) R) (drop n b, gt)"
    using pos by (auto simp: reader_def min_def)
  ultimately show thesis using that [of "min n (length b)"] False assms(2) pos(2) by simp
qed

lemma br_exact_run:
  assumes "reader X is V ds (f0, s0) C d R bgt" "n \<le> length R"
  obtains s' where "br_exact X n bgt = (Ok (take n R), s')" "reader X is V ds (f0, s0) C d (drop n R) s'"
proof -
  have "\<exists>s'. br_exact_loop X k n bgt = (Ok (take n R), s') \<and> reader X is V ds (f0, s0) C d (drop n R) s'"
    if "n \<le> k" for k using that assms
  proof (induction k arbitrary: n R bgt)
    case 0
    then show ?case by (auto simp: ret_def)
  next
    case (Suc k)
    show ?case
    proof (cases "n = 0")
      case True
      then show ?thesis using Suc.prems(2) by (auto simp: ret_def)
    next
      case False
      obtain b gt where bgt: "bgt = (b, gt)" by (cases bgt)
      have n: "0 < n" and R: "R \<noteq> []" using False Suc.prems(3) by auto
      obtain j s1 where j: "br_read X n (b, gt) = (Ok (take j R), s1)" "j \<le> n" "j \<le> length R" "R \<noteq> [] \<longrightarrow> 0 < j"
        "reader X is V ds (f0, s0) C d (drop j R) s1"
        by (rule br_read_run [OF Suc.prems(2) [unfolded bgt] n])
      have "n - j \<le> k" "n - j \<le> length (drop j R)" using j(2-4) R Suc.prems(1,3) by auto
      from Suc.IH [OF this(1) j(5) this(2)] obtain s' where
        s': "br_exact_loop X k (n - j) s1 = (Ok (take (n - j) (drop j R)), s')"
        "reader X is V ds (f0, s0) C d (drop (n - j) (drop j R)) s'" by blast
      have "take j R @ take (n - j) (drop j R) = take n R" using j(2) take_add [of j "n - j" R] by simp
      then show ?thesis
        using False j(1-4) R s' by (simp add: bgt bnd_def map_err_def ret_def min_absorb2)
    qed
  qed
  then show thesis using that unfolding br_exact_def by blast
qed

text \<open>So a decoder finds in the file what it finds in the bytes that are still to be read.\<close>

lemma run_decoder_run:
  assumes "run_decoder take_exact D R = (Ok a, R')" "reader X is V ds (f0, s0) C d R bgt"
  shows "\<exists>s'. run_decoder (br_exact X) D bgt = (Ok a, s') \<and> reader X is V ds (f0, s0) C d R' s'"
  using assms
proof (induction D arbitrary: R bgt)
  case (Need n k)
  note run = Need.prems(1) [unfolded run_decoder.simps]
  have n: "n \<le> length R" using run by (cases "n \<le> length R") (simp_all add: bnd_def take_exact_def)
  then have "take_exact n R = (Ok (take n R), drop n R)" by (simp add: take_exact_def)
  from run [unfolded bnd_Ok [of "take_exact n", OF this]]
  have r: "run_decoder take_exact (k (take n R)) (drop n R) = (Ok a, R')" .
  obtain s1 where s1: "br_exact X n bgt = (Ok (take n R), s1)" "reader X is V ds (f0, s0) C d (drop n R) s1"
    by (rule br_exact_run [OF Need.prems(2) n])
  from Need.IH [OF _ r s1(2)] show ?case by (simp add: bnd_def s1(1))
qed (simp_all add: ret_def fail_def)

lemma deserialize_run:
  assumes "run_decoder take_exact D R = (Ok a, R')" "reader X is V ds (f0, s0) C d R bgt"
  obtains s' where "deserialize_from X D bgt = (Ok a, s')" "reader X is V ds (f0, s0) C d R' s'"
  using run_decoder_run [OF assms] that by (auto simp: deserialize_from_def map_err_def)

lemma run_dec_u64: "codec_ok X \<Longrightarrow> n < u64_limit \<Longrightarrow> run_decoder take_exact (dec_u64 X) (enc_int X 8 n @ r) = (Ok n, r)"
  by (simp add: dec_u64_def bnd_def take_exact_def ret_def)

section \<open>The entries of a directory\<close>

definition entries_ok :: "nat omap \<Rightarrow> bool" where
  "entries_ok es \<longleftrightarrow> om_valid es \<and> (\<forall>(name, ino) \<in> set es. ROOT_INODE \<le> ino \<and> ino < u64_limit \<and> length name < u64_limit)"

lemma read_entries_run:
  assumes "codec_ok X" "\<forall>(name, ino) \<in> set es. ROOT_INODE \<le> ino \<and> ino < u64_limit \<and> length name < u64_limit"
    "reader X is V ds (f0, s0) C d (dir_bytes X es @ r) bgt" "length es < k"
  shows "\<exists>s'. read_entries X k m bgt = (Ok (fold (\<lambda>(n, i). om_insert n i) es m), s')
    \<and> reader X is V ds (f0, s0) C d r s'"
  using assms(2-4)
proof (induction es arbitrary: k m bgt)
  case Nil
  then obtain k' where k: "k = Suc k'" by (cases k) auto
  have R: "run_decoder take_exact (dec_u64 X) (dir_bytes X [] @ r) = (Ok (ROOT_INODE - 1), r)"
    unfolding dir_bytes_def list.map concat.simps append_Nil by (rule run_dec_u64 [OF assms(1)]) simp
  obtain s' where "deserialize_from X (dec_u64 X) bgt = (Ok (ROOT_INODE - 1), s')" "reader X is V ds (f0, s0) C d r s'"
    by (rule deserialize_run [OF R Nil.prems(2)])
  then show ?case by (simp add: k bnd_def ret_def)
next
  case (Cons e es)
  obtain k' where k: "k = Suc k'" "length es < k'" using Cons.prems(3) by (cases k) auto
  obtain name ino where e: "e = (name, ino)" by fastforce
  have ok: "ROOT_INODE \<le> ino" "ino < u64_limit" "length name < u64_limit" using Cons.prems(1) by (simp_all add: e)
  let ?R = "concat (enc_str X name) @ dir_bytes X es @ r"
  have "dir_bytes X (e # es) @ r = enc_int X 8 ino @ ?R" by (simp add: dir_bytes_def e entry_bytes_def)
  note r0 = Cons.prems(2) [unfolded this]
  from deserialize_run [OF run_dec_u64 [OF assms(1) ok(2)] r0] obtain s1 where
    s1: "deserialize_from X (dec_u64 X) bgt = (Ok ino, s1)" "reader X is V ds (f0, s0) C d ?R s1" .
  from deserialize_run [OF codec_str [OF assms(1) ok(3)] s1(2)] obtain s2 where
    s2: "deserialize_from X (dec_str X) s1 = (Ok name, s2)" "reader X is V ds (f0, s0) C d (dir_bytes X es @ r) s2" .
  have "\<forall>(name, ino) \<in> set es. ROOT_INODE \<le> ino \<and> ino < u64_limit \<and> length name < u64_limit"
    using Cons.prems(1) by simp
  from Cons.IH [OF this s2(2) k(2), of "om_insert name ino m"] obtain s' where
    s': "read_entries X k' (om_insert name ino m) s2 = (Ok (fold (\<lambda>(n, i). om_insert n i) es (om_insert name ino m)), s')"
    "reader X is V ds (f0, s0) C d r s'" by blast
  have "read_entries X k m bgt = read_entries X k' (om_insert name ino m) s2"
    unfolding k(1) read_entries.simps bnd_Ok [of "deserialize_from X (dec_u64 X)", OF s1(1)] if_P [OF ok(1)]
      bnd_Ok [of "deserialize_from X (dec_str X)", OF s2(1)] ..
  then show ?case using s' by (simp add: e)
qed

lemma length_dir_bytes: "codec_ok X \<Longrightarrow> length es < length (dir_bytes X es)"
proof -
  assume c: "codec_ok X"
  have "length es \<le> length (concat (map (entry_bytes X) es))"
    by (induction es) (simp_all add: entry_bytes_def c)
  then show ?thesis by (simp add: dir_bytes_def c)
qed

lemma read_dir_run:
  assumes "stream X is V ds (f0, s0) C 0 d (g, t)" "codec_ok X" "entries_ok es" "C = dir_bytes X es @ r"
  obtains s' where "read_dir X [] (g, t) = (Ok es, s')" "\<exists>pos. stream X is V ds (f0, s0) C pos d s'"
proof -
  have size: "i_size (f_inode g) = length C" using streamE [OF assms(1)] by (metis length_contents prod.inject)
  have len: "length es < length C" using length_dir_bytes [OF assms(2), of es] by (simp add: assms(4))
  have rd: "reader X is V ds (f0, s0) C d (dir_bytes X es @ r) ([], (g, t))"
    using assms(1) by (auto simp: reader_def assms(4) intro!: exI [of _ 0])
  have ok: "\<forall>(name, ino) \<in> set es. ROOT_INODE \<le> ino \<and> ino < u64_limit \<and> length name < u64_limit" "om_valid es"
    using assms(3) unfolding entries_ok_def by blast+
  have "length es < Suc (length C)" using len by simp
  from read_entries_run [OF assms(2) ok(1) rd this, of "[]"] obtain s' where
    s': "read_entries X (Suc (length C)) [] ([], (g, t)) = (Ok (fold (\<lambda>(n, i). om_insert n i) es []), s')"
    "reader X is V ds (f0, s0) C d r s'" by blast
  have "read_dir X [] (g, t) = (Ok es, snd s')"
    using len s'(1) om.rebuild [OF ok(2)] by (cases s') (auto simp: read_dir_def bnd_def size with_buf_def get_file_def gets_def)
  then show thesis using that s'(2) by (auto simp: reader_def)
qed

end
