(* ===== verification/DirLife.thy ===== *)
theory DirLife
  imports FileLife DirStream
begin

text \<open>
  The life of a directory: when its last handle is dropped, the next \<open>open_dir\<close> writes its entries into
  its file (\<open>close_dirs_in_list\<close>), the file to the device (\<open>close_files_in_list\<close>), and reads both back.
\<close>

section \<open>Writing a directory\<close>

definition dir_room :: "ext \<Rightarrow> nat list \<Rightarrow> nat omap \<Rightarrow> dkfile \<times> 'z store_scheme \<Rightarrow> bool" where
  "dir_room X ds es fs \<longleftrightarrow> length (dir_bytes X es) \<le> file_limit (snd fs)
     \<and> 5 * blocks_for (snd fs) (length (dir_bytes X es)) < length ds + 5 * blocks_for (snd fs) (i_size (f_inode (fst fs)))"

lemma get_dir_Ok: "opened_dirs s k = Some d \<Longrightarrow> get_dir k s = (Ok d, s)"
  by (simp add: get_dir_def unwrap_def ret_def)

lemma flush_dir_run:
  assumes "opened_dirs s k = Some d" "d_dirty d" "opened_files s (d_fh d) = Some f"
    "dense X V is ds (f, s)" "clock_ok X" "codec_ok X" "dir_room X ds (d_entries d) (f, s)"
  obtains n g t V' ds' where
    "flush_dir X k s = (Ok (), t\<lparr>opened_files := (opened_files s)(d_fh d \<mapsto> g),
       opened_dirs := (opened_dirs s)(k \<mapsto> d\<lparr>d_dirty := False\<rparr>)\<rparr>)"
    "store.more t = store.more s" "f_dirty g" "steps_to X is n V ds (f, s) V' ds' (g, t)"
    "contents V' (g, t) = overwrite 0 (dir_bytes X (d_entries d)) (contents V (f, s))"
proof -
  let ?W = "dir_bytes X (d_entries d)"
  have room: "length ?W \<le> file_limit s"
    "5 * blocks_for s (length ?W) < length ds + 5 * blocks_for s (i_size (f_inode f))"
    using assms(7) by (simp_all add: dir_room_def)
  obtain d' g t where w: "write_dir X (d_entries d) (f, s) = (Ok (), (g, t))"
    "stream X is V ds (f, s) (overwrite 0 ?W (contents V (f, s))) (length ?W) d' (g, t)" "f_dirty g"
    by (rule write_dir_run [OF assms(4,5) room assms(6)])
  obtain V' ds' n where st: "steps_to X is n V ds (f, s) V' ds' (g, t)"
    "contents V' (g, t) = overwrite 0 ?W (contents V (f, s))"
    using w(2) by (auto elim: streamE)
  have more: "store.more t = store.more s" by (rule evolves_simps(6) [OF steps_D(3) [OF st(1)]])
  then have of: "opened_files t = opened_files s" "opened_dirs t = opened_dirs s" by (cases s, cases t, simp)+
  have "with_file (d_fh d) (write_dir X (d_entries d)) s = (Ok (), t\<lparr>opened_files := (opened_files s)(d_fh d \<mapsto> g)\<rparr>)"
    using assms(3) by (simp add: with_file_def w(1) of)
  then have "flush_dir X k s = (Ok (), t\<lparr>opened_files := (opened_files s)(d_fh d \<mapsto> g),
       opened_dirs := (opened_dirs s)(k \<mapsto> d\<lparr>d_dirty := False\<rparr>)\<rparr>)"
    using assms(1,2) by (simp add: flush_dir_def bnd_def get_dir_Ok mod_dir_def modify_def of)
  then show thesis by (rule that [OF _ more w(3) st])
qed

section \<open>Reopening a directory\<close>

text \<open>A directory in the table that has no handle any more, and whose file has none but the directory's.\<close>

definition unused_dir :: "nat \<Rightarrow> dkdir \<Rightarrow> dkfile \<Rightarrow> 'z donkey_scheme \<Rightarrow> bool" where
  "unused_dir k d f s \<longleftrightarrow> opened_dirs s k = Some d \<and> dir_refs s k = 0 \<and> d_fh d = k \<and> d_dirty d
     \<and> opened_files s k = Some f \<and> file_refs s k = 1 \<and> i_ino (f_inode f) = k \<and> is_directory (i_mode (f_inode f))
     \<and> no_attributes f \<and> 0 < i_nlink (f_inode f) \<and> close_dirs s = [k] \<and> close_files s = []"

text \<open>Closing such a directory, whatever the lists hold.\<close>

definition closable_dir :: "nat \<Rightarrow> dkdir \<Rightarrow> dkfile \<Rightarrow> 'z donkey_scheme \<Rightarrow> bool" where
  "closable_dir k d f s \<longleftrightarrow> opened_dirs s k = Some d \<and> dir_refs s k = 0 \<and> d_fh d = k \<and> d_dirty d
     \<and> opened_files s k = Some f \<and> file_refs s k = 1 \<and> i_ino (f_inode f) = k"

lemma close_dir_run:
  assumes "closable_dir k d f s" "dense X V is ds (f, s)" "clock_ok X" "codec_ok X" "dir_room X ds (d_entries d) (f, s)"
  obtains n g t V' ds' where
    "close_dir X k s = (Ok (), t\<lparr>opened_files := (opened_files s)(k \<mapsto> g), opened_dirs := (opened_dirs s)(k := None),
       file_refs := (file_refs s)(k := 0), close_files := k # close_files s\<rparr>)"
    "store.more t = store.more s" "f_dirty g" "steps_to X is n V ds (f, s) V' ds' (g, t)"
    "contents V' (g, t) = overwrite 0 (dir_bytes X (d_entries d)) (contents V (f, s))"
proof -
  have u: "opened_dirs s k = Some d" "dir_refs s k = 0" "d_fh d = k" "d_dirty d" "opened_files s k = Some f"
    "file_refs s k = 1" "i_ino (f_inode f) = k"
    using assms(1) by (simp_all add: closable_dir_def)
  have of: "opened_files s (d_fh d) = Some f" using u(3,5) by simp
  obtain n g t V' ds' where t: "flush_dir X k s = (Ok (), t\<lparr>opened_files := (opened_files s)(d_fh d \<mapsto> g),
       opened_dirs := (opened_dirs s)(k \<mapsto> d\<lparr>d_dirty := False\<rparr>)\<rparr>)"
    "store.more t = store.more s" "f_dirty g" "steps_to X is n V ds (f, s) V' ds' (g, t)"
    "contents V' (g, t) = overwrite 0 (dir_bytes X (d_entries d)) (contents V (f, s))"
    by (rule flush_dir_run [OF u(1,4) of assms(2-5)])
  have ft: "file_refs t = file_refs s" "close_files t = close_files s" using t(2) by (cases s, cases t, simp)+
  have gi: "i_ino (f_inode g) = k" using same_id_fields(2) [OF steps_D(2) [OF t(4)]] u(7) by simp
  have unused: "dir_unused k s" using u(1,2) by (simp add: dir_unused_def)
  have "close_dir X k s = (Ok (), t\<lparr>opened_files := (opened_files s)(k \<mapsto> g), opened_dirs := (opened_dirs s)(k := None),
       file_refs := (file_refs s)(k := 0), close_files := k # close_files s\<rparr>)"
    unfolding close_dir_def bnd_gets if_P [OF unused] bnd_Ok [of "flush_dir X k", OF t(1)]
    using u(3,6) by (simp add: bnd_def get_dir_def unwrap_def modify_def drop_file_def gi ft gets_def ret_def)
  then show thesis by (rule that [OF _ t(2-5)])
qed

lemma close_dirs_run:
  assumes "unused_dir k d f s" "dense X V is ds (f, s)" "clock_ok X" "codec_ok X" "dir_room X ds (d_entries d) (f, s)"
  obtains n g t V' ds' where
    "close_dirs_in_list X s = (Ok (), t\<lparr>opened_files := (opened_files s)(k \<mapsto> g), opened_dirs := (opened_dirs s)(k := None),
       file_refs := (file_refs s)(k := 0), close_files := [k]\<rparr>)"
    "store.more t = store.more (s\<lparr>close_dirs := []\<rparr>)" "f_dirty g" "steps_to X is n V ds (f, s\<lparr>close_dirs := []\<rparr>) V' ds' (g, t)"
    "contents V' (g, t) = overwrite 0 (dir_bytes X (d_entries d)) (contents V (f, s))"
proof -
  let ?s = "s\<lparr>close_dirs := []\<rparr>"
  have u: "closable_dir k d f ?s" "close_dirs s = [k]" "close_files ?s = []"
    using assms(1) by (simp_all add: unused_dir_def closable_dir_def)
  have ds: "dev ?s = dev s" "sb ?s = sb s" by simp_all
  have de: "dense X V is ds (f, ?s)" "contents V (f, ?s) = contents V (f, s)" "dir_room X ds (d_entries d) (f, ?s)"
    using assms(2,5) dense_dev [OF ds] by (simp_all add: dir_room_def)
  obtain n g t V' ds' where t: "close_dir X k ?s = (Ok (), t\<lparr>opened_files := (opened_files ?s)(k \<mapsto> g),
       opened_dirs := (opened_dirs ?s)(k := None), file_refs := (file_refs ?s)(k := 0), close_files := k # close_files ?s\<rparr>)"
    "store.more t = store.more ?s" "f_dirty g" "steps_to X is n V ds (f, ?s) V' ds' (g, t)"
    "contents V' (g, t) = overwrite 0 (dir_bytes X (d_entries d)) (contents V (f, ?s))"
    by (rule close_dir_run [OF u(1) de(1) assms(3,4) de(3)])
  let ?t = "t\<lparr>opened_files := (opened_files s)(k \<mapsto> g), opened_dirs := (opened_dirs s)(k := None),
       file_refs := (file_refs s)(k := 0), close_files := [k]\<rparr>"
  have cd: "close_dir X k ?s = (Ok (), ?t)" using t(1) u(3) by simp
  have ft: "close_dirs t = []" using t(2) by (cases s, cases t, simp)
  have "close_dirs_in_list X s = (Ok (), ?t)"
    using u(2) by (simp add: close_dirs_in_list_def bnd_def gets_def pop_close_dir_def cd ft ret_def)
  then show thesis using that t(2-4) t(5) [unfolded de(2)] by blast
qed

text \<open>\<open>open_file\<close> of a file that is only in the list of files to close: it is written and read back.\<close>

lemma open_file_closed:
  assumes "opened_files s k = Some f" "file_refs s k = 0" "k = i_ino (f_inode f)" "close_files s = [k]"
    "dense X V is ds (f, s)" "inode_used is (f, s)" "no_attributes f" "f_dirty f" "0 < i_nlink (f_inode f)" "fl \<noteq> INVALID"
  obtains t where "open_file X k fl s = (Ok \<lparr>fh_key = k, fh_flags = fl\<rparr>,
      t\<lparr>opened_files := (opened_files s)(k \<mapsto> dkfile_new (f_inode f)), file_refs := (file_refs s)(k := 1)\<rparr>)"
    "store.more t = store.more (s\<lparr>close_files := []\<rparr>)"
    "dense X V is ds (dkfile_new (f_inode f), t)" "contents V (dkfile_new (f_inode f), t) = contents V (f, s)"
proof -
  let ?s = "s\<lparr>close_files := []\<rparr>" and ?h = "dkfile_new (f_inode f)"
  have ds: "dev ?s = dev s" "sb ?s = sb s" by simp_all
  have de: "dense X V is ds (f, ?s)" "inode_used is (f, ?s)" "contents V (f, ?s) = contents V (f, s)"
    using assms(5,6) dense_dev [OF ds] by simp_all
  have of: "opened_files ?s k = Some f" "file_refs ?s k = 0" using assms(1,2) by simp_all
  obtain t where t: "close_file X k ?s = (Ok (), t\<lparr>opened_files := (opened_files ?s)(k := None)\<rparr>)"
    "store.more t = store.more ?s" "read_inode X k t = (Ok (f_inode f), t)"
    "dense X V is ds (?h, t)" "contents V (?h, t) = contents V (f, ?s)"
    by (rule close_file_run [OF of assms(3) de(1,2) assms(7-9)])
  let ?t = "t\<lparr>opened_files := (opened_files s)(k := None)\<rparr>"
  have mt: "file_refs t = file_refs s" "close_files t = []" using t(2) by (cases s, cases t, simp)+
  have cf: "close_file X k ?s = (Ok (), ?t)" using t(1) by simp
  have rd: "read_inode X k ?t = (Ok (f_inode f), ?t)" by (rule read_inode_dev [OF t(3)]) simp
  have rx: "read_xattr X (?h, ?t) = (Ok (), (?h, ?t))"
    by (rule read_xattr_none) (use assms(7) in \<open>simp add: no_attributes_def dkfile_new_def\<close>)
  have "open_file X k fl s = (Ok \<lparr>fh_key = k, fh_flags = fl\<rparr>,
      t\<lparr>opened_files := (opened_files s)(k \<mapsto> ?h), file_refs := (file_refs s)(k := 1)\<rparr>)"
    using open_file_reload [OF assms(4) cf _ _ rd rx assms(10)] mt by simp
  then show thesis using that t(2,4,5) de(3) by simp
qed

text \<open>\<open>load_dir\<close>, once the file is open: an empty file is a directory without entries.\<close>

lemma load_dir_run:
  assumes "open_file X k READ_WRITE s = (Ok \<lparr>fh_key = k, fh_flags = READ_WRITE\<rparr>, w)" "opened_files w k = Some h"
    "is_directory (i_mode (f_inode h))" "read_dir X [] (h, w) = (Ok es, (h', x))"
  shows "load_dir X k s = (Ok (), x\<lparr>opened_files := (opened_files x)(k \<mapsto> h'),
    opened_dirs := (opened_dirs x)(k \<mapsto> \<lparr>d_fh = k, d_entries = es, d_dirty = False\<rparr>), dir_refs := (dir_refs x)(k := 0)\<rparr>)"
proof -
  have rd: "with_file k (read_dir X []) w = (Ok es, x\<lparr>opened_files := (opened_files x)(k \<mapsto> h')\<rparr>)"
    using assms(2,4) by (simp add: with_file_def)
  have isdir: "with_file k (get_file (\<lambda>f. is_directory (i_mode (f_inode f)))) w = (Ok True, w)"
    using assms(2,3) by (cases w) (simp add: with_file_def fun_upd_idem)
  show ?thesis
    unfolding load_dir_def bnd_Ok [of "open_file X k READ_WRITE", OF assms(1)] drop_on_err_def file_handle.simps
      bnd_Ok [of "with_file k (get_file _)", OF isdir]
      not_True_eq_False if_False bnd_Ok [of "with_file k (read_dir X [])", OF rd]
    by (simp add: modify_def)
qed

lemma read_dir_empty: "i_size (f_inode h) = 0 \<Longrightarrow> read_dir X [] (h, w) = (Ok [], (h, w))"
  by (simp add: read_dir_def get_file_def bnd_def ret_def)

lemma read_dir_contents:
  assumes "dense X V is ds (h, w)" "f_pos h = 0" "contents V (h, w) = dir_bytes X es @ r" "entries_ok es" "clock_ok X" "codec_ok X"
  obtains h' x where "read_dir X [] (h, w) = (Ok es, (h', x))"
proof -
  from stream_start [OF assms(1,5)] assms(2) have "stream X is V ds (h, w) (contents V (h, w)) 0 (length ds) (h, w)" by simp
  from read_dir_run [OF this assms(6,4,3)] show thesis using that by (metis surj_pair)
qed

text \<open>So the entries survive.\<close>

lemma reopen_run:
  assumes "unused_dir k d f s" "dense X V is ds (f, s)" "inode_used is (f, s)" "clock_ok X" "codec_ok X"
    "dir_room X ds (d_entries d) (f, s)" "entries_ok (d_entries d)"
  obtains u where "open_dir X k s = (Ok \<lparr>dh_key = k, dh_entries = d_entries d\<rparr>, u)"
    "opened_dirs u k = Some \<lparr>d_fh = k, d_entries = d_entries d, d_dirty = False\<rparr>"
proof -
  let ?s = "s\<lparr>close_dirs := []\<rparr>"
  have u: "is_directory (i_mode (f_inode f))" "no_attributes f" "0 < i_nlink (f_inode f)" "i_ino (f_inode f) = k"
    using assms(1) by (simp_all add: unused_dir_def)
  obtain n g t V' ds' where c:
    "close_dirs_in_list X s = (Ok (), t\<lparr>opened_files := (opened_files s)(k \<mapsto> g), opened_dirs := (opened_dirs s)(k := None),
       file_refs := (file_refs s)(k := 0), close_files := [k]\<rparr>)"
    "store.more t = store.more ?s" "f_dirty g" "steps_to X is n V ds (f, ?s) V' ds' (g, t)"
    "contents V' (g, t) = overwrite 0 (dir_bytes X (d_entries d)) (contents V (f, s))"
    by (rule close_dirs_run [OF assms(1,2,4,5,6)])
  let ?t = "t\<lparr>opened_files := (opened_files s)(k \<mapsto> g), opened_dirs := (opened_dirs s)(k := None),
       file_refs := (file_refs s)(k := 0), close_files := [k]\<rparr>"
  have dt: "dev ?t = dev t" "sb ?t = sb t" by simp_all
  note same = same_id_fields [OF steps_D(2) [OF c(4)]]
  have pre: "dense X V' is ds' (g, ?t)" using steps_D(1) [OF c(4)] dense_dev(1) [OF dt] by blast
  have "sb ?s = sb s" by simp
  have used: "inode_used is (g, ?t)"
    using assms(3) evolves_simps(4) [OF steps_D(3) [OF c(4)]] same(2) by (simp add: inode_used_def)
  have gi: "k = i_ino (f_inode g)" "no_attributes g" "0 < i_nlink (f_inode g)" "is_directory (i_mode (f_inode g))"
    using same u by (simp_all add: no_attributes_def)
  have tt: "opened_files ?t k = Some g" "file_refs ?t k = 0" "close_files ?t = [k]" by simp_all
  let ?h = "dkfile_new (f_inode g)"
  have rw: "READ_WRITE \<noteq> INVALID" by (simp add: READ_WRITE_def INVALID_def)
  obtain w where w: "open_file X k READ_WRITE ?t = (Ok \<lparr>fh_key = k, fh_flags = READ_WRITE\<rparr>,
      w\<lparr>opened_files := (opened_files ?t)(k \<mapsto> ?h), file_refs := (file_refs ?t)(k := 1)\<rparr>)"
    "store.more w = store.more (?t\<lparr>close_files := []\<rparr>)"
    "dense X V' is ds' (?h, w)" "contents V' (?h, w) = contents V' (g, ?t)"
    by (rule open_file_closed [OF tt(1,2) gi(1) tt(3) pre used gi(2) c(3) gi(3) rw])
  let ?w = "w\<lparr>opened_files := (opened_files ?t)(k \<mapsto> ?h), file_refs := (file_refs ?t)(k := 1)\<rparr>"
  have dw: "dev ?w = dev w" "sb ?w = sb w" by simp_all
  obtain r where r: "contents V' (?h, ?w) = dir_bytes X (d_entries d) @ r"
    using dense_dev(2) [OF dw] w(4) dense_dev(2) [OF dt] c(5) by (simp add: overwrite_def)
  have "dense X V' is ds' (?h, ?w)" using dense_dev(1) [OF dw] w(3) by blast
  note dh = this
  have pos: "f_pos ?h = 0" by (simp add: dkfile_new_def)
  obtain h x where x: "read_dir X [] (?h, ?w) = (Ok (d_entries d), (h, x))"
    by (rule read_dir_contents [OF dh pos r assms(7,4,5)])
  have of: "opened_files ?w k = Some ?h" by simp
  have isdir: "is_directory (i_mode (f_inode ?h))" using gi(4) by (simp add: dkfile_new_def)
  let ?x = "x\<lparr>opened_files := (opened_files x)(k \<mapsto> h)\<rparr>"
  let ?d = "\<lparr>d_fh = k, d_entries = d_entries d, d_dirty = False\<rparr>"
  let ?y = "?x\<lparr>opened_dirs := (opened_dirs x)(k \<mapsto> ?d), dir_refs := (dir_refs x)(k := 0)\<rparr>"
  have load: "load_dir X k ?t = (Ok (), ?y)" using load_dir_run [OF w(1) of isdir x] by simp
  show thesis
  proof (rule that)
    show "open_dir X k s = (Ok \<lparr>dh_key = k, dh_entries = d_entries d\<rparr>, clone_dir k ?y)"
      unfolding open_dir_def bnd_Ok [of "close_dirs_in_list X", OF c(1)] bnd_gets
      by (simp add: bnd_def load get_dir_def gets_def unwrap_def modify_def ret_def)
    show "opened_dirs (clone_dir k ?y) k = Some ?d" by (simp add: clone_dir_def)
  qed
qed

end
