(* ===== verification/Volume.thy ===== *)
theory Volume
  imports FileLife
begin

text \<open>
  Several open files on one device: what is done to one of them takes free blocks and writes only blocks
  of its own, so the others keep their contents.
\<close>

lemma evolves_shape: "evolves A s t \<Longrightarrow> dev_shape t = dev_shape s"
  by (simp add: evolves_def dev_shape_def)

section \<open>Two files\<close>

text \<open>The files \<open>f\<close> and \<open>g\<close> have no block in common.\<close>

definition apart ::
  "'z store_scheme \<Rightarrow> (nat \<Rightarrow> nat list) \<Rightarrow> dkfile \<Rightarrow> (nat \<Rightarrow> nat list) \<Rightarrow> dkfile \<Rightarrow> bool" where
  "apart s V f W g \<longleftrightarrow> all_nodes (pcount s) (rows f) V \<inter> all_nodes (pcount s) (rows g) W = {}"

lemma apart_sym: "apart s V f W g \<Longrightarrow> apart s W g V f"
  by (auto simp: apart_def)

lemma steps_frame:
  assumes "steps_to X is n V ds (f, s) V' ds' (f', t)" "dense X W is ds (g, s)" "apart s V f W g" "dense X V is ds (f, s)"
  shows "dense X W is ds' (g, t)" "contents W (g, t) = contents W (g, s)" "apart t V' f' W g"
proof -
  let ?A = "own V ds (f, s)" and ?N = "all_nodes (pcount s) (rows f) V"
  note D = steps_D [OF assms(1)] and d = denseD [OF assms(2)]
  note ok = file_mapD(1) [OF d(1)] and bs = evolves_simps(1) [OF D(3)] and pc = D(6)
  obtain us where us: "ds = us @ ds'" "all_nodes (pcount s) (rows f') V' \<subseteq> ?N \<union> set us"
    using assms(1) by (auto simp: steps_to_def)
  have df: "file_map X {} V' is ds' (f', t)" by (rule denseD(1) [OF D(1)])
  have nodes: "?N \<inter> all_nodes (pcount s) (rows g) W = {}" using assms(3) by (simp add: apart_def)
  have N: "?N \<subseteq> data_blocks s"
    using all_nodes_used(1) [OF denseD(1) [OF assms(4)]] by blast
  have out: "{p..<p + block_size (sb s)} \<inter> ?A = {}"
    if p: "p \<in> data_blocks s" "p \<notin> set ds" "p \<in> all_nodes (pcount s) (rows g) W" for p
  proof -
    have "p \<notin> set ds \<union> ?N" using p nodes by blast
    moreover have "set ds \<union> ?N \<subseteq> data_blocks s" using store_okD(10) [OF ok] N by blast
    ultimately show ?thesis
      using block_bytes_apart [OF p(1)] sb_apart [OF ok p(1)] by (simp add: own_def Int_Un_distrib)
  qed
  have fm: "file_map X {} W is ds' (g, t)"
  proof (rule file_map_store [OF d(1) file_mapD(1) [OF df] D(3)])
    show "set ds' \<subseteq> set ds" using us(1) by simp
    show "{p..<p + block_size (sb s)} \<inter> ?A = {}" if "p \<in> ptr_blocks (pcount s) (rows g) W" for p
      by (rule out) (use ptr_block_used [OF d(1) that] ptr_blocks_nodes that in auto)
  qed
  show "dense X W is ds' (g, t)"
  proof -
    have "data_ptr W (g, t) bk = data_ptr W (g, s) bk" for bk using pc by (simp add: data_ptr_def)
    then show ?thesis using assms(2) fm D(4,5) by (simp add: dense_def)
  qed
  show "contents W (g, t) = contents W (g, s)"
    by (rule contents_frame [OF assms(2) D(3)]) (use out in auto)
  have "set us \<inter> all_nodes (pcount s) (rows g) W = {}"
    using all_nodes_used [OF d(1)] us(1) by auto
  then show "apart t V' f' W g" using us(2) nodes pc unfolding apart_def by (simp only:) blast
qed

section \<open>All files of a table\<close>

text \<open>
  The volume \<open>M\<close>: the file with the number \<open>k\<close> is open and holds the bytes \<open>M k\<close>, the files have no
  blocks in common, and the device has \<open>d\<close> free blocks.
\<close>

definition volume_of ::
  "ext \<Rightarrow> nat list \<Rightarrow> (nat \<rightharpoonup> byte list) \<Rightarrow> (nat \<Rightarrow> nat \<Rightarrow> nat list) \<Rightarrow> nat list \<Rightarrow> (nat \<rightharpoonup> dkfile) \<Rightarrow> 'z store_scheme \<Rightarrow> bool" where
  "volume_of X is M Vs ds F s \<longleftrightarrow>
     (\<forall>k C. M k = Some C \<longrightarrow> (\<exists>f. F k = Some f \<and> dense X (Vs k) is ds (f, s) \<and> contents (Vs k) (f, s) = C))
     \<and> (\<forall>k l f g. k \<noteq> l \<longrightarrow> M k \<noteq> None \<longrightarrow> M l \<noteq> None \<longrightarrow> F k = Some f \<longrightarrow> F l = Some g \<longrightarrow> apart s (Vs k) f (Vs l) g)"

definition volume :: "ext \<Rightarrow> nat list \<Rightarrow> (nat \<rightharpoonup> byte list) \<Rightarrow> nat \<Rightarrow> 'z donkey_scheme \<Rightarrow> bool" where
  "volume X is M d s \<longleftrightarrow> (\<exists>Vs ds. volume_of X is M Vs ds (opened_files s) s \<and> length ds = d)"

lemma volume_file:
  assumes "volume_of X is M Vs ds F s" "M k = Some C"
  obtains f where "F k = Some f" "dense X (Vs k) is ds (f, s)" "contents (Vs k) (f, s) = C"
  using assms unfolding volume_of_def by blast

lemma volume_of_dev:
  assumes "dev t = dev s" "sb t = sb s"
  shows "volume_of X is M Vs ds F t = volume_of X is M Vs ds F s"
  using dense_dev [OF assms] assms(2) by (simp add: volume_of_def apart_def pcount_def)

lemma volume_apart:
  "volume_of X is M Vs ds F s \<Longrightarrow> k \<noteq> l \<Longrightarrow> M k \<noteq> None \<Longrightarrow> M l \<noteq> None \<Longrightarrow> F k = Some f \<Longrightarrow> F l = Some g
   \<Longrightarrow> apart s (Vs k) f (Vs l) g"
  by (simp add: volume_of_def)

lemma volume_of_cong:
  assumes "\<And>k. M k \<noteq> None \<Longrightarrow> F' k = F k" "volume_of X is M Vs ds F s"
  shows "volume_of X is M Vs ds F' s"
  unfolding volume_of_def
proof (intro conjI allI impI)
  fix k C assume C: "M k = Some C"
  then have "F' k = F k" using assms(1) by simp
  then show "\<exists>f. F' k = Some f \<and> dense X (Vs k) is ds (f, s) \<and> contents (Vs k) (f, s) = C"
    using volume_file [OF assms(2) C] by metis
next
  fix k l f g assume a: "k \<noteq> l" "M k \<noteq> None" "M l \<noteq> None" "F' k = Some f" "F' l = Some g"
  then show "apart s (Vs k) f (Vs l) g" using volume_apart [OF assms(2) a(1-3)] assms(1) by simp
qed

lemma volume_tables:
  assumes "\<And>k. M k \<noteq> None \<Longrightarrow> opened_files t k = opened_files s k" "dev t = dev s" "sb t = sb s"
  shows "volume X is M d t = volume X is M d s"
proof -
  have "volume_of X is M Vs ds (opened_files t) t = volume_of X is M Vs ds (opened_files s) t" for Vs ds
    by (rule iffI; rule volume_of_cong; simp add: assms(1))
  then show ?thesis by (simp add: volume_def volume_of_dev [OF assms(2,3)])
qed

text \<open>Steps of one file change the volume at that file only.\<close>

lemma volume_steps:
  assumes "volume_of X is M Vs ds F s" "M k = Some C" "F k = Some f" "steps_to X is n (Vs k) ds (f, s) V' ds' (g, t)"
    "contents V' (g, t) = C'"
  shows "volume_of X is (M(k \<mapsto> C')) (Vs(k := V')) ds' (F(k \<mapsto> g)) t"
proof -
  obtain f' where "F k = Some f'" "dense X (Vs k) is ds (f', s)" by (rule volume_file [OF assms(1,2)])
  then have d: "dense X (Vs k) is ds (f, s)" using assms(3) by simp
  have pc: "pcount t = pcount s" by (rule steps_D(6) [OF assms(4)])
  have other: "dense X (Vs l) is ds' (h, t) \<and> contents (Vs l) (h, t) = contents (Vs l) (h, s) \<and> apart t V' g (Vs l) h"
    if l: "l \<noteq> k" "M l \<noteq> None" "F l = Some h" for l h
  proof -
    obtain Cl where "M l = Some Cl" using l(2) by blast
    from volume_file [OF assms(1) this] l(3) have dh: "dense X (Vs l) is ds (h, s)" by auto
    have "apart s (Vs k) f (Vs l) h" by (rule volume_apart [OF assms(1)]) (use assms(2,3) l in simp_all)
    from steps_frame [OF assms(4) dh this d] show ?thesis by blast
  qed
  show ?thesis
    unfolding volume_of_def
  proof (intro conjI allI impI)
    fix l D assume D: "(M(k \<mapsto> C')) l = Some D"
    show "\<exists>h. (F(k \<mapsto> g)) l = Some h \<and> dense X ((Vs(k := V')) l) is ds' (h, t) \<and> contents ((Vs(k := V')) l) (h, t) = D"
    proof (cases "l = k")
      case True
      then show ?thesis using D assms(5) steps_D(1) [OF assms(4)] by simp
    next
      case False
      then have M: "M l = Some D" using D by simp
      obtain h where "F l = Some h" "contents (Vs l) (h, s) = D" by (rule volume_file [OF assms(1) M])
      then show ?thesis using other [of l h] False M by simp
    qed
  next
    fix l m h h'
    assume a: "l \<noteq> m" "(M(k \<mapsto> C')) l \<noteq> None" "(M(k \<mapsto> C')) m \<noteq> None" "(F(k \<mapsto> g)) l = Some h" "(F(k \<mapsto> g)) m = Some h'"
    consider "l = k" | "m = k" | "l \<noteq> k" "m \<noteq> k" by blast
    then show "apart t ((Vs(k := V')) l) h ((Vs(k := V')) m) h'"
    proof cases
      case 1
      then show ?thesis using a other [of m h'] by simp
    next
      case 2
      then show ?thesis using a other [of l h] by (auto intro: apart_sym)
    next
      case 3
      then have "apart s (Vs l) h (Vs m) h'" using volume_apart [OF assms(1), of l m h h'] a by simp
      then show ?thesis using 3 by (simp add: apart_def pc)
    qed
  qed
qed

end
