(* ===== verification/ServedFiles.thy ===== *)
theory ServedFiles
  imports Volume Fuse
begin

text \<open>
  Files as the kernel sees them: the requests to read and write through the handles of several files, in
  any order, are answered as one array of bytes for each file would answer them.
\<close>

section \<open>What the requests leave alone\<close>

text \<open>
  Between \<open>s\<close> and \<open>t\<close> no file was opened, closed or renumbered, nothing but opened files waits to be closed,
  what had to be written back still has to, and the device keeps its shape.
\<close>

definition file_numbers :: "'z donkey_scheme \<Rightarrow> nat set" where
  "file_numbers s = {i_ino (f_inode f) |k f. opened_files s k = Some f}"

definition steady :: "'z donkey_scheme \<Rightarrow> 'z donkey_scheme \<Rightarrow> bool" where
  "steady s t \<longleftrightarrow> (\<forall>k. rel_option (\<lambda>f g. same_id f g \<and> (f_dirty f \<longrightarrow> f_dirty g)) (opened_files s k) (opened_files t k))
     \<and> set (close_files t) \<subseteq> set (close_files s) \<union> file_numbers s \<and> close_dirs t = close_dirs s
     \<and> inode_numbers (sb t) = inode_numbers (sb s) \<and> block_size (sb t) = block_size (sb s) \<and> dev_shape t = dev_shape s"

lemma steady_refl [simp]: "steady s s"
  by (auto simp: steady_def option.rel_refl)

lemma steady_file:
  assumes "steady s t" "opened_files s k = Some f"
  obtains g where "opened_files t k = Some g" "same_id f g" "f_dirty f \<longrightarrow> f_dirty g"
proof -
  have "rel_option (\<lambda>f g. same_id f g \<and> (f_dirty f \<longrightarrow> f_dirty g)) (opened_files s k) (opened_files t k)"
    using assms(1) by (simp add: steady_def)
  then show thesis using that assms(2) by (auto simp: option_rel_Some1)
qed

lemma steady_numbers: "steady s t \<Longrightarrow> file_numbers t \<subseteq> file_numbers s"
proof
  fix i assume st: "steady s t" and "i \<in> file_numbers t"
  then obtain k g where g: "i = i_ino (f_inode g)" "opened_files t k = Some g" by (auto simp: file_numbers_def)
  have "rel_option (\<lambda>f g. same_id f g \<and> (f_dirty f \<longrightarrow> f_dirty g)) (opened_files s k) (opened_files t k)"
    using st by (simp add: steady_def)
  then obtain f where "opened_files s k = Some f" "same_id f g" using g(2) by (auto simp: option_rel_Some2)
  then show "i \<in> file_numbers s" using g(1) same_id_fields(2) by (auto simp: file_numbers_def)
qed

lemma steady_trans: "steady s t \<Longrightarrow> steady t u \<Longrightarrow> steady s u"
proof -
  assume st: "steady s t" and tu: "steady t u"
  have "rel_option (\<lambda>f g. same_id f g \<and> (f_dirty f \<longrightarrow> f_dirty g)) (opened_files s k) (opened_files u k)" for k
  proof -
    have "rel_option (\<lambda>f g. same_id f g \<and> (f_dirty f \<longrightarrow> f_dirty g)) (opened_files s k) (opened_files t k)"
      "rel_option (\<lambda>f g. same_id f g \<and> (f_dirty f \<longrightarrow> f_dirty g)) (opened_files t k) (opened_files u k)"
      using st tu by (simp_all add: steady_def)
    then show ?thesis by (cases "opened_files s k"; cases "opened_files u k")
        (auto simp: option_rel_Some1 option_rel_Some2 intro: same_id_trans)
  qed
  moreover have "set (close_files u) \<subseteq> set (close_files s) \<union> file_numbers s"
    using st tu steady_numbers [OF st] unfolding steady_def by blast
  ultimately show ?thesis using st tu by (simp add: steady_def)
qed

section \<open>Reading and writing through a handle\<close>

text \<open>An operation on a file under the borrow of the file system, with the handle dropped at its end.\<close>

lemma handle_run:
  assumes "volume_of X is M Vs ds (opened_files s) s" "M (fh_key fh) = Some C" "opened_files s (fh_key fh) = Some f" "\<not> borrowed s"
    "m (f, s\<lparr>borrowed := True\<rparr>) = (Ok a, (g, t))" "steps_to X is n (Vs (fh_key fh)) ds (f, s\<lparr>borrowed := True\<rparr>) V' ds' (g, t)"
    "contents V' (g, t) = C'" "f_dirty f \<longrightarrow> f_dirty g"
  obtains u where "dropping_file fh (borrow_mut (with_file (fh_key fh) m)) s = (Ok a, u)"
    "volume X is (M(fh_key fh \<mapsto> C')) (length ds') u" "\<not> borrowed u" "donkey.more u = donkey.more s"
    "block_size (sb u) = block_size (sb s)" "opened_files u (fh_key fh) = Some g" "steady s u"
    "file_refs u = (file_refs s)(fh_key fh := file_refs s (fh_key fh) - 1)"
proof -
  let ?k = "fh_key fh" and ?s = "s\<lparr>borrowed := True\<rparr>"
  let ?t = "t\<lparr>opened_files := (opened_files t)(?k \<mapsto> g)\<rparr>"
  let ?u = "drop_file ?k (?t\<lparr>borrowed := False\<rparr>)"
  note D = steps_D [OF assms(6)]
  have mt: "store.more t = store.more ?s" by (rule evolves_simps(6) [OF D(3)])
  then have more: "donkey.more t = donkey.more s" "opened_files t = opened_files s" "close_files t = close_files s"
    "close_dirs t = close_dirs s" "file_refs t = file_refs s" by (cases s, cases t, simp)+
  have run: "dropping_file fh (borrow_mut (with_file ?k m)) s = (Ok a, ?u)"
    using assms(3-5) by (simp add: dropping_def borrow_mut_def with_file_def)
  have "volume_of X is M Vs ds (opened_files s) ?s"
    using assms(1) by (subst volume_of_dev [where s = s]) simp_all
  from volume_steps [OF this assms(2,3,6,7)]
  have vt: "volume_of X is (M(?k \<mapsto> C')) (Vs(?k := V')) ds' (opened_files ?t) t" by (simp add: more)
  have "volume X is (M(?k \<mapsto> C')) (length ds') ?t"
    unfolding volume_def
  proof (intro exI conjI)
    have "dev ?t = dev t" "sb ?t = sb t" by simp_all
    from volume_of_dev [OF this] vt
    show "volume_of X is (M(?k \<mapsto> C')) (Vs(?k := V')) ds' (opened_files ?t) ?t" by blast
  qed simp
  then have "volume X is (M(?k \<mapsto> C')) (length ds') ?u"
    by (subst volume_tables [where s = ?t]) (simp_all add: drop_file_def split: option.split)
  moreover have "steady s ?u"
  proof -
    have "rel_option (\<lambda>f g. same_id f g \<and> (f_dirty f \<longrightarrow> f_dirty g)) (opened_files s k) (opened_files ?u k)" for k
      using assms(3,8) D(2) by (cases "opened_files s k") (auto simp: drop_file_def more)
    moreover have "i_ino (f_inode g) \<in> file_numbers s"
      using same_id_fields(2) [OF D(2)] assms(3) by (auto simp: file_numbers_def)
    ultimately show ?thesis
      using more evolves_simps(4) [OF D(3)] evolves_shape [OF D(3)] D(4)
      by (auto simp: steady_def drop_file_def dev_shape_def)
  qed
  ultimately show thesis using that [of ?u] run more D(4) by (simp add: drop_file_def)
qed

lemma h_write_run:
  fixes s :: "'z donkey_scheme"
  assumes "volume X is M d s" "M (fh_key fh) = Some C" "clock_ok X" "\<not> borrowed s" "off \<le> length C"
    "off < 9223372036854775808" "off + length data \<le> file_limit s"
    "5 * blocks_for s (off + length data) < d + 5 * blocks_for s (length C)"
  obtains t d' where "h_write X fh off data s = (Ok (length data), t)"
    "volume X is (M(fh_key fh \<mapsto> overwrite off data C)) d' t"
    "\<not> borrowed t" "donkey.more t = donkey.more s" "block_size (sb t) = block_size (sb s)"
    "d + 5 * blocks_for s (length C) \<le> d' + 5 * blocks_for s (length (overwrite off data C))" "steady s t"
    "file_refs t = (file_refs s)(fh_key fh := file_refs s (fh_key fh) - 1)"
    "data \<noteq> [] \<longrightarrow> (\<exists>g. opened_files t (fh_key fh) = Some g \<and> f_dirty g)"
proof -
  let ?s = "s\<lparr>borrowed := True\<rparr>" and ?n = "length data" and ?k = "fh_key fh"
  have ds: "dev ?s = dev s" "sb ?s = sb s" by simp_all
  note dd = dense_dev [OF ds]
  obtain Vs ds where v: "volume_of X is M Vs ds (opened_files s) s" "length ds = d" using assms(1) by (auto simp: volume_def)
  obtain f where f: "opened_files s ?k = Some f" "dense X (Vs ?k) is ds (f, s)" "contents (Vs ?k) (f, s) = C"
    by (rule volume_file [OF v(1) assms(2)])
  have size: "i_size (f_inode f) = length C" using f(3) by auto
  let ?b = "f_dirty f \<or> data \<noteq> []" and ?V = "Vs ?k"
  let ?d = "f\<lparr>f_dirty := ?b\<rparr>" and ?f = "f\<lparr>f_dirty := ?b, f_pos := off\<rparr>"
  have fs: "dense X ?V is ds (?d, ?s)" "contents ?V (?d, ?s) = C" using dd(1,2) f(2,3) by simp_all
  have st: "stream X is ?V ds (?d, ?s) C off d (?f, ?s)"
    using stream_seek [OF stream_start [OF fs(1) assms(3)], of off] unfolding fs(2) v(2) .
  note bf = dd(5)
  have same: "write_loop (io_write X) ?n data (f\<lparr>f_pos := off\<rparr>, ?s) = write_loop (io_write X) ?n data (?f, ?s)"
  proof (cases "data = []")
    case False
    have "io_write X data (f\<lparr>f_pos := off\<rparr>, ?s) = io_write X data (?f, ?s)"
      using False by (simp add: io_write_def map_err_def dk_write_def set_dirty_def mod_file_def bnd_def)
    then show ?thesis by (cases ?n) (simp_all add: bnd_def)
  qed simp
  from io.write_loop_run [OF st assms(5) _ order_refl, of data] assms(7) dd(4)
  obtain m gt d' where m: "m \<le> ?n" "stream X is ?V ds (?d, ?s) (overwrite off (take m data) C) (off + m) d' gt"
    "write_loop (io_write X) ?n data (?f, ?s) = (if m = ?n then Ok () else Err (io_error_of_dk Exhausted), gt)"
    "m = ?n \<longrightarrow> d + 5 * blocks_for s (length C) \<le> d' + 5 * blocks_for s (max (length C) (off + ?n))"
    "m < ?n \<longrightarrow> d + 5 * blocks_for s (length C) \<le> 5 * blocks_for s (off + ?n)"
    unfolding bf by auto
  have mn: "m = ?n" using m(1,5) assms(8) by linarith
  obtain g t V' ds' n where st: "gt = (g, t)" "steps_to X is n ?V ds (?d, ?s) V' ds' (g, t)"
    "contents V' (g, t) = overwrite off data C" "length ds' = d'"
    using streamE [OF m(2)] mn by (metis take_all_iff order_refl)
  note st' = st(1) steps_dirty [OF st(2)] st(3,4)
  have dirty: "?b \<longrightarrow> f_dirty g" using stream_dirty [OF m(2) [unfolded st(1)]] by simp
  let ?m = "bnd (map_err dk_error_of_io (seek (SeekStart off))) (\<lambda>_.
        bnd (map_err dk_error_of_io (write_all X data)) (\<lambda>_. ret ?n))"
  have w: "?m (f, ?s) = (Ok ?n, (g, t))"
    using m(3) mn st'(1)
    by (simp add: bnd_def map_err_def seek_start [OF assms(6)] write_all_def write_all_is_loop ret_def same)
  have "f_dirty f \<longrightarrow> f_dirty g" using dirty by simp
  from handle_run [where m = ?m, OF v(1) assms(2) f(1) assms(4) w st'(2,3) this]
  obtain u where u: "dropping_file fh (borrow_mut (with_file ?k ?m)) s = (Ok ?n, u)"
    "volume X is (M(?k \<mapsto> overwrite off data C)) (length ds') u" "\<not> borrowed u" "donkey.more u = donkey.more s"
    "block_size (sb u) = block_size (sb s)" "opened_files u ?k = Some g" "steady s u"
    "file_refs u = (file_refs s)(?k := file_refs s ?k - 1)" by blast
  have "length (overwrite off data C) = max (length C) (off + ?n)" by (rule length_overwrite [OF assms(5)])
  then show thesis using that [of u d'] u m(4) mn st'(4) dirty unfolding h_write_def by simp
qed

lemma h_read_run:
  assumes "volume X is M d s" "M (fh_key fh) = Some C" "clock_ok X" "codec_ok X" "\<not> borrowed s" "off < 9223372036854775808"
  obtains t where "h_read X fh off n s = (Ok (take n (drop off C)), t)" "volume X is M d t"
    "\<not> borrowed t" "donkey.more t = donkey.more s" "block_size (sb t) = block_size (sb s)" "steady s t"
    "file_refs t = (file_refs s)(fh_key fh := file_refs s (fh_key fh) - 1)"
proof -
  let ?s = "s\<lparr>borrowed := True\<rparr>" and ?k = "fh_key fh"
  have ds: "dev ?s = dev s" "sb ?s = sb s" by simp_all
  note dd = dense_dev [OF ds]
  obtain Vs ds where v: "volume_of X is M Vs ds (opened_files s) s" "length ds = d" using assms(1) by (auto simp: volume_def)
  obtain f where f: "opened_files s ?k = Some f" "dense X (Vs ?k) is ds (f, s)" "contents (Vs ?k) (f, s) = C"
    by (rule volume_file [OF v(1) assms(2)])
  let ?f = "f\<lparr>f_pos := off\<rparr>" and ?V = "Vs ?k"
  have fs: "dense X ?V is ds (f, ?s)" "contents ?V (f, ?s) = C" using dd(1,2) f(2,3) by simp_all
  have st: "stream X is ?V ds (f, ?s) C off d (?f, ?s)"
    using stream_seek [OF stream_start [OF fs(1) assms(3)], of off] unfolding fs(2) v(2) .
  have rte: "0 < rte_buf X k" for k using assms(4) unfolding codec_ok_def by blast
  from io.read_loop_run [where k = 0 and n = n and sz = "rte_buf X", OF st rte lessI] obtain gt where
    r: "take_read_to_end X n (?f, ?s) = (Ok (take n (drop off C)), gt)"
    "stream X is ?V ds (f, ?s) C (off + min n (length C - off)) d gt"
    unfolding take_read_to_end_def read_to_end_is_loop by (elim exE conjE)
  obtain g t V' ds' j where st': "gt = (g, t)" "steps_to X is j ?V ds (f, ?s) V' ds' (g, t)"
    "contents V' (g, t) = C" "length ds' = d"
    using streamE [OF r(2)] by metis
  let ?m = "bnd (map_err dk_error_of_io (seek (SeekStart off))) (\<lambda>_. map_err dk_error_of_io (take_read_to_end X n))"
  have w: "?m (f, ?s) = (Ok (take n (drop off C)), (g, t))"
    using r(1) st'(1) by (simp add: bnd_def map_err_def seek_start [OF assms(6)])
  have "f_dirty f \<longrightarrow> f_dirty g" using stream_dirty [OF r(2) [unfolded st'(1)]] by simp
  from handle_run [where m = ?m, OF v(1) assms(2) f(1) assms(5) w st'(2,3) this]
  obtain u where u: "dropping_file fh (borrow_mut (with_file ?k ?m)) s = (Ok (take n (drop off C)), u)"
    "volume X is (M(?k \<mapsto> C)) (length ds') u" "\<not> borrowed u" "donkey.more u = donkey.more s"
    "block_size (sb u) = block_size (sb s)" "opened_files u ?k = Some g" "steady s u"
    "file_refs u = (file_refs s)(?k := file_refs s ?k - 1)" by blast
  have "M(?k \<mapsto> C) = M" using assms(2) by (simp add: fun_upd_idem)
  then show thesis using that [of u] u st'(4) unfolding h_read_def by simp
qed

section \<open>Sequences of requests\<close>

lemma u64_of_i64_nat: "off < 9223372036854775808 \<Longrightarrow> u64_of_i64 (int off) = off"
  by (simp add: u64_of_i64_def)

text \<open>What an array of bytes answers to a request.\<close>

fun array_reply :: "byte list \<Rightarrow> request \<Rightarrow> reply" where
  "array_reply C (Read u off n) = RData (take n (drop (nat off) C))"
| "array_reply C (Write u off data) = RWritten (length data mod 4294967296)"
| "array_reply C _ = NoReply"

fun array_after :: "byte list \<Rightarrow> request \<Rightarrow> byte list" where
  "array_after C (Write u off data) = overwrite (nat off) data C"
| "array_after C _ = C"

text \<open>
  The requests of the theorem name handles of files of the volume; reads begin anywhere, and writes inside
  the file or at its end.  The file \<open>k\<close> does not grow beyond \<open>N k\<close> bytes.
\<close>

fun target :: "(nat \<rightharpoonup> file_handle) \<Rightarrow> request \<Rightarrow> nat option" where
  "target h (Read u off n) = map_option fh_key (h u)"
| "target h (Write u off data) = map_option fh_key (h u)"
| "target h _ = None"

fun request_fits :: "nat \<Rightarrow> byte list \<Rightarrow> request \<Rightarrow> bool" where
  "request_fits N C (Read u off n) \<longleftrightarrow> 0 \<le> off \<and> off < 9223372036854775808"
| "request_fits N C (Write u off data) \<longleftrightarrow> 0 \<le> off \<and> off < 9223372036854775808 \<and> nat off \<le> length C
     \<and> nat off + length data \<le> N"
| "request_fits N C _ \<longleftrightarrow> False"

definition volume_request :: "(nat \<rightharpoonup> file_handle) \<Rightarrow> (nat \<Rightarrow> nat) \<Rightarrow> (nat \<rightharpoonup> byte list) \<Rightarrow> request \<Rightarrow> bool" where
  "volume_request h N M r \<longleftrightarrow> (case target h r of None \<Rightarrow> False
     | Some k \<Rightarrow> (case M k of None \<Rightarrow> False | Some C \<Rightarrow> request_fits (N k) C r))"

text \<open>The specification: one array of bytes for each file.\<close>

definition volume_reply :: "(nat \<rightharpoonup> file_handle) \<Rightarrow> (nat \<rightharpoonup> byte list) \<Rightarrow> request \<Rightarrow> reply" where
  "volume_reply h M r = (case target h r of None \<Rightarrow> NoReply
     | Some k \<Rightarrow> (case M k of None \<Rightarrow> NoReply | Some C \<Rightarrow> array_reply C r))"

definition volume_after :: "(nat \<rightharpoonup> file_handle) \<Rightarrow> (nat \<rightharpoonup> byte list) \<Rightarrow> request \<Rightarrow> (nat \<rightharpoonup> byte list)" where
  "volume_after h M r = (case target h r of None \<Rightarrow> M
     | Some k \<Rightarrow> (case M k of None \<Rightarrow> M | Some C \<Rightarrow> M(k \<mapsto> array_after C r)))"

primrec volume_requests :: "(nat \<rightharpoonup> file_handle) \<Rightarrow> (nat \<Rightarrow> nat) \<Rightarrow> (nat \<rightharpoonup> byte list) \<Rightarrow> request list \<Rightarrow> bool" where
  "volume_requests h N M [] \<longleftrightarrow> True"
| "volume_requests h N M (r # rs) \<longleftrightarrow> volume_request h N M r \<and> volume_requests h N (volume_after h M r) rs"

primrec volume_replies :: "(nat \<rightharpoonup> file_handle) \<Rightarrow> (nat \<rightharpoonup> byte list) \<Rightarrow> request list \<Rightarrow> reply list" where
  "volume_replies h M [] = []"
| "volume_replies h M (r # rs) = volume_reply h M r # volume_replies h (volume_after h M r) rs"

text \<open>Serving requests one after the other.\<close>

primrec serve_all ::
  "libc \<Rightarrow> ext \<Rightarrow> (dirent list \<Rightarrow> dirent \<Rightarrow> bool) \<Rightarrow> fuse_req \<Rightarrow> request list \<Rightarrow> ('z fuse_scheme, unit, reply list) prog" where
  "serve_all L X full req [] = ret []"
| "serve_all L X full req (r # rs) =
     bnd (serve L X full req r) (\<lambda>a. bnd (serve_all L X full req rs) (\<lambda>as. ret (a # as)))"

text \<open>\<open>room\<close>: the blocks that the files can still grow by are free.\<close>

definition grow_cost :: "'z store_scheme \<Rightarrow> (nat \<Rightarrow> nat) \<Rightarrow> (nat \<rightharpoonup> byte list) \<Rightarrow> nat \<Rightarrow> nat" where
  "grow_cost s N M k = (case M k of None \<Rightarrow> 0 | Some C \<Rightarrow> 5 * (blocks_for s (N k) - blocks_for s (length C)))"

lemma grow_cost_cong: "blocks_for t = blocks_for s \<Longrightarrow> M' k = M k \<Longrightarrow> grow_cost t N M' k = grow_cost s N M k"
  by (simp add: grow_cost_def split: option.split)

definition room :: "'z store_scheme \<Rightarrow> (nat \<Rightarrow> nat) \<Rightarrow> (nat \<rightharpoonup> byte list) \<Rightarrow> nat \<Rightarrow> bool" where
  "room s N M d \<longleftrightarrow> finite (dom M) \<and> (\<forall>k C. M k = Some C \<longrightarrow> length C \<le> N k \<and> N k \<le> file_limit s)
     \<and> (\<Sum>k \<in> dom M. grow_cost s N M k) < d"

lemma with_file_fh_run:
  assumes "file_fh s u = Some fh" "m fh (clone_file (fh_key fh) s) = (Ok a, t)" "donkey.more t = donkey.more (clone_file (fh_key fh) s)"
  shows "with_file_fh u (\<lambda>fh. respond (m fh) (\<lambda>v. ret (g v))) s = (Ok (g a), t) \<and> file_fh t = file_fh s"
proof -
  have "file_fh t = file_fh s" using assms(3) by (cases s, cases t) (simp add: clone_file_def)
  then show ?thesis using assms(1,2) by (simp add: with_file_fh_def respond_def ret_def)
qed

lemma blocks_for_mono: "m \<le> n \<Longrightarrow> blocks_for s m \<le> blocks_for s n"
  by (simp add: blocks_for_def div_le_mono)

lemma room_cost:
  assumes "room s N M d" "M k = Some C" "n \<le> N k"
  shows "5 * blocks_for s n < d + 5 * blocks_for s (length C)"
proof -
  have "k \<in> dom M" "finite (dom M)" using assms(1,2) by (auto simp: room_def)
  then have "grow_cost s N M k \<le> (\<Sum>k \<in> dom M. grow_cost s N M k)" by (simp add: member_le_sum)
  also have "\<dots> < d" using assms(1) by (simp add: room_def)
  finally show ?thesis using assms(2) blocks_for_mono [OF assms(3), of s] by (simp add: grow_cost_def)
qed

lemma room_after:
  assumes "room s N M d" "M k = Some C" "length C \<le> length C'" "length C' \<le> N k"
    "d + 5 * blocks_for s (length C) \<le> d' + 5 * blocks_for s (length C')" "block_size (sb t) = block_size (sb s)"
  shows "room t N (M(k \<mapsto> C')) d'"
proof -
  have eq: "blocks_for t = blocks_for s" "file_limit t = file_limit s"
    using assms(6) by (simp_all add: blocks_for_def file_limit_def pcount_def fun_eq_iff)
  have fin: "finite (dom M)" "k \<in> dom M" using assms(1,2) by (auto simp: room_def)
  let ?K = "dom M - {k}"
  have same: "grow_cost t N (M(k \<mapsto> C')) l = grow_cost s N M l" if "l \<in> ?K" for l
    using that by (intro grow_cost_cong) (simp_all add: eq)
  have dom: "dom (M(k \<mapsto> C')) = dom M" using fin(2) by auto
  have "(\<Sum>l \<in> dom M. grow_cost t N (M(k \<mapsto> C')) l)
      = grow_cost t N (M(k \<mapsto> C')) k + (\<Sum>l \<in> ?K. grow_cost s N M l)"
    using sum.remove [OF fin, of "grow_cost t N (M(k \<mapsto> C'))"] same by simp
  moreover have "(\<Sum>l \<in> dom M. grow_cost s N M l) = grow_cost s N M k + (\<Sum>l \<in> ?K. grow_cost s N M l)"
    by (rule sum.remove [OF fin])
  moreover have "(\<Sum>l \<in> dom M. grow_cost s N M l) < d" using assms(1) by (simp add: room_def)
  moreover have "grow_cost t N (M(k \<mapsto> C')) k + d \<le> grow_cost s N M k + d'"
    using assms(2,5) blocks_for_mono [OF assms(3), of s] blocks_for_mono [OF assms(4), of s] by (simp add: grow_cost_def eq)
  ultimately have "(\<Sum>l \<in> dom M. grow_cost t N (M(k \<mapsto> C')) l) < d'" by linarith
  then show ?thesis using assms(1,4) fin dom unfolding room_def eq by auto
qed

text \<open>The requests that the specification covers, taken apart.\<close>

lemma volume_request_cases:
  assumes "volume_request h N M r"
  obtains (Rd) u off n fh C where "r = Read u (int off) n" "off < 9223372036854775808" "h u = Some fh" "M (fh_key fh) = Some C"
  | (Wr) u off data fh C where "r = Write u (int off) data" "off < 9223372036854775808" "h u = Some fh"
      "M (fh_key fh) = Some C" "off \<le> length C" "off + length data \<le> N (fh_key fh)"
proof (cases r)
  case (Read u i n)
  then obtain fh C where "0 \<le> i" "i < 9223372036854775808" "h u = Some fh" "M (fh_key fh) = Some C"
    using assms by (auto simp: volume_request_def split: option.splits)
  then show ?thesis using Rd [of u "nat i" n fh C] Read by simp
next
  case (Write u i data)
  then obtain fh C where "0 \<le> i" "i < 9223372036854775808" "h u = Some fh" "M (fh_key fh) = Some C" "nat i \<le> length C"
    "nat i + length data \<le> N (fh_key fh)"
    using assms by (auto simp: volume_request_def split: option.splits)
  then show ?thesis using Wr [of u "nat i" data fh C] Write by simp
qed (use assms in \<open>simp_all add: volume_request_def\<close>)

text \<open>The file that a request really changes.\<close>

fun writes :: "(nat \<rightharpoonup> file_handle) \<Rightarrow> nat \<Rightarrow> request \<Rightarrow> bool" where
  "writes h k (Write u off data) \<longleftrightarrow> data \<noteq> [] \<and> map_option fh_key (h u) = Some k"
| "writes h k _ \<longleftrightarrow> False"

lemma steady_clone [simp]: "steady (clone_file k s) t = steady s t"
  by (simp add: steady_def clone_file_def file_numbers_def dev_shape_def)

lemma served_read:
  assumes "volume X is M d s" "clock_ok X" "codec_ok X" "\<not> borrowed s" "file_fh s u = Some fh" "M (fh_key fh) = Some C"
    "off < 9223372036854775808"
  obtains t where "serve L X full req (Read u (int off) n) s = (Ok (RData (take n (drop off C))), t)" "volume X is M d t"
    "\<not> borrowed t" "block_size (sb t) = block_size (sb s)" "file_fh t = file_fh s" "steady s t" "file_refs t = file_refs s"
proof -
  let ?c = "clone_file (fh_key fh) s"
  have volume: "volume X is M d ?c" by (subst volume_tables [where s = s]) (simp_all add: clone_file_def assms(1))
  have clone: "\<not> borrowed ?c" "block_size (sb ?c) = block_size (sb s)" using assms(4) by (simp_all add: clone_file_def)
  obtain t where t: "h_read X fh off n ?c = (Ok (take n (drop off C)), t)" "volume X is M d t"
    "\<not> borrowed t" "donkey.more t = donkey.more ?c" "block_size (sb t) = block_size (sb ?c)" "steady ?c t"
    "file_refs t = (file_refs ?c)(fh_key fh := file_refs ?c (fh_key fh) - 1)"
    by (rule h_read_run [OF volume assms(6,2,3) clone(1) assms(7)])
  have "serve L X full req (Read u (int off) n) s = (Ok (RData (take n (drop off C))), t) \<and> file_fh t = file_fh s"
    using with_file_fh_run [where m = "\<lambda>fh. h_read X fh off n" and g = RData, OF assms(5)] t(1,4)
    by (simp add: fs_read_def u64_of_i64_nat [OF assms(7)])
  moreover have "file_refs t = file_refs s" using t(7) by (simp add: clone_file_def)
  ultimately show thesis using that t(2,3,5,6) clone(2) by simp
qed

lemma served_request:
  assumes "volume X is M d s" "clock_ok X" "codec_ok X" "\<not> borrowed s" "room s N M d"
    "volume_request (file_fh s) N M r"
  obtains t d' where "serve L X full req r s = (Ok (volume_reply (file_fh s) M r), t)"
    "volume X is (volume_after (file_fh s) M r) d' t"
    "\<not> borrowed t" "room t N (volume_after (file_fh s) M r) d'" "file_fh t = file_fh s"
    "steady s t" "file_refs t = file_refs s"
    "\<And>k. writes (file_fh s) k r \<Longrightarrow> (\<exists>g. opened_files t k = Some g \<and> f_dirty g)"
proof -
  have refs: "(file_refs (clone_file k s))(k := file_refs (clone_file k s) k - 1) = file_refs s" for k
    by (simp add: clone_file_def)
  have volume: "volume X is M d (clone_file k s)" for k
    by (subst volume_tables [where s = s]) (simp_all add: clone_file_def assms(1))
  have clone: "\<not> borrowed (clone_file k s)" "block_size (sb (clone_file k s)) = block_size (sb s)"
    "blocks_for (clone_file k s) = blocks_for s" "file_limit (clone_file k s) = file_limit s" for k
    using assms(4) by (simp_all add: clone_file_def blocks_for_def file_limit_def pcount_def fun_eq_iff)
  show thesis
    using assms(6)
  proof (cases rule: volume_request_cases)
    case (Rd u off n fh C)
    obtain t where t: "serve L X full req (Read u (int off) n) s = (Ok (RData (take n (drop off C))), t)" "volume X is M d t"
      "\<not> borrowed t" "block_size (sb t) = block_size (sb s)" "file_fh t = file_fh s" "steady s t" "file_refs t = file_refs s"
      by (rule served_read [OF assms(1-4) Rd(3,4,2)])
    have "blocks_for t = blocks_for s" "file_limit t = file_limit s"
      using t(4) by (simp_all add: blocks_for_def file_limit_def pcount_def fun_eq_iff)
    then have "room t N M d" using assms(5) by (simp add: room_def grow_cost_cong [of t s])
    moreover have "volume_reply (file_fh s) M r = RData (take n (drop off C))" "volume_after (file_fh s) M r = M"
      using Rd(3,4) by (simp_all add: Rd(1) volume_reply_def volume_after_def fun_upd_idem)
    ultimately show ?thesis using that [of t d] t by (simp add: Rd(1))
  next
    case (Wr u off data fh C)
    note fh = Wr(3,4) and off = Wr(2) and le = Wr(5,6)
    let ?c = "clone_file (fh_key fh) s" and ?C = "overwrite off data C"
    have N: "length C \<le> N (fh_key fh)" "N (fh_key fh) \<le> file_limit s" using assms(5) fh(2) by (simp_all add: room_def)
    have pre: "off + length data \<le> file_limit ?c"
      "5 * blocks_for ?c (off + length data) < d + 5 * blocks_for ?c (length C)"
      using le(2) N(2) room_cost [OF assms(5) fh(2) le(2)] by (simp_all add: clone)
    obtain t d' where t: "h_write X fh off data ?c = (Ok (length data), t)" "volume X is (M(fh_key fh \<mapsto> ?C)) d' t"
      "\<not> borrowed t" "donkey.more t = donkey.more ?c" "block_size (sb t) = block_size (sb ?c)"
      "d + 5 * blocks_for ?c (length C) \<le> d' + 5 * blocks_for ?c (length ?C)" "steady ?c t"
      "file_refs t = (file_refs ?c)(fh_key fh := file_refs ?c (fh_key fh) - 1)"
      "data \<noteq> [] \<longrightarrow> (\<exists>g. opened_files t (fh_key fh) = Some g \<and> f_dirty g)"
      by (rule h_write_run [OF volume fh(2) assms(2) clone(1) le(1) off pre])
    have "serve L X full req r s = (Ok (volume_reply (file_fh s) M r), t) \<and> file_fh t = file_fh s"
      using with_file_fh_run [where m = "\<lambda>fh. h_write X fh off data" and g = "\<lambda>n. RWritten (n mod 4294967296)", OF fh(1)]
        t(1,4) fh by (simp add: Wr(1) fs_write_def u64_of_i64_nat [OF off] volume_reply_def)
    moreover have "volume_after (file_fh s) M r = M(fh_key fh \<mapsto> ?C)" using fh by (simp add: Wr(1) volume_after_def)
    moreover have "room t N (M(fh_key fh \<mapsto> ?C)) d'"
      by (rule room_after [OF assms(5) fh(2)]) (use t(5,6) clone le N(1) in \<open>simp_all add: length_overwrite\<close>)
    ultimately show ?thesis using that t(2,3,7-9) fh(1) refs by (simp add: Wr(1))
  qed
qed

text \<open>What a sequence of requests leaves besides the contents of the files.\<close>

definition left_by :: "(nat \<rightharpoonup> file_handle) \<Rightarrow> request list \<Rightarrow> 'z fuse_scheme \<Rightarrow> 'z fuse_scheme \<Rightarrow> bool" where
  "left_by h rs s t \<longleftrightarrow> \<not> borrowed t \<and> file_fh t = file_fh s \<and> steady s t \<and> file_refs t = file_refs s
     \<and> (\<forall>k. list_ex (writes h k) rs \<longrightarrow> (\<exists>g. opened_files t k = Some g \<and> f_dirty g))"

lemma served_requests:
  assumes "volume X is M d s" "clock_ok X" "codec_ok X" "\<not> borrowed s" "room s N M d"
    "volume_requests (file_fh s) N M rs"
  shows "\<exists>t d'. serve_all L X full req rs s = (Ok (volume_replies (file_fh s) M rs), t)
    \<and> volume X is (foldl (volume_after (file_fh s)) M rs) d' t \<and> 0 < d' \<and> left_by (file_fh s) rs s t"
  using assms
proof (induction rs arbitrary: M d s)
  case Nil
  then have "0 < d" by (simp add: room_def)
  then show ?case using Nil.prems(1,4) by (auto simp: ret_def left_by_def)
next
  case (Cons r rs)
  have r: "volume_request (file_fh s) N M r" "volume_requests (file_fh s) N (volume_after (file_fh s) M r) rs"
    using Cons.prems(6) by simp_all
  obtain t d' where t: "serve L X full req r s = (Ok (volume_reply (file_fh s) M r), t)"
    "volume X is (volume_after (file_fh s) M r) d' t"
    "\<not> borrowed t" "room t N (volume_after (file_fh s) M r) d'" "file_fh t = file_fh s"
    "steady s t" "file_refs t = file_refs s"
    "\<And>k. writes (file_fh s) k r \<Longrightarrow> (\<exists>g. opened_files t k = Some g \<and> f_dirty g)"
    by (rule served_request [OF Cons.prems(1-5) r(1)]) blast
  from Cons.IH [OF t(2) Cons.prems(2,3) t(3,4), unfolded t(5), OF r(2)] obtain u d'' where
    u: "serve_all L X full req rs t = (Ok (volume_replies (file_fh s) (volume_after (file_fh s) M r) rs), u)"
    "volume X is (foldl (volume_after (file_fh s)) (volume_after (file_fh s) M r) rs) d'' u" "0 < d''"
    "left_by (file_fh s) rs t u" by blast
  have "\<exists>g. opened_files u k = Some g \<and> f_dirty g" if w: "writes (file_fh s) k r" for k
    using t(8) [OF w] u(4) steady_file by (metis left_by_def)
  then have "left_by (file_fh s) (r # rs) s u"
    using u(4) t(5-7) steady_trans [OF t(6)] unfolding left_by_def by auto
  moreover have "serve_all L X full req (r # rs) s = (Ok (volume_replies (file_fh s) M (r # rs)), u)"
    using u(1) by (simp add: bnd_def t(1) ret_def)
  ultimately show ?case using u(2,3) by auto
qed

end
