(* ===== verification/FileDestroy.thy ===== *)
theory FileDestroy
  imports FileLife
begin

text \<open>
  Releasing the blocks of a file (\<open>free_file_db\<close>, \<open>clear_pointers_rec\<close> and \<open>destroy\<close> of file.rs) from the
  first block on.  \<open>below V l p\<close> lists the blocks under the pointer block \<open>p\<close> that has \<open>l\<close> levels below it,
  in the order in which they are freed: the blocks under an entry before the entry itself.
\<close>

section \<open>The blocks under a pointer\<close>

primrec below :: "(nat \<Rightarrow> nat list) \<Rightarrow> nat \<Rightarrow> nat \<Rightarrow> nat list" where
  "below V 0 p = []"
| "below V (Suc l) p = concat (map (\<lambda>q. if q = 0 then [] else below V l q @ [q]) (V p))"

definition branch :: "(nat \<Rightarrow> nat list) \<Rightarrow> nat \<Rightarrow> nat \<Rightarrow> nat list" where
  "branch V l p = (if p = 0 then [] else below V l p @ [p])"

lemma below_Suc: "below V (Suc l) p = concat (map (branch V l) (V p))"
  by (simp add: branch_def [abs_def])

declare below.simps(2) [simp del]

lemma set_branch: "set (branch V l p) = (if p = 0 then {} else insert p (set (below V l p)))"
  by (simp add: branch_def)

text \<open>The pointer blocks of the tree are on the device as \<open>V\<close> says.\<close>

primrec stored :: "ext \<Rightarrow> 'z store_scheme \<Rightarrow> (nat \<Rightarrow> nat list) \<Rightarrow> nat \<Rightarrow> nat \<Rightarrow> bool" where
  "stored X s V 0 p \<longleftrightarrow> p \<in> data_blocks s"
| "stored X s V (Suc l) p \<longleftrightarrow> p \<in> data_blocks s \<and> disk_ptrs X s p = V p \<and> (\<forall>q \<in> set (V p). q \<noteq> 0 \<longrightarrow> stored X s V l q)"

lemma stored_block: "stored X s V l p \<Longrightarrow> p \<in> data_blocks s"
  by (cases l) simp_all

lemma stored_below: "stored X s V l p \<Longrightarrow> q \<in> set (below V l p) \<Longrightarrow> q \<in> data_blocks s"
proof (induction l arbitrary: p)
  case (Suc l)
  then obtain r where r: "r \<in> set (V p)" "r \<noteq> 0" "q = r \<or> q \<in> set (below V l r)"
    by (auto simp: below_Suc set_branch split: if_splits)
  then have "stored X s V l r" using Suc.prems(1) by simp
  then show ?case using r(3) Suc.IH stored_block by blast
qed simp

lemma stored_evolves:
  assumes "stored X s V l p" "store_ok X s is ds" "evolves (sb_range \<union> block_bytes (block_size (sb s)) Q) s t"
    "Q \<subseteq> data_blocks s" "p \<notin> Q" "set (below V l p) \<inter> Q = {}"
  shows "stored X t V l p"
  using assms(1,5,6)
proof (induction l arbitrary: p)
  case 0
  then show ?case by (simp add: evolves_simps [OF assms(3)])
next
  case (Suc l)
  have "{p..<p + block_size (sb s)} \<inter> (sb_range \<union> block_bytes (block_size (sb s)) Q) = {}"
    using sb_apart [OF assms(2), of p] block_bytes_apart [OF _ assms(4) Suc.prems(2)] Suc.prems(1) by auto
  then have "disk_ptrs X t p = V p" using Suc.prems(1) by (simp add: disk_ptrs_evolves [OF assms(3)])
  moreover have "stored X t V l q" if "q \<in> set (V p)" "q \<noteq> 0" for q
    by (rule Suc.IH) (use that Suc.prems in \<open>auto simp: below_Suc set_branch\<close>)
  ultimately show ?case using Suc.prems(1) by (simp add: evolves_simps [OF assms(3)])
qed

section \<open>Freeing\<close>

text \<open>\<open>freed X is ds fs qs gt\<close>: the blocks \<open>qs\<close> have been freed, the last one first in the list.\<close>

definition lower_blocks :: "nat \<Rightarrow> dkfile \<Rightarrow> dkfile" where
  "lower_blocks n f = f\<lparr>f_inode := (f_inode f)\<lparr>i_blocks := i_blocks (f_inode f) - n\<rparr>\<rparr>"

definition freed :: "ext \<Rightarrow> nat list \<Rightarrow> nat list \<Rightarrow> 'z store_scheme \<Rightarrow> nat list \<Rightarrow> 'z store_scheme \<Rightarrow> bool" where
  "freed X is ds s qs t \<longleftrightarrow> store_ok X t is (rev qs @ ds)
     \<and> evolves (sb_range \<union> block_bytes (block_size (sb s)) (set qs)) s t"

lemma lower_blocks_0 [simp]: "lower_blocks 0 f = f"
  by (simp add: lower_blocks_def)

lemma lower_blocks_add [simp]: "lower_blocks n (lower_blocks m f) = lower_blocks (m + n) f"
  by (simp add: lower_blocks_def)

lemma lower_blocks_fields [simp]:
  "i_blocks (f_inode (lower_blocks n f)) = i_blocks (f_inode f) - n" "rows (lower_blocks n f) = rows f"
  by (simp_all add: lower_blocks_def rows_def fun_eq_iff)

lemma freed_Nil: "store_ok X s is ds \<Longrightarrow> freed X is ds s [] s"
  by (simp add: freed_def)

lemma freed_D:
  assumes "freed X is ds s qs t"
  shows "store_ok X t is (rev qs @ ds)" "block_size (sb t) = block_size (sb s)" "pcount t = pcount s"
    "data_blocks t = data_blocks s"
proof -
  have e: "evolves (sb_range \<union> block_bytes (block_size (sb s)) (set qs)) s t" using assms by (simp add: freed_def)
  show "store_ok X t is (rev qs @ ds)" using assms by (simp add: freed_def)
  show "block_size (sb t) = block_size (sb s)" "data_blocks t = data_blocks s" "pcount t = pcount s"
    by (rule evolves_simps [OF e] pcount_evolves [OF e])+
qed

lemma freed_trans:
  assumes "freed X is ds s qs t" "freed X is (rev qs @ ds) t rs u"
  shows "freed X is ds s (qs @ rs) u"
proof -
  have bs: "block_size (sb t) = block_size (sb s)" by (rule freed_D(2) [OF assms(1)])
  have e: "evolves (sb_range \<union> block_bytes (block_size (sb s)) (set qs)) s t" using assms(1) by (simp add: freed_def)
  have e': "evolves (sb_range \<union> block_bytes (block_size (sb s)) (set rs)) t u"
    using assms(2) by (simp add: freed_def bs)
  let ?A = "sb_range \<union> block_bytes (block_size (sb s)) (set qs \<union> set rs)"
  have "evolves ?A s t" by (rule evolves_mono [OF e]) auto
  moreover have "evolves ?A t u" by (rule evolves_mono [OF e']) auto
  ultimately have "evolves ?A s u" by (rule evolves_trans)
  then show ?thesis using assms(2) by (simp add: freed_def)
qed

lemma freed_stored:
  assumes "freed X is ds s qs t" "store_ok X s is' ds'" "stored X s V l p" "set qs \<subseteq> data_blocks s"
    "set (p # below V l p) \<inter> set qs = {}"
  shows "stored X t V l p"
proof (rule stored_evolves [OF assms(3,2)])
  show "evolves (sb_range \<union> block_bytes (block_size (sb s)) (set qs)) s t" using assms(1) by (simp add: freed_def)
qed (use assms(4,5) in auto)

lemma free_one:
  assumes "store_ok X s is ds" "p \<in> data_blocks s" "p \<notin> set ds" "0 < i_blocks (f_inode f)"
  obtains t where "freed X is ds s [p] t" "on_dk (free_db X p) (f, s) = (Ok (), (f, t))"
    "bnd (on_dk (free_db X p)) (\<lambda>_. dec_blocks) (f, s) = (Ok (), (lower_blocks 1 f, t))"
proof -
  obtain t where t: "free_db X p s = (Ok (), t)" "store_ok X t is (p # ds)" "same_used {p..<p + block_size (sb s)} s t"
    by (rule free_db_push [OF assms(1-3)])
  have fr: "freed X is ds s [p] t" using t(2) evolves_same_used [OF t(3)] by (simp add: freed_def)
  have m: "on_dk (free_db X p) (f, s) = (Ok (), (f, t))" by (simp add: on_dk_def t(1))
  have "dec_blocks (f, t) = (Ok (), (lower_blocks 1 f, t))"
    using assms(4) by (simp add: dec_blocks_def bnd_def get_file_def mod_inode_def mod_file_def lower_blocks_def)
  then have "bnd (on_dk (free_db X p)) (\<lambda>_. dec_blocks) (f, s) = (Ok (), (lower_blocks 1 f, t))"
    unfolding bnd_Ok [of "on_dk (free_db X p)", OF m] .
  then show thesis by (rule that [OF fr m])
qed

section \<open>The recursion\<close>

text \<open>What a call on the pointer \<open>p\<close> needs: its tree is stored, its blocks are different and in use.\<close>

definition clearable :: "ext \<Rightarrow> (nat \<Rightarrow> nat list) \<Rightarrow> nat \<Rightarrow> nat list \<Rightarrow> 'z store_scheme \<Rightarrow> nat list \<Rightarrow> bool" where
  "clearable X V l ds s ps \<longleftrightarrow> (\<forall>p \<in> set ps. p \<noteq> 0 \<longrightarrow> stored X s V l p)
     \<and> distinct (concat (map (branch V l) ps)) \<and> set (concat (map (branch V l) ps)) \<inter> set ds = {}"

lemma stored_branch: "(p \<noteq> 0 \<longrightarrow> stored X s V l p) \<Longrightarrow> set (branch V l p) \<subseteq> data_blocks s"
  by (auto simp: set_branch dest: stored_block stored_below)

lemma clearable_Cons:
  assumes "clearable X V l ds s (p # ps)" "store_ok X s is ds"
  shows "clearable X V l ds s [p]"
    "freed X is ds s (branch V l p) t \<Longrightarrow> clearable X V l (rev (branch V l p) @ ds) t ps"
proof -
  let ?B = "branch V l p" and ?C = "concat (map (branch V l) ps)"
  have c: "p \<noteq> 0 \<longrightarrow> stored X s V l p" "\<And>q. q \<in> set ps \<Longrightarrow> q \<noteq> 0 \<Longrightarrow> stored X s V l q" "distinct ?B" "distinct ?C"
    "set ?B \<inter> set ?C = {}" "set ?B \<inter> set ds = {}" "set ?C \<inter> set ds = {}"
    using assms(1) by (auto simp: clearable_def)
  show "clearable X V l ds s [p]" using c(1,3,6) by (simp add: clearable_def)
  assume f: "freed X is ds s ?B t"
  have "stored X t V l q" if "q \<in> set ps" "q \<noteq> 0" for q
  proof (rule freed_stored [OF f assms(2) c(2) [OF that] stored_branch [OF c(1)]])
    have "set (branch V l q) \<subseteq> set ?C" using that(1) by auto
    then show "set (q # below V l q) \<inter> set ?B = {}" using c(5) that(2) by (auto simp: set_branch)
  qed
  then show "clearable X V l (rev ?B @ ds) t ps" using c(4,5,7) by (auto simp: clearable_def)
qed

lemma clear_entries_run:
  fixes s :: "'z store_scheme"
  assumes "\<And>f (s :: 'z store_scheme) ds p start. store_ok X s is ds \<Longrightarrow> pcount s = pc \<Longrightarrow> clearable X V l ds s [p] \<Longrightarrow> p \<noteq> 0 \<Longrightarrow>
      length (branch V l p) \<le> i_blocks (f_inode f) \<Longrightarrow> start + pc ^ l < u64_limit \<Longrightarrow>
      \<exists>t. clear_pointers_rec X 0 l start p (f, s) = (Ok True, (lower_blocks (length (below V l p)) f, t))
        \<and> freed X is ds s (below V l p) t"
    "store_ok X s is ds" "pcount s = pc" "clearable X V l ds s ps"
    "length (concat (map (branch V l) ps)) \<le> i_blocks (f_inode f)" "start + length ps * pc ^ l < u64_limit"
  shows "\<exists>t. clear_entries X (\<lambda>st p. clear_pointers_rec X 0 l st p) (pc ^ l) start ps (f, s)
      = (Ok (), (lower_blocks (length (concat (map (branch V l) ps))) f, t))
    \<and> freed X is ds s (concat (map (branch V l) ps)) t"
  using assms(2-)
proof (induction ps arbitrary: f s ds start)
  case Nil
  then show ?case by (auto intro: freed_Nil)
next
  case (Cons p ps)
  let ?B = "branch V l p" and ?rec = "clear_pointers_rec X 0 l"
  note c = clearable_Cons [OF Cons.prems(3,1)]
  have st: "start + pc ^ l < u64_limit" using Cons.prems(5) by simp
  have one: "\<exists>t. bnd (?rec start p) (\<lambda>clear.
     if clear then bnd (on_dk (free_db X p)) (\<lambda>_. dec_blocks) else ret ()) (f, s)
       = (Ok (), (lower_blocks (length ?B) f, t)) \<and> freed X is ds s ?B t"
  proof (cases "p = 0")
    case True
    have "?rec start p (f, s) = (Ok False, (f, s))" using True by (cases l) simp_all
    then show ?thesis using True Cons.prems(1) by (auto simp: bnd_def branch_def intro: freed_Nil)
  next
    case False
    have len: "length ?B \<le> i_blocks (f_inode f)" using Cons.prems(4) by simp
    obtain t where t: "?rec start p (f, s) = (Ok True, (lower_blocks (length (below V l p)) f, t))"
      "freed X is ds s (below V l p) t"
      using assms(1) [OF Cons.prems(1,2) c(1) False len st] by blast
    note D = freed_D [OF t(2)]
    have p: "p \<in> data_blocks t" "p \<notin> set (rev (below V l p) @ ds)"
      using c(1) False stored_block D(4) by (auto simp: clearable_def branch_def)
    have n: "0 < i_blocks (f_inode (lower_blocks (length (below V l p)) f))" using len False by (simp add: branch_def)
    obtain u where u: "freed X is (rev (below V l p) @ ds) t [p] u"
      "bnd (on_dk (free_db X p)) (\<lambda>_. dec_blocks) (lower_blocks (length (below V l p)) f, t)
        = (Ok (), (lower_blocks 1 (lower_blocks (length (below V l p)) f), u))"
      by (rule free_one [OF D(1) p n])
    show ?thesis
      using freed_trans [OF t(2) u(1)] u(2) False
      by (simp add: bnd_Ok [of "?rec start p", OF t(1)] branch_def)
  qed
  then obtain t where t: "bnd (?rec start p) (\<lambda>clear.
     if clear then bnd (on_dk (free_db X p)) (\<lambda>_. dec_blocks) else ret ()) (f, s)
       = (Ok (), (lower_blocks (length ?B) f, t))" "freed X is ds s ?B t" by blast
  note D = freed_D [OF t(2)]
  have pre: "pcount t = pc" "length (concat (map (branch V l) ps)) \<le> i_blocks (f_inode (lower_blocks (length ?B) f))"
    "start + pc ^ l + length ps * pc ^ l < u64_limit"
    using D(3) Cons.prems(2,4,5) by (simp_all add: add.assoc)
  from Cons.IH [OF D(1) pre(1) c(2) [OF t(2)] pre(2,3)] obtain u where
    u: "clear_entries X (\<lambda>st p. ?rec st p) (pc ^ l) (start + pc ^ l) ps (lower_blocks (length ?B) f, t)
      = (Ok (), (lower_blocks (length (concat (map (branch V l) ps))) (lower_blocks (length ?B) f), u))"
    "freed X is (rev ?B @ ds) t (concat (map (branch V l) ps)) u" by blast
  have "clear_entries X (\<lambda>st p. ?rec st p) (pc ^ l) start (p # ps) (f, s)
     = bnd (bnd (?rec start p) (\<lambda>clear. if clear then bnd (on_dk (free_db X p)) (\<lambda>_. dec_blocks) else ret ()))
         (\<lambda>_. bnd (ck_add start (pc ^ l)) (\<lambda>start'. clear_entries X (\<lambda>st p. ?rec st p) (pc ^ l) start' ps)) (f, s)"
    by (simp add: bnd_assoc)
  also have "\<dots> = (Ok (), (lower_blocks (length (concat (map (branch V l) (p # ps)))) f, u))"
    unfolding bnd_Ok [of "bnd (?rec start p) _", OF t(1)] ck_add_ok [OF st] bnd_ret u(1) by simp
  finally show ?case using freed_trans [OF t(2) u(2)] by auto
qed

lemma bnd_block_size [simp]: "bnd dk_block_size h (f, s) = h (block_size (sb s)) (f, s)"
  by (simp add: dk_block_size_def bnd_def on_dk_def)

lemma clear_pointers_run:
  assumes "store_ok X s is ds" "pcount s ^ 4 < u64_limit" "l \<le> 4" "clearable X V l ds s [p]" "p \<noteq> 0"
    "length (branch V l p) \<le> i_blocks (f_inode f)" "start + pcount s ^ l < u64_limit"
  shows "\<exists>t. clear_pointers_rec X 0 l start p (f, s) = (Ok True, (lower_blocks (length (below V l p)) f, t))
    \<and> freed X is ds s (below V l p) t"
proof -
  have "\<exists>t. clear_pointers_rec X 0 l start p (f, s) = (Ok True, (lower_blocks (length (below V l p)) f, t))
      \<and> freed X is ds s (below V l p) t"
    if "store_ok X s is ds" "pcount s = pc" "clearable X V l ds s [p]" "p \<noteq> 0"
      "length (branch V l p) \<le> i_blocks (f_inode f)" "start + pc ^ l < u64_limit" "pc ^ 4 < u64_limit" "l \<le> 4"
    for pc f and s :: "'a store_scheme" and ds p start using that
  proof (induction l arbitrary: f s ds p start)
    case 0
    then show ?case by (auto simp: bnd_def dk_block_size_def on_dk_def intro: freed_Nil)
  next
    case (Suc l)
    have stored: "stored X s V (Suc l) p" using Suc.prems(3,4) by (simp add: clearable_def)
    note ok = store_okD [OF Suc.prems(1)]
    have bs: "block_size (sb s) div 8 = pc" using Suc.prems(2) by (simp add: pcount_def)
    have pc: "2 \<le> pc" using ok(7) Suc.prems(2) by simp
    have pow: "pc ^ Suc l < u64_limit" using Suc.prems(6) by simp
    have len: "length (V p) = pc" using stored length_disk_ptrs [of X s p] Suc.prems(2) by auto
    have rd: "on_dk (read_ptr_block X p) (f, s) = (Ok (V p), (f, s))"
      using read_ptr_block_Ok [OF Suc.prems(1) stored_block [OF stored]] stored by (simp add: on_dk_def)
    have cl: "clearable X V l ds s (V p)"
      using stored Suc.prems(3,4) unfolding clearable_def
      by (simp add: branch_def [of V "Suc l"] below_Suc)
    have n: "length (concat (map (branch V l) (V p))) \<le> i_blocks (f_inode f)"
      using Suc.prems(4,5) by (simp only: branch_def [of V "Suc l"] below_Suc) simp
    have st: "start + length (V p) * pc ^ l < u64_limit" using Suc.prems(6) len by simp
    have l4: "l \<le> 4" using Suc.prems(8) by simp
    obtain t where t: "clear_entries X (\<lambda>st p. clear_pointers_rec X 0 l st p) (pc ^ l) start (V p) (f, s)
        = (Ok (), (lower_blocks (length (concat (map (branch V l) (V p)))) f, t))"
      "freed X is ds s (concat (map (branch V l) (V p))) t"
      using clear_entries_run [OF Suc.IH Suc.prems(1,2) cl n st] Suc.prems(7) l4 by blast
    have "pc ^ Suc l div pc = pc ^ l" using pc by simp
    then have "clear_pointers_rec X 0 (Suc l) start p (f, s)
        = (Ok True, (lower_blocks (length (concat (map (branch V l) (V p)))) f, t))"
      using Suc.prems(4) pc pow
      by (simp add: bs bnd_Ok [of "on_dk (read_ptr_block X p)", OF rd] bnd_Ok [of "clear_entries _ _ _ _ _", OF t(1)] del: power_Suc)
    then show ?case using t(2) by (simp only: below_Suc) blast
  qed
  from this [OF assms(1) refl assms(4-7,2,3)] show ?thesis .
qed

section \<open>The forest of a file\<close>

text \<open>The places of a tree at or under a place, by their pointers.\<close>

definition reach :: "nat \<Rightarrow> (nat \<Rightarrow> nat list) \<Rightarrow> (nat \<Rightarrow> nat list) \<Rightarrow> nat \<Rightarrow> nat \<Rightarrow> nat \<Rightarrow> nat set" where
  "reach pc R V i d j = {node pc R V i d' j' | d' j'. d \<le> d' \<and> place pc i d' j' \<and> j' div pc ^ (d' - d) = j
     \<and> node pc R V i d' j' \<noteq> 0}"

lemma reachI: "d \<le> d' \<Longrightarrow> place pc i d' j' \<Longrightarrow> j' div pc ^ (d' - d) = j \<Longrightarrow> node pc R V i d' j' \<noteq> 0 \<Longrightarrow>
   node pc R V i d' j' \<in> reach pc R V i d j"
  unfolding reach_def by blast

lemma reachE:
  assumes "x \<in> reach pc R V i d j"
  obtains d' j' where "x = node pc R V i d' j'" "d \<le> d'" "place pc i d' j'" "j' div pc ^ (d' - d) = j"
    "node pc R V i d' j' \<noteq> 0"
  using assms unfolding reach_def by blast

lemma null_above:
  assumes "node pc R V i d (j' div pc ^ k) = 0"
  shows "node pc R V i (d + k) j' = 0"
  using assms
proof (induction k arbitrary: j')
  case (Suc k)
  have "j' div pc div pc ^ k = j' div pc ^ Suc k" by (simp add: div_mult2_eq)
  then show ?case using Suc.IH [of "j' div pc"] Suc.prems by simp
qed simp

lemma reach_null: "node pc R V i d j = 0 \<Longrightarrow> reach pc R V i d j = {}"
proof -
  assume z: "node pc R V i d j = 0"
  have "False" if x: "x \<in> reach pc R V i d j" for x
  proof -
    obtain d' j' where d: "d \<le> d'" "j' div pc ^ (d' - d) = j" "node pc R V i d' j' \<noteq> 0"
      using reachE [OF x] by metis
    show False using null_above [of pc R V i d j' "d' - d"] z d by simp
  qed
  then show ?thesis by blast
qed

lemma reach_step:
  assumes "place pc i d j" "d < i" "node pc R V i d j \<noteq> 0" "0 < pc"
  shows "reach pc R V i d j = insert (node pc R V i d j) (\<Union>m < pc. reach pc R V i (Suc d) (j * pc + m))"
proof (intro equalityI subsetI)
  fix x assume "x \<in> reach pc R V i d j"
  then obtain d' j' where x: "x = node pc R V i d' j'" "d \<le> d'" "place pc i d' j'" "j' div pc ^ (d' - d) = j"
    "node pc R V i d' j' \<noteq> 0" by (rule reachE)
  show "x \<in> insert (node pc R V i d j) (\<Union>m < pc. reach pc R V i (Suc d) (j * pc + m))"
  proof (cases "d' = d")
    case True
    then show ?thesis using x(1,4) by simp
  next
    case False
    then obtain k where k: "d' = Suc d + k" using x(2) by (metis le_eq_less_or_eq less_iff_Suc_add add_Suc)
    let ?n = "j' div pc ^ k"
    have "?n div pc = j" using x(4) by (simp add: k div_mult2_eq [symmetric] mult.commute)
    then have n: "?n = j * pc + ?n mod pc" by (metis div_mult_mod_eq)
    have "x \<in> reach pc R V i (Suc d) (j * pc + ?n mod pc)"
      unfolding x(1) by (rule reachI) (use k x(3,5) n in simp_all)
    then show ?thesis using assms(4) by auto
  qed
next
  fix x assume "x \<in> insert (node pc R V i d j) (\<Union>m < pc. reach pc R V i (Suc d) (j * pc + m))"
  then consider "x = node pc R V i d j" | m where "m < pc" "x \<in> reach pc R V i (Suc d) (j * pc + m)" by blast
  then show "x \<in> reach pc R V i d j"
  proof cases
    case 1
    then show ?thesis using reachI [OF order_refl assms(1), of j R V] assms(3) by simp
  next
    case (2 m)
    obtain d' j' where x: "x = node pc R V i d' j'" "Suc d \<le> d'" "place pc i d' j'"
      "j' div pc ^ (d' - Suc d) = j * pc + m" "node pc R V i d' j' \<noteq> 0" using 2(2) by (rule reachE)
    have "d' - d = Suc (d' - Suc d)" using x(2) by simp
    then have "j' div pc ^ (d' - d) = j' div pc ^ (d' - Suc d) div pc" by (simp add: div_mult2_eq [symmetric] mult.commute)
    also have "\<dots> = j" using x(4) 2(1) by simp
    finally show ?thesis unfolding x(1) using x(2,3,5) by (intro reachI) simp_all
  qed
qed

lemma node_child:
  "node pc R V i d j \<noteq> 0 \<Longrightarrow> m < pc \<Longrightarrow> node pc R V i (Suc d) (j * pc + m) = V (node pc R V i d j) ! m"
  by (simp add: Let_def)

lemma place_child: "place pc i d j \<Longrightarrow> d < i \<Longrightarrow> m < pc \<Longrightarrow> place pc i (Suc d) (j * pc + m)"
proof -
  assume a: "place pc i d j" "d < i" "m < pc"
  have "Suc j \<le> pc ^ d" using a by (auto simp: place_def)
  then have "Suc j * pc \<le> pc ^ d * pc" by (rule mult_le_mono1)
  then show ?thesis using a by (simp add: place_def mult.commute)
qed

lemma distinct_concat_map:
  assumes "\<And>m. m < length xs \<Longrightarrow> distinct (h (xs ! m))"
    "\<And>m n. m < length xs \<Longrightarrow> n < length xs \<Longrightarrow> m \<noteq> n \<Longrightarrow> set (h (xs ! m)) \<inter> set (h (xs ! n)) = {}"
  shows "distinct (concat (map h xs))"
  using assms
proof (induction xs)
  case (Cons x xs)
  have "set (h x) \<inter> set (h y) = {}" if "y \<in> set xs" for y
    using that Cons.prems(2) [of 0] by (force simp: in_set_conv_nth)
  moreover have "distinct (h x)" using Cons.prems(1) [of 0] by simp
  moreover have "distinct (concat (map h xs))"
    by (rule Cons.IH) (use Cons.prems [of "Suc _"] Cons.prems(2) [of "Suc _" "Suc _"] in auto)
  ultimately show ?case by auto
qed simp

text \<open>The blocks under a place, as the recursion lists them: all of them, and each once.\<close>

lemma branch_reach:
  assumes "tree_ok pc B R V" "0 < pc" "place pc i d j" "d + l = i"
  shows "set (branch V l (node pc R V i d j)) = reach pc R V i d j \<and> distinct (branch V l (node pc R V i d j))"
  using assms(3,4)
proof (induction l arbitrary: d j)
  case 0
  let ?p = "node pc R V i d j"
  have "reach pc R V i d j = (if ?p = 0 then {} else {?p})"
  proof (intro equalityI subsetI)
    fix x assume "x \<in> reach pc R V i d j"
    then obtain d' j' where "x = node pc R V i d' j'" "d \<le> d'" "place pc i d' j'" "j' div pc ^ (d' - d) = j"
      "node pc R V i d' j' \<noteq> 0" by (rule reachE)
    moreover from this have "d' = d" using 0 by (simp add: place_def)
    ultimately show "x \<in> (if ?p = 0 then {} else {?p})" by simp
  next
    fix x assume "x \<in> (if ?p = 0 then {} else {?p})"
    then have x: "x = ?p" "?p \<noteq> 0" by (simp_all split: if_splits)
    then show "x \<in> reach pc R V i d j" using reachI [OF order_refl 0(1) _ x(2)] by simp
  qed
  then show ?case by (simp add: branch_def)
next
  case (Suc l)
  let ?p = "node pc R V i d j" and ?c = "\<lambda>m. j * pc + m"
  show ?case
  proof (cases "?p = 0")
    case True
    then show ?thesis by (simp add: branch_def reach_null)
  next
    case False
    have d: "d < i" using Suc.prems(2) by simp
    have len: "length (V ?p) = pc" by (rule tree_length [OF assms(1) Suc.prems(1) d False])
    have IH: "set (branch V l (V ?p ! m)) = reach pc R V i (Suc d) (?c m)" "distinct (branch V l (V ?p ! m))" if "m < pc" for m
      using Suc.IH [OF place_child [OF Suc.prems(1) d that]] Suc.prems(2) node_child [OF False that]
      by (simp_all del: node.simps)
    have apart: "reach pc R V i (Suc d) (?c m) \<inter> reach pc R V i (Suc d) (?c n) = {}" if "m \<noteq> n" for m n
    proof -
      have "False" if x: "x \<in> reach pc R V i (Suc d) (?c m)" "x \<in> reach pc R V i (Suc d) (?c n)" for x
      proof -
        obtain d1 j1 where 1: "x = node pc R V i d1 j1" "place pc i d1 j1" "j1 div pc ^ (d1 - Suc d) = ?c m"
          "node pc R V i d1 j1 \<noteq> 0" using x(1) by (rule reachE)
        obtain d2 j2 where 2: "x = node pc R V i d2 j2" "place pc i d2 j2" "j2 div pc ^ (d2 - Suc d) = ?c n"
          using x(2) by (rule reachE)
        have "d1 = d2 \<and> j1 = j2" using tree_inj [OF assms(1) 1(2) 2(2) 1(4)] 1(1) 2(1) by simp
        then show False using 1(3) 2(3) \<open>m \<noteq> n\<close> by simp
      qed
      then show ?thesis by blast
    qed
    have top: "?p \<notin> reach pc R V i (Suc d) (?c m)" for m
    proof
      assume "?p \<in> reach pc R V i (Suc d) (?c m)"
      then obtain d' j' where "?p = node pc R V i d' j'" "Suc d \<le> d'" "place pc i d' j'" by (rule reachE)
      then show False using tree_inj [OF assms(1) Suc.prems(1) _ False] by fastforce
    qed
    have "set (V ?p) = (!) (V ?p) ` {..<pc}" using len by (auto simp: set_conv_nth)
    then have below: "set (below V (Suc l) ?p) = (\<Union>m < pc. reach pc R V i (Suc d) (?c m))"
      using IH(1) by (simp add: below_Suc)
    moreover have "distinct (below V (Suc l) ?p)"
      unfolding below_Suc by (rule distinct_concat_map) (use IH apart len in auto)
    ultimately show ?thesis
      using reach_step [OF Suc.prems(1) d False assms(2)] top False by (simp add: branch_def)
  qed
qed

section \<open>Clearing a file\<close>

text \<open>The pointers of an inode, and the blocks of a file by the pointer they hang from.\<close>

definition roots :: "(nat \<times> nat) list" where
  "roots = map (Pair 0) [0..<12] @ map (\<lambda>i. (i, 0)) [1, 2, 3, 4]"

definition hung :: "(nat \<Rightarrow> nat list) \<Rightarrow> dkfile \<Rightarrow> nat \<times> nat \<Rightarrow> nat list" where
  "hung V f r = (case r of (i, j) \<Rightarrow> branch V i (rows f i ! j))"

text \<open>The pointers \<open>rs\<close> are still to be cleared.\<close>

definition pending :: "ext \<Rightarrow> (nat \<Rightarrow> nat list) \<Rightarrow> nat list \<Rightarrow> (nat \<times> nat) list \<Rightarrow> dkfile \<times> 'z store_scheme \<Rightarrow> bool" where
  "pending X V ds rs fs \<longleftrightarrow> (case fs of (f, s) \<Rightarrow> distinct rs
     \<and> (\<forall>(i, j) \<in> set rs. i \<le> 4 \<and> j < length (rows f i) \<and> (rows f i ! j \<noteq> 0 \<longrightarrow> stored X s V i (rows f i ! j)))
     \<and> distinct (concat (map (hung V f) rs)) \<and> set (concat (map (hung V f) rs)) \<inter> set ds = {}
     \<and> length (concat (map (hung V f) rs)) \<le> i_blocks (f_inode f))"

lemma pending_first:
  assumes "pending X V ds ((i, j) # rs) (f, s)"
  shows "i \<le> 4" "j < length (rows f i)" "clearable X V i ds s [rows f i ! j]"
    "length (branch V i (rows f i ! j)) \<le> i_blocks (f_inode f)"
  using assms by (auto simp: pending_def clearable_def hung_def)

lemma pending_step:
  assumes "pending X V ds ((i, j) # rs) (f, s)" "store_ok X s is ds" "freed X is ds s (hung V f (i, j)) t"
    "rows g = (rows f)(i := (rows f i)[j := 0])"
    "i_blocks (f_inode g) = i_blocks (f_inode f) - length (hung V f (i, j))"
  shows "pending X V (rev (hung V f (i, j)) @ ds) rs (g, t)" "\<And>r. r \<in> set rs \<Longrightarrow> hung V g r = hung V f r"
proof -
  let ?B = "hung V f (i, j)" and ?C = "concat (map (hung V f) rs)"
  have p: "(i, j) \<notin> set rs" "distinct rs" "distinct ?C" "set ?B \<inter> set ?C = {}" "set ?C \<inter> set ds = {}"
    "length ?B + length ?C \<le> i_blocks (f_inode f)" "rows f i ! j \<noteq> 0 \<longrightarrow> stored X s V i (rows f i ! j)"
    "\<And>i' j'. (i', j') \<in> set rs \<Longrightarrow> i' \<le> 4 \<and> j' < length (rows f i') \<and> (rows f i' ! j' \<noteq> 0 \<longrightarrow> stored X s V i' (rows f i' ! j'))"
    using assms(1) by (auto simp: pending_def)
  have row: "rows g i' ! j' = rows f i' ! j'" "length (rows g i') = length (rows f i')" if "(i', j') \<in> set rs" for i' j'
  proof -
    have "i' = i \<longrightarrow> j \<noteq> j'" using that p(1) by auto
    then show "rows g i' ! j' = rows f i' ! j'" "length (rows g i') = length (rows f i')" by (simp_all add: assms(4))
  qed
  show hung: "hung V g r = hung V f r" if "r \<in> set rs" for r
  proof -
    obtain i' j' where "r = (i', j')" by fastforce
    then show ?thesis using row(1) [of i' j'] that by (simp add: hung_def)
  qed
  then have C: "concat (map (hung V g) rs) = ?C" by (metis map_cong)
  have B: "set ?B \<subseteq> data_blocks s" using stored_branch [OF p(7)] by (simp add: hung_def)
  have "stored X t V i' (rows f i' ! j')" if r: "(i', j') \<in> set rs" "rows f i' ! j' \<noteq> 0" for i' j'
  proof (rule freed_stored [OF assms(3,2) _ B])
    show "stored X s V i' (rows f i' ! j')" using p(8) r by blast
    have "set (hung V f (i', j')) \<subseteq> set ?C" using r(1) by auto
    moreover have "set (rows f i' ! j' # below V i' (rows f i' ! j')) = set (hung V f (i', j'))"
      using r(2) by (simp add: hung_def set_branch)
    ultimately show "set (rows f i' ! j' # below V i' (rows f i' ! j')) \<inter> set ?B = {}" using p(4) by blast
  qed
  then show "pending X V (rev ?B @ ds) rs (g, t)"
    unfolding pending_def prod.case C using p(2-6,8) row assms(5) by auto
qed

text \<open>One pointer is cleared when its blocks are freed and it is null.\<close>

definition clear_root :: "(nat \<Rightarrow> nat list) \<Rightarrow> nat \<times> nat \<Rightarrow> dkfile \<Rightarrow> dkfile" where
  "clear_root V r f = (case r of (i, j) \<Rightarrow>
     if rows f i ! j = 0 then f else put_row i j 0 (lower_blocks (length (hung V f (i, j))) f))"

lemma clear_root_fields:
  assumes "i \<le> 4"
  shows "rows (clear_root V (i, j) f) = (rows f)(i := (rows f i)[j := 0])"
    "i_blocks (f_inode (clear_root V (i, j) f)) = i_blocks (f_inode f) - length (hung V f (i, j))" "same_id f (clear_root V (i, j) f)"
proof -
  show "rows (clear_root V (i, j) f) = (rows f)(i := (rows f i)[j := 0])"
  proof (cases "rows f i ! j = 0")
    case True
    then have "(rows f i)[j := 0] = rows f i" by (metis list_update_id)
    then show ?thesis using True by (simp add: clear_root_def)
  next
    case False
    then show ?thesis
      using rows_put_row [OF assms, where k = j and p = 0 and f = "lower_blocks (length (hung V f (i, j))) f"] by (simp add: clear_root_def)
  qed
  show "i_blocks (f_inode (clear_root V (i, j) f)) = i_blocks (f_inode f) - length (hung V f (i, j))"
    by (simp add: clear_root_def hung_def branch_def)
  show "same_id f (clear_root V (i, j) f)" by (simp add: clear_root_def same_id_def stem_def lower_blocks_def)
qed

text \<open>Releasing the blocks of \<open>rs\<close> as a whole.\<close>

definition cleared ::
  "ext \<Rightarrow> nat list \<Rightarrow> (nat \<Rightarrow> nat list) \<Rightarrow> nat list \<Rightarrow> (nat \<times> nat) list \<Rightarrow> dkfile \<times> 'z store_scheme \<Rightarrow> dkfile \<times> 'z store_scheme \<Rightarrow> bool"
  where
  "cleared X is V ds rs fs gt \<longleftrightarrow> (case (fs, gt) of ((f, s), (g, t)) \<Rightarrow>
     freed X is ds s (concat (map (hung V f) rs)) t \<and> g = fold (clear_root V) rs f)"

lemma same_id_fold_clear_root: "\<forall>(i, j) \<in> set rs. i \<le> 4 \<Longrightarrow> same_id f (fold (clear_root V) rs f)"
proof (induction rs arbitrary: f)
  case (Cons r rs)
  obtain i j where r: "r = (i, j)" by fastforce
  show ?case using Cons clear_root_fields(3) [of i f V j] same_id_trans by (fastforce simp: r)
qed simp

lemma cleared_step:
  assumes "pending X V ds (r # rs) (f, s)" "store_ok X s is ds" "freed X is ds s (hung V f r) t"
    "cleared X is V (rev (hung V f r) @ ds) rs' (clear_root V r f, t) gu" "set rs' \<subseteq> set rs"
  shows "cleared X is V ds (r # rs') (f, s) gu"
proof -
  obtain i j g u where eq: "r = (i, j)" "gu = (g, u)" by (metis surj_pair)
  have i: "i \<le> 4" using pending_first(1) assms(1) by (simp add: eq)
  have "hung V (clear_root V r f) r' = hung V f r'" if "r' \<in> set rs'" for r'
    using pending_step(2) [OF assms(1-3) [unfolded eq] clear_root_fields(1,2) [OF i]] assms(5) that unfolding eq by blast
  then have m: "map (hung V (clear_root V r f)) rs' = map (hung V f) rs'" by simp
  have fr: "freed X is (rev (hung V f r) @ ds) t (concat (map (hung V f) rs')) u"
    using assms(4) unfolding m [symmetric] by (simp add: cleared_def eq(2))
  show ?thesis using assms(4) freed_trans [OF assms(3) fr] by (simp add: cleared_def eq(2))
qed

lemma free_direct_run:
  assumes "pending X V ds (map (Pair 0) bis @ rs) (f, s)" "store_ok X s is ds"
  shows "\<exists>t. free_direct X bis (f, s) = (Ok (), (fold (clear_root V) (map (Pair 0) bis) f, t))
    \<and> cleared X is V ds (map (Pair 0) bis) (f, s) (fold (clear_root V) (map (Pair 0) bis) f, t)
    \<and> pending X V (rev (concat (map (hung V f) (map (Pair 0) bis))) @ ds) rs (fold (clear_root V) (map (Pair 0) bis) f, t)
    \<and> (\<forall>r \<in> set rs. hung V (fold (clear_root V) (map (Pair 0) bis) f) r = hung V f r)"
  using assms
proof (induction bis arbitrary: f s ds)
  case Nil
  then show ?case by (simp add: cleared_def freed_Nil)
next
  case (Cons b bis)
  let ?r = "(0, b) :: nat \<times> nat" and ?p = "rows f 0 ! b"
  have pend: "pending X V ds (?r # (map (Pair 0) bis @ rs)) (f, s)" using Cons.prems(1) by simp
  note first = pending_first [OF pend]
  obtain t where t: "bnd (get_ptr 0 b) (\<lambda>p.
       if 0 < p then bnd (on_dk (free_db X p)) (\<lambda>_. bnd dec_blocks (\<lambda>_. set_ptr 0 b 0)) else ret ()) (f, s)
       = (Ok (), (clear_root V ?r f, t))" "freed X is ds s (hung V f ?r) t"
  proof (cases "?p = 0")
    case True
    then show ?thesis
      using that [of s] freed_Nil [OF Cons.prems(2)]
      by (simp add: bnd_Ok [of "get_ptr 0 b", OF get_ptr_run [OF _ first(2)]] clear_root_def hung_def branch_def)
  next
    case False
    have p: "?p \<in> data_blocks s" "?p \<notin> set ds" "0 < i_blocks (f_inode f)"
      using first(3,4) False by (auto simp: clearable_def branch_def)
    obtain t where t: "freed X is ds s [?p] t"
      "bnd (on_dk (free_db X ?p)) (\<lambda>_. dec_blocks) (f, s) = (Ok (), (lower_blocks 1 f, t))"
      by (rule free_one [OF Cons.prems(2) p])
    have row: "b < length (rows (lower_blocks 1 f) 0)" using first(2) by simp
    have "bnd (on_dk (free_db X ?p)) (\<lambda>_. bnd dec_blocks (\<lambda>_. set_ptr 0 b 0)) (f, s)
        = bnd (bnd (on_dk (free_db X ?p)) (\<lambda>_. dec_blocks)) (\<lambda>_. set_ptr 0 b 0) (f, s)"
      by (simp add: bnd_assoc)
    also have "\<dots> = (Ok (), (put_row 0 b 0 (lower_blocks 1 f), t))"
      unfolding bnd_Ok [of "bnd (on_dk (free_db X ?p)) _", OF t(2)] by (rule set_ptr_run [OF _ row]) simp
    finally show ?thesis
      using that [of t] t(1) False
      by (simp add: bnd_Ok [of "get_ptr 0 b", OF get_ptr_run [OF _ first(2)]] clear_root_def hung_def branch_def)
  qed
  note step = pending_step [OF pend Cons.prems(2) t(2) clear_root_fields(1,2) [OF first(1)]]
  note D = freed_D [OF t(2)]
  from Cons.IH [OF step(1) D(1)] obtain u where
    u: "free_direct X bis (clear_root V ?r f, t) = (Ok (), (fold (clear_root V) (map (Pair 0) bis) (clear_root V ?r f), u))"
    "cleared X is V (rev (hung V f ?r) @ ds) (map (Pair 0) bis) (clear_root V ?r f, t) (fold (clear_root V) (map (Pair 0) bis) (clear_root V ?r f), u)"
    "pending X V (rev (concat (map (hung V (clear_root V ?r f)) (map (Pair 0) bis))) @ rev (hung V f ?r) @ ds) rs
      (fold (clear_root V) (map (Pair 0) bis) (clear_root V ?r f), u)"
    "\<forall>r \<in> set rs. hung V (fold (clear_root V) (map (Pair 0) bis) (clear_root V ?r f)) r = hung V (clear_root V ?r f) r" by blast
  have m: "map (hung V (clear_root V ?r f)) (map (Pair 0) bis) = map (hung V f) (map (Pair 0) bis)"
    using step(2) by simp
  show ?case
  proof (intro exI [of _ u] conjI)
    show "free_direct X (b # bis) (f, s) = (Ok (), (fold (clear_root V) (map (Pair 0) (b # bis)) f, u))"
      unfolding free_direct.simps bnd_Ok [of "bnd (get_ptr 0 b) _", OF t(1)] u(1) by simp
    show "cleared X is V ds (map (Pair 0) (b # bis)) (f, s) (fold (clear_root V) (map (Pair 0) (b # bis)) f, u)"
      using cleared_step [OF pend Cons.prems(2) t(2) u(2)] by simp
    show "pending X V (rev (concat (map (hung V f) (map (Pair 0) (b # bis)))) @ ds) rs (fold (clear_root V) (map (Pair 0) (b # bis)) f, u)"
      using u(3) [unfolded m] by simp
    show "\<forall>r \<in> set rs. hung V (fold (clear_root V) (map (Pair 0) (b # bis)) f) r = hung V f r"
      using u(4) step(2) by simp
  qed
qed

lemma free_indirect_run:
  assumes "pending X V ds (map (\<lambda>i. (i, 0)) is') (f, s)" "store_ok X s is ds" "pcount s ^ 4 < u64_limit"
    "\<And>i. i \<in> set is' \<Longrightarrow> i \<le> 4" "start + (\<Sum>i\<leftarrow>is'. pcount s ^ i) < u64_limit"
  shows "\<exists>t. free_indirect X 0 start is' (f, s) = (Ok (), (fold (clear_root V) (map (\<lambda>i. (i, 0)) is') f, t))
    \<and> cleared X is V ds (map (\<lambda>i. (i, 0)) is') (f, s) (fold (clear_root V) (map (\<lambda>i. (i, 0)) is') f, t)"
  using assms
proof (induction is' arbitrary: f s ds start)
  case Nil
  then show ?case by (simp add: cleared_def freed_Nil)
next
  case (Cons i is')
  let ?r = "(i, 0) :: nat \<times> nat" and ?p = "rows f i ! 0" and ?rs = "map (\<lambda>i. (i, 0)) is' :: (nat \<times> nat) list"
  have pend: "pending X V ds (?r # ?rs) (f, s)" using Cons.prems(1) by simp
  note first = pending_first [OF pend]
  have st: "start + pcount s ^ i < u64_limit" using Cons.prems(5) by simp
  have pw: "pcount s ^ i < u64_limit" using st by simp
  have bs: "block_size (sb s) div 8 = pcount s" by (simp add: pcount_def)
  note gp = get_ptr_run [OF first(1,2)]
  obtain t where t: "bnd (get_ptr i 0) (\<lambda>indir_ptr. bnd (clear_pointers_rec X 0 i start indir_ptr) (\<lambda>clear.
     if clear then bnd (get_ptr i 0) (\<lambda>p. bnd (on_dk (free_db X p)) (\<lambda>_. bnd dec_blocks (\<lambda>_. set_ptr i 0 0)))
     else ret ())) (f, s) = (Ok (), (clear_root V ?r f, t))" "freed X is ds s (hung V f ?r) t"
  proof (cases "?p = 0")
    case True
    have "clear_pointers_rec X 0 i start ?p (f, s) = (Ok False, (f, s))" using True by (cases i) simp_all
    then show ?thesis
      using that [of s] freed_Nil [OF Cons.prems(2)] True
      by (simp add: bnd_Ok [of "get_ptr i 0", OF gp] bnd_def [of "clear_pointers_rec _ _ _ _ _"] clear_root_def hung_def branch_def)
  next
    case False
    let ?b = "below V i ?p"
    let ?f = "lower_blocks (length ?b) f"
    obtain t where t: "clear_pointers_rec X 0 i start ?p (f, s) = (Ok True, (?f, t))" "freed X is ds s ?b t"
      using clear_pointers_run [OF Cons.prems(2,3) first(1,3) False first(4) st] by blast
    note D = freed_D [OF t(2)]
    have p: "?p \<in> data_blocks t" "?p \<notin> set (rev ?b @ ds)" "0 < i_blocks (f_inode ?f)"
      using first(3,4) False stored_block D(4) by (auto simp: clearable_def branch_def)
    obtain u where u: "freed X is (rev ?b @ ds) t [?p] u"
      "bnd (on_dk (free_db X ?p)) (\<lambda>_. dec_blocks) (?f, t) = (Ok (), (lower_blocks 1 ?f, u))"
      by (rule free_one [OF D(1) p])
    have row: "0 < length (rows ?f i)" "0 < length (rows (lower_blocks 1 ?f) i)" using first(2) by simp_all
    have gp': "get_ptr i 0 (?f, t) = (Ok ?p, (?f, t))" using get_ptr_run [OF first(1) row(1), of t] by simp
    have "bnd (on_dk (free_db X ?p)) (\<lambda>_. bnd dec_blocks (\<lambda>_. set_ptr i 0 0)) (?f, t)
        = bnd (bnd (on_dk (free_db X ?p)) (\<lambda>_. dec_blocks)) (\<lambda>_. set_ptr i 0 0) (?f, t)"
      by (simp add: bnd_assoc)
    also have "\<dots> = (Ok (), (put_row i 0 0 (lower_blocks 1 ?f), u))"
      unfolding bnd_Ok [of "bnd (on_dk (free_db X ?p)) _", OF u(2)] by (rule set_ptr_run [OF first(1) row(2)])
    also have "put_row i 0 0 (lower_blocks 1 ?f) = clear_root V ?r f"
      using False by (simp add: clear_root_def hung_def branch_def)
    finally show ?thesis
      using that [of u] freed_trans [OF t(2) u(1)] False
      by (simp add: bnd_Ok [of "get_ptr i 0", OF gp] bnd_Ok [of "clear_pointers_rec _ _ _ _ _", OF t(1)]
          bnd_Ok [of "get_ptr i 0", OF gp'] hung_def branch_def)
  qed
  note step = pending_step [OF pend Cons.prems(2) t(2) clear_root_fields(1,2) [OF first(1)]]
  note D = freed_D [OF t(2)]
  have pre: "pcount t ^ 4 < u64_limit" "\<And>i. i \<in> set is' \<Longrightarrow> i \<le> 4"
    "start + pcount s ^ i + (\<Sum>i\<leftarrow>is'. pcount t ^ i) < u64_limit"
    using Cons.prems(3-5) D(3) by (simp_all add: add.assoc)
  from Cons.IH [OF step(1) D(1) pre] obtain u where
    u: "free_indirect X 0 (start + pcount s ^ i) is' (clear_root V ?r f, t) = (Ok (), (fold (clear_root V) ?rs (clear_root V ?r f), u))"
    "cleared X is V (rev (hung V f ?r) @ ds) ?rs (clear_root V ?r f, t) (fold (clear_root V) ?rs (clear_root V ?r f), u)"
    by blast
  have "free_indirect X 0 start (i # is') (f, s) = bnd (bnd (get_ptr i 0) (\<lambda>indir_ptr.
      bnd (clear_pointers_rec X 0 i start indir_ptr) (\<lambda>clear.
     if clear then bnd (get_ptr i 0) (\<lambda>p. bnd (on_dk (free_db X p)) (\<lambda>_. bnd dec_blocks (\<lambda>_. set_ptr i 0 0)))
     else ret ()))) (\<lambda>_. bnd dk_block_size (\<lambda>bs. bnd (ck_pow (bs div 8) i) (\<lambda>n. bnd (ck_add start n)
       (\<lambda>start'. free_indirect X 0 start' is')))) (f, s)"
    by (simp add: bnd_assoc)
  also have "\<dots> = (Ok (), (fold (clear_root V) ?rs (clear_root V ?r f), u))"
    unfolding bnd_Ok [of "bnd (get_ptr i 0) _", OF t(1)] bnd_block_size D(2) bs ck_pow_ok [OF pw] bnd_ret ck_add_ok [OF st]
    by (rule u(1))
  finally show ?case using cleared_step [OF pend Cons.prems(2) t(2) u(2)] by auto
qed

section \<open>The whole file\<close>

text \<open>\<open>flushed\<close>: the pointer blocks of the file are on the device, whatever its cache holds.\<close>

definition flushed :: "ext \<Rightarrow> (nat \<Rightarrow> nat list) \<Rightarrow> dkfile \<times> 'z store_scheme \<Rightarrow> bool" where
  "flushed X V fs \<longleftrightarrow> (case fs of (f, s) \<Rightarrow> \<forall>p \<in> ptr_blocks (pcount s) (rows f) V. disk_ptrs X s p = V p)"

lemma stored_node:
  assumes "flushed X V (f, s)" "tree_ok (pcount s) B (rows f) V" "B \<subseteq> data_blocks s" "place (pcount s) i d j" "d + l = i"
    "node (pcount s) (rows f) V i d j \<noteq> 0"
  shows "stored X s V l (node (pcount s) (rows f) V i d j)"
  using assms(4-6)
proof (induction l arbitrary: d j)
  case 0
  then show ?case using tree_in [OF assms(2)] assms(3) by auto
next
  case (Suc l)
  let ?p = "node (pcount s) (rows f) V i d j"
  have d: "d < i" using Suc.prems(2) by simp
  have "?p \<in> data_blocks s" using tree_in [OF assms(2) Suc.prems(1,3)] assms(3) by blast
  moreover have "disk_ptrs X s ?p = V ?p"
    using assms(1) tree_ptr [OF Suc.prems(1) d Suc.prems(3)] by (simp add: flushed_def)
  moreover have "stored X s V l q" if q: "q \<in> set (V ?p)" "q \<noteq> 0" for q
  proof -
    obtain m where m: "m < pcount s" "q = V ?p ! m"
      using q(1) tree_length [OF assms(2) Suc.prems(1) d Suc.prems(3)] by (metis in_set_conv_nth)
    have "q = node (pcount s) (rows f) V i (Suc d) (j * pcount s + m)"
      using node_child [OF Suc.prems(3) m(1)] m(2) by simp
    then show ?thesis using Suc.IH [OF place_child [OF Suc.prems(1) d m(1)]] Suc.prems(2) q(2) by simp
  qed
  ultimately show ?case by simp
qed

lemma roots_places: "(i, j) \<in> set roots \<Longrightarrow> place pc i 0 j" "distinct roots"
  by (auto simp: roots_def place_def distinct_map inj_on_def)

lemma hung_reach:
  assumes "tree_ok pc B (rows f) V" "0 < pc" "(i, j) \<in> set roots"
  shows "set (hung V f (i, j)) = reach pc (rows f) V i 0 j \<and> distinct (hung V f (i, j))"
  using branch_reach [OF assms(1,2) roots_places(1) [OF assms(3)], of i] by (simp add: hung_def)

lemma forest_blocks:
  assumes "tree_ok pc B (rows f) V" "0 < pc"
  shows "distinct (concat (map (hung V f) roots))" "set (concat (map (hung V f) roots)) = all_nodes pc (rows f) V"
proof -
  note h = hung_reach [OF assms]
  show "distinct (concat (map (hung V f) roots))"
  proof (rule distinct_concat_map)
    fix m assume m: "m < length roots"
    then show "distinct (hung V f (roots ! m))" using h nth_mem by (metis surj_pair)
    fix n assume n: "n < length roots" "m \<noteq> n"
    obtain i j i' j' where r: "roots ! m = (i, j)" "roots ! n = (i', j')" by (metis surj_pair)
    have in_roots: "(i, j) \<in> set roots" "(i', j') \<in> set roots" using m n(1) r nth_mem by metis+
    have ne: "(i, j) \<noteq> (i', j')" using roots_places(2) m n r nth_eq_iff_index_eq by metis
    have False if x: "x \<in> reach pc (rows f) V i 0 j" "x \<in> reach pc (rows f) V i' 0 j'" for x
    proof -
      obtain d1 j1 where 1: "x = node pc (rows f) V i d1 j1" "place pc i d1 j1" "j1 div pc ^ (d1 - 0) = j"
        "node pc (rows f) V i d1 j1 \<noteq> 0" using reachE [OF x(1)] by metis
      obtain d2 j2 where 2: "x = node pc (rows f) V i' d2 j2" "place pc i' d2 j2" "j2 div pc ^ (d2 - 0) = j'"
        using reachE [OF x(2)] by metis
      have "i = i' \<and> d1 = d2 \<and> j1 = j2" using tree_inj [OF assms(1) 1(2) 2(2) 1(4)] 1(1) 2(1) by simp
      then show False using 1(3) 2(3) ne by simp
    qed
    then show "set (hung V f (roots ! m)) \<inter> set (hung V f (roots ! n)) = {}"
      using h in_roots by (auto simp: r)
  qed
  have "set (concat (map (hung V f) roots)) = (\<Union>(i, j) \<in> set roots. reach pc (rows f) V i 0 j)"
    using h by force
  also have "\<dots> = all_nodes pc (rows f) V"
  proof (intro equalityI subsetI)
    fix x assume "x \<in> (\<Union>(i, j) \<in> set roots. reach pc (rows f) V i 0 j)"
    then show "x \<in> all_nodes pc (rows f) V" by (auto simp: reach_def all_nodes_def)
  next
    fix x assume "x \<in> all_nodes pc (rows f) V"
    then obtain i d j where x: "x = node pc (rows f) V i d j" "place pc i d j" "node pc (rows f) V i d j \<noteq> 0"
      by (auto simp: all_nodes_def)
    have "(i, j div pc ^ d) \<in> set roots"
    proof (cases "i = 0")
      case True
      then show ?thesis using x(2) by (auto simp: place_def roots_def)
    next
      case False
      then have "i = 1 \<or> i = 2 \<or> i = 3 \<or> i = 4" "j div pc ^ d = 0" using x(2) by (auto simp: place_def)
      then show ?thesis by (auto simp: roots_def)
    qed
    moreover have "x \<in> reach pc (rows f) V i 0 (j div pc ^ d)" unfolding x(1) by (rule reachI) (use x in simp_all)
    ultimately show "x \<in> (\<Union>(i, j) \<in> set roots. reach pc (rows f) V i 0 j)" by blast
  qed
  finally show "set (concat (map (hung V f) roots)) = all_nodes pc (rows f) V" .
qed

lemma pending_roots:
  assumes "store_ok X s is ds" "tree_ok (pcount s) (data_blocks s - set ds) (rows f) V" "flushed X V (f, s)"
    "card (all_nodes (pcount s) (rows f) V) \<le> i_blocks (f_inode f)"
  shows "pending X V ds roots (f, s)"
proof -
  have pc: "0 < pcount s" using store_okD(7) [OF assms(1)] by simp
  note F = forest_blocks [OF assms(2) pc]
  have "length (concat (map (hung V f) roots)) = card (all_nodes (pcount s) (rows f) V)"
    using F by (metis distinct_card)
  moreover have "all_nodes (pcount s) (rows f) V \<inter> set ds = {}"
    using assms(2) by (auto simp: tree_ok_def)
  moreover have "i \<le> 4 \<and> j < length (rows f i) \<and> (rows f i ! j \<noteq> 0 \<longrightarrow> stored X s V i (rows f i ! j))"
    if "(i, j) \<in> set roots" for i j
  proof (intro conjI impI)
    note pl = roots_places(1) [OF that, of "pcount s"]
    show "i \<le> 4" using pl by (simp add: place_def)
    show "j < length (rows f i)" by (rule tree_row [OF assms(2) pl])
    assume "rows f i ! j \<noteq> 0"
    then show "stored X s V i (rows f i ! j)"
      using stored_node [OF assms(3,2) _ pl, of i] by simp
  qed
  ultimately show ?thesis
    unfolding pending_def prod.case F(2) using F(1) roots_places(2) assms(4) by auto
qed

lemma max_blocks_less: "pc ^ 4 < u64_limit \<Longrightarrow> 12 + pc + pc ^ 2 + pc ^ 3 + pc ^ 4 < u64_limit"
proof -
  assume a: "pc ^ 4 < u64_limit"
  have "pc < 65536"
  proof (rule ccontr)
    assume "\<not> pc < 65536"
    then have "(65536 :: nat) ^ 4 \<le> pc ^ 4" by (intro power_mono) simp_all
    then show False using a by simp
  qed
  then have "pc ^ k \<le> 65535 ^ k" for k by (intro power_mono) simp_all
  from this [of 1] this [of 2] this [of 3] this [of 4] show ?thesis by simp
qed

lemma free_file_db_run:
  assumes "store_ok X s is ds" "pcount s ^ 4 < u64_limit" "tree_ok (pcount s) (data_blocks s - set ds) (rows f) V"
    "flushed X V (f, s)" "card (all_nodes (pcount s) (rows f) V) \<le> i_blocks (f_inode f)"
  obtains g t qs where "free_file_db X 0 (f, s) = (Ok (), (g, t))" "freed X is ds s qs t"
    "set qs = all_nodes (pcount s) (rows f) V" "same_id f g" "g = fold (clear_root V) roots f"
proof -
  let ?dir = "map (Pair 0) [0..<12] :: (nat \<times> nat) list" and ?ind = "map (\<lambda>i. (i, 0)) [1, 2, 3, 4] :: (nat \<times> nat) list"
  have roots: "roots = ?dir @ ?ind" by (simp only: roots_def)
  have pc: "0 < pcount s" using store_okD(7) [OF assms(1)] by simp
  have pend: "pending X V ds (?dir @ ?ind) (f, s)" unfolding roots [symmetric] by (rule pending_roots [OF assms(1,3-5)])
  let ?g = "fold (clear_root V) ?dir f" and ?ds = "rev (concat (map (hung V f) ?dir)) @ ds"
  obtain t where t: "free_direct X [0..<12] (f, s) = (Ok (), (?g, t))" "cleared X is V ds ?dir (f, s) (?g, t)"
    "pending X V ?ds ?ind (?g, t)" "\<forall>r \<in> set ?ind. hung V ?g r = hung V f r"
    using free_direct_run [OF pend assms(1)] by blast
  have fr: "freed X is ds s (concat (map (hung V f) ?dir)) t" using t(2) by (simp only: cleared_def prod.case)
  note D = freed_D [OF fr]
  have pw: "pcount t ^ 4 < u64_limit" "12 + (\<Sum>i\<leftarrow>[1, 2, 3, 4]. pcount t ^ i) < u64_limit"
    using assms(2) max_blocks_less [OF assms(2)] D(3) by (simp_all add: add.assoc)
  have le4: "\<And>i. i \<in> set [1, 2, 3, 4 :: nat] \<Longrightarrow> i \<le> 4" by auto
  from free_indirect_run [OF t(3) D(1) pw(1) le4 pw(2)] obtain u where
    u: "free_indirect X 0 12 [1, 2, 3, 4] (?g, t) = (Ok (), (fold (clear_root V) ?ind ?g, u))"
    "cleared X is V ?ds ?ind (?g, t) (fold (clear_root V) ?ind ?g, u)" by blast
  have "map (hung V ?g) ?ind = map (hung V f) ?ind" by (rule map_cong [OF refl]) (use t(4) in blast)
  then have "freed X is ?ds t (concat (map (hung V f) ?ind)) u" using u(2) by (simp only: cleared_def prod.case)
  from freed_trans [OF fr this] have fru: "freed X is ds s (concat (map (hung V f) roots)) u"
    unfolding roots map_append concat_append .
  show thesis
  proof (rule that [OF _ fru])
    show "free_file_db X 0 (f, s) = (Ok (), (fold (clear_root V) roots f, u))"
      using u(1) unfolding roots
      by (simp add: free_file_db_def bnd_Ok [of "free_direct X [0..<12]", OF t(1)] del: upt_Suc free_indirect.simps fold_simps list.map)
    show "set (concat (map (hung V f) roots)) = all_nodes (pcount s) (rows f) V" by (rule forest_blocks(2) [OF assms(3) pc])
    show "same_id f (fold (clear_root V) roots f)"
      by (rule same_id_fold_clear_root) (auto simp: roots_def)
  qed simp
qed

text \<open>
  \<open>destroy\<close> of a file that has no name any more: all its blocks and its inode are free, and nothing but
  these and the super block has been written.
\<close>

definition file_blocks :: "(nat \<Rightarrow> nat list) \<Rightarrow> dkfile \<times> 'z store_scheme \<Rightarrow> nat set" where
  "file_blocks V fs = (case fs of (f, s) \<Rightarrow> all_nodes (pcount s) (rows f) V
     \<union> (if i_xattr_ptr (f_inode f) = 0 then {} else {i_xattr_ptr (f_inode f)}))"

lemma freed_clk: "freed X is ds s qs t \<Longrightarrow> freed X is ds s qs (t\<lparr>clk := Suc (clk t)\<rparr>)"
  unfolding freed_def by (elim conjE, intro conjI) (simp, rule evolves_trans [OF _ evolves_now])

lemma next_block_run:
  "0 < bs \<Longrightarrow> n + bs < u64_limit \<Longrightarrow> next_block_of_pos n bs = ret ((n + bs - 1) div bs)"
  by (simp add: next_block_of_pos_def) (simp add: ret_def)

text \<open>Shrinking frees blocks and then stores the new size, and the time unless the file is a directory.\<close>

lemma update_size_shrink:
  assumes "n < i_size (f_inode f)" "0 < block_size (sb s)" "n + block_size (sb s) < u64_limit"
    "free_file_db X ((n + block_size (sb s) - 1) div block_size (sb s)) (f\<lparr>f_dirty := True\<rparr>, s) = (Ok (), (g, t))" "same_id f g" "freed X is ds s qs t" "clock_ok X"
  obtains a b u where "update_size X n (f, s) =
      (Ok (), (g\<lparr>f_inode := (f_inode g)\<lparr>i_size := n, i_mtime := b, i_ctime := a\<rparr>\<rparr>, u))"
    "freed X is ds s qs u" "timespec_ok a \<or> a = i_ctime (f_inode g)" "timespec_ok b \<or> b = i_mtime (f_inode g)"
    "store.more u = store.more t"
proof -
  let ?g = "g\<lparr>f_inode := (f_inode g)\<lparr>i_size := n\<rparr>\<rparr>"
  have "bnd dk_block_size (\<lambda>bs. bnd (next_block_of_pos n bs) (\<lambda>free_from. free_file_db X free_from)) (f\<lparr>f_dirty := True\<rparr>, s)
      = (Ok (), (g, t))" using assms(4) by (simp add: next_block_run [OF assms(2,3)])
  note free = this
  have "update_size X n (f, s) = bnd (bnd dk_block_size (\<lambda>bs. bnd (next_block_of_pos n bs) (\<lambda>free_from. free_file_db X free_from)))
     (\<lambda>_. bnd (mod_inode (\<lambda>i. i\<lparr>i_size := n\<rparr>)) (\<lambda>_.
     bnd (get_file (\<lambda>f. is_directory (i_mode (f_inode f)))) (\<lambda>dir.
     if \<not> dir then
       bnd (on_dk (now X)) (\<lambda>t.
       bnd (mod_inode (\<lambda>i. i\<lparr>i_mtime := t\<rparr>)) (\<lambda>_.
       bnd (on_dk (now X)) (\<lambda>t'. mod_inode (\<lambda>i. i\<lparr>i_ctime := t'\<rparr>))))
     else ret ()))) (f\<lparr>f_dirty := True\<rparr>, s)"
    using assms(1) by (simp add: update_size_def set_dirty_def mod_file_def get_file_def)
  then have run: "update_size X n (f, s) = (if is_directory (i_mode (f_inode f)) then (Ok (), (?g, t))
      else bnd (on_dk (now X)) (\<lambda>t. bnd (mod_inode (\<lambda>i. i\<lparr>i_mtime := t\<rparr>)) (\<lambda>_.
       bnd (on_dk (now X)) (\<lambda>t'. mod_inode (\<lambda>i. i\<lparr>i_ctime := t'\<rparr>)))) (?g, t))"
    unfolding bnd_Ok [of "bnd dk_block_size _", OF free]
    using same_id_fields(1) [OF assms(5)] by (simp add: mod_inode_def mod_file_def get_file_def)
  show thesis
  proof (cases "is_directory (i_mode (f_inode f))")
    case True
    show ?thesis
      by (rule that [of "i_ctime (f_inode g)" "i_mtime (f_inode g)" t, OF _ assms(6)]) (use True run in simp_all)
  next
    case False
    show ?thesis
      by (rule that [of "stamp X (t\<lparr>clk := Suc (clk t)\<rparr>)" "stamp X t", OF _ freed_clk [OF freed_clk [OF assms(6)]]])
        (use False run in \<open>simp_all add: now_run [OF assms(7)] mod_inode_def mod_file_def stamp_ok\<close>)
  qed
qed

lemma same_id_stamped: "same_id f g \<Longrightarrow> same_id f (g\<lparr>f_inode := (f_inode g)\<lparr>i_size := n, i_mtime := b, i_ctime := a\<rparr>\<rparr>)"
  by (simp add: same_id_def stem_def)

lemma update_size_0_run:
  assumes "file_map X D V is ds (f, s)" "flushed X V (f, s)" "clock_ok X"
    "i_size (f_inode f) = 0 \<Longrightarrow> all_nodes (pcount s) (rows f) V = {}"
  obtains g t qs where "update_size X 0 (f, s) = (Ok (), (g, t))" "freed X is ds s qs t"
    "set qs = all_nodes (pcount s) (rows f) V" "same_id f g" "i_size (f_inode g) = 0"
proof (cases "0 < i_size (f_inode f)")
  case True
  note M = file_mapD [OF assms(1)]
  let ?f = "f\<lparr>f_dirty := True\<rparr>"
  have rf: "rows ?f = rows f" by (simp add: rows_def fun_eq_iff)
  have "card (all_nodes (pcount s) (rows ?f) V) \<le> i_blocks (f_inode ?f)"
    using M(6) by (simp add: blocks_ok_def rf)
  moreover have "flushed X V (?f, s)" using assms(2) by (simp add: flushed_def rf)
  ultimately obtain g t qs where g: "free_file_db X 0 (?f, s) = (Ok (), (g, t))" "freed X is ds s qs t"
    "set qs = all_nodes (pcount s) (rows ?f) V" "same_id ?f g"
    using free_file_db_run [OF M(1,2), of ?f V] M(3) by (metis rf)
  have id: "same_id f g" using g(4) by (simp add: same_id_def stem_def)
  have bs: "0 < block_size (sb s)" "0 + block_size (sb s) < u64_limit" using store_okD(5,8) [OF M(1)] by simp_all
  have g1: "free_file_db X ((0 + block_size (sb s) - 1) div block_size (sb s)) (?f, s) = (Ok (), (g, t))" using g(1) bs(1) by simp
  obtain a b u where u: "update_size X 0 (f, s) =
      (Ok (), (g\<lparr>f_inode := (f_inode g)\<lparr>i_size := 0, i_mtime := b, i_ctime := a\<rparr>\<rparr>, u))" "freed X is ds s qs u"
    using update_size_shrink [OF True bs g1 id g(2) assms(3)] by blast
  show ?thesis by (rule that [OF u g(3) [unfolded rf] same_id_stamped [OF id]]) simp
next
  case False
  let ?g = "f\<lparr>f_dirty := True, f_inode := (f_inode f)\<lparr>i_size := 0\<rparr>\<rparr>"
  note M = file_mapD [OF assms(1)]
  have run: "update_size X 0 (f, s) = (if is_directory (i_mode (f_inode f)) then (Ok (), (?g, s))
      else bnd (on_dk (now X)) (\<lambda>t. bnd (mod_inode (\<lambda>i. i\<lparr>i_mtime := t\<rparr>)) (\<lambda>_.
       bnd (on_dk (now X)) (\<lambda>t'. mod_inode (\<lambda>i. i\<lparr>i_ctime := t'\<rparr>)))) (?g, s))"
    using False by (simp add: update_size_def set_dirty_def mod_file_def get_file_def mod_inode_def)
  show ?thesis
  proof (cases "is_directory (i_mode (f_inode f))")
    case True
    show ?thesis
      by (rule that [of ?g s "[]"])
        (use True run False assms(4) freed_Nil [OF M(1)] in \<open>simp_all add: same_id_def stem_def\<close>)
  next
    case dir: False
    show ?thesis
      by (rule that [of "f\<lparr>f_dirty := True, f_inode := (f_inode f)\<lparr>i_size := 0, i_mtime := stamp X s, i_ctime := stamp X (s\<lparr>clk := Suc (clk s)\<rparr>)\<rparr>\<rparr>",
            OF _ freed_clk [OF freed_clk [OF freed_Nil [OF M(1)]]]])
        (use dir run False assms(4) in \<open>simp_all add: now_run [OF assms(3)] mod_inode_def mod_file_def same_id_def stem_def\<close>)
  qed
qed

lemma destroy_run:
  assumes "file_map X D V is ds (f, s)" "flushed X V (f, s)" "clock_ok X" "inode_used is (f, s)"
    "i_nlink (f_inode f) = 0" "i_size (f_inode f) = 0 \<Longrightarrow> all_nodes (pcount s) (rows f) V = {}"
  obtains g t qs where "destroy X (f, s) = (Ok (), (g, t))" "store_ok X t (i_ino (f_inode f) # is) (rev qs @ ds)"
    "set qs = file_blocks V (f, s)" "distinct qs"
    "evolves (sb_range \<union> block_bytes (block_size (sb s)) (file_blocks V (f, s)) \<union> inode_bytes_of (i_ino (f_inode f))) s t"
proof -
  note M = file_mapD [OF assms(1)]
  let ?x = "i_xattr_ptr (f_inode f)" and ?A = "all_nodes (pcount s) (rows f) V"
  obtain g t qs where g: "update_size X 0 (f, s) = (Ok (), (g, t))" "freed X is ds s qs t" "set qs = ?A" "same_id f g"
    by (rule update_size_0_run [OF assms(1-3,6)])
  note D = freed_D [OF g(2)]
  obtain u rs where u: "(if ?x \<noteq> 0 then on_dk (free_db X ?x) else ret ()) (g, t) = (Ok (), (g, u))"
    "freed X is ds s rs u" "set rs = file_blocks V (f, s)"
  proof (cases "?x = 0")
    case True
    then show ?thesis using that [of t qs] g(2,3) by (simp add: file_blocks_def)
  next
    case False
    then have x: "?x \<in> data_blocks s" "?x \<notin> set ds" "?x \<notin> ?A" using M(6) by (auto simp: blocks_ok_def)
    have n: "0 < i_blocks (f_inode (f :: dkfile))" using M(6) False by (simp add: blocks_ok_def)
    have pre: "?x \<in> data_blocks t" "?x \<notin> set (rev qs @ ds)" using x g(3) D(4) by auto
    obtain u where u: "free_db X ?x t = (Ok (), u)" "store_ok X u is (?x # rev qs @ ds)"
      "same_used {?x..<?x + block_size (sb t)} t u"
      by (rule free_db_push [OF D(1) pre])
    have "freed X is (rev qs @ ds) t [?x] u"
      using u(2) evolves_same_used [OF u(3)] by (simp add: freed_def)
    from freed_trans [OF g(2) this] show ?thesis
      by (rule that [rotated]) (use False u(1) g(3) in \<open>auto simp: on_dk_def file_blocks_def\<close>)
  qed
  note U = freed_D [OF u(2)]
  have ev: "evolves (sb_range \<union> block_bytes (block_size (sb s)) (set rs)) s u" using u(2) by (simp add: freed_def)
  have ino: "i_ino (f_inode f) \<in> inode_numbers (sb u)" "i_ino (f_inode f) \<notin> set is"
    using assms(4) evolves_simps(4) [OF ev] by (simp_all add: inode_used_def)
  obtain v where v: "free_inode X (i_ino (f_inode f)) u = (Ok (), v)" "store_ok X v (i_ino (f_inode f) # is) (rev rs @ ds)"
    "same_used {inode_slot (i_ino (f_inode f))..<inode_slot (i_ino (f_inode f)) + INODE_SIZE} u v"
    by (rule free_inode_push [OF U(1) ino])
  let ?W = "sb_range \<union> block_bytes (block_size (sb s)) (file_blocks V (f, s)) \<union> inode_bytes_of (i_ino (f_inode f))"
  have "evolves ?W s u" by (rule evolves_mono [OF ev]) (auto simp: u(3))
  moreover have "evolves ?W u v"
    by (rule evolves_mono [OF evolves_same_used [OF v(3)]]) (auto simp: inode_bytes_of_def)
  ultimately have e: "evolves ?W s v" by (rule evolves_trans)
  note id = same_id_fields [OF g(4)]
  have "destroy X (f, s) = bnd (if ?x \<noteq> 0 then on_dk (free_db X ?x) else ret ())
      (\<lambda>_. bnd (get_file (\<lambda>f. i_ino (f_inode f))) (\<lambda>ino. on_dk (free_inode X ino))) (g, t)"
    using assms(5) id(4) by (simp add: destroy_def get_file_def bnd_Ok [of "update_size X 0", OF g(1)])
  then have run: "destroy X (f, s) = (Ok (), (g, v))"
    unfolding bnd_Ok [of "if ?x \<noteq> 0 then _ else _", OF u(1)]
    using v(1) id(2) by (simp add: get_file_def on_dk_def)
  have "distinct rs" using store_okD(9) [OF U(1)] by simp
  then show thesis using that [OF run v(2) u(3) _ e] by blast
qed

section \<open>Deleting a file\<close>

lemma flushed_loaded: "dense X V is ds (dkfile_new i, s) \<Longrightarrow> flushed X V (dkfile_new i, s)"
proof -
  assume d: "dense X V is ds (dkfile_new i, s)"
  have "\<not> cached (dkfile_new i) k p pb" for k p pb
  proof
    assume c: "cached (dkfile_new i) k p pb"
    then have "k = 0 \<or> k = Suc 0 \<or> k = Suc (Suc 0) \<or> k = Suc (Suc (Suc 0))" by (simp add: cached_def) linarith
    then show False using c by (elim disjE) (simp_all add: cached_def dkfile_new_def)
  qed
  then show ?thesis
    using file_mapD(5) [OF denseD(1) [OF d]] by (simp add: disk_view_def flushed_def)
qed

text \<open>\<open>close_file\<close> of a file without names writes nothing back: it destroys the file.\<close>

lemma delete_run:
  assumes "opened_files s k = Some f" "file_refs s k = 0" "i_nlink (f_inode f) = 0" "clock_ok X"
    "file_map X D V is ds (f, s)" "flushed X V (f, s)" "inode_used is (f, s)"
    "i_size (f_inode f) = 0 \<Longrightarrow> all_nodes (pcount s) (rows f) V = {}"
  obtains t qs where "close_file X k s = (Ok (), t)" "opened_files t k = None"
    "store_ok X t (i_ino (f_inode f) # is) (rev qs @ ds)" "set qs = file_blocks V (f, s)" "distinct qs"
proof -
  obtain g t qs where d: "destroy X (f, s) = (Ok (), (g, t))" "store_ok X t (i_ino (f_inode f) # is) (rev qs @ ds)"
    "set qs = file_blocks V (f, s)" "distinct qs"
    by (rule destroy_run [OF assms(5,6,4,7,3,8)])
  have fl: "flush_file X (f, s) = (Ok (), (f, s))"
    using assms(3) by (simp add: flush_file_def io_flush_def map_err_def get_file_def)
  let ?s = "s\<lparr>opened_files := (opened_files s)(k \<mapsto> f)\<rparr>"
  have id: "?s = s" using assms(1) by (simp add: fun_upd_idem)
  have w1: "with_file k (flush_file X) s = (Ok (), s)" using assms(1) fl id by (simp add: with_file_def)
  have w2: "with_file k (get_file (\<lambda>f. i_nlink (f_inode f))) s = (Ok 0, s)"
    using assms(1,3) id by (simp add: with_file_def get_file_def)
  have w3: "with_file k (destroy X) s = (Ok (), t\<lparr>opened_files := (opened_files t)(k \<mapsto> g)\<rparr>)"
    using assms(1) d(1) by (simp add: with_file_def)
  have unused: "file_unused k s" using assms(1,2) by (simp add: file_unused_def)
  let ?t = "t\<lparr>opened_files := (opened_files t)(k := None)\<rparr>"
  have "close_file X k s = (Ok (), ?t)"
    unfolding close_file_def bnd_gets if_P [OF unused] bnd_Ok [of "with_file k (flush_file X)", OF w1]
      bnd_Ok [of "with_file k (get_file _)", OF w2] if_P [OF refl] bnd_Ok [of "with_file k (destroy X)", OF w3]
    by simp
  moreover have "store_ok X ?t (i_ino (f_inode f) # is) (rev qs @ ds)"
    using d(2) by (subst store_ok_dev [where s = t]) simp_all
  ultimately show thesis using that d(3,4) by simp
qed

end
