(* ===== verification/FileAttrs.thy ===== *)
theory FileAttrs
  imports FileLife
begin

text \<open>
  The extended attributes of a file (\<open>write_xattr\<close> and \<open>read_xattr\<close> of file.rs): they are kept in one
  data block, as pairs of key and value ended by an empty key.
\<close>

section \<open>Decoding the block\<close>

definition attrs_ok :: "byte list omap \<Rightarrow> bool" where
  "attrs_ok m \<longleftrightarrow> om_valid m \<and> (\<forall>(k, v) \<in> set m. k \<noteq> [] \<and> length k < u64_limit \<and> length v < u64_limit)"

definition attr_bytes :: "ext \<Rightarrow> os_string \<times> byte list \<Rightarrow> byte list" where
  "attr_bytes X e = concat (enc_str X (fst e)) @ concat (enc_vec X (snd e))"

lemma xattr_bytes_eq: "xattr_bytes X m = concat (map (attr_bytes X) m) @ concat (enc_str X [])"
  by (simp add: xattr_bytes_def attr_bytes_def [abs_def] case_prod_beta')

text \<open>The encodings of different keys differ, so the encoding of a key that is not empty has a byte.\<close>

lemma key_has_bytes:
  assumes "codec_ok X" "k \<noteq> []" "length k < u64_limit"
  shows "concat (enc_str X k) \<noteq> []"
proof
  assume nil: "concat (enc_str X k) = []"
  have "run_decoder take_exact (dec_str X) (concat (enc_str X [])) = (Ok k, concat (enc_str X []))"
    using codec_str [OF assms(1,3), of "concat (enc_str X [])"] unfolding nil by simp
  moreover have "run_decoder take_exact (dec_str X) (concat (enc_str X [])) = (Ok [], [])"
    using codec_str [OF assms(1), of "[]" "[]"] by simp
  ultimately show False using assms(2) by simp
qed

lemma length_attrs:
  assumes "codec_ok X" "attrs_ok m"
  shows "length m \<le> length (xattr_bytes X m)"
proof -
  have "length m \<le> length (concat (map (attr_bytes X) m))"
    if "\<forall>(k, v) \<in> set m. k \<noteq> [] \<and> length k < u64_limit \<and> length v < u64_limit" for m :: "byte list omap"
    using that
  proof (induction m)
    case (Cons e m)
    obtain k v where e: "e = (k, v)" by fastforce
    have "concat (enc_str X k) \<noteq> []" using key_has_bytes [OF assms(1)] Cons.prems by (simp add: e)
    then have "0 < length (attr_bytes X e)" by (simp add: attr_bytes_def e)
    moreover have "length m \<le> length (concat (map (attr_bytes X) m))" using Cons by simp
    ultimately show ?case by (simp only: list.map concat.simps length_append list.size)
  qed simp
  then show ?thesis using assms(2) unfolding attrs_ok_def xattr_bytes_eq by (simp add: trans_le_add1)
qed

lemma decode_from_run: "run_decoder take_exact d bs = (Ok a, r) \<Longrightarrow> decode_from d bs s = (Ok (a, r), s)"
  by (simp add: decode_from_def)

lemma read_attrs_run:
  assumes "codec_ok X" "\<forall>(k, v) \<in> set m. k \<noteq> [] \<and> length k < u64_limit \<and> length v < u64_limit" "length m < n"
  shows "read_xattr_loop X n (xattr_bytes X m @ r) (f, s)
    = (Ok (), (f\<lparr>f_xattr := fold (\<lambda>(k, v). om_insert k v) m (f_xattr f)\<rparr>, s))"
  using assms(2,3)
proof (induction m arbitrary: n f)
  case Nil
  then obtain n' where n: "n = Suc n'" by (cases n) auto
  have "run_decoder take_exact (dec_str X) (xattr_bytes X [] @ r) = (Ok [], r)"
    using codec_str [OF assms(1), of "[]" r] by (simp add: xattr_bytes_eq)
  note key = decode_from_run [OF this]
  show ?case by (simp add: n bnd_Ok [of "decode_from (dec_str X) _", OF key])
next
  case (Cons e m)
  obtain n' where n: "n = Suc n'" "length m < n'" using Cons.prems(2) by (cases n) auto
  obtain k v where e: "e = (k, v)" by fastforce
  have ok: "k \<noteq> []" "length k < u64_limit" "length v < u64_limit" using Cons.prems(1) by (simp_all add: e)
  have bytes: "xattr_bytes X (e # m) @ r = concat (enc_str X k) @ concat (enc_vec X v) @ xattr_bytes X m @ r"
    by (simp add: xattr_bytes_eq attr_bytes_def e)
  note key = decode_from_run [OF codec_str [OF assms(1) ok(2)]]
  note val = decode_from_run [OF codec_vec [OF assms(1) ok(3)]]
  have IH: "read_xattr_loop X n' (xattr_bytes X m @ r) (f\<lparr>f_xattr := om_insert k v (f_xattr f)\<rparr>, s)
      = (Ok (), (f\<lparr>f_xattr := fold (\<lambda>(k, v). om_insert k v) m (om_insert k v (f_xattr f))\<rparr>, s))"
    using Cons.IH [OF _ n(2), of "f\<lparr>f_xattr := om_insert k v (f_xattr f)\<rparr>"] Cons.prems(1) by simp
  show ?case
    unfolding n(1) read_xattr_loop.simps bytes bnd_Ok [of "decode_from (dec_str X) _", OF key] prod.case
    using ok(1) by (simp add: bnd_Ok [of "decode_from (dec_vec X) _", OF val] mod_file_def e IH)
qed

text \<open>The attributes of \<open>m\<close> are what the block at \<open>q\<close> begins with; or there are none, and no block.\<close>

definition attrs_stored :: "ext \<Rightarrow> byte list omap \<Rightarrow> nat \<Rightarrow> 'z store_scheme \<Rightarrow> bool" where
  "attrs_stored X m q s \<longleftrightarrow> (if m = [] then q = 0
     else q \<in> data_blocks s \<and> read_bytes (disk s) q (length (xattr_bytes X m)) = xattr_bytes X m)"

lemma read_xattr_run:
  assumes "store_ok X s is ds" "attrs_ok m" "attrs_stored X m (i_xattr_ptr i) s"
    "length (xattr_bytes X m) \<le> block_size (sb s)"
  shows "read_xattr X (dkfile_new i, s) = (Ok (), ((dkfile_new i)\<lparr>f_xattr := m\<rparr>, s))"
proof (cases "m = []")
  case True
  then have "i_xattr_ptr i = 0" using assms(3) by (simp add: attrs_stored_def)
  then have "read_xattr X (dkfile_new i, s) = (Ok (), (dkfile_new i, s))"
    by (intro read_xattr_none) (simp add: dkfile_new_def)
  then show ?thesis using True by (simp add: dkfile_new_def)
next
  case False
  let ?q = "i_xattr_ptr i" and ?B = "xattr_bytes X m"
  have q: "?q \<in> data_blocks s" "read_bytes (disk s) ?q (length ?B) = ?B" using False assms(3) by (simp_all add: attrs_stored_def)
  obtain n where n: "block_size (sb s) = length ?B + n" using assms(4) le_Suc_ex by blast
  define r where "r = read_bytes (disk s) (?q + length ?B) n"
  have data: "read_bytes (disk s) ?q (block_size (sb s)) = ?B @ r"
    unfolding n r_def by (simp add: read_bytes_add q(2))
  have ok: "\<forall>(k, v) \<in> set m. k \<noteq> [] \<and> length k < u64_limit \<and> length v < u64_limit" "om_valid m"
    using assms(2) unfolding attrs_ok_def by blast+
  have "length m < Suc (length (?B @ r))" using length_attrs [OF store_okD(1) [OF assms(1)] assms(2)] by simp
  from read_attrs_run [OF store_okD(1) [OF assms(1)] ok(1) this, of r "dkfile_new i" s]
  have loop: "read_xattr_loop X (Suc (length (?B @ r))) (?B @ r) (dkfile_new i, s) = (Ok (), ((dkfile_new i)\<lparr>f_xattr := m\<rparr>, s))"
    using om.rebuild [OF ok(2)] by (simp add: dkfile_new_def)
  have "0 < ?q" by (rule data_block_range(4) [OF assms(1) q(1)])
  moreover have "on_dk (read_block X ?q) (dkfile_new i, s) = (Ok (?B @ r), (dkfile_new i, s))"
    using read_block_Ok [OF assms(1) q(1)] by (simp add: on_dk_def data)
  ultimately show ?thesis using loop
    by (simp add: read_xattr_def get_file_def bnd_Ok [of "on_dk (read_block X ?q)"] dkfile_new_def del: read_xattr_loop.simps)
qed

section \<open>Writing the block\<close>

definition put_attrs :: "nat \<Rightarrow> dkfile \<Rightarrow> dkfile" where
  "put_attrs q f = (if i_xattr_ptr (f_inode f) = q then f
     else f\<lparr>f_inode := (f_inode f)\<lparr>i_xattr_ptr := q, i_blocks := Suc (i_blocks (f_inode f))\<rparr>\<rparr>)"

lemma put_attrs_fields [simp]:
  "rows (put_attrs q f) = rows f" "f_cache (put_attrs q f) = f_cache f" "f_xattr (put_attrs q f) = f_xattr f"
  "i_xattr_ptr (f_inode (put_attrs q f)) = q" "i_size (f_inode (put_attrs q f)) = i_size (f_inode f)"
  "i_ino (f_inode (put_attrs q f)) = i_ino (f_inode f)" "i_nlink (f_inode (put_attrs q f)) = i_nlink (f_inode f)"
  "f_dirty (put_attrs q f) = f_dirty f"
  "put_attrs q (f\<lparr>f_cache := c\<rparr>) = (put_attrs q f)\<lparr>f_cache := c\<rparr>"
  by (simp_all add: put_attrs_def rows_def fun_eq_iff)

text \<open>The attributes fit: into their block, and if they need a new block there is one.\<close>

definition attrs_fit :: "ext \<Rightarrow> nat list \<Rightarrow> dkfile \<times> 'z store_scheme \<Rightarrow> bool" where
  "attrs_fit X ds fs \<longleftrightarrow> (case fs of (f, s) \<Rightarrow> attrs_ok (f_xattr f)
     \<and> length (xattr_bytes X (f_xattr f)) \<le> block_size (sb s)
     \<and> (if f_xattr f = [] then i_xattr_ptr (f_inode f) = 0 else i_xattr_ptr (f_inode f) = 0 \<longrightarrow> ds \<noteq> []))"

lemma write_attrs_at:
  assumes "file_map X {} V is ds (f, s)" "q \<in> data_blocks s - set ds" "q \<notin> all_nodes (pcount s) (rows f) V"
    "length bs \<le> block_size (sb s)"
  obtains t where "write_at X q bs s = (Ok (), t)" "t = set_disk (write_bytes q bs (disk s)) s" "file_map X {} V is ds (f, t)"
    "evolves {q..<q + block_size (sb s)} s t" "read_bytes (disk t) q (length bs) = bs"
proof -
  note m = file_mapD [OF assms(1)]
  have q: "q \<in> data_blocks s" "q \<notin> set ds" "q \<le> q" "q + length bs \<le> q + block_size (sb s)" using assms(2,4) by simp_all
  obtain t where t: "write_at X q bs s = (Ok (), t)" "t = set_disk (write_bytes q bs (disk s)) s" "store_ok X t is ds"
    "evolves {q..<q + length bs} s t"
    by (rule write_used_block [OF m(1) q])
  have e: "evolves {q..<q + block_size (sb s)} s t" by (rule evolves_mono [OF t(4)]) (use assms(4) in auto)
  have "file_map X {} V is ds (f, t)"
  proof (rule file_map_store [OF assms(1) t(3) e subset_refl])
    fix p assume p: "p \<in> ptr_blocks (pcount s) (rows f) V"
    then have "p \<noteq> q" using assms(3) ptr_blocks_nodes by blast
    then show "{p..<p + block_size (sb s)} \<inter> {q..<q + block_size (sb s)} = {}"
      by (rule data_blocks_apart [OF ptr_block_used(1) [OF assms(1) p] q(1)])
  qed
  then show thesis using that t(1,2) e by simp
qed

lemma write_xattr_run:
  assumes "file_map X {} V is ds (f, s)" "attrs_fit X ds (f, s)"
  obtains q t ds' where "set ds' \<subseteq> set ds" "attrs_stored X (f_xattr f) q t"
    "evolves (sb_range \<union> block_bytes (block_size (sb s)) (set ds \<union> (if q = 0 then {} else {q}))) s t"
    "\<And>g. f_inode g = f_inode f \<Longrightarrow> f_xattr g = f_xattr f \<Longrightarrow> file_map X {} V is ds (g, s) \<Longrightarrow>
       write_xattr X (g, s) = (Ok (), (put_attrs q g, t)) \<and> file_map X {} V is ds' (put_attrs q g, t)"
    "if q = 0 then ds' = ds else q \<in> data_blocks s \<and> q \<notin> all_nodes (pcount s) (rows f) V"
proof -
  let ?m = "f_xattr f" and ?p = "i_xattr_ptr (f_inode f)" and ?B = "xattr_bytes X (f_xattr f)"
  note M = file_mapD [OF assms(1)]
  have fit: "attrs_ok ?m" "length ?B \<le> block_size (sb s)" using assms(2) by (simp_all add: attrs_fit_def)
  have rows: "rows g = rows f" if "f_inode g = f_inode f" for g using that by (simp add: rows_def fun_eq_iff)
  show thesis
  proof (cases "?m = []")
    case True
    then have p: "?p = 0" using assms(2) by (simp add: attrs_fit_def)
    show ?thesis
    proof (rule that [of ds 0 s])
      show "write_xattr X (g, s) = (Ok (), (put_attrs 0 g, s)) \<and> file_map X {} V is ds (put_attrs 0 g, s)"
        if "f_inode g = f_inode f" "f_xattr g = ?m" "file_map X {} V is ds (g, s)" for g
        using that p True write_xattr_none [of g X s] by (simp add: no_attributes_def put_attrs_def)
    qed (simp_all add: attrs_stored_def True)
  next
    case False
    show ?thesis
    proof (cases "?p = 0")
      case True
      obtain q ds' where ds: "ds = q # ds'" using assms(2) False True by (cases ds) (auto simp: attrs_fit_def)
      obtain t where t: "allocate_db X s = (Ok q, t)" "file_map X {} V is ds' (f, t)" "spare q V ds' (f, t)"
        "evolves (sb_range \<union> block_bytes (block_size (sb s)) (set ds')) s t"
        by (rule allocate_block [OF assms(1) [unfolded ds]])
      note pc = pcount_evolves [OF t(4)] and E = evolves_simps [OF t(4)]
      have q: "q \<in> data_blocks t - set ds'" "q \<notin> all_nodes (pcount t) (rows f) V" "length ?B \<le> block_size (sb t)"
        using t(3) fit(2) E(1) by (simp_all add: spare_def)
      obtain u where u: "write_at X q ?B t = (Ok (), u)" "evolves {q..<q + block_size (sb t)} t u"
        "read_bytes (disk u) q (length ?B) = ?B" "u = set_disk (write_bytes q ?B (disk t)) t"
        by (rule write_attrs_at [OF t(2) q])
      have q0: "q \<noteq> 0" using data_block_range(4) [OF file_mapD(1) [OF t(2)]] q(1) by blast
      let ?A = "sb_range \<union> block_bytes (block_size (sb s)) (set ds \<union> (if q = 0 then {} else {q}))"
      have "evolves ?A s t" by (rule evolves_mono [OF t(4)]) (auto simp: ds block_bytes_def)
      moreover have "evolves ?A t u" by (rule evolves_mono [OF u(2)]) (use q0 E(1) in \<open>auto simp: ds block_bytes_def\<close>)
      ultimately have e: "evolves ?A s u" by (rule evolves_trans)
      show ?thesis
      proof (rule that [of ds' q u, OF _ _ e])
        show "attrs_stored X ?m q u"
          using u(3) False evolves_simps(2) [OF u(2)] q(1) by (simp add: attrs_stored_def)
        fix g assume g: "f_inode g = f_inode f" "f_xattr g = ?m" "file_map X {} V is ds (g, s)"
        have "\<exists>v. allocate_db X s = (Ok q, v) \<and> file_map X {} V is ds' (g, v)"
          using allocate_block [OF g(3) [unfolded ds]] by metis
        then have gt: "file_map X {} V is ds' (g, t)" using t(1) by auto
        have sp: "spare q V ds' (g, t)" using t(3) g(1) rows [OF g(1)] by (simp add: spare_def)
        have n: "Suc (i_blocks (f_inode g)) < u64_limit" by (rule spare_counted [OF gt sp])
        note N = file_mapD [OF gt]
        have x0: "i_xattr_ptr (f_inode g) = 0" using g(1) True by simp
        have "file_map X {} V is ds' (put_attrs q g, t)"
        proof -
          have "cached (put_attrs q g) k p pb = cached g k p pb" for k p pb by (simp add: cached_def)
          then have "cache_ok (pcount t) (put_attrs q g) V" "disk_view X {} V (put_attrs q g) t"
            using N(4,5) by (simp_all add: cache_ok_def disk_view_def)
          moreover have "blocks_ok (pcount t) (data_blocks t - set ds') (put_attrs q g) V"
            using N(6) q(1,2) x0 q0 rows [OF g(1)] by (simp add: blocks_ok_def) (simp add: put_attrs_def)
          ultimately show ?thesis using N(1-3) by (simp add: file_map_def)
        qed
        moreover have "q \<notin> all_nodes (pcount t) (rows (put_attrs q g)) V" using q(2) rows [OF g(1)] by simp
        ultimately have fm: "file_map X {} V is ds' (put_attrs q g, u)"
          using write_attrs_at [of X V "is" ds' "put_attrs q g" t q ?B] q(1,3) u(4) by metis
        have run: "write_xattr X (g, s) = (Ok (), (put_attrs q g, u))"
          using False g(2) x0 t(1) u(1) q0 n
          by (simp add: write_xattr_def get_file_def bnd_def on_dk_def mod_inode_def mod_file_def inc_blocks_def put_attrs_def)
        show "write_xattr X (g, s) = (Ok (), (put_attrs q g, u)) \<and> file_map X {} V is ds' (put_attrs q g, u)"
          using run fm by blast
      qed (use q q0 E(2) pc ds in auto)
    next
      case False2: False
      have q: "?p \<in> data_blocks s - set ds" "?p \<notin> all_nodes (pcount s) (rows f) V"
        using M(6) False2 by (auto simp: blocks_ok_def)
      obtain t where t: "write_at X ?p ?B s = (Ok (), t)" "evolves {?p..<?p + block_size (sb s)} s t"
        "read_bytes (disk t) ?p (length ?B) = ?B" "t = set_disk (write_bytes ?p ?B (disk s)) s"
        by (rule write_attrs_at [OF assms(1) q fit(2)])
      show ?thesis
      proof (rule that [of ds ?p t])
        show "attrs_stored X ?m ?p t" using t(3) False evolves_simps(2) [OF t(2)] q(1) by (simp add: attrs_stored_def)
        show "evolves (sb_range \<union> block_bytes (block_size (sb s)) (set ds \<union> (if ?p = 0 then {} else {?p}))) s t"
          by (rule evolves_mono [OF t(2)]) (use False2 in \<open>auto simp: block_bytes_def\<close>)
        fix g assume g: "f_inode g = f_inode f" "f_xattr g = ?m" "file_map X {} V is ds (g, s)"
        have "?p \<notin> all_nodes (pcount s) (rows g) V" using q(2) rows [OF g(1)] by simp
        then have "file_map X {} V is ds (g, t)"
          using write_attrs_at [OF g(3) q(1) _ fit(2)] t(4) by metis
        moreover have "write_xattr X (g, s) = (Ok (), (g, t))"
          using False False2 g(1,2) t(1) by (simp add: write_xattr_def get_file_def on_dk_def)
        ultimately show "write_xattr X (g, s) = (Ok (), (put_attrs ?p g, t)) \<and> file_map X {} V is ds (put_attrs ?p g, t)"
          using g(1) by (simp add: put_attrs_def)
      qed (use q in simp_all)
    qed
  qed
qed

section \<open>Flush and load\<close>

lemma file_map_counts:
  assumes "file_map X D V is ds (f, s)"
  shows "i_blocks (f_inode f) < u64_limit" "i_xattr_ptr (f_inode f) < u64_limit"
proof -
  let ?N = "all_nodes (pcount s) (rows f) V" and ?x = "i_xattr_ptr (f_inode f)"
  note m = file_mapD [OF assms] and n = all_nodes_used [OF assms]
  define A where "A = (if ?x = 0 then ?N else insert ?x ?N)"
  have A: "A \<subseteq> data_blocks s" "card A = i_blocks (f_inode f)"
    using m(6) n unfolding blocks_ok_def A_def by auto
  have "finite (data_blocks s)" using store_okD(5) [OF m(1)] by (simp add: data_blocks_def finite_units)
  then have "card A \<le> card (data_blocks s)" using A(1) by (rule card_mono)
  also have "\<dots> = db_count (sb s)"
    using store_okD(5) [OF m(1)] by (simp add: data_blocks_def card_units)
  finally have "i_blocks (f_inode f) \<le> db_count (sb s)" using A(2) by simp
  moreover have r: "regions_ok X s is ds" using m(1) by (simp add: store_ok_def)
  ultimately show "i_blocks (f_inode f) < u64_limit" using regions_Some(8) [OF r] by linarith
  show "?x < u64_limit"
  proof (cases "?x = 0")
    case False
    then have "?x \<in> data_blocks s" using m(6) by (auto simp: blocks_ok_def)
    from data_block_range(2) [OF m(1) this] show ?thesis
      using device_ok_size [OF store_okD(3) [OF m(1)]] by linarith
  qed simp
qed

lemma put_attrs_fields_ok:
  assumes "inode_fields_ok (f_inode f)" "file_map X D V is ds (put_attrs q f, s)"
  shows "inode_fields_ok (f_inode (put_attrs q f))"
proof -
  have "i_blocks (f_inode (put_attrs q f)) < u64_limit" "q < u64_limit"
    using file_map_counts [OF assms(2)] by simp_all
  then show ?thesis using assms(1) by (auto simp: inode_fields_ok_def put_attrs_def)
qed

lemma dense_put_attrs:
  assumes "dense X V is ds (f, s)" "file_map X {} V is ds' (put_attrs q g, t)" "f_inode g = f_inode f"
    "block_size (sb t) = block_size (sb s)"
  shows "dense X V is ds' (put_attrs q g, t)"
proof -
  have "rows (put_attrs q g) = rows f" using assms(3) by (simp add: rows_def fun_eq_iff)
  moreover have "pcount t = pcount s" using assms(4) by (simp add: pcount_def)
  moreover have "inode_fields_ok (f_inode (put_attrs q g))"
    by (rule put_attrs_fields_ok [OF _ assms(2)]) (use assms(1,3) in \<open>simp add: dense_def\<close>)
  ultimately show ?thesis using assms by (simp add: dense_def data_ptr_def file_limit_def)
qed

text \<open>
  What \<open>flush\<close> leaves of a file with attributes: the file as it was, perhaps with one more block, and
  a device on which the inode leads to the same contents and the same attributes.
\<close>

lemma flush_attrs_run:
  assumes "dense X V is ds (f, s)" "inode_used is (f, s)" "attrs_fit X ds (f, s)" "f_dirty f" "0 < i_nlink (f_inode f)"
  obtains q t ds' where "flush_file X (f, s) = (Ok (), ((put_attrs q f)\<lparr>f_dirty := False\<rparr>, t))"
    "q = 0 \<longrightarrow> ds' = ds" "dense X V is ds' (put_attrs q f, t)" "contents V (put_attrs q f, t) = contents V (f, s)"
    "read_inode X (i_ino (f_inode f)) t = (Ok (f_inode (put_attrs q f)), t)" "inode_used is (put_attrs q f, t)"
    "dense X V is ds' (dkfile_new (f_inode (put_attrs q f)), t)"
    "contents V (dkfile_new (f_inode (put_attrs q f)), t) = contents V (f, s)"
    "attrs_stored X (f_xattr f) q t" "store.more t = store.more s" "block_size (sb t) = block_size (sb s)"
proof -
  let ?i = "f_inode f" and ?P = "ptr_blocks (pcount s) (rows f) V"
  let ?c = "[None, None, None, None] :: (nat \<times> nat list) option list"
  note d = denseD [OF assms(1)] and ok = file_mapD(1) [OF denseD(1) [OF assms(1)]]
  obtain t where t: "write_ptr_cache X (f, s) = (Ok (), (f, t))" "file_map X {} V is ds (f, t)"
    "file_map X {} V is ds (f\<lparr>f_cache := ?c\<rparr>, t)" "evolves (block_bytes (block_size (sb s)) ?P) s t"
    by (rule write_ptr_cache_run [OF d(1)])
  note E = evolves_simps [OF t(4)]
  have fit: "attrs_fit X ds (f, t)" using assms(3) E(1) by (simp add: attrs_fit_def)
  obtain q u ds' where u: "set ds' \<subseteq> set ds" "attrs_stored X (f_xattr f) q u"
    "evolves (sb_range \<union> block_bytes (block_size (sb t)) (set ds \<union> (if q = 0 then {} else {q}))) t u"
    "\<And>g. f_inode g = ?i \<Longrightarrow> f_xattr g = f_xattr f \<Longrightarrow> file_map X {} V is ds (g, t) \<Longrightarrow>
       write_xattr X (g, t) = (Ok (), (put_attrs q g, u)) \<and> file_map X {} V is ds' (put_attrs q g, u)"
    "if q = 0 then ds' = ds else q \<in> data_blocks t \<and> q \<notin> all_nodes (pcount t) (rows f) V"
    by (rule write_xattr_run [OF t(2) fit]) (rule that)
  have w: "write_xattr X (f, t) = (Ok (), (put_attrs q f, u))" "file_map X {} V is ds' (put_attrs q f, u)"
    using u(4) [OF refl refl t(2)] by blast+
  have wc: "file_map X {} V is ds' ((put_attrs q f)\<lparr>f_cache := ?c\<rparr>, u)"
    using u(4) [OF _ _ t(3)] by simp
  have used: "inode_used is (put_attrs q f, u)"
    using assms(2) evolves_simps(4) [OF u(3)] E(4) by (simp add: inode_used_def)
  then have usedc: "inode_used is ((put_attrs q f)\<lparr>f_cache := ?c\<rparr>, u)" by (simp add: inode_used_def)
  note fi = put_attrs_fields_ok [OF d(7) w(2)]
  obtain v where v: "write_inode X (f_inode (put_attrs q f)) u = (Ok (), v)" "file_map X {} V is ds' (put_attrs q f, v)"
    "evolves (inode_bytes_of (i_ino ?i)) u v" "read_inode X (i_ino ?i) v = (Ok (f_inode (put_attrs q f)), v)"
    by (rule write_inode_run [OF w(2) fi used, unfolded put_attrs_fields(6)])
  let ?A = "footprint V ds (f, s) \<union> (block_bytes (block_size (sb s)) (if q = 0 then {} else {q}) \<union> inode_bytes_of (i_ino ?i))"
  have "evolves ?A s t" by (rule evolves_mono [OF t(4)]) (auto simp: footprint_def block_bytes_def)
  moreover have "evolves ?A t u"
    by (rule evolves_mono [OF u(3)]) (auto simp: footprint_def block_bytes_def E(1))
  moreover have "evolves ?A u v" by (rule evolves_mono [OF v(3)]) auto
  ultimately have e: "evolves ?A s v" by (blast intro: evolves_trans)
  note bs = evolves_simps(1) [OF e]
  have out: "{p..<p + block_size (sb s)} \<inter> ?A = {}"
    if p: "p \<in> data_blocks s" "p \<notin> set ds \<union> ?P" "p \<in> all_nodes (pcount s) (rows f) V" for p
  proof -
    have sub: "set ds \<union> ?P \<subseteq> data_blocks s" using store_okD(10) [OF ok] ptr_block_used(1) [OF d(1)] by blast
    have "{p..<p + block_size (sb s)} \<inter> block_bytes (block_size (sb s)) (set ds \<union> ?P) = {}"
      by (rule block_bytes_apart [OF p(1) sub p(2)])
    moreover have "{p..<p + block_size (sb s)} \<inter> inode_bytes_of (i_ino ?i) = {}"
      by (rule inode_below_data [OF ok _ p(1)]) (use assms(2) in \<open>simp add: inode_used_def\<close>)
    moreover have "{p..<p + block_size (sb s)} \<inter> block_bytes (block_size (sb s)) (if q = 0 then {} else {q}) = {}"
      by (rule block_bytes_apart [OF p(1)]) (use u(5) p(3) E(2) pcount_evolves [OF t(4)] in \<open>auto split: if_splits\<close>)
    ultimately show ?thesis using sb_apart [OF ok p(1)] by (simp add: footprint_def Int_Un_distrib)
  qed
  have c: "contents V (g, v) = contents V (f, s)" if "rows g = rows f" "i_size (f_inode g) = i_size ?i" for g
    by (rule contents_frame [OF assms(1) e that]) (rule out)
  let ?j = "f_inode (put_attrs q f)"
  have vc: "file_map X {} V is ds' ((put_attrs q f)\<lparr>f_cache := ?c\<rparr>, v)"
    using write_inode_run [OF wc _ usedc] fi v(1) by simp
  have new: "file_map X {} V is ds' (dkfile_new ?j, v)"
    using vc file_map_inode(2) [of "dkfile_new ?j" "(put_attrs q f)\<lparr>f_cache := ?c\<rparr>" X "{}" V "is" ds' v]
    by (simp add: dkfile_new_def)
  have dv: "dense X V is ds' (put_attrs q f, v)" by (rule dense_put_attrs [OF assms(1) v(2) refl bs])
  have run: "io_flush X (f, s) = (Ok (), ((put_attrs q f)\<lparr>f_dirty := False\<rparr>, v))"
    using assms(4,5) t(1) v(1) w(1) by (simp add: io_flush_def bnd_def map_err_def on_dk_def)
  have stored: "attrs_stored X (f_xattr f) q v"
  proof -
    have "read_bytes (disk v) q n = read_bytes (disk u) q n" if "q \<in> data_blocks u" for n
      by (rule read_bytes_evolves [OF v(3)]) (rule inode_below_data [OF file_mapD(1) [OF w(2)] _ that],
        use used in \<open>simp add: inode_used_def\<close>)
    then show ?thesis using u(2) evolves_simps(2) [OF v(3)] by (auto simp: attrs_stored_def)
  qed
  show thesis
  proof (rule that [OF _ _ dv _ v(4) _ _ _ stored _ bs])
    show "q = 0 \<longrightarrow> ds' = ds" using u(5) by simp
    show "flush_file X (f, s) = (Ok (), ((put_attrs q f)\<lparr>f_dirty := False\<rparr>, v))"
      using run by (simp add: flush_file_def map_err_def)
    show "contents V (put_attrs q f, v) = contents V (f, s)" by (rule c) simp_all
    show "dense X V is ds' (dkfile_new ?j, v)" by (rule dense_cong [OF dv new]) (simp_all add: dkfile_new_def)
    show "contents V (dkfile_new ?j, v) = contents V (f, s)"
      by (rule c) (simp_all add: dkfile_new_def put_attrs_def rows_def fun_eq_iff)
    show "inode_used is (put_attrs q f, v)" using used evolves_simps(4) [OF v(3)] by (simp add: inode_used_def)
    show "store.more v = store.more s" by (rule evolves_simps(6) [OF e])
  qed
qed

end
