(* ===== verification/Attributes.thy ===== *)
theory Attributes
  imports FileAttrs Ops
begin

text \<open>
  The operations on extended attributes of ops.rs against a finite map: what they answer does not
  depend on whether the file stays open in between or is closed and loaded again.
\<close>

section \<open>The state of an open file with attributes\<close>

text \<open>What the device has to hold of a file that is not dirty.\<close>

definition saved :: "ext \<Rightarrow> (nat \<Rightarrow> nat list) \<Rightarrow> nat list \<Rightarrow> nat list \<Rightarrow> dkfile \<Rightarrow> 'z store_scheme \<Rightarrow> bool" where
  "saved X V is ds f s \<longleftrightarrow> read_inode X (i_ino (f_inode f)) s = (Ok (f_inode f), s)
     \<and> dense X V is ds (dkfile_new (f_inode f), s) \<and> contents V (dkfile_new (f_inode f), s) = contents V (f, s)
     \<and> attrs_stored X (f_xattr f) (i_xattr_ptr (f_inode f)) s"

text \<open>The attributes fit into their block, and if the file has no such block yet there is a free one.\<close>

definition attrs_room :: "ext \<Rightarrow> nat list \<Rightarrow> dkfile \<times> 'z store_scheme \<Rightarrow> bool" where
  "attrs_room X ds fs \<longleftrightarrow> (case fs of (f, s) \<Rightarrow> attrs_ok (f_xattr f)
     \<and> length (xattr_bytes X (f_xattr f)) \<le> block_size (sb s)
     \<and> (f_xattr f = [] \<longrightarrow> i_xattr_ptr (f_inode f) = 0) \<and> (i_xattr_ptr (f_inode f) = 0 \<longrightarrow> ds \<noteq> []))"

definition attr_file ::
  "ext \<Rightarrow> nat list \<Rightarrow> nat \<Rightarrow> byte list omap \<Rightarrow> byte list \<Rightarrow> dkfile \<Rightarrow> 'z store_scheme \<Rightarrow> bool" where
  "attr_file X is k m C f s \<longleftrightarrow> (\<exists>V ds. i_ino (f_inode f) = k \<and> f_xattr f = m \<and> 0 < i_nlink (f_inode f)
     \<and> dense X V is ds (f, s) \<and> contents V (f, s) = C \<and> inode_used is (f, s) \<and> attrs_room X ds (f, s)
     \<and> (f_dirty f \<or> saved X V is ds f s))"

definition attr_state ::
  "ext \<Rightarrow> nat list \<Rightarrow> nat \<Rightarrow> byte list omap \<Rightarrow> byte list \<Rightarrow> nat \<Rightarrow> 'z donkey_scheme \<Rightarrow> bool" where
  "attr_state X is k m C bs s \<longleftrightarrow> \<not> borrowed s \<and> (close_files s = [] \<or> close_files s = [k]) \<and> block_size (sb s) = bs
     \<and> (\<exists>f. opened_files s k = Some f \<and> attr_file X is k m C f s)"

lemma attrs_room_fit: "attrs_room X ds (f, s) \<Longrightarrow> attrs_fit X ds (f, s)"
  by (simp add: attrs_room_def attrs_fit_def)

lemma saved_dev:
  assumes "dev t = dev s" "sb t = sb s"
  shows "saved X V is ds f s \<Longrightarrow> saved X V is ds f t" "attrs_room X ds (f, s) \<Longrightarrow> attrs_room X ds (f, t)"
proof -
  have "read_inode X (i_ino (f_inode f)) t = (Ok (f_inode f), t)"
    if "read_inode X (i_ino (f_inode f)) s = (Ok (f_inode f), s)" by (rule read_inode_dev [OF that assms(1)])
  moreover have "data_blocks t = data_blocks s" using assms by (simp add: data_blocks_def db_base_def)
  ultimately show "saved X V is ds f s \<Longrightarrow> saved X V is ds f t"
    using dense_dev [OF assms] assms(1) by (simp add: saved_def attrs_stored_def)
qed (use assms in \<open>simp add: attrs_room_def\<close>)

lemma attr_file_dev:
  assumes "dev t = dev s" "sb t = sb s" "attr_file X is k m C f s"
  shows "attr_file X is k m C f t"
  using assms(3) dense_dev [OF assms(1,2)] saved_dev [OF assms(1,2)] unfolding attr_file_def by metis

lemma attr_file_size: "attr_file X is k m C f s \<Longrightarrow> i_size (f_inode f) = length C"
  unfolding attr_file_def by auto

lemma attr_state_put:
  assumes "attr_file X is k m C f s" "\<not> borrowed t" "close_files t = [] \<or> close_files t = [k]" "block_size (sb t) = bs"
    "opened_files t k = Some f" "dev t = dev s" "sb t = sb s"
  shows "attr_state X is k m C bs t"
  using attr_file_dev [OF assms(6,7,1)] assms(2-5) unfolding attr_state_def by blast

section \<open>Closing and loading\<close>

lemma saved_loads:
  assumes "saved X V is ds f s" "attrs_room X ds (f, s)"
  shows "read_xattr X (dkfile_new (f_inode f), s) = (Ok (), ((dkfile_new (f_inode f))\<lparr>f_xattr := f_xattr f\<rparr>, s))"
proof (rule read_xattr_run)
  show "store_ok X s is ds" using assms(1) file_mapD(1) [OF denseD(1)] unfolding saved_def by blast
qed (use assms in \<open>simp_all add: saved_def attrs_room_def\<close>)

lemma saved_file:
  assumes "saved X V is ds f s" "attrs_room X ds (f, s)" "inode_used is (f, s)" "0 < i_nlink (f_inode f)"
  shows "attr_file X is (i_ino (f_inode f)) (f_xattr f) (contents V (f, s))
    ((dkfile_new (f_inode f))\<lparr>f_xattr := f_xattr f\<rparr>) s"
proof -
  let ?g = "(dkfile_new (f_inode f))\<lparr>f_xattr := f_xattr f\<rparr>"
  have gi: "f_inode ?g = f_inode f" "f_xattr ?g = f_xattr f" "f_inode (dkfile_new (f_inode f)) = f_inode f" by (simp_all add: dkfile_new_def)
  have d: "dense X V is ds (dkfile_new (f_inode f), s)" using assms(1) by (simp add: saved_def)
  have "file_map X {} V is ds (?g, s)"
    using denseD(1) [OF d] file_map_inode(2) [of ?g "dkfile_new (f_inode f)" X "{}" V "is" ds s] by simp
  then have dg: "dense X V is ds (?g, s)" by (rule dense_cong [OF d]) simp_all
  have "contents V (?g, s) = contents V (dkfile_new (f_inode f), s)"
    by (rule contents_inode) (simp add: dkfile_new_def)
  then have c: "contents V (?g, s) = contents V (f, s)" using assms(1) by (simp add: saved_def)
  have sv: "saved X V is ds ?g s" using assms(1) c by (simp add: saved_def gi)
  have "attrs_room X ds (?g, s)" "inode_used is (?g, s)"
    using assms(2,3) by (simp_all add: attrs_room_def inode_used_def gi)
  then show ?thesis using dg c sv assms(4) unfolding attr_file_def gi by blast
qed

text \<open>Flushing makes the device hold the file.\<close>

lemma flush_saves:
  assumes "attr_file X is k m C f s"
  obtains g t V ds where "flush_file X (f, s) = (Ok (), (g, t))" "store.more t = store.more s"
    "block_size (sb t) = block_size (sb s)" "i_ino (f_inode g) = k" "f_xattr g = m" "0 < i_nlink (f_inode g)"
    "saved X V is ds g t" "attrs_room X ds (g, t)" "inode_used is (g, t)" "contents V (g, t) = C"
proof -
  obtain V ds where f: "i_ino (f_inode f) = k" "f_xattr f = m" "0 < i_nlink (f_inode f)" "dense X V is ds (f, s)"
    "contents V (f, s) = C" "inode_used is (f, s)" "attrs_room X ds (f, s)" "f_dirty f \<or> saved X V is ds f s"
    using assms unfolding attr_file_def by blast
  show thesis
  proof (cases "f_dirty f")
    case False
    have "flush_file X (f, s) = (Ok (), (f, s))"
      using False by (simp add: flush_file_def io_flush_def map_err_def bnd_def)
    then show ?thesis using that [of f s V ds] f False by blast
  next
    case True
    obtain q t ds' where t: "flush_file X (f, s) = (Ok (), ((put_attrs q f)\<lparr>f_dirty := False\<rparr>, t))"
      "q = 0 \<longrightarrow> ds' = ds" "dense X V is ds' (put_attrs q f, t)" "contents V (put_attrs q f, t) = contents V (f, s)"
      "read_inode X (i_ino (f_inode f)) t = (Ok (f_inode (put_attrs q f)), t)" "inode_used is (put_attrs q f, t)"
      "dense X V is ds' (dkfile_new (f_inode (put_attrs q f)), t)"
      "contents V (dkfile_new (f_inode (put_attrs q f)), t) = contents V (f, s)"
      "attrs_stored X (f_xattr f) q t" "store.more t = store.more s" "block_size (sb t) = block_size (sb s)"
      by (rule flush_attrs_run [OF f(4,6) attrs_room_fit [OF f(7)] True f(3)]) (rule that)
    let ?g = "(put_attrs q f)\<lparr>f_dirty := False\<rparr>"
    have gi: "f_inode ?g = f_inode (put_attrs q f)" by simp
    have c: "contents V (?g, t) = contents V (put_attrs q f, t)"
      by (rule contents_inode) (rule gi)
    have "saved X V is ds' ?g t" unfolding saved_def gi using t(3-5,7-9) c by simp
    moreover have "0 \<notin> data_blocks t"
      using data_block_range(4) [OF file_mapD(1) [OF denseD(1) [OF t(3)]]] by blast
    then have "attrs_room X ds' (?g, t)"
      using f(2,7) t(2,9,11) by (auto simp: attrs_room_def attrs_stored_def)
    moreover have "inode_used is (?g, t)" using t(6) by (simp add: inode_used_def)
    ultimately show ?thesis using that [of ?g t V ds'] t(1,4,10,11) f(1-3,5) c by simp
  qed
qed

section \<open>Opening\<close>

lemma open_attr_run:
  assumes "attr_state X is k m C bs s" "fl \<noteq> INVALID"
  obtains t f where "h_open X k fl s = (Ok \<lparr>fh_key = k, fh_flags = fl\<rparr>, t)" "opened_files t k = Some f"
    "attr_file X is k m C f t" "\<not> borrowed t" "close_files t = []" "block_size (sb t) = bs"
proof -
  obtain f where s: "\<not> borrowed s" "close_files s = [] \<or> close_files s = [k]" "block_size (sb s) = bs"
    "opened_files s k = Some f" "attr_file X is k m C f s"
    using assms(1) unfolding attr_state_def by blast
  let ?s = "s\<lparr>borrowed := True\<rparr>" and ?fh = "\<lparr>fh_key = k, fh_flags = fl\<rparr>"
  note reply = that
  have run: thesis if o: "open_file X k fl ?s = (Ok ?fh, t)" "opened_files t k = Some g"
    "attr_file X is k m C g t" "close_files t = []" "block_size (sb t) = bs" for t :: "'a donkey_scheme" and g
  proof -
    let ?t = "t\<lparr>borrowed := False\<rparr>"
    have "dev ?t = dev t" "sb ?t = sb t" by simp_all
    from attr_file_dev [OF this o(3)] show thesis
      using reply [of ?t g] o(1,2,4,5) s(1) by (simp add: h_open_def borrow_mut_def)
  qed
  have fs: "attr_file X is k m C f t" if "dev t = dev s" "sb t = sb s" for t :: "'a donkey_scheme"
    by (rule attr_file_dev [OF that s(5)])
  show thesis
  proof (cases "close_files s = [] \<or> file_refs s k \<noteq> 0")
    case True
    let ?t = "clone_file k (?s\<lparr>close_files := []\<rparr>)"
    have "close_files_in_list X ?s = (Ok (), ?s\<lparr>close_files := []\<rparr>)"
    proof (cases "close_files s = []")
      case True
      then show ?thesis by (simp add: close_files_in_list_def bnd_def gets_def pop_close_file_def ret_def)
    next
      case False
      then have p: "close_files ?s = [k]" using s(2) by simp
      have "file_refs s k \<noteq> 0" using True False by simp
      then have "close_file X k (?s\<lparr>close_files := []\<rparr>) = (Ok (), ?s\<lparr>close_files := []\<rparr>)"
        by (simp add: close_file_def file_unused_def bnd_def gets_def ret_def)
      then show ?thesis by (rule close_pending [OF p]) simp
    qed
    then have "open_file X k fl ?s = (Ok ?fh, ?t)"
      using s(4) assms(2) by (simp add: open_file_def bnd_def gets_def modify_def ret_def)
    then show thesis
      by (rule run [of ?t f]) (use s(3,4) in \<open>simp_all add: clone_file_def fs\<close>)
  next
    case False
    then have p: "close_files ?s = [k]" using s(2) by simp
    let ?r = "?s\<lparr>close_files := []\<rparr>"
    have of: "opened_files ?r k = Some f" "file_refs ?r k = 0" using s(4) False by simp_all
    have fr: "attr_file X is k m C f ?r" by (rule fs) simp_all
    obtain g t V ds where t: "flush_file X (f, ?r) = (Ok (), (g, t))" "store.more t = store.more ?r"
      "block_size (sb t) = block_size (sb ?r)" "i_ino (f_inode g) = k" "f_xattr g = m" "0 < i_nlink (f_inode g)"
      "saved X V is ds g t" "attrs_room X ds (g, t)" "inode_used is (g, t)" "contents V (g, t) = C"
      by (rule flush_saves [OF fr])
    let ?t = "t\<lparr>opened_files := (opened_files ?r)(k := None)\<rparr>" and ?h = "(dkfile_new (f_inode g))\<lparr>f_xattr := m\<rparr>"
    have cf: "close_file X k ?r = (Ok (), ?t)" by (rule close_file_flushed [OF of t(1,2,6)])
    have mt: "close_files ?t = []" "opened_files ?t k = None" using t(2) by (cases s, cases t, simp)+
    have dt: "dev ?t = dev t" "sb ?t = sb t" by simp_all
    have sv: "saved X V is ds g ?t" "attrs_room X ds (g, ?t)"
      using saved_dev [OF dt] t(7,8) by simp_all
    have rd: "read_inode X k ?t = (Ok (f_inode g), ?t)" using sv(1) t(4) by (simp add: saved_def)
    have rx: "read_xattr X (dkfile_new (f_inode g), ?t) = (Ok (), (?h, ?t))"
      using saved_loads [OF sv] t(5) by simp
    have "attr_file X is k m C ?h t" using saved_file [OF t(7-9,6)] t(4,5,10) by simp
    then have ah: "attr_file X is k m C ?h u" if "dev u = dev t" "sb u = sb t" for u :: "'a donkey_scheme"
      by (rule attr_file_dev [OF that])
    show thesis
    proof (rule run [OF open_file_reload [OF p cf mt rd rx assms(2)]])
      show "attr_file X is k m C ?h (?t\<lparr>opened_files := (opened_files ?t)(k \<mapsto> ?h), file_refs := (file_refs ?t)(k := 1)\<rparr>)"
        by (rule ah) simp_all
    qed (use mt t(3) s(3) in simp_all)
  qed
qed

section \<open>One operation\<close>

definition attrs_fit_in :: "ext \<Rightarrow> nat \<Rightarrow> byte list omap \<Rightarrow> bool" where
  "attrs_fit_in X bs m \<longleftrightarrow> attrs_ok m \<and> length (xattr_bytes X m) \<le> bs"

lemma attr_file_fits: "attr_file X is k m C f s \<Longrightarrow> attrs_fit_in X (block_size (sb s)) m"
  unfolding attr_file_def attrs_fit_in_def attrs_room_def by auto

lemma attr_file_update:
  assumes "attr_file X is k m C f s" "f_inode g = f_inode f" "f_cache g = f_cache f" "f_dirty g" "f_xattr g = m'"
    "attrs_fit_in X (block_size (sb s)) m'" "m' = [] \<Longrightarrow> m = []"
  shows "attr_file X is k m' C g s"
proof -
  obtain V ds where f: "i_ino (f_inode f) = k" "f_xattr f = m" "0 < i_nlink (f_inode f)" "dense X V is ds (f, s)"
    "contents V (f, s) = C" "inode_used is (f, s)" "attrs_room X ds (f, s)" "f_dirty f \<or> saved X V is ds f s"
    using assms(1) unfolding attr_file_def by blast
  have "file_map X {} V is ds (g, s)"
    using denseD(1) [OF f(4)] file_map_inode(2) [of g f X "{}" V "is" ds s] assms(2,3) by simp
  then have "dense X V is ds (g, s)" by (rule dense_cong [OF f(4) _ assms(2)]) simp
  moreover have "contents V (g, s) = C" using contents_inode [OF assms(2), of V s] f(5) by simp
  moreover have "attrs_room X ds (g, s)" using f(2,7) assms(2,5-7) by (auto simp: attrs_room_def attrs_fit_in_def)
  ultimately show ?thesis
    using f(1,3,6) assms(2,4,5) unfolding attr_file_def inode_used_def by auto
qed

lemma attr_op_run:
  fixes s :: "'z donkey_scheme"
  assumes "attr_state X is k m C bs s" "\<And>f t. f_xattr f = m \<Longrightarrow> b (f, t) = (Ok a, (g f, t))"
    "\<And>f (t :: 'z donkey_scheme). attr_file X is k m C f t \<Longrightarrow> block_size (sb t) = bs \<Longrightarrow> attr_file X is k m' C (g f) t"
  obtains u where "bnd (h_open X k READ_ONLY) (\<lambda>fh. dropping_file fh (with_file (fh_key fh) b)) s = (Ok a, u)"
    "attr_state X is k m' C bs u"
proof -
  have "READ_ONLY \<noteq> INVALID" by (simp add: READ_ONLY_def INVALID_def)
  from open_attr_run [OF assms(1) this] obtain t f where
    t: "h_open X k READ_ONLY s = (Ok \<lparr>fh_key = k, fh_flags = READ_ONLY\<rparr>, t)" "opened_files t k = Some f"
    "attr_file X is k m C f t" "\<not> borrowed t" "close_files t = []" "block_size (sb t) = bs" by blast
  have m: "f_xattr f = m" using t(3) unfolding attr_file_def by blast
  have g: "attr_file X is k m' C (g f) t" by (rule assms(3) [OF t(3,6)])
  have ino: "i_ino (f_inode (g f)) = k" using g unfolding attr_file_def by blast
  let ?u = "drop_file k (t\<lparr>opened_files := (opened_files t)(k \<mapsto> g f)\<rparr>)"
  have "bnd (h_open X k READ_ONLY) (\<lambda>fh. dropping_file fh (with_file (fh_key fh) b)) s = (Ok a, ?u)"
    using t(2) by (simp add: bnd_def t(1) dropping_def with_file_def assms(2) [OF m])
  moreover have "attr_state X is k m' C bs ?u"
    by (rule attr_state_put [OF g]) (use t(4-6) ino in \<open>simp_all add: drop_file_def\<close>)
  ultimately show thesis by (rule that)
qed

section \<open>Sequences of operations\<close>

datatype attr_op = SetAttr os_string "byte list" | RemoveAttr os_string | GetAttr os_string | ListAttrs

datatype attr_reply = AttrDone | AttrValue "byte list option" | AttrNames "os_string list"

primrec run_attr :: "ext \<Rightarrow> nat \<Rightarrow> attr_op \<Rightarrow> ('z donkey_scheme, dk_error, attr_reply) prog" where
  "run_attr X k (SetAttr n v) = bnd (h_setxattr X k n v) (\<lambda>_. ret AttrDone)"
| "run_attr X k (RemoveAttr n) = bnd (h_removexattr X k n) (\<lambda>_. ret AttrDone)"
| "run_attr X k (GetAttr n) = bnd (h_getxattr X k n) (\<lambda>v. ret (AttrValue v))"
| "run_attr X k ListAttrs = bnd (h_listxattr X k) (\<lambda>ns. ret (AttrNames ns))"

primrec run_attrs :: "ext \<Rightarrow> nat \<Rightarrow> attr_op list \<Rightarrow> ('z donkey_scheme, dk_error, attr_reply list) prog" where
  "run_attrs X k [] = ret []"
| "run_attrs X k (op # ops) = bnd (run_attr X k op) (\<lambda>r. bnd (run_attrs X k ops) (\<lambda>rs. ret (r # rs)))"

text \<open>The specification: a finite map from names to values.\<close>

primrec map_after :: "(os_string \<rightharpoonup> byte list) \<Rightarrow> attr_op \<Rightarrow> (os_string \<rightharpoonup> byte list)" where
  "map_after m (SetAttr n v) = m(n \<mapsto> v)"
| "map_after m (RemoveAttr n) = m(n := None)"
| "map_after m (GetAttr n) = m"
| "map_after m ListAttrs = m"

primrec map_reply :: "(os_string \<rightharpoonup> byte list) \<Rightarrow> attr_op \<Rightarrow> attr_reply" where
  "map_reply m (SetAttr n v) = AttrDone"
| "map_reply m (RemoveAttr n) = AttrDone"
| "map_reply m (GetAttr n) = AttrValue (m n)"
| "map_reply m ListAttrs = AttrNames (sorted_list_of_set (dom m))"

primrec map_replies :: "(os_string \<rightharpoonup> byte list) \<Rightarrow> attr_op list \<Rightarrow> attr_reply list" where
  "map_replies m [] = []"
| "map_replies m (op # ops) = map_reply m op # map_replies (map_after m op) ops"

text \<open>
  Operations within the limits of the code: names of 1 to 256 bytes, attributes that fit into one block,
  and no removal of the last attribute (which leaves a wrong count of blocks behind).
\<close>

primrec omap_after :: "byte list omap \<Rightarrow> attr_op \<Rightarrow> byte list omap" where
  "omap_after m (SetAttr n v) = om_insert n v m"
| "omap_after m (RemoveAttr n) = om_remove n m"
| "omap_after m (GetAttr n) = m"
| "omap_after m ListAttrs = m"

primrec attr_name_ok :: "attr_op \<Rightarrow> bool" where
  "attr_name_ok (SetAttr n v) \<longleftrightarrow> n \<noteq> [] \<and> length n \<le> MAX_NAMELEN"
| "attr_name_ok (RemoveAttr n) \<longleftrightarrow> length n \<le> MAX_NAMELEN"
| "attr_name_ok (GetAttr n) \<longleftrightarrow> length n \<le> MAX_NAMELEN"
| "attr_name_ok ListAttrs \<longleftrightarrow> True"

primrec attr_ops_ok :: "ext \<Rightarrow> nat \<Rightarrow> byte list omap \<Rightarrow> attr_op list \<Rightarrow> bool" where
  "attr_ops_ok X bs m [] \<longleftrightarrow> True"
| "attr_ops_ok X bs m (op # ops) \<longleftrightarrow> attr_name_ok op \<and> attrs_fit_in X bs (omap_after m op)
     \<and> (omap_after m op = [] \<longrightarrow> m = []) \<and> attr_ops_ok X bs (omap_after m op) ops"

lemma omap_map_after: "om_valid m \<Longrightarrow> map_of (omap_after m op) = map_after (map_of m) op"
  by (cases op) (simp_all add: om_lookup_insert om_lookup_remove)

lemma omap_keys: "om_valid m \<Longrightarrow> map fst m = sorted_list_of_set (dom (map_of m))"
  unfolding om_valid_def dom_map_of_conv_image_fst
  by (metis list.set_map sorted_list_of_set_unique finite_set strict_sorted_iff distinct_card)

lemma attr_op_step:
  fixes s :: "'z donkey_scheme"
  assumes "attr_state X is k m C bs s" "attr_name_ok op" "attrs_fit_in X bs (omap_after m op)"
    "omap_after m op = [] \<longrightarrow> m = []" "om_valid m"
  obtains u where "run_attr X k op s = (Ok (map_reply (map_of m) op), u)" "attr_state X is k (omap_after m op) C bs u"
proof (cases op)
  case (SetAttr n v)
  let ?b = "bnd (set_dirty True) (\<lambda>_. mod_file (\<lambda>f. f\<lparr>f_xattr := om_insert n v (f_xattr f)\<rparr>))"
  let ?g = "\<lambda>f. f\<lparr>f_dirty := True, f_xattr := om_insert n v m\<rparr>"
  obtain u where "bnd (h_open X k READ_ONLY) (\<lambda>fh. dropping_file fh (with_file (fh_key fh) ?b)) s = (Ok (), u)"
    "attr_state X is k (om_insert n v m) C bs u"
  proof (rule attr_op_run [OF assms(1), where b = ?b and g = ?g and a = "()" and m' = "om_insert n v m"])
    show "?b (f, t) = (Ok (), (?g f, t))" if "f_xattr f = m" for f t
      using that by (simp add: bnd_def set_dirty_def mod_file_def)
    show "attr_file X is k (om_insert n v m) C (?g f) t" if "attr_file X is k m C f t" "block_size (sb t) = bs" for f and t :: "'z donkey_scheme"
      by (rule attr_file_update [OF that(1)]) (use SetAttr assms(3,4) that(2) in simp_all)
  qed
  then show thesis using that SetAttr assms(2) by (simp add: h_setxattr_def check_name_def bnd_def)
next
  case (RemoveAttr n)
  let ?b = "bnd (set_dirty True) (\<lambda>_. mod_file (\<lambda>f. f\<lparr>f_xattr := om_remove n (f_xattr f)\<rparr>))"
  let ?g = "\<lambda>f. f\<lparr>f_dirty := True, f_xattr := om_remove n m\<rparr>"
  obtain u where "bnd (h_open X k READ_ONLY) (\<lambda>fh. dropping_file fh (with_file (fh_key fh) ?b)) s = (Ok (), u)"
    "attr_state X is k (om_remove n m) C bs u"
  proof (rule attr_op_run [OF assms(1), where b = ?b and g = ?g and a = "()" and m' = "om_remove n m"])
    show "?b (f, t) = (Ok (), (?g f, t))" if "f_xattr f = m" for f t
      using that by (simp add: bnd_def set_dirty_def mod_file_def)
    show "attr_file X is k (om_remove n m) C (?g f) t" if "attr_file X is k m C f t" "block_size (sb t) = bs" for f and t :: "'z donkey_scheme"
      by (rule attr_file_update [OF that(1)]) (use RemoveAttr assms(3,4) that(2) in simp_all)
  qed
  then show thesis using that RemoveAttr assms(2) by (simp add: h_removexattr_def check_name_def bnd_def)
next
  case (GetAttr n)
  obtain u where "bnd (h_open X k READ_ONLY) (\<lambda>fh. dropping_file fh (with_file (fh_key fh)
      (get_file (\<lambda>f. map_of (f_xattr f) n)))) s = (Ok (map_of m n), u)" "attr_state X is k m C bs u"
    by (rule attr_op_run [OF assms(1), where b = "get_file (\<lambda>f. map_of (f_xattr f) n)" and g = "\<lambda>f. f"])
      (simp_all add: get_file_def)
  then show thesis using that GetAttr assms(2) by (simp add: h_getxattr_def check_name_def bnd_def)
next
  case ListAttrs
  obtain u where "bnd (h_open X k READ_ONLY) (\<lambda>fh. dropping_file fh (with_file (fh_key fh)
      (get_file (\<lambda>f. map fst (f_xattr f))))) s = (Ok (map fst m), u)" "attr_state X is k m C bs u"
    by (rule attr_op_run [OF assms(1), where b = "get_file (\<lambda>f. map fst (f_xattr f))" and g = "\<lambda>f. f"])
      (simp_all add: get_file_def)
  then show thesis using that ListAttrs omap_keys [OF assms(5)] by (simp add: h_listxattr_def bnd_def)
qed

lemma attr_state_valid: "attr_state X is k m C bs s \<Longrightarrow> om_valid m"
  unfolding attr_state_def attr_file_def attrs_room_def attrs_ok_def by auto

lemma attr_ops_run:
  assumes "attr_state X is k m C bs s" "attr_ops_ok X bs m ops"
  shows "\<exists>u. run_attrs X k ops s = (Ok (map_replies (map_of m) ops), u)
    \<and> attr_state X is k (foldl omap_after m ops) C bs u"
  using assms
proof (induction ops arbitrary: m s)
  case Nil
  then show ?case by simp
next
  case (Cons op ops)
  note v = attr_state_valid [OF Cons.prems(1)]
  have ok: "attr_name_ok op" "attrs_fit_in X bs (omap_after m op)" "omap_after m op = [] \<longrightarrow> m = []"
    "attr_ops_ok X bs (omap_after m op) ops" using Cons.prems(2) by simp_all
  obtain t where t: "run_attr X k op s = (Ok (map_reply (map_of m) op), t)" "attr_state X is k (omap_after m op) C bs t"
    by (rule attr_op_step [OF Cons.prems(1) ok(1-3) v])
  from Cons.IH [OF t(2) ok(4)] obtain u where
    "run_attrs X k ops t = (Ok (map_replies (map_of (omap_after m op)) ops), u)"
    "attr_state X is k (foldl omap_after (omap_after m op) ops) C bs u" by auto
  then show ?case using t(1) omap_map_after [OF v, of op] by (simp add: bnd_def)
qed

end
