(* ===== verification/Durability.thy ===== *)
theory Durability
  imports Attributes ServedFiles
begin

text \<open>
  What \<open>fsync\<close> leaves on the device is found by whoever opens the device later, with nothing but the
  device.
\<close>

section \<open>Loading from the device alone\<close>

text \<open>A file system that has just been opened.\<close>

definition idle :: "'z donkey_scheme \<Rightarrow> bool" where
  "idle s \<longleftrightarrow> opened_files s = Map.empty \<and> opened_dirs s = Map.empty \<and> file_refs s = (\<lambda>_. 0) \<and> dir_refs s = (\<lambda>_. 0)
     \<and> close_files s = [] \<and> close_dirs s = [] \<and> \<not> borrowed s"

lemma open_fs_run:
  assumes "store_ok X t is ds" "dev s = dev t"
  obtains u where "open_fs X s = (Ok (), u)" "idle u" "dev u = dev t" "sb u = sb t"
  using that assms open_store_restores [OF assms]
  by (simp add: open_fs_def bnd_def donkey_new_def modify_def idle_def)

lemma open_saved:
  assumes "saved X V is ds f s" "attrs_room X ds (f, s)" "inode_used is (f, s)" "0 < i_nlink (f_inode f)"
    "idle u" "dev u = dev s" "sb u = sb s" "fl \<noteq> INVALID" "k = i_ino (f_inode f)"
  obtains g t where "h_open X k fl u = (Ok \<lparr>fh_key = k, fh_flags = fl\<rparr>, t)" "opened_files t k = Some g"
    "attr_file X is k (f_xattr f) (contents V (f, s)) g t" "\<not> borrowed t"
    "t = u\<lparr>opened_files := [k \<mapsto> g], file_refs := (file_refs u)(k := 1)\<rparr>" "\<not> f_dirty g"
proof -
  let ?u = "u\<lparr>borrowed := True\<rparr>" and ?g = "(dkfile_new (f_inode f))\<lparr>f_xattr := f_xattr f\<rparr>"
  have du: "dev ?u = dev s" "sb ?u = sb s" using assms(6,7) by simp_all
  note sv = saved_dev [OF du]
  have rd: "read_inode X k ?u = (Ok (f_inode f), ?u)" using sv(1) [OF assms(1)] assms(9) by (simp add: saved_def)
  have rx: "read_xattr X (dkfile_new (f_inode f), ?u) = (Ok (), (?g, ?u))"
    by (rule saved_loads [OF sv(1) [OF assms(1)] sv(2) [OF assms(2)]])
  let ?t = "?u\<lparr>opened_files := [k \<mapsto> ?g], file_refs := (file_refs u)(k := 1)\<rparr>"
  have "close_files_in_list X ?u = (Ok (), ?u)"
    using assms(5) by (simp add: close_files_in_list_def bnd_def gets_def pop_close_file_def ret_def idle_def)
  then have "open_file X k fl ?u = (Ok \<lparr>fh_key = k, fh_flags = fl\<rparr>, ?t)"
    using assms(5,8) by (simp add: open_file_def bnd_def gets_def modify_def clone_file_def ret_def load_file_def rd rx idle_def)
  then have run: "h_open X k fl u = (Ok \<lparr>fh_key = k, fh_flags = fl\<rparr>, ?t\<lparr>borrowed := False\<rparr>)"
    using assms(5) by (simp add: h_open_def borrow_mut_def idle_def)
  have "attr_file X is k (f_xattr f) (contents V (f, s)) ?g s"
    using saved_file [OF assms(1-4)] assms(9) by simp
  then have af: "attr_file X is k (f_xattr f) (contents V (f, s)) ?g (?t\<lparr>borrowed := False\<rparr>)"
    by (rule attr_file_dev [rotated 2]) (use du in simp_all)
  have t: "?t\<lparr>borrowed := False\<rparr> = u\<lparr>opened_files := [k \<mapsto> ?g], file_refs := (file_refs u)(k := 1)\<rparr>"
    using assms(5) by (cases u) (simp add: idle_def)
  show thesis by (rule that [OF run _ af _ t]) (simp_all add: dkfile_new_def)
qed

lemma attr_file_volume:
  assumes "opened_files s k = Some f" "attr_file X is k m C f s"
  obtains d where "volume X is [k \<mapsto> C] d s"
proof -
  obtain V ds where "dense X V is ds (f, s)" "contents V (f, s) = C" using assms(2) unfolding attr_file_def by blast
  then have "volume_of X is [k \<mapsto> C] (\<lambda>_. V) ds (opened_files s) s"
    using assms(1) unfolding volume_of_def by (auto split: if_splits)
  then show thesis using that unfolding volume_def by blast
qed

section \<open>Synchronising\<close>

text \<open>The device of \<open>s\<close> alone determines the file \<open>k\<close>: its contents are \<open>C\<close>, its attributes \<open>m\<close>.\<close>

definition durable ::
  "ext \<Rightarrow> nat \<Rightarrow> byte list omap \<Rightarrow> byte list \<Rightarrow> 'z store_scheme \<Rightarrow> bool" where
  "durable X k m C s \<longleftrightarrow> (\<exists>V is ds f. saved X V is ds f s \<and> attrs_room X ds (f, s) \<and> inode_used is (f, s)
     \<and> 0 < i_nlink (f_inode f) \<and> k = i_ino (f_inode f) \<and> f_xattr f = m \<and> contents V (f, s) = C)"

lemma h_fsync_run:
  assumes "opened_files s (fh_key fh) = Some f" "attr_file X is (fh_key fh) m C f s" "\<not> borrowed s"
  obtains t where "h_fsync X fh False s = (Ok (), t)" "durable X (fh_key fh) m C t" "\<not> borrowed t"
proof -
  let ?k = "fh_key fh" and ?s = "s\<lparr>borrowed := True\<rparr>"
  have "attr_file X is ?k m C f ?s" by (rule attr_file_dev [OF _ _ assms(2)]) simp_all
  then obtain g t V ds where t: "flush_file X (f, ?s) = (Ok (), (g, t))" "store.more t = store.more ?s"
    "i_ino (f_inode g) = ?k" "f_xattr g = m" "0 < i_nlink (f_inode g)"
    "saved X V is ds g t" "attrs_room X ds (g, t)" "inode_used is (g, t)" "contents V (g, t) = C"
    by (rule flush_saves) (rule that)
  let ?t = "drop_file ?k (t\<lparr>opened_files := (opened_files t)(?k \<mapsto> g), borrowed := False\<rparr>)"
  have run: "h_fsync X fh False s = (Ok (), ?t)"
    using assms(1,3) by (simp add: h_fsync_def h_flush_def bnd_def dropping_def borrow_mut_def with_file_def t(1) ret_def)
  have dt: "dev ?t = dev t" "sb ?t = sb t" by (simp_all add: drop_file_def)
  have "inode_used is (g, ?t)" "contents V (g, ?t) = C" using dense_dev [OF dt] t(8,9) by simp_all
  then have "durable X ?k m C ?t"
    using saved_dev [OF dt] t(3-7) unfolding durable_def by metis
  then show thesis using that run by (simp add: drop_file_def)
qed

text \<open>After that any file system that is opened on the device reads the same bytes and attributes.\<close>

lemma durable_found:
  assumes "durable X k m C s" "dev u = dev s" "clock_ok X" "codec_ok X" "off < 9223372036854775808"
  obtains u1 u2 u3 where "open_fs X u = (Ok (), u1)" "h_open X k READ_ONLY u1 = (Ok \<lparr>fh_key = k, fh_flags = READ_ONLY\<rparr>, u2)"
    "h_read X \<lparr>fh_key = k, fh_flags = READ_ONLY\<rparr> off n u2 = (Ok (take n (drop off C)), u3)"
    "map_option f_xattr (opened_files u2 k) = Some m"
proof -
  obtain V "is" ds f where f: "saved X V is ds f s" "attrs_room X ds (f, s)" "inode_used is (f, s)"
    "0 < i_nlink (f_inode f)" "k = i_ino (f_inode f)" "f_xattr f = m" "contents V (f, s) = C"
    using assms(1) unfolding durable_def by blast
  have ok: "store_ok X s is ds" using f(1) file_mapD(1) [OF denseD(1)] unfolding saved_def by blast
  obtain u1 where u1: "open_fs X u = (Ok (), u1)" "idle u1" "dev u1 = dev s" "sb u1 = sb s"
    by (rule open_fs_run [OF ok assms(2)])
  have "READ_ONLY \<noteq> INVALID" by (simp add: READ_ONLY_def INVALID_def)
  from open_saved [OF f(1-4) u1(2-4) this f(5)] obtain g u2 where
    u2: "h_open X k READ_ONLY u1 = (Ok \<lparr>fh_key = k, fh_flags = READ_ONLY\<rparr>, u2)" "opened_files u2 k = Some g"
    "attr_file X is k m C g u2" "\<not> borrowed u2" unfolding f(6,7) by blast
  obtain d where v: "volume X is [k \<mapsto> C] d u2" by (rule attr_file_volume [OF u2(2,3)])
  have "[k \<mapsto> C] (fh_key \<lparr>fh_key = k, fh_flags = READ_ONLY\<rparr>) = Some C" by simp
  from h_read_run [OF v this assms(3,4) u2(4) assms(5), of n] obtain u3 where
    "h_read X \<lparr>fh_key = k, fh_flags = READ_ONLY\<rparr> off n u2 = (Ok (take n (drop off C)), u3)" by blast
  moreover have "f_xattr g = m" using u2(3) unfolding attr_file_def by blast
  ultimately show thesis using that u1(1) u2(1,2) by simp
qed

end
