(* ===== verification/Names.thy ===== *)
theory Names
  imports DirLife Ops
begin

text \<open>
  Names in an open directory: \<open>add_entry\<close> and \<open>remove_entry\<close> (lib.rs) against a partial map.
\<close>

section \<open>Adding and removing entries\<close>

text \<open>The directory \<open>k\<close> is open, with the file of the same number.\<close>

definition open_dir_at :: "nat \<Rightarrow> dkdir \<Rightarrow> dkfile \<Rightarrow> 'z donkey_scheme \<Rightarrow> bool" where
  "open_dir_at k d f s \<longleftrightarrow> opened_dirs s k = Some d \<and> d_fh d = k \<and> opened_files s k = Some f
     \<and> i_ino (f_inode f) = k"

definition touched :: "dk_timespec \<Rightarrow> dk_timespec \<Rightarrow> dkfile \<Rightarrow> dkfile" where
  "touched t u f = f\<lparr>f_inode := (f_inode f)\<lparr>i_ctime := t, i_mtime := u\<rparr>\<rparr>"

text \<open>The state after a directory has got the entries \<open>es\<close>, with the times of two readings of the clock.\<close>

definition entries_put :: "ext \<Rightarrow> nat \<Rightarrow> nat omap \<Rightarrow> dkdir \<Rightarrow> dkfile \<Rightarrow> 'z donkey_scheme \<Rightarrow> 'z donkey_scheme" where
  "entries_put X k es d f s = s\<lparr>clk := Suc (Suc (clk s)),
     opened_dirs := (opened_dirs s)(k \<mapsto> d\<lparr>d_entries := es, d_dirty := True\<rparr>),
     opened_files := (opened_files s)(k \<mapsto> touched (stamp X s) (stamp X (s\<lparr>clk := Suc (clk s)\<rparr>)) f)\<rparr>"

lemma entries_put_simps [simp]:
  "dev (entries_put X k es d f s) = dev s" "sb (entries_put X k es d f s) = sb s"
  "file_refs (entries_put X k es d f s) = file_refs s" "dir_refs (entries_put X k es d f s) = dir_refs s"
  "close_files (entries_put X k es d f s) = close_files s" "close_dirs (entries_put X k es d f s) = close_dirs s"
  "borrowed (entries_put X k es d f s) = borrowed s"
  "opened_dirs (entries_put X k es d f s) = (opened_dirs s)(k \<mapsto> d\<lparr>d_entries := es, d_dirty := True\<rparr>)"
  "opened_files (entries_put X k es d f s) =
     (opened_files s)(k \<mapsto> touched (stamp X s) (stamp X (s\<lparr>clk := Suc (clk s)\<rparr>)) f)"
  by (simp_all add: entries_put_def)

lemma stamp_clk: "clk t = clk s \<Longrightarrow> stamp X t = stamp X s"
  by (simp add: stamp_def)

lemma touch_dir_run:
  assumes "clock_ok X" "opened_dirs s k = Some d" "d_fh d = k" "opened_files s k = Some f"
  shows "touch_dir X k s = (Ok (), s\<lparr>clk := Suc (Suc (clk s)),
     opened_files := (opened_files s)(k \<mapsto> touched (stamp X s) (stamp X (s\<lparr>clk := Suc (clk s)\<rparr>)) f)\<rparr>)"
  using assms
  by (simp add: touch_dir_def bnd_def get_dir_def unwrap_def gets_def ret_def now_Ok with_file_def mod_inode_def mod_file_def
      modify_def touched_def stamp_def)

lemma add_entry_run:
  assumes "clock_ok X" "open_dir_at k d f s"
  shows "map_of (d_entries d) n = None \<Longrightarrow> add_entry X k n i s = (Ok (), entries_put X k (om_insert n i (d_entries d)) d f s)"
    "map_of (d_entries d) n \<noteq> None \<Longrightarrow> add_entry X k n i s = (Err AlreadyExists, entries_put X k (d_entries d) d f s)"
proof -
  have d: "opened_dirs s k = Some d" "d_fh d = k" "opened_files s k = Some f" using assms(2) by (simp_all add: open_dir_at_def)
  let ?s = "\<lambda>es. s\<lparr>opened_dirs := (opened_dirs s)(k \<mapsto> d\<lparr>d_entries := es, d_dirty := True\<rparr>)\<rparr>"
  have t: "touch_dir X k (?s es) = (Ok (), entries_put X k es d f s)" for es
    by (subst touch_dir_run [OF assms(1), where d = "d\<lparr>d_entries := es, d_dirty := True\<rparr>" and f = f])
      (simp_all add: d entries_put_def stamp_def)
  show "map_of (d_entries d) n = None \<Longrightarrow> add_entry X k n i s = (Ok (), entries_put X k (om_insert n i (d_entries d)) d f s)"
    using t [of "om_insert n i (d_entries d)"] d
    by (simp add: add_entry_def bnd_def get_dir_Ok mod_dir_def modify_def ret_def)
  assume "map_of (d_entries d) n \<noteq> None"
  then show "add_entry X k n i s = (Err AlreadyExists, entries_put X k (d_entries d) d f s)"
    using t [of "d_entries d"] d
    by (auto simp add: add_entry_def bnd_def get_dir_Ok mod_dir_def modify_def ret_def)
qed

lemma remove_entry_run:
  assumes "clock_ok X" "open_dir_at k d f s"
  shows "map_of (d_entries d) n = None \<Longrightarrow> remove_entry X k n s = (Ok None, s)"
    "map_of (d_entries d) n = Some i \<Longrightarrow> remove_entry X k n s = (Ok (Some i), entries_put X k (om_remove n (d_entries d)) d f s)"
proof -
  have d: "opened_dirs s k = Some d" "d_fh d = k" "opened_files s k = Some f" using assms(2) by (simp_all add: open_dir_at_def)
  show "map_of (d_entries d) n = None \<Longrightarrow> remove_entry X k n s = (Ok None, s)"
    using d by (simp add: remove_entry_def bnd_def get_dir_Ok ret_def)
  let ?s = "s\<lparr>opened_dirs := (opened_dirs s)(k \<mapsto> d\<lparr>d_entries := om_remove n (d_entries d)\<rparr>)\<rparr>"
  have t: "touch_dir X k ?s = (Ok (), ?s\<lparr>clk := Suc (Suc (clk s)),
     opened_files := (opened_files s)(k \<mapsto> touched (stamp X s) (stamp X (s\<lparr>clk := Suc (clk s)\<rparr>)) f)\<rparr>)"
    by (subst touch_dir_run [OF assms(1), where d = "d\<lparr>d_entries := om_remove n (d_entries d)\<rparr>" and f = f])
      (simp_all add: d stamp_def)
  assume "map_of (d_entries d) n = Some i"
  then show "remove_entry X k n s = (Ok (Some i), entries_put X k (om_remove n (d_entries d)) d f s)"
    using t d by (simp add: remove_entry_def bnd_def get_dir_Ok mod_dir_def modify_def ret_def entries_put_def)
qed

section \<open>Sequences of names\<close>

datatype name_op = AddName os_string nat | RemoveName os_string

datatype name_reply = Added "(dk_error, unit) res" | Removed "(dk_error, nat option) res"

text \<open>An operation whose outcome is looked at, errors included.\<close>

definition observe :: "(('e, 'a) res \<Rightarrow> 'b) \<Rightarrow> ('s, 'e, 'a) prog \<Rightarrow> ('s, 'e, 'b) prog" where
  "observe c m = (\<lambda>s. case m s of (r, s') \<Rightarrow> (Ok (c r), s'))"

primrec run_name :: "ext \<Rightarrow> nat \<Rightarrow> name_op \<Rightarrow> ('z donkey_scheme, dk_error, name_reply) prog" where
  "run_name X k (AddName n i) = observe Added (add_entry X k n i)"
| "run_name X k (RemoveName n) = observe Removed (remove_entry X k n)"

primrec run_names :: "ext \<Rightarrow> nat \<Rightarrow> name_op list \<Rightarrow> ('z donkey_scheme, dk_error, name_reply list) prog" where
  "run_names X k [] = ret []"
| "run_names X k (op # ops) = bnd (run_name X k op) (\<lambda>r. bnd (run_names X k ops) (\<lambda>rs. ret (r # rs)))"

text \<open>The specification: a partial map from names to inode numbers, in which a name is not replaced.\<close>

fun names_reply :: "(os_string \<rightharpoonup> nat) \<Rightarrow> name_op \<Rightarrow> name_reply" where
  "names_reply m (AddName n i) = Added (if m n = None then Ok () else Err AlreadyExists)"
| "names_reply m (RemoveName n) = Removed (Ok (m n))"

fun names_after :: "(os_string \<rightharpoonup> nat) \<Rightarrow> name_op \<Rightarrow> (os_string \<rightharpoonup> nat)" where
  "names_after m (AddName n i) = (if m n = None then m(n \<mapsto> i) else m)"
| "names_after m (RemoveName n) = m(n := None)"

primrec names_replies :: "(os_string \<rightharpoonup> nat) \<Rightarrow> name_op list \<Rightarrow> name_reply list" where
  "names_replies m [] = []"
| "names_replies m (op # ops) = names_reply m op # names_replies (names_after m op) ops"

lemma name_step:
  assumes "clock_ok X" "open_dir_at k d f s" "om_valid (d_entries d)"
  obtains d' f' t where "run_name X k op s = (Ok (names_reply (map_of (d_entries d)) op), t)" "open_dir_at k d' f' t"
    "om_valid (d_entries d')" "map_of (d_entries d') = names_after (map_of (d_entries d)) op" "dev t = dev s" "sb t = sb s"
    "f_cache f' = f_cache f \<and> i_ptrs (f_inode f') = i_ptrs (f_inode f) \<and> i_size (f_inode f') = i_size (f_inode f)"
proof -
  have put: "open_dir_at k (d\<lparr>d_entries := es, d_dirty := True\<rparr>) (touched (stamp X s) (stamp X (s\<lparr>clk := Suc (clk s)\<rparr>)) f)
      (entries_put X k es d f s)" for es
    using assms(2) by (simp add: open_dir_at_def touched_def)
  have same: "f_cache (touched a b f) = f_cache f \<and> i_ptrs (f_inode (touched a b f)) = i_ptrs (f_inode f)
     \<and> i_size (f_inode (touched a b f)) = i_size (f_inode f)" for a b by (simp add: touched_def)
  note add = add_entry_run [OF assms(1,2)] and remove = remove_entry_run [OF assms(1,2)]
  show thesis
  proof (cases op)
    case (AddName n i)
    show ?thesis
    proof (cases "map_of (d_entries d) n")
      case None
      show ?thesis
        by (rule that [OF _ put [of "om_insert n i (d_entries d)"]])
          (use add(1) [OF None, of i] None AddName same assms(3) in
            \<open>simp_all add: observe_def om_valid_insert om_lookup_insert\<close>)
    next
      case (Some j)
      have "map_of (d_entries d) n \<noteq> None" using Some by simp
      from add(2) [OF this, of i] show ?thesis
        using that [OF _ put [of "d_entries d"]] Some AddName same assms(3) by (simp add: observe_def)
    qed
  next
    case (RemoveName n)
    show ?thesis
    proof (cases "map_of (d_entries d) n")
      case None
      then have "(map_of (d_entries d))(n := None) = map_of (d_entries d)" by (simp add: fun_eq_iff)
      then show ?thesis
        using that [of s d f] remove(1) [OF None] None RemoveName assms(2,3) by (simp add: observe_def)
    next
      case (Some j)
      show ?thesis
        by (rule that [OF _ put [of "om_remove n (d_entries d)"]])
          (use remove(2) [OF Some] Some RemoveName same assms(3) in
            \<open>simp_all add: observe_def om_valid_remove om_lookup_remove\<close>)
    qed
  qed
qed

lemma names_run:
  assumes "clock_ok X" "open_dir_at k d f s" "om_valid (d_entries d)"
  shows "\<exists>d' f' t. run_names X k ops s = (Ok (names_replies (map_of (d_entries d)) ops), t) \<and> open_dir_at k d' f' t
    \<and> om_valid (d_entries d') \<and> map_of (d_entries d') = foldl names_after (map_of (d_entries d)) ops"
  using assms
proof (induction ops arbitrary: d f s)
  case Nil
  then show ?case by (auto simp: ret_def)
next
  case (Cons op ops)
  obtain d1 f1 t1 where t: "run_name X k op s = (Ok (names_reply (map_of (d_entries d)) op), t1)" "open_dir_at k d1 f1 t1"
    "om_valid (d_entries d1)" "map_of (d_entries d1) = names_after (map_of (d_entries d)) op"
    by (rule name_step [OF Cons.prems])
  from Cons.IH [OF Cons.prems(1) t(2,3)] obtain d2 f2 t2 where
    "run_names X k ops t1 = (Ok (names_replies (names_after (map_of (d_entries d)) op) ops), t2)" "open_dir_at k d2 f2 t2"
    "om_valid (d_entries d2)" "map_of (d_entries d2) = foldl names_after (names_after (map_of (d_entries d)) op) ops"
    unfolding t(4) by blast
  then show ?case using t(1) by (intro exI [of _ d2] exI [of _ f2] exI [of _ t2]) (simp add: bnd_def ret_def)
qed

end
