(* ===== verification/Nodes.thy ===== *)
theory Nodes
  imports Names Handles FileDestroy
begin

text \<open>
  Nodes through the public interface (ops.rs): \<open>mknod\<close> under a new and under an existing name, \<open>lookup\<close>,
  and \<open>unlink\<close>.
\<close>

section \<open>A new node in the table\<close>

lemma fresh_file:
  assumes "store_ok X s is ds" "pcount s ^ 4 < u64_limit" "blank_inode i"
  shows "dense X V is ds ((dkfile_new i)\<lparr>f_dirty := b\<rparr>, s)"
proof -
  note d = fresh_dense(1) [OF assms, of V]
  have "file_map X {} V is ds ((dkfile_new i)\<lparr>f_dirty := b\<rparr>, s)"
    using denseD(1) [OF d] by (simp add: file_map_inode(2) [of "(dkfile_new i)\<lparr>f_dirty := b\<rparr>" "dkfile_new i"])
  then show ?thesis by (rule dense_cong [OF d]) simp_all
qed

text \<open>
  The node \<open>k\<close> with the inode \<open>i\<close> is in the table without a handle, waits to be closed, and is either
  dirty or on the device.
\<close>

definition node_at ::
  "ext \<Rightarrow> nat list \<Rightarrow> nat list \<Rightarrow> nat \<Rightarrow> inode \<Rightarrow> 'z donkey_scheme \<Rightarrow> bool" where
  "node_at X is ds k i s \<longleftrightarrow> store_ok X s is ds \<and> pcount s ^ 4 < u64_limit \<and> blank_inode i \<and> i_ino i = k
     \<and> 0 < i_nlink i \<and> k \<in> inode_numbers (sb s) \<and> k \<notin> set is \<and> file_refs s k = 0 \<and> \<not> borrowed s \<and> close_files s = [k]
     \<and> (\<exists>b. opened_files s k = Some ((dkfile_new i)\<lparr>f_dirty := b\<rparr>) \<and> (b \<or> read_inode X k s = (Ok i, s)))"

lemma node_dirty:
  assumes "store_ok X s is ds" "pcount s ^ 4 < u64_limit" "blank_inode i" "i_ino i = k" "0 < i_nlink i"
    "k \<in> inode_numbers (sb s)" "k \<notin> set is" "file_refs s k = 0" "\<not> borrowed s" "close_files s = [k]"
    "opened_files s k = Some ((dkfile_new i)\<lparr>f_dirty := True\<rparr>)"
  shows "node_at X is ds k i s"
  using assms unfolding node_at_def by blast

lemma node_close:
  assumes "node_at X is ds k i s" "dev r = dev s" "sb r = sb s" "opened_files r k = opened_files s k" "file_refs r k = 0"
  obtains t where "close_file X k r = (Ok (), t\<lparr>opened_files := (opened_files r)(k := None)\<rparr>)"
    "store.more t = store.more r" "read_inode X k t = (Ok i, t)" "store_ok X t is ds" "pcount t = pcount s"
    "inode_numbers (sb t) = inode_numbers (sb s)"
proof -
  obtain b where n: "store_ok X s is ds" "pcount s ^ 4 < u64_limit" "blank_inode i" "i_ino i = k" "0 < i_nlink i"
    "k \<in> inode_numbers (sb s)" "k \<notin> set is" "opened_files s k = Some ((dkfile_new i)\<lparr>f_dirty := b\<rparr>)"
    "b \<or> read_inode X k s = (Ok i, s)" using assms(1) unfolding node_at_def by blast
  let ?f = "(dkfile_new i)\<lparr>f_dirty := b\<rparr>"
  have fi: "f_inode ?f = i" "i_ino (f_inode ?f) = k" "no_attributes ?f" "0 < i_nlink (f_inode ?f)"
    using n(3-5) by (simp_all add: dkfile_new_def no_attributes_def blank_inode_def)
  have of: "opened_files r k = Some ?f" using assms(4) n(8) by simp
  have ok: "store_ok X r is ds" using n(1) store_ok_dev [OF assms(2,3)] by blast
  have pc: "pcount r ^ 4 < u64_limit" using n(2) assms(3) by (simp add: pcount_def)
  show thesis
  proof (cases b)
    case True
    note d = fresh_file [OF ok pc n(3), of "\<lambda>_. []" b]
    have used: "inode_used is (?f, r)" using n(6,7) assms(3) fi(2) by (simp add: inode_used_def)
    have dirty: "f_dirty ?f" using True by simp
    obtain t where t: "flush_file X (?f, r) = (Ok (), (?f\<lparr>f_dirty := False\<rparr>, t))"
      "read_inode X (i_ino (f_inode ?f)) t = (Ok (f_inode ?f), t)"
      "dense X (\<lambda>_. []) is ds (dkfile_new (f_inode ?f), t)"
      "evolves (footprint (\<lambda>_. []) ds (?f, r) \<union> inode_bytes_of (i_ino (f_inode ?f))) r t"
      by (rule flush_run [OF d used fi(3) dirty fi(4)])
    note E = evolves_simps [OF t(4)]
    have nl: "0 < i_nlink (f_inode (?f\<lparr>f_dirty := False\<rparr>))" using fi(4) by simp
    have "pcount t = pcount s" "inode_numbers (sb t) = inode_numbers (sb s)"
      using E(1,4) assms(3) by (simp_all add: pcount_def)
    then show ?thesis
      using that [OF close_file_flushed [OF of assms(5) t(1) E(6) nl] E(6)] t(2) fi(1,2)
        file_mapD(1) [OF denseD(1) [OF t(3)]] by simp
  next
    case False
    have fl: "flush_file X (?f, r) = (Ok (), (?f, r))"
      using False by (simp add: flush_file_def io_flush_def map_err_def bnd_def)
    have rd: "read_inode X k r = (Ok i, r)" using n(9) False read_inode_dev [OF _ assms(2)] by blast
    have "pcount r = pcount s" using assms(3) by (simp add: pcount_def)
    then show ?thesis using that [OF close_file_flushed [OF of assms(5) fl refl fi(4)] refl rd ok] assms(3) by simp
  qed
qed

section \<open>The answer to getattr\<close>

definition stat_of :: "inode \<Rightarrow> nat \<Rightarrow> stat" where
  "stat_of i bs = \<lparr>st_ino = i_ino i, st_mode = i_mode i, st_size = i_size i, st_blksize = bs mod 4294967296,
     st_blocks = i_blocks i * (bs div 512), st_atime = i_atime i, st_mtime = i_mtime i, st_ctime = i_ctime i, st_crtime = i_crtime i,
     st_nlink = i_nlink i, st_uid = i_uid i, st_gid = i_gid i, st_rdev = i_device i\<rparr>"

lemma statfs_run:
  assumes "store_ok X s is ds" "\<not> borrowed s"
  shows "h_statfs s = (Ok \<lparr>sv_blocks = db_count (sb s), sv_bfree = length ds, sv_bavail = length ds,
    sv_files = inode_count (sb s), sv_ffree = length is, sv_bsize = block_size (sb s), sv_namelen = MAX_NAMELEN\<rparr>, s)"
proof -
  have "length ds + used_db_count (sb s) = db_count (sb s)" "length is + used_inode_count (sb s) = inode_count (sb s)"
    using assms(1) by (simp_all add: store_ok_def regions_ok_def)
  then have "used_db_count (sb s) \<le> db_count (sb s)" "used_inode_count (sb s) \<le> inode_count (sb s)"
    "db_count (sb s) - used_db_count (sb s) = length ds" "inode_count (sb s) - used_inode_count (sb s) = length is"
    by linarith+
  then show ?thesis using assms(2) by (simp add: h_statfs_def borrow_ref_def ret_def bnd_def)
qed

lemma getattr_of_opened:
  fixes s :: "'z donkey_scheme"
  assumes "h_open X k READ_ONLY s = (Ok \<lparr>fh_key = k, fh_flags = READ_ONLY\<rparr>, v)" "store_ok X v is ds" "\<not> borrowed v"
    "opened_files v k = Some f" "i_ino (f_inode f) = k" "i_blocks (f_inode f) * (block_size (sb v) div 512) < u64_limit"
  shows "h_getattr X k s = (Ok (stat_of (f_inode f) (block_size (sb v))), drop_file k v)"
proof -
  have sf: "h_statfs v = (Ok \<lparr>sv_blocks = db_count (sb v), sv_bfree = length ds, sv_bavail = length ds,
    sv_files = inode_count (sb v), sv_ffree = length is, sv_bsize = block_size (sb v), sv_namelen = MAX_NAMELEN\<rparr>, v)"
    by (rule statfs_run [OF assms(2,3)])
  have wf: "with_file k (get_file f_inode) v = (Ok (f_inode f), v)"
    using assms(4) by (simp add: with_file_def fun_upd_idem)
  have body: "bnd h_statfs (\<lambda>sv. bnd (with_file k (get_file f_inode)) (\<lambda>i. bnd (ck_mul (i_blocks i) (sv_bsize sv div 512)) (\<lambda>blocks.
        ret \<lparr>st_ino = k, st_mode = i_mode i, st_size = i_size i,
          st_blksize = sv_bsize sv mod 4294967296, st_blocks = blocks, st_atime = i_atime i,
          st_mtime = i_mtime i, st_ctime = i_ctime i, st_crtime = i_crtime i,
          st_nlink = i_nlink i, st_uid = i_uid i, st_gid = i_gid i, st_rdev = i_device i\<rparr>))) v
      = (Ok (stat_of (f_inode f) (block_size (sb v))), v)"
    unfolding bnd_Ok [of h_statfs, OF sf] bnd_Ok [of "with_file k (get_file f_inode)", OF wf]
    using assms(5,6) by (simp add: stat_of_def)
  show ?thesis
    unfolding h_getattr_def bnd_Ok [of "h_open X k READ_ONLY", OF assms(1)] file_handle.select_convs dropping_def body
    by (simp only: prod.case res.case)
qed

text \<open>\<open>getattr\<close> answers with the inode, and leaves the node where it was.\<close>

lemma node_getattr:
  fixes s :: "'z donkey_scheme"
  assumes "node_at X is ds k i s"
  obtains t where "h_getattr X k s = (Ok (stat_of i (block_size (sb s))), t)" "node_at X is ds k i t"
    "opened_dirs t = opened_dirs s" "dir_refs t = dir_refs s" "close_dirs t = close_dirs s"
    "block_size (sb t) = block_size (sb s)" "\<And>l. l \<noteq> k \<Longrightarrow> opened_files t l = opened_files s l"
proof -
  let ?s = "s\<lparr>borrowed := True\<rparr>" and ?r = "s\<lparr>borrowed := True, close_files := []\<rparr>"
  have n: "blank_inode i" "i_ino i = k" "0 < i_nlink i" "file_refs s k = 0" "\<not> borrowed s" "close_files s = [k]"
    "pcount s ^ 4 < u64_limit" "k \<in> inode_numbers (sb s)" "k \<notin> set is" using assms unfolding node_at_def by blast+
  obtain t where t: "close_file X k ?r = (Ok (), t\<lparr>opened_files := (opened_files ?r)(k := None)\<rparr>)"
    "store.more t = store.more ?r" "read_inode X k t = (Ok i, t)" "store_ok X t is ds" "pcount t = pcount s"
    "inode_numbers (sb t) = inode_numbers (sb s)"
    by (rule node_close [OF assms, of ?r]) (simp_all add: n(4))
  let ?t = "t\<lparr>opened_files := (opened_files ?r)(k := None)\<rparr>"
  have mt: "file_refs t = file_refs s" "close_files t = []" "borrowed t" "opened_dirs t = opened_dirs s"
    "dir_refs t = dir_refs s" "close_dirs t = close_dirs s" "opened_files t = opened_files s"
    using t(2) by (cases s, cases t, simp)+
  have p: "close_files ?s = [k]" using n(6) by simp
  have eq: "?s\<lparr>close_files := []\<rparr> = ?r" by simp
  have rd: "read_inode X k ?t = (Ok i, ?t)" by (rule read_inode_dev [OF t(3)]) simp
  have "read_xattr X (dkfile_new i, ?t) = (Ok (), (dkfile_new i, ?t))"
    by (rule read_xattr_none) (use n(1) in \<open>simp add: dkfile_new_def blank_inode_def\<close>)
  note rx = this
  have RO: "READ_ONLY \<noteq> INVALID" by (simp add: READ_ONLY_def INVALID_def)
  let ?fh = "\<lparr>fh_key = k, fh_flags = READ_ONLY\<rparr>"
  let ?u = "t\<lparr>opened_files := (opened_files s)(k \<mapsto> dkfile_new i), file_refs := (file_refs s)(k := 1)\<rparr>"
  have "open_file X k READ_ONLY ?s = (Ok ?fh, ?t\<lparr>opened_files := (opened_files ?t)(k \<mapsto> dkfile_new i),
      file_refs := (file_refs ?t)(k := 1)\<rparr>)"
    by (rule open_file_reload [OF p _ _ _ rd rx RO]) (use t(1) mt(2) eq in simp_all)
  then have "open_file X k READ_ONLY ?s = (Ok ?fh, ?u)" by (simp add: mt)
  then have o: "h_open X k READ_ONLY s = (Ok ?fh, ?u\<lparr>borrowed := False\<rparr>)"
    using n(5) by (simp add: h_open_def borrow_mut_def)
  let ?v = "?u\<lparr>borrowed := False\<rparr>" and ?bs = "block_size (sb s)"
  have dv: "dev ?v = dev t" "sb ?v = sb t" by simp_all
  have ok: "store_ok X ?v is ds" using t(4) store_ok_dev [OF dv] by blast
  have bs: "block_size (sb t) = ?bs"
  proof -
    have "store_ok X s is ds" using assms unfolding node_at_def by blast
    then show ?thesis using store_okD(6) store_okD(6) [OF t(4)] t(5) by metis
  qed
  let ?w = "?v\<lparr>file_refs := (file_refs s)(k := 0), close_files := [k]\<rparr>"
  have d: "drop_file k ?v = ?w" using n(2) mt(2) by (simp add: drop_file_def dkfile_new_def)
  have "stat_of i (block_size (sb ?v)) = stat_of i ?bs" using bs by simp
  moreover have vf: "opened_files ?v k = Some (dkfile_new i)" "i_ino (f_inode (dkfile_new i)) = k"
    "i_blocks (f_inode (dkfile_new i)) * (block_size (sb ?v) div 512) < u64_limit" "\<not> borrowed ?v"
    using n(1,2) by (simp_all add: dkfile_new_def blank_inode_def)
  ultimately have "h_getattr X k s = (Ok (stat_of i ?bs), ?w)"
    using getattr_of_opened [OF o ok vf(4,1-3)] d by (simp add: dkfile_new_def)
  moreover have "node_at X is ds k i ?w"
  proof -
    have dw: "dev ?w = dev t" "sb ?w = sb t" by simp_all
    have "(dkfile_new i)\<lparr>f_dirty := False\<rparr> = dkfile_new i" by (simp add: dkfile_new_def)
    moreover have "read_inode X k ?w = (Ok i, ?w)" by (rule read_inode_dev [OF t(3) dw(1)])
    moreover have "store_ok X ?w is ds" using t(4) store_ok_dev [OF dw] by blast
    moreover have "pcount ?w = pcount t" by (simp add: pcount_def)
    ultimately show ?thesis
      using n(1-3,7-9) t(5,6) unfolding node_at_def by (simp del: fun_upd_apply) (metis fun_upd_same)
  qed
  ultimately show thesis
    by (rule that) (simp_all add: mt bs)
qed

section \<open>Opening the parent, linking\<close>

lemma opendir_run:
  assumes "opened_dirs s k = Some d" "\<not> borrowed s" "close_dirs s = [] \<or> close_dirs s = [k] \<and> 0 < dir_refs s k"
  shows "h_opendir X k s = (Ok \<lparr>dh_key = k, dh_entries = d_entries d\<rparr>, clone_dir k (s\<lparr>close_dirs := []\<rparr>))"
proof -
  let ?s = "s\<lparr>borrowed := True\<rparr>" and ?r = "s\<lparr>close_dirs := []\<rparr>"
  have "close_dirs_in_list X ?s = (Ok (), ?s\<lparr>close_dirs := []\<rparr>)"
  proof (cases "close_dirs s = []")
    case True
    then show ?thesis by (simp add: close_dirs_in_list_def pop_close_dir_def ret_def bnd_def)
  next
    case False
    then have c: "close_dirs s = [k]" "0 < dir_refs s k" using assms(3) by simp_all
    then have "close_dir X k (?s\<lparr>close_dirs := []\<rparr>) = (Ok (), ?s\<lparr>close_dirs := []\<rparr>)"
      by (simp add: close_dir_def dir_unused_def bnd_def gets_def ret_def)
    then show ?thesis using c by (simp add: close_dirs_in_list_def pop_close_dir_def ret_def bnd_def)
  qed
  then have "open_dir X k ?s = (Ok \<lparr>dh_key = k, dh_entries = d_entries d\<rparr>, clone_dir k (?s\<lparr>close_dirs := []\<rparr>))"
    using assms(1) by (simp add: open_dir_def bnd_def gets_def ret_def modify_def get_dir_Ok)
  moreover have "(clone_dir k (?s\<lparr>close_dirs := []\<rparr>))\<lparr>borrowed := False\<rparr> = clone_dir k ?r"
    using assms(2) by (cases s) (simp add: clone_dir_def)
  ultimately show ?thesis using assms(2) by (simp add: h_opendir_def borrow_mut_def)
qed

lemma link_run:
  fixes s :: "'z donkey_scheme"
  assumes "clock_ok X" "open_dir_at k d f s" "map_of (d_entries d) name = None" "dh_key dh = k" "close_files s = []"
    "read_inode X ino s = (Ok i, s)" "i_xattr_ptr i = 0" "i_ino i = ino" "opened_files s ino = None" "Suc (i_nlink i) < u64_limit"
  obtains u a b where "link X ino dh name s = (Ok (), u)" "dev u = dev s" "sb u = sb s"
    "opened_dirs u = (opened_dirs s)(k \<mapsto> d\<lparr>d_entries := om_insert name ino (d_entries d), d_dirty := True\<rparr>)"
    "opened_files u = (opened_files s)(k \<mapsto> touched a b f,
       ino \<mapsto> (dkfile_new (i\<lparr>i_nlink := Suc (i_nlink i), i_ctime := stamp X (s\<lparr>clk := Suc (Suc (clk s))\<rparr>)\<rparr>))\<lparr>f_dirty := True\<rparr>)"
    "file_refs u = (file_refs s)(ino := 0)" "dir_refs u = (dir_refs s)(k := dir_refs s k - 1)"
    "close_files u = [ino]" "close_dirs u = k # close_dirs s" "borrowed u = borrowed s"
proof -
  let ?a = "stamp X s" and ?b = "stamp X (s\<lparr>clk := Suc (clk s)\<rparr>)" and ?c = "stamp X (s\<lparr>clk := Suc (Suc (clk s))\<rparr>)"
  let ?es = "om_insert name ino (d_entries d)"
  define e where "e = entries_put X k ?es d f s"
  have d: "opened_dirs s k = Some d" "d_fh d = k" "opened_files s k = Some f" "i_ino (f_inode f) = k"
    using assms(2) by (simp_all add: open_dir_at_def)
  have ne: "ino \<noteq> k" using d(3) assms(9) by auto
  have es: "opened_files e ino = None" "close_files e = []" "dev e = dev s" using assms(5,9) ne by (simp_all add: e_def)
  have add: "add_entry X k name ino s = (Ok (), e)" unfolding e_def by (rule add_entry_run(1) [OF assms(1-3)])
  have load: "load_file X ino e = (Ok (), e\<lparr>opened_files := (opened_files e)(ino \<mapsto> dkfile_new i),
      file_refs := (file_refs e)(ino := 0)\<rparr>)"
    by (rule load_file_run [OF read_inode_dev [OF assms(6) es(3)] assms(7)])
  let ?o = "e\<lparr>opened_files := (opened_files e)(ino \<mapsto> dkfile_new i), file_refs := (file_refs e)(ino := 1)\<rparr>"
  have RO: "READ_ONLY \<noteq> INVALID" by (simp add: READ_ONLY_def INVALID_def)
  have cl: "close_files_in_list X e = (Ok (), e)"
    using es(2) by (simp add: close_files_in_list_def pop_close_file_def ret_def bnd_def)
  have op: "open_file X ino READ_ONLY e = (Ok \<lparr>fh_key = ino, fh_flags = READ_ONLY\<rparr>, ?o)"
    using RO es(1) load by (simp add: open_file_def bnd_def cl gets_def modify_def clone_file_def ret_def)
  let ?i = "i\<lparr>i_nlink := Suc (i_nlink i), i_ctime := ?c\<rparr>"
  let ?n = "e\<lparr>clk := Suc (clk e), opened_files := (opened_files e)(ino \<mapsto> (dkfile_new ?i)\<lparr>f_dirty := True\<rparr>),
    file_refs := (file_refs e)(ino := 1)\<rparr>"
  have ck: "clk e = Suc (Suc (clk s))" by (simp add: e_def entries_put_def)
  have st: "stamp X t = ?c" if "clk t = clk e" for t :: "'z donkey_scheme" using that ck by (simp add: stamp_def)
  have ch: "change_nlink X (\<lambda>n. ck_add n 1) ino ?o = (Ok (), ?n)"
    using assms(10) by (simp add: change_nlink_def bnd_def with_file_def dkfile_new_def now_Ok [OF assms(1)] mod_inode_def
        mod_file_def set_dirty_def st)
  let ?m = "?n\<lparr>file_refs := (file_refs e)(ino := 0), close_files := [ino]\<rparr>"
  have df: "drop_file ino ?n = ?m" using assms(8) es(2) by (simp add: drop_file_def dkfile_new_def)
  let ?u = "?m\<lparr>dir_refs := (dir_refs s)(k := dir_refs s k - 1), close_dirs := k # close_dirs s\<rparr>"
  have dd: "drop_dir k ?m = ?u"
    using d(2,4) ne by (simp add: drop_dir_def e_def touched_def)
  have inner: "dropping (drop_file ino) (change_nlink X (\<lambda>n. ck_add n 1) ino) ?o = (Ok (), ?m)"
    unfolding dropping_def ch by (simp only: prod.case res.case df)
  have "link X ino dh name s = (Ok (), ?u)"
    unfolding link_def assms(4) dropping_def [of "drop_dir k"] bnd_Ok [of "add_entry X k name ino", OF add]
      bnd_Ok [of "open_file X ino READ_ONLY", OF op] file_handle.select_convs inner
    by (simp only: prod.case res.case dd)
  then show thesis by (rule that [of _ ?a ?b]) (simp_all add: e_def)
qed

section \<open>mknod and lookup\<close>

lemma mknod_rest [rest_intros]: "stable store.more (mknod X mode uid gid nlink rdev)"
  unfolding mknod_def Let_def by (intro stable_intros rest_intros)

text \<open>The kernel has the directory \<open>k\<close> open, and nothing else waits to be closed.\<close>

definition ready_dir :: "nat \<Rightarrow> dkdir \<Rightarrow> dkfile \<Rightarrow> 'z donkey_scheme \<Rightarrow> bool" where
  "ready_dir k d f s \<longleftrightarrow> open_dir_at k d f s \<and> om_valid (d_entries d) \<and> 0 < dir_refs s k \<and> close_files s = []
     \<and> close_dirs s = [] \<and> \<not> borrowed s"

definition node_args :: "ext \<Rightarrow> nat \<Rightarrow> nat \<Rightarrow> nat option \<Rightarrow> 'z store_scheme \<Rightarrow> bool" where
  "node_args X uid gid rdev s \<longleftrightarrow> clock_ok X \<and> pcount s ^ 4 < u64_limit \<and> uid < 4294967296 \<and> gid < 4294967296
     \<and> (\<forall>v. rdev = Some v \<longrightarrow> v < u64_limit)"

text \<open>The first two steps of \<open>h_mknod\<close>: the parent is opened and the inode is made.\<close>

lemma mknod_opened:
  fixes s :: "'z donkey_scheme"
  assumes "store_ok X s (ino # is) ds" "node_args X uid gid rdev s" "ready_dir k d f s"
  obtains i t where "h_opendir X k s = (Ok \<lparr>dh_key = k, dh_entries = d_entries d\<rparr>, clone_dir k s)"
    "mknod X mode uid gid 0 rdev ((clone_dir k s)\<lparr>borrowed := True\<rparr>) = (Ok ino, t)"
    "store.more t = store.more ((clone_dir k s)\<lparr>borrowed := True\<rparr>)" "store_ok X t is ds" "pcount t = pcount s"
    "read_inode X ino t = (Ok i, t)" "blank_inode i" "i_ino i = ino" "i_mode i = mode" "i_uid i = uid" "i_gid i = gid"
    "i_nlink i = 0" "ino \<in> inode_numbers (sb t)" "ino \<notin> set is" "block_size (sb t) = block_size (sb s)"
proof -
  note a = assms(2) [unfolded node_args_def] and r = assms(3) [unfolded ready_dir_def open_dir_at_def]
  let ?c = "(clone_dir k s)\<lparr>borrowed := True\<rparr>"
  have op: "h_opendir X k s = (Ok \<lparr>dh_key = k, dh_entries = d_entries d\<rparr>, clone_dir k s)"
    using opendir_run [of s k d X] r by (cases s) (simp add: clone_dir_def)
  have dc: "dev ?c = dev s" "sb ?c = sb s" by (simp_all add: clone_dir_def)
  have ok: "store_ok X ?c (ino # is) ds" using assms(1) store_ok_dev [OF dc] by blast
  have pc: "pcount ?c = pcount s" using dc by (simp add: pcount_def)
  have pre: "clock_ok X" "pcount ?c ^ 4 < u64_limit" "uid < 4294967296" "gid < 4294967296" "(0 :: nat) < u64_limit"
    "rdev = Some v \<Longrightarrow> v < u64_limit" for v using a pc by simp_all
  obtain i t where t: "mknod X mode uid gid 0 rdev ?c = (Ok ino, t)" "store_ok X t is ds"
    "read_inode X ino t = (Ok i, t)" "blank_inode i" "i_ino i = ino" "i_mode i = mode" "i_uid i = uid"
    "i_gid i = gid" "i_nlink i = 0" "inode_used is (dkfile_new i, t)" "pcount t = pcount ?c"
    by (rule mknod_run [OF ok pre])
  have "block_size (sb t) = block_size (sb s)" using store_okD(6) [OF t(2)] store_okD(6) [OF assms(1)] t(11) pc by metis
  then show thesis
    using that [OF op t(1) stableD [OF mknod_rest t(1)] t(2)] t pc by (simp add: inode_used_def dkfile_new_def)
qed

lemma mknod_links:
  fixes s :: "'z donkey_scheme"
  assumes "store_ok X s (ino # is) ds" "node_args X uid gid rdev s" "ready_dir k d f s"
    "map_of (d_entries d) name = None" "length name \<le> MAX_NAMELEN" "opened_files s ino = None"
  obtains i t d' f' where "h_mknod X uid gid k name mode rdev s = (Ok (stat_of i (block_size (sb s))), t)"
    "node_at X is ds ino i t" "i_mode i = mode" "i_uid i = uid" "i_gid i = gid" "i_nlink i = 1"
    "open_dir_at k d' f' t" "d_entries d' = om_insert name ino (d_entries d)" "0 < dir_refs t k" "close_dirs t = [k]"
    "block_size (sb t) = block_size (sb s)"
proof -
  note a = assms(2) [unfolded node_args_def] and r = assms(3) [unfolded ready_dir_def open_dir_at_def]
  obtain i t where t: "h_opendir X k s = (Ok \<lparr>dh_key = k, dh_entries = d_entries d\<rparr>, clone_dir k s)"
    "mknod X mode uid gid 0 rdev ((clone_dir k s)\<lparr>borrowed := True\<rparr>) = (Ok ino, t)"
    "store.more t = store.more ((clone_dir k s)\<lparr>borrowed := True\<rparr>)" "store_ok X t is ds" "pcount t = pcount s"
    "read_inode X ino t = (Ok i, t)" "blank_inode i" "i_ino i = ino" "i_mode i = mode" "i_uid i = uid" "i_gid i = gid"
    "i_nlink i = 0" "ino \<in> inode_numbers (sb t)" "ino \<notin> set is" "block_size (sb t) = block_size (sb s)"
    by (rule mknod_opened [OF assms(1-3)])
  have mt: "opened_dirs t = opened_dirs s" "opened_files t = opened_files s" "file_refs t = file_refs s"
    "dir_refs t = (dir_refs s)(k := Suc (dir_refs s k))" "close_files t = []" "close_dirs t = []" "borrowed t"
    using t(3) r by (cases s, cases t, simp add: clone_dir_def)+
  have od: "open_dir_at k d f t" using r mt by (simp add: open_dir_at_def)
  let ?dh = "\<lparr>dh_key = k, dh_entries = d_entries d\<rparr>"
  let ?i = "i\<lparr>i_nlink := Suc (i_nlink i), i_ctime := stamp X (t\<lparr>clk := Suc (Suc (clk t))\<rparr>)\<rparr>"
  have lp: "dh_key ?dh = k" "i_xattr_ptr i = 0" "opened_files t ino = None" "Suc (i_nlink i) < u64_limit"
    using t(7,12) mt(2) assms(6) by (simp_all add: blank_inode_def)
  obtain u a b where u: "link X ino ?dh name t = (Ok (), u)" "dev u = dev t" "sb u = sb t"
    "opened_dirs u = (opened_dirs t)(k \<mapsto> d\<lparr>d_entries := om_insert name ino (d_entries d), d_dirty := True\<rparr>)"
    "opened_files u = (opened_files t)(k \<mapsto> touched a b f, ino \<mapsto> (dkfile_new ?i)\<lparr>f_dirty := True\<rparr>)"
    "file_refs u = (file_refs t)(ino := 0)" "dir_refs u = (dir_refs t)(k := dir_refs t k - 1)"
    "close_files u = [ino]" "close_dirs u = k # close_dirs t" "borrowed u = borrowed t"
    using link_run [OF _ od assms(4) lp(1) mt(5) t(6) lp(2) t(8) lp(3,4)] a by blast
  let ?t = "t\<lparr>borrowed := False\<rparr>" and ?u = "u\<lparr>borrowed := False\<rparr>"
  have bt: "?t\<lparr>borrowed := True\<rparr> = t" using mt(7) by (cases t) simp
  have m: "borrow_mut (mknod X mode uid gid 0 rdev) (clone_dir k s) = (Ok ino, ?t)"
    using r t(2) by (simp add: borrow_mut_def clone_dir_def)
  have l: "borrow_mut (link X ino ?dh name) ?t = (Ok (), ?u)"
    using u(1) by (simp add: borrow_mut_def bt)
  have bi: "blank_inode ?i" using t(7,12) by (auto simp: blank_inode_def inode_fields_ok_def stamp_ok)
  have du: "dev ?u = dev t" "sb ?u = sb t" using u(2,3) by simp_all
  have "node_at X is ds ino ?i ?u"
    by (rule node_dirty)
      (use t(4,5,8,13,14) a bi u(5,6,8) store_ok_dev [OF du, of X "is" ds] du(2) in \<open>simp_all add: pcount_def\<close>)
  then obtain v where v: "h_getattr X ino ?u = (Ok (stat_of ?i (block_size (sb ?u))), v)" "node_at X is ds ino ?i v"
    "opened_dirs v = opened_dirs ?u" "dir_refs v = dir_refs ?u" "close_dirs v = close_dirs ?u"
    "block_size (sb v) = block_size (sb ?u)" "\<And>l. l \<noteq> ino \<Longrightarrow> opened_files v l = opened_files ?u l"
    by (rule node_getattr) (rule that)
  have ne: "k \<noteq> ino" using r assms(6) by auto
  have m': "drop_on_err (modify (drop_dir k)) (borrow_mut (mknod X mode uid gid 0 rdev)) (clone_dir k s) = (Ok ino, ?t)"
    by (simp add: drop_on_err_def m)
  have cn: "check_name name s = (Ok (), s)" using assms(5) by (simp add: check_name_def ret_def)
  have run: "h_mknod X uid gid k name mode rdev s = (Ok (stat_of ?i (block_size (sb s))), v)"
    unfolding h_mknod_def bnd_Ok [of "check_name name", OF cn] bnd_Ok [of "h_opendir X k", OF t(1)] dir_handle.select_convs
      bnd_Ok [of "drop_on_err (modify (drop_dir k)) (borrow_mut (mknod X mode uid gid 0 rdev))", OF m']
      bnd_Ok [of "borrow_mut (link X ino ?dh name)", OF l] v(1) du(2) t(15) ..
  have od': "open_dir_at k (d\<lparr>d_entries := om_insert name ino (d_entries d), d_dirty := True\<rparr>) (touched a b f) v"
    using r ne by (simp add: open_dir_at_def v(3,7) u(4,5) touched_def)
  have "block_size (sb v) = block_size (sb s)" using v(6) du(2) t(15) by simp
  then show thesis
    using that [OF run v(2) _ _ _ _ od'] t(9-12) v(4,5) u(7,9) mt(4,6) r by simp
qed

text \<open>Looking the name up gives the same answer.\<close>

lemma lookup_node:
  assumes "node_at X is ds ino i s" "open_dir_at k d f s" "map_of (d_entries d) name = Some ino" "length name \<le> MAX_NAMELEN"
    "0 < dir_refs s k" "close_dirs s = [k]"
  obtains t where "h_lookup X k name s = (Ok (stat_of i (block_size (sb s))), t)" "store_ok X t is ds"
proof -
  let ?c = "clone_dir k (s\<lparr>close_dirs := []\<rparr>)"
  have d: "opened_dirs s k = Some d" using assms(2) by (simp add: open_dir_at_def)
  have nb: "\<not> borrowed s" using assms(1) by (simp add: node_at_def)
  have op: "h_opendir X k s = (Ok \<lparr>dh_key = k, dh_entries = d_entries d\<rparr>, ?c)"
    by (rule opendir_run [OF d nb]) (use assms(5,6) in simp)
  have dc: "dev ?c = dev s" "sb ?c = sb s" by (simp_all add: clone_dir_def)
  have tc: "file_refs ?c = file_refs s" "borrowed ?c = borrowed s" "close_files ?c = close_files s" "opened_files ?c = opened_files s"
    by (simp_all add: clone_dir_def)
  have rd: "read_inode X ino ?c = (Ok i, ?c)" if "read_inode X ino s = (Ok i, s)"
    by (rule read_inode_dev [OF that dc(1)])
  have "node_at X is ds ino i ?c"
    using assms(1) rd unfolding node_at_def store_ok_dev [OF dc] tc dc(2) pcount_def by blast
  then obtain t where t: "h_getattr X ino ?c = (Ok (stat_of i (block_size (sb ?c))), t)" "node_at X is ds ino i t"
    by (rule node_getattr)
  have cn: "check_name name s = (Ok (), s)" using assms(4) by (simp add: check_name_def ret_def)
  have run: "h_lookup X k name s = (Ok (stat_of i (block_size (sb s))), drop_dir k t)"
    unfolding h_lookup_def bnd_Ok [of "check_name name", OF cn] bnd_Ok [of "h_opendir X k", OF op] dir_handle.select_convs
      assms(3) option.case dropping_def t(1) dc(2) by (simp only: prod.case res.case)
  have dd: "dev (drop_dir k t) = dev t" "sb (drop_dir k t) = sb t" by (simp_all add: drop_dir_def split: option.split)
  have "store_ok X (drop_dir k t) is ds" using t(2) store_ok_dev [OF dd] unfolding node_at_def by blast
  then show thesis using that run by blast
qed

section \<open>unlink\<close>

text \<open>
  A node of which no name is left: dirty, and waiting to be closed.
\<close>

definition nameless_at ::
  "ext \<Rightarrow> nat list \<Rightarrow> nat list \<Rightarrow> nat \<Rightarrow> inode \<Rightarrow> 'z donkey_scheme \<Rightarrow> bool" where
  "nameless_at X is ds k i s \<longleftrightarrow> store_ok X s is ds \<and> pcount s ^ 4 < u64_limit \<and> blank_inode i \<and> i_ino i = k
     \<and> i_nlink i = 0 \<and> k \<in> inode_numbers (sb s) \<and> k \<notin> set is \<and> file_refs s k = 0 \<and> \<not> borrowed s \<and> close_files s = [k]
     \<and> opened_files s k = Some ((dkfile_new i)\<lparr>f_dirty := True\<rparr>)"

lemma open_node:
  assumes "node_at X is ds k i s" "dev r = dev s" "sb r = sb s" "opened_files r k = opened_files s k"
    "file_refs r k = 0" "close_files r = [k]" "fl \<noteq> INVALID"
  obtains t where "open_file X k fl r = (Ok \<lparr>fh_key = k, fh_flags = fl\<rparr>, t)" "store_ok X t is ds" "pcount t = pcount s"
    "inode_numbers (sb t) = inode_numbers (sb s)" "opened_files t = (opened_files r)(k \<mapsto> dkfile_new i)" "opened_dirs t = opened_dirs r"
    "file_refs t = (file_refs r)(k := 1)" "dir_refs t = dir_refs r" "close_files t = []" "close_dirs t = close_dirs r"
    "borrowed t = borrowed r"
proof -
  let ?r = "r\<lparr>close_files := []\<rparr>"
  have n: "blank_inode i" using assms(1) unfolding node_at_def by blast
  obtain t where t: "close_file X k ?r = (Ok (), t\<lparr>opened_files := (opened_files ?r)(k := None)\<rparr>)"
    "store.more t = store.more ?r" "read_inode X k t = (Ok i, t)" "store_ok X t is ds" "pcount t = pcount s"
    "inode_numbers (sb t) = inode_numbers (sb s)"
    by (rule node_close [OF assms(1), of ?r]) (simp_all add: assms(2-5))
  let ?t = "t\<lparr>opened_files := (opened_files ?r)(k := None)\<rparr>"
  have mt: "file_refs t = file_refs r" "close_files t = []" "borrowed t = borrowed r" "opened_dirs t = opened_dirs r"
    "dir_refs t = dir_refs r" "close_dirs t = close_dirs r" "opened_files t = opened_files r"
    using t(2) by (cases r, cases t, simp)+
  have rd: "read_inode X k ?t = (Ok i, ?t)" by (rule read_inode_dev [OF t(3)]) simp
  have rx: "read_xattr X (dkfile_new i, ?t) = (Ok (), (dkfile_new i, ?t))"
    by (rule read_xattr_none) (use n in \<open>simp add: dkfile_new_def blank_inode_def\<close>)
  let ?u = "?t\<lparr>opened_files := (opened_files ?t)(k \<mapsto> dkfile_new i), file_refs := (file_refs ?t)(k := 1)\<rparr>"
  have o: "open_file X k fl r = (Ok \<lparr>fh_key = k, fh_flags = fl\<rparr>, ?u)"
    by (rule open_file_reload [OF assms(6) t(1) _ _ rd rx assms(7)]) (simp_all add: mt)
  have du: "dev ?u = dev t" "sb ?u = sb t" by simp_all
  have "store_ok X ?u is ds" using t(4) store_ok_dev [OF du] by blast
  then show thesis by (rule that [OF o]) (use t(5,6) in \<open>simp_all add: mt pcount_def\<close>)
qed

lemma unlink_run:
  fixes s :: "'z donkey_scheme"
  assumes "node_at X is ds ino i r" "dev s = dev r" "sb s = sb r" "opened_files s ino = opened_files r ino"
    "file_refs s ino = 0" "close_files s = [ino]" "i_nlink i = 1" "clock_ok X" "open_dir_at k d f s"
    "map_of (d_entries d) name = Some ino" "ino \<noteq> k" "dh_key dh = k"
  obtains u i' f' where "unlink X dh name s = (Ok (), u)" "store_ok X u is ds" "pcount u = pcount r"
    "inode_numbers (sb u) = inode_numbers (sb r)" "blank_inode i'" "i_ino i' = ino" "i_nlink i' = 0"
    "opened_files u ino = Some ((dkfile_new i')\<lparr>f_dirty := True\<rparr>)" "file_refs u ino = 0" "close_files u = [ino]"
    "open_dir_at k (d\<lparr>d_entries := om_remove name (d_entries d), d_dirty := True\<rparr>) f' u"
    "dir_refs u = (dir_refs s)(k := dir_refs s k - 1)" "close_dirs u = k # close_dirs s" "borrowed u = borrowed s"
proof -
  let ?es = "om_remove name (d_entries d)"
  have d: "opened_dirs s k = Some d" "opened_files s k = Some f" "i_ino (f_inode f) = k" "d_fh d = k"
    using assms(9) by (simp_all add: open_dir_at_def)
  define e where "e = entries_put X k ?es d f s"
  have rm: "remove_entry X k name s = (Ok (Some ino), e)"
    unfolding e_def by (rule remove_entry_run(2) [OF assms(8,9,10)])
  have RO: "READ_ONLY \<noteq> INVALID" by (simp add: READ_ONLY_def INVALID_def)
  have ef: "dev e = dev r" "sb e = sb r" "opened_files e ino = opened_files r ino" "file_refs e ino = 0" "close_files e = [ino]"
    using assms(2-6,11) by (simp_all add: e_def)
  have ed: "dir_refs e = dir_refs s" "close_dirs e = close_dirs s" "borrowed e = borrowed s"
    "opened_dirs e k = Some (d\<lparr>d_entries := ?es, d_dirty := True\<rparr>)" by (simp_all add: e_def)
  obtain a b where ek: "opened_files e k = Some (touched a b f)" by (simp add: e_def)
  obtain t where t: "open_file X ino READ_ONLY e = (Ok \<lparr>fh_key = ino, fh_flags = READ_ONLY\<rparr>, t)" "store_ok X t is ds"
    "pcount t = pcount r" "inode_numbers (sb t) = inode_numbers (sb r)"
    "opened_files t = (opened_files e)(ino \<mapsto> dkfile_new i)" "opened_dirs t = opened_dirs e"
    "file_refs t = (file_refs e)(ino := 1)" "dir_refs t = dir_refs e" "close_files t = []" "close_dirs t = close_dirs e"
    "borrowed t = borrowed e"
    by (rule open_node [OF assms(1) ef RO])
  have i: "blank_inode i" "i_ino i = ino" using assms(1) unfolding node_at_def by blast+
  define c where "c = stamp X t"
  let ?i = "i\<lparr>i_nlink := 0, i_ctime := c\<rparr>" and ?F = "opened_files t"
  let ?n = "t\<lparr>clk := Suc (clk t), opened_files := ?F(ino \<mapsto> (dkfile_new ?i)\<lparr>f_dirty := True\<rparr>)\<rparr>"
  have st: "stamp X u = c" if "clk u = clk t" for u :: "'z donkey_scheme" using that by (simp add: stamp_def c_def)
  have fino: "?F ino = Some (dkfile_new i)" "?F k = Some (touched a b f)" using assms(11) ek by (simp_all add: t(5))
  have ch: "change_nlink X (\<lambda>n. ck_sub n 1) ino t = (Ok (), ?n)"
    using assms(7) by (simp add: change_nlink_def bnd_def with_file_def dkfile_new_def now_Ok [OF assms(8)] mod_inode_def
        mod_file_def set_dirty_def st fino(1))
  let ?m = "?n\<lparr>file_refs := (file_refs e)(ino := 0), close_files := [ino]\<rparr>"
  have df: "drop_file ino ?n = ?m" using i(2) by (simp add: drop_file_def dkfile_new_def t(7,9))
  let ?u = "?m\<lparr>dir_refs := (dir_refs s)(k := dir_refs s k - 1), close_dirs := k # close_dirs s\<rparr>"
  have dd: "drop_dir k ?m = ?u"
    using d(3,4) assms(11) by (simp add: drop_dir_def fino(2) t(6,8,10) ed touched_def)
  have inner: "dropping (drop_file ino) (change_nlink X (\<lambda>n. ck_sub n 1) ino) t = (Ok (), ?m)"
    unfolding dropping_def ch by (simp only: prod.case res.case df)
  have un: "unlink X dh name s = (Ok (), ?u)"
    unfolding unlink_def assms(12) dropping_def [of "drop_dir k"] bnd_Ok [of "remove_entry X k name", OF rm]
      option.case bnd_Ok [of "open_file X ino READ_ONLY", OF t(1)] file_handle.select_convs inner
    by (simp only: prod.case res.case dd)
  have du: "dev ?u = dev t" "sb ?u = sb t" by simp_all
  show thesis
  proof (rule that [OF un])
    show "store_ok X ?u is ds" using t(2) store_ok_dev [OF du] by blast
    show "blank_inode ?i" using i(1) by (auto simp: blank_inode_def inode_fields_ok_def c_def stamp_ok)
    show "pcount ?u = pcount r" using t(3) by (simp add: pcount_def)
    show "open_dir_at k (d\<lparr>d_entries := ?es, d_dirty := True\<rparr>) (touched a b f) ?u"
      using d(3,4) ed(4) assms(11) by (simp add: open_dir_at_def fino(2) t(6) touched_def)
  qed (use t(4) i(2) ed(3) t(11) in simp_all)
qed

lemma unlink_node:
  fixes s :: "'z donkey_scheme"
  assumes "node_at X is ds ino i s" "i_nlink i = 1" "clock_ok X" "open_dir_at k d f s"
    "map_of (d_entries d) name = Some ino" "length name \<le> MAX_NAMELEN" "0 < dir_refs s k" "close_dirs s = [k]" "ino \<noteq> k"
  obtains i' t d' f' where "h_unlink X k name s = (Ok (), t)" "nameless_at X is ds ino i' t" "open_dir_at k d' f' t"
    "d_entries d' = om_remove name (d_entries d)" "0 < dir_refs t k" "close_dirs t = [k]"
proof -
  have n: "\<not> borrowed s" "file_refs s ino = 0" "close_files s = [ino]" "ino \<in> inode_numbers (sb s)" "ino \<notin> set is"
    "pcount s ^ 4 < u64_limit" using assms(1) by (simp_all add: node_at_def)
  have d: "opened_dirs s k = Some d" using assms(4) by (simp add: open_dir_at_def)
  let ?c = "clone_dir k (s\<lparr>close_dirs := []\<rparr>)" and ?dh = "\<lparr>dh_key = k, dh_entries = d_entries d\<rparr>"
  have op: "h_opendir X k s = (Ok ?dh, ?c)"
    by (rule opendir_run [OF d n(1)]) (use assms(7,8) in simp)
  let ?b = "?c\<lparr>borrowed := True\<rparr>"
  have b: "dev ?b = dev s" "sb ?b = sb s" "opened_files ?b ino = opened_files s ino" "file_refs ?b ino = 0" "close_files ?b = [ino]"
    "open_dir_at k d f ?b" "dh_key ?dh = k"
    using n(2,3) assms(4) by (simp_all add: clone_dir_def open_dir_at_def)
  obtain u i' f' where u: "unlink X ?dh name ?b = (Ok (), u)" "store_ok X u is ds" "pcount u = pcount s"
    "inode_numbers (sb u) = inode_numbers (sb s)" "blank_inode i'" "i_ino i' = ino" "i_nlink i' = 0"
    "opened_files u ino = Some ((dkfile_new i')\<lparr>f_dirty := True\<rparr>)" "file_refs u ino = 0" "close_files u = [ino]"
    "open_dir_at k (d\<lparr>d_entries := om_remove name (d_entries d), d_dirty := True\<rparr>) f' u"
    "dir_refs u = (dir_refs ?b)(k := dir_refs ?b k - 1)" "close_dirs u = k # close_dirs ?b" "borrowed u = borrowed ?b"
    by (rule unlink_run [OF assms(1) b(1-5) assms(2,3) b(6) assms(5,9) b(7)])
  let ?v = "u\<lparr>borrowed := False\<rparr>"
  have cn: "check_name name s = (Ok (), s)" using assms(6) by (simp add: check_name_def ret_def)
  have nc: "\<not> borrowed ?c" using n(1) by (simp add: clone_dir_def)
  have bc: "borrow_mut (unlink X ?dh name) ?c = (Ok (), ?v)"
    unfolding borrow_mut_def u(1) using nc by simp
  have run: "h_unlink X k name s = (Ok (), ?v)"
    unfolding h_unlink_def bnd_Ok [of "check_name name", OF cn] bnd_Ok [of "h_opendir X k", OF op] by (rule bc)
  have dv: "dev ?v = dev u" "sb ?v = sb u" by simp_all
  have ok: "store_ok X ?v is ds" using u(2) store_ok_dev [OF dv] by blast
  have pv: "pcount ?v = pcount s" using u(3) by (simp add: pcount_def)
  have "nameless_at X is ds ino i' ?v"
    unfolding nameless_at_def pv using ok u(4-10) n(4-6) by simp
  moreover have "open_dir_at k (d\<lparr>d_entries := om_remove name (d_entries d), d_dirty := True\<rparr>) f' ?v"
    using u(11) by (simp add: open_dir_at_def)
  moreover have "0 < dir_refs ?v k" "close_dirs ?v = [k]" using u(12,13) assms(7) by (simp_all add: clone_dir_def)
  ultimately show thesis using that [OF run] by simp
qed

text \<open>The name is gone.\<close>

lemma lookup_absent:
  assumes "open_dir_at k d f s" "\<not> borrowed s" "map_of (d_entries d) name = None" "length name \<le> MAX_NAMELEN"
    "close_dirs s = [] \<or> close_dirs s = [k] \<and> 0 < dir_refs s k"
  obtains t where "h_lookup X k name s = (Err NotFound, t)" "dev t = dev s" "opened_files t = opened_files s"
    "file_refs t = file_refs s" "close_files t = close_files s"
proof -
  have d: "opened_dirs s k = Some d" using assms(1) by (simp add: open_dir_at_def)
  let ?c = "clone_dir k (s\<lparr>close_dirs := []\<rparr>)"
  note op = opendir_run [OF d assms(2,5), of X]
  have cn: "check_name name s = (Ok (), s)" using assms(4) by (simp add: check_name_def ret_def)
  have "h_lookup X k name s = (Err NotFound, drop_dir k ?c)"
    unfolding h_lookup_def bnd_Ok [of "check_name name", OF cn] bnd_Ok [of "h_opendir X k", OF op] dir_handle.select_convs
    by (simp add: assms(3) dropping_def fail_def)
  then show thesis by (rule that) (simp_all add: drop_dir_def clone_dir_def split: option.split)
qed

text \<open>Releasing what waits frees the inode of a node without names.\<close>

lemma release_nameless:
  assumes "nameless_at X is ds k i s" "clock_ok X" "close_dirs s = [p]" "0 < dir_refs s p"
  obtains t where "h_apply_releases X s = (Ok (), t)" "store_ok X t (k # is) ds" "opened_files t k = None"
proof -
  have n: "store_ok X s is ds" "pcount s ^ 4 < u64_limit" "blank_inode i" "i_ino i = k" "i_nlink i = 0"
    "k \<in> inode_numbers (sb s)" "k \<notin> set is" "file_refs s k = 0" "\<not> borrowed s" "close_files s = [k]"
    "opened_files s k = Some ((dkfile_new i)\<lparr>f_dirty := True\<rparr>)" using assms(1) unfolding nameless_at_def by blast+
  let ?b = "s\<lparr>borrowed := True\<rparr>" and ?f = "(dkfile_new i)\<lparr>f_dirty := True\<rparr>"
  have "close_dir X p (?b\<lparr>close_dirs := []\<rparr>) = (Ok (), ?b\<lparr>close_dirs := []\<rparr>)"
    using assms(4) by (simp add: close_dir_def dir_unused_def bnd_def gets_def ret_def)
  then have cd: "close_dirs_in_list X ?b = (Ok (), ?b\<lparr>close_dirs := []\<rparr>)"
    using assms(3) by (simp add: close_dirs_in_list_def pop_close_dir_def ret_def bnd_def)
  let ?c = "s\<lparr>close_dirs := []\<rparr>"
  have bc: "borrow_mut (close_dirs_in_list X) s = (Ok (), ?c)"
    unfolding borrow_mut_def cd using n(9) by (cases s) simp
  let ?d = "?c\<lparr>borrowed := True\<rparr>"
  let ?r = "?d\<lparr>close_files := []\<rparr>"
  have dr: "dev ?r = dev s" "sb ?r = sb s" by simp_all
  have pc: "pcount ?r = pcount s" by (simp add: pcount_def)
  have ok: "store_ok X ?r is ds" using n(1) store_ok_dev [OF dr] by blast
  have pr: "pcount ?r ^ 4 < u64_limit" using n(2) pc by simp
  have fm: "file_map X {} (\<lambda>_. []) is ds (?f, ?r)" by (rule denseD(1) [OF fresh_file [OF ok pr n(3)]])
  have rows: "rows ?f = rows (dkfile_new i)" by (simp add: rows_def fun_eq_iff)
  have none: "all_nodes (pcount ?r) (rows ?f) (\<lambda>_. []) = {}" "ptr_blocks (pcount ?r) (rows ?f) (\<lambda>_. []) = {}"
    unfolding rows by (rule fresh_nodes(7,8) [OF n(3)])+
  have fl: "flushed X (\<lambda>_. []) (?f, ?r)" by (simp add: flushed_def none(2) [simplified])
  have fi: "f_inode ?f = i" by (simp add: dkfile_new_def)
  have nl: "opened_files ?r k = Some ?f" "file_refs ?r k = 0" "i_nlink (f_inode ?f) = 0" using n(5,8,11) fi by simp_all
  have used: "inode_used is (?f, ?r)" using n(4,6,7) by (simp add: inode_used_def fi)
  obtain t qs where t: "close_file X k ?r = (Ok (), t)" "opened_files t k = None"
    "store_ok X t (i_ino (f_inode ?f) # is) (rev qs @ ds)" "set qs = file_blocks (\<lambda>_. []) (?f, ?r)"
    by (rule delete_run [OF nl assms(2) fm fl used]) (use none(1) in simp)
  have "i_xattr_ptr i = 0" using n(3) by (simp add: blank_inode_def)
  then have "qs = []" using t(4) none(1) by (simp add: file_blocks_def fi)
  then have okt: "store_ok X t (k # is) ds" using t(3) n(4) by (simp add: fi)
  have cf: "close_files t = []"
    using stableD [OF close_file_list t(1)] by simp
  have p: "close_files ?d = [k]" using n(10) by simp
  have "close_files_in_list X ?d = (Ok (), t)" by (rule close_pending [OF p t(1) cf])
  then have bf: "borrow_mut (close_files_in_list X) ?c = (Ok (), t\<lparr>borrowed := False\<rparr>)"
    using n(9) by (simp add: borrow_mut_def)
  have "h_apply_releases X s = (Ok (), t\<lparr>borrowed := False\<rparr>)"
    unfolding h_apply_releases_def bnd_Ok [of "borrow_mut (close_dirs_in_list X)", OF bc] by (rule bf)
  moreover have "store_ok X (t\<lparr>borrowed := False\<rparr>) (k # is) ds" using okt by (simp add: store_ok_dev [of "t\<lparr>borrowed := False\<rparr>" t])
  ultimately show thesis using that t(2) by simp
qed

section \<open>Errors\<close>

text \<open>
  An existing name is refused, but only after the inode has been made: afterwards it is neither free nor
  in the directory, and no name leads to it.
\<close>

lemma mknod_exists:
  fixes s :: "'z donkey_scheme"
  assumes "store_ok X s (ino # is) ds" "node_args X uid gid rdev s" "ready_dir k d f s"
    "map_of (d_entries d) name \<noteq> None" "length name \<le> MAX_NAMELEN"
  obtains i t d' where "h_mknod X uid gid k name mode rdev s = (Err AlreadyExists, t)" "store_ok X t is ds"
    "read_inode X ino t = (Ok i, t)" "i_nlink i = 0" "opened_dirs t k = Some d'" "d_entries d' = d_entries d"
proof -
  note a = assms(2) [unfolded node_args_def] and r = assms(3) [unfolded ready_dir_def open_dir_at_def]
  obtain i t where t: "h_opendir X k s = (Ok \<lparr>dh_key = k, dh_entries = d_entries d\<rparr>, clone_dir k s)"
    "mknod X mode uid gid 0 rdev ((clone_dir k s)\<lparr>borrowed := True\<rparr>) = (Ok ino, t)"
    "store.more t = store.more ((clone_dir k s)\<lparr>borrowed := True\<rparr>)" "store_ok X t is ds"
    "read_inode X ino t = (Ok i, t)" "i_nlink i = 0"
    by (rule mknod_opened [OF assms(1-3)])
  have mt: "opened_dirs t = opened_dirs s" "opened_files t = opened_files s" "borrowed t"
    using t(3) r by (cases s, cases t, simp add: clone_dir_def)+
  have od: "open_dir_at k d f t" using r mt by (simp add: open_dir_at_def)
  let ?dh = "\<lparr>dh_key = k, dh_entries = d_entries d\<rparr>" and ?e = "entries_put X k (d_entries d) d f t"
  have cl: "clock_ok X" using a by blast
  have add: "add_entry X k name ino t = (Err AlreadyExists, ?e)" by (rule add_entry_run(2) [OF cl od assms(4)])
  have l: "link X ino ?dh name t = (Err AlreadyExists, drop_dir k ?e)"
    unfolding link_def dropping_def dir_handle.select_convs bnd_Err [of "add_entry X k name ino", OF add]
    by (simp only: prod.case res.case)
  let ?t = "t\<lparr>borrowed := False\<rparr>" and ?u = "(drop_dir k ?e)\<lparr>borrowed := False\<rparr>"
  have bt: "?t\<lparr>borrowed := True\<rparr> = t" using mt(3) by (cases t) simp
  have m: "borrow_mut (mknod X mode uid gid 0 rdev) (clone_dir k s) = (Ok ino, ?t)"
    using r t(2) by (simp add: borrow_mut_def clone_dir_def)
  have m': "drop_on_err (modify (drop_dir k)) (borrow_mut (mknod X mode uid gid 0 rdev)) (clone_dir k s) = (Ok ino, ?t)"
    by (simp add: drop_on_err_def m)
  have bl: "borrow_mut (link X ino ?dh name) ?t = (Err AlreadyExists, ?u)" using l by (simp add: borrow_mut_def bt)
  have cn: "check_name name s = (Ok (), s)" using assms(5) by (simp add: check_name_def ret_def)
  have run: "h_mknod X uid gid k name mode rdev s = (Err AlreadyExists, ?u)"
    unfolding h_mknod_def bnd_Ok [of "check_name name", OF cn] bnd_Ok [of "h_opendir X k", OF t(1)] dir_handle.select_convs
      bnd_Ok [of "drop_on_err (modify (drop_dir k)) (borrow_mut (mknod X mode uid gid 0 rdev))", OF m']
      bnd_Err [of "borrow_mut (link X ino ?dh name)", OF bl] ..
  have du: "dev ?u = dev t" "sb ?u = sb t" by (simp_all add: drop_dir_def split: option.split)
  have "store_ok X ?u is ds" using t(4) store_ok_dev [OF du] by blast
  moreover have "read_inode X ino ?u = (Ok i, ?u)" by (rule read_inode_dev [OF t(5) du(1)])
  moreover have "opened_dirs ?u k = Some (d\<lparr>d_entries := d_entries d, d_dirty := True\<rparr>)"
    by (simp add: drop_dir_def split: option.split)
  ultimately show thesis using that run t(6) by simp
qed

section \<open>The whole life of a node\<close>

lemma node_life:
  fixes s :: "'z donkey_scheme"
  assumes "store_ok X s (ino # is) ds" "node_args X uid gid rdev s" "ready_dir k d f s"
    "map_of (d_entries d) name = None" "length name \<le> MAX_NAMELEN" "opened_files s ino = None"
  obtains st t u v d' f' where "h_mknod X uid gid k name mode rdev s = (Ok st, t)" "h_unlink X k name t = (Ok (), u)"
    "open_dir_at k d' f' u" "d_entries d' = d_entries d" "fst (h_lookup X k name u) = Err NotFound"
    "h_apply_releases X u = (Ok (), v)" "store_ok X v (ino # is) ds" "opened_files v ino = None"
proof -
  have r: "om_valid (d_entries d)" "opened_files s k \<noteq> None" "clock_ok X"
    using assms(2,3) by (simp_all add: ready_dir_def open_dir_at_def node_args_def)
  obtain i t d1 f1 where t: "h_mknod X uid gid k name mode rdev s = (Ok (stat_of i (block_size (sb s))), t)"
    "node_at X is ds ino i t" "i_nlink i = 1" "open_dir_at k d1 f1 t" "d_entries d1 = om_insert name ino (d_entries d)"
    "0 < dir_refs t k" "close_dirs t = [k]"
    by (rule mknod_links [OF assms])
  have ne: "ino \<noteq> k" using r(2) assms(6) by auto
  have m1: "map_of (d_entries d1) name = Some ino" using t(5) om_lookup_insert [OF r(1)] by simp
  obtain i' u d2 f2 where u: "h_unlink X k name t = (Ok (), u)" "nameless_at X is ds ino i' u" "open_dir_at k d2 f2 u"
    "d_entries d2 = om_remove name (d_entries d1)" "0 < dir_refs u k" "close_dirs u = [k]"
    by (rule unlink_node [OF t(2,3) r(3) t(4) m1 assms(5) t(6,7) ne])
  have e2: "d_entries d2 = d_entries d" using u(4) t(5) om.insert_remove_absent [OF r(1) assms(4)] by simp
  have nb: "\<not> borrowed u" using u(2) by (simp add: nameless_at_def)
  have m2: "map_of (d_entries d2) name = None" using e2 assms(4) by simp
  have cd: "close_dirs u = [] \<or> close_dirs u = [k] \<and> 0 < dir_refs u k" using u(5,6) by simp
  have l: "fst (h_lookup X k name u) = Err NotFound"
    by (rule lookup_absent [OF u(3) nb m2 assms(5) cd, of X]) simp
  obtain v where "h_apply_releases X u = (Ok (), v)" "store_ok X v (ino # is) ds" "opened_files v ino = None"
    by (rule release_nameless [OF u(2) r(3) u(6,5)])
  then show thesis by (rule that [OF t(1) u(1,3) e2 l])
qed

end
