(* ===== verification/Mkdk.thy ===== *)
theory Mkdk
  imports Table
begin

text \<open>
  The command line of mkdk: the ratio of bytes per inode is a decimal number, and \<open>str::parse::<u64>\<close> of the
  standard library reads it.  clap hands over the value of the option, or the default value, which
  \<open>format!\<close> has written.
\<close>

definition digit :: "nat \<Rightarrow> byte" where
  "digit d = of_nat (48 + d)"

fun decimal :: "nat \<Rightarrow> byte list" where
  "decimal n = (if n < 10 then [digit n] else decimal (n div 10) @ [digit (n mod 10)])"

declare decimal.simps [simp del]

fun parse_digits :: "nat \<Rightarrow> byte list \<Rightarrow> nat option" where
  "parse_digits acc [] = Some acc"
| "parse_digits acc (c # cs) =
     (if 48 \<le> unat c \<and> unat c \<le> 57 then
        let n = acc * 10 + (unat c - 48) in if n < u64_limit then parse_digits n cs else None
      else None)"

text \<open>A single sign is no number, and of the signs only \<open>+\<close> is allowed.\<close>

definition parse_u64 :: "byte list \<Rightarrow> nat option" where
  "parse_u64 cs = (case cs of
     [] \<Rightarrow> None
   | c # ds \<Rightarrow> if c = 43 \<and> ds \<noteq> [] then parse_digits 0 ds else parse_digits 0 cs)"

text \<open>The program that mkdk runs, or nothing when clap rejects the value and exits.\<close>

definition mkdk_cli ::
  "ext \<Rightarrow> (file_kind \<times> (nat \<Rightarrow> byte) \<times> nat) option \<Rightarrow> nat + nat \<Rightarrow> byte list option
   \<Rightarrow> ('z donkey_scheme, dk_error, unit) prog option" where
  "mkdk_cli X opened getsize value =
     (let bpi = decimal DEFAULT_BYTES_PER_INODE in
      case parse_u64 (case value of None \<Rightarrow> bpi | Some v \<Rightarrow> v) of
        None \<Rightarrow> None
      | Some n \<Rightarrow> Some (mkdk_main X opened getsize (Some n)))"

lemma digit_byte: "d < 10 \<Longrightarrow> unat (digit d) = 48 + d"
  unfolding digit_def unat_of_nat by simp

lemma parse_digits_append:
  "parse_digits acc (cs @ [c]) = (case parse_digits acc cs of
     None \<Rightarrow> None
   | Some m \<Rightarrow> parse_digits m [c])"
  by (induction acc cs rule: parse_digits.induct) (simp_all add: Let_def)

lemma parse_decimal_digits: "n < u64_limit \<Longrightarrow> parse_digits 0 (decimal n) = Some n"
proof (induction n rule: decimal.induct)
  case (1 n)
  show ?case
  proof (cases "n < 10")
    case True
    then show ?thesis using digit_byte [OF True] by (simp add: decimal.simps [of n])
  next
    case False
    have "n div 10 < u64_limit" using "1.prems" by (rule le_less_trans [OF div_le_dividend])
    then have ih: "parse_digits 0 (decimal (n div 10)) = Some (n div 10)" by (rule "1.IH" [OF False])
    have d: "n mod 10 < 10" "n div 10 * 10 + n mod 10 = n" by simp_all
    show ?thesis using False ih digit_byte [OF d(1)] d(2) "1.prems"
      by (simp add: decimal.simps [of n] parse_digits_append)
  qed
qed

lemma decimal_head: "\<exists>d cs. d < 10 \<and> decimal n = digit d # cs"
proof (induction n rule: decimal.induct)
  case (1 n)
  show ?case
  proof (cases "n < 10")
    case True
    then show ?thesis by (auto simp: decimal.simps [of n])
  next
    case False
    then show ?thesis using "1.IH" [OF False] by (auto simp: decimal.simps [of n])
  qed
qed

lemma parse_decimal: "n < u64_limit \<Longrightarrow> parse_u64 (decimal n) = Some n"
proof -
  assume n: "n < u64_limit"
  obtain d cs where d: "d < 10" "decimal n = digit d # cs" using decimal_head by blast
  have "unat (digit d) \<noteq> unat (43 :: byte)" unfolding digit_byte [OF d(1)] by simp
  then have "digit d \<noteq> 43" by metis
  then show ?thesis using parse_decimal_digits [OF n] d(2) by (simp add: parse_u64_def)
qed

lemma mkdk_cli_decimal: "n < u64_limit \<Longrightarrow> mkdk_cli X opened getsize (Some (decimal n)) = Some (mkdk_main X opened getsize (Some n))"
  by (simp add: mkdk_cli_def parse_decimal)

lemma mkdk_cli_default: "mkdk_cli X opened getsize None = Some (mkdk_main X opened getsize None)"
proof -
  have "parse_u64 (decimal DEFAULT_BYTES_PER_INODE) = Some DEFAULT_BYTES_PER_INODE" by (rule parse_decimal) simp
  then show ?thesis by (simp add: mkdk_cli_def mkdk_main_def)
qed

end
