(* ===== verification/Root.thy ===== *)
theory Root
  imports Nodes Durability Mkdk
begin

text \<open>
  From \<open>mkdk\<close> to \<open>mtdk\<close>: formatting makes the root directory with its two entries, and mounting the
  device finds it.
\<close>

section \<open>A directory linked in itself\<close>

lemma link_self_run:
  fixes s :: "'z donkey_scheme"
  assumes "clock_ok X" "open_dir_at k d f s" "map_of (d_entries d) name = None" "dh_key dh = k"
    "close_files s = [] \<or> close_files s = [k]" "0 < file_refs s k" "Suc (i_nlink (f_inode f)) < u64_limit"
  obtains u a b where "link X k dh name s = (Ok (), u)" "dev u = dev s" "sb u = sb s"
    "opened_dirs u = (opened_dirs s)(k \<mapsto> d\<lparr>d_entries := om_insert name k (d_entries d), d_dirty := True\<rparr>)"
    "opened_files u = (opened_files s)(k \<mapsto> f\<lparr>f_inode := (f_inode f)\<lparr>i_mtime := b, i_nlink := Suc (i_nlink (f_inode f)),
       i_ctime := a\<rparr>, f_dirty := True\<rparr>)"
    "timespec_ok a" "timespec_ok b"
    "file_refs u = file_refs s" "dir_refs u = (dir_refs s)(k := dir_refs s k - 1)"
    "close_files u = [k]" "close_dirs u = k # close_dirs s" "borrowed u = borrowed s"
proof -
  let ?es = "om_insert name k (d_entries d)"
  define a where "a = stamp X s"
  define b where "b = stamp X (s\<lparr>clk := Suc (clk s)\<rparr>)"
  define e where "e = entries_put X k ?es d f s"
  have d: "opened_dirs s k = Some d" "d_fh d = k" "opened_files s k = Some f" "i_ino (f_inode f) = k"
    using assms(2) by (simp_all add: open_dir_at_def)
  have add: "add_entry X k name k s = (Ok (), e)" unfolding e_def by (rule add_entry_run(1) [OF assms(1-3)])
  have ef: "opened_files e = (opened_files s)(k \<mapsto> touched a b f)" "file_refs e = file_refs s" "dir_refs e = dir_refs s"
    "opened_dirs e = (opened_dirs s)(k \<mapsto> d\<lparr>d_entries := ?es, d_dirty := True\<rparr>)" "close_dirs e = close_dirs s"
    "borrowed e = borrowed s" "dev e = dev s" "sb e = sb s" "close_files e = close_files s"
    by (simp_all add: e_def a_def b_def)
  have RO: "READ_ONLY \<noteq> INVALID" by (simp add: READ_ONLY_def INVALID_def)
  let ?e = "e\<lparr>close_files := []\<rparr>"
  have cl: "close_files_in_list X e = (Ok (), ?e)"
  proof (cases "close_files s = []")
    case True
    then show ?thesis by (simp add: close_files_in_list_def pop_close_file_def ret_def bnd_def ef(9))
  next
    case False
    then have p: "close_files e = [k]" using assms(5) ef(9) by simp
    have "close_file X k ?e = (Ok (), ?e)"
      using assms(6) by (simp add: close_file_def file_unused_def bnd_def gets_def ret_def ef(2))
    then show ?thesis by (rule close_pending [OF p]) simp
  qed
  let ?o = "clone_file k ?e"
  have op: "open_file X k READ_ONLY e = (Ok \<lparr>fh_key = k, fh_flags = READ_ONLY\<rparr>, ?o)"
    using RO by (simp add: open_file_def bnd_def cl gets_def modify_def ret_def ef(1))
  define c where "c = stamp X ?o"
  have st: "stamp X u = c" if "clk u = clk e" for u :: "'z donkey_scheme" using that by (simp add: stamp_def c_def clone_file_def)
  let ?g = "f\<lparr>f_inode := (f_inode f)\<lparr>i_mtime := b, i_nlink := Suc (i_nlink (f_inode f)), i_ctime := c\<rparr>, f_dirty := True\<rparr>"
  let ?n = "?o\<lparr>clk := Suc (clk e), opened_files := (opened_files s)(k \<mapsto> ?g)\<rparr>"
  have ch: "change_nlink X (\<lambda>n. ck_add n 1) k ?o = (Ok (), ?n)"
    using assms(7) by (simp add: change_nlink_def bnd_def with_file_def now_Ok [OF assms(1)] mod_inode_def
        mod_file_def set_dirty_def st ef(1) clone_file_def touched_def)
  let ?m = "?n\<lparr>file_refs := file_refs s, close_files := [k]\<rparr>"
  have df: "drop_file k ?n = ?m" using d(4) by (simp add: drop_file_def clone_file_def ef(2) fun_upd_idem)
  let ?u = "?m\<lparr>dir_refs := (dir_refs s)(k := dir_refs s k - 1), close_dirs := k # close_dirs s\<rparr>"
  have dd: "drop_dir k ?m = ?u"
    using d(2,4) by (simp add: drop_dir_def clone_file_def ef(3-5))
  have inner: "dropping (drop_file k) (change_nlink X (\<lambda>n. ck_add n 1) k) ?o = (Ok (), ?m)"
    unfolding dropping_def ch by (simp only: prod.case res.case df)
  have li: "link X k dh name s = (Ok (), ?u)"
    unfolding link_def assms(4) dropping_def [of "drop_dir k"] bnd_Ok [of "add_entry X k name k", OF add]
      bnd_Ok [of "open_file X k READ_ONLY", OF op] file_handle.select_convs inner
    by (simp only: prod.case res.case dd)
  have ts: "timespec_ok c" "timespec_ok b" by (simp_all add: c_def b_def stamp_ok)
  show thesis
    by (rule that [OF li _ _ _ _ ts]) (simp_all add: ef clone_file_def)
qed

section \<open>mkdir on an empty file system\<close>

lemma open_new_dir:
  fixes s :: "'z donkey_scheme"
  assumes "read_inode X k s = (Ok i, s)" "blank_inode i" "is_directory (i_mode i)" "idle s"
  obtains u where "open_dir X k s = (Ok \<lparr>dh_key = k, dh_entries = []\<rparr>, u)" "dev u = dev s" "sb u = sb s"
    "opened_dirs u = [k \<mapsto> \<lparr>d_fh = k, d_entries = [], d_dirty = False\<rparr>]" "opened_files u = [k \<mapsto> dkfile_new i]"
    "file_refs u = (\<lambda>_. 0)(k := 1)" "dir_refs u = (\<lambda>_. 0)(k := 1)" "close_files u = []" "close_dirs u = []" "\<not> borrowed u"
proof -
  have e: "opened_files s = Map.empty" "opened_dirs s = Map.empty" "file_refs s = (\<lambda>_. 0)" "dir_refs s = (\<lambda>_. 0)"
    "close_files s = []" "close_dirs s = []" "\<not> borrowed s" using assms(4) by (simp_all add: idle_def)
  have RW: "READ_WRITE \<noteq> INVALID" by (simp add: READ_WRITE_def INVALID_def)
  let ?w = "s\<lparr>opened_files := [k \<mapsto> dkfile_new i], file_refs := (\<lambda>_. 0)(k := 1)\<rparr>"
  have "load_file X k s = (Ok (), s\<lparr>opened_files := (opened_files s)(k \<mapsto> dkfile_new i), file_refs := (file_refs s)(k := 0)\<rparr>)"
    by (rule load_file_run [OF assms(1)]) (use assms(2) in \<open>simp add: blank_inode_def\<close>)
  note load = this
  have op: "open_file X k READ_WRITE s = (Ok \<lparr>fh_key = k, fh_flags = READ_WRITE\<rparr>, ?w)"
    using RW e by (simp add: open_file_def close_files_in_list_def pop_close_file_def bnd_def gets_def modify_def ret_def load clone_file_def)
  have h: "opened_files ?w k = Some (dkfile_new i)" "is_directory (i_mode (f_inode (dkfile_new i)))" "i_size (f_inode (dkfile_new i)) = 0"
    using assms(2,3) by (simp_all add: dkfile_new_def blank_inode_def)
  let ?d = "\<lparr>d_fh = k, d_entries = [], d_dirty = False\<rparr>"
  let ?y = "?w\<lparr>opened_files := (opened_files ?w)(k \<mapsto> dkfile_new i), opened_dirs := (opened_dirs ?w)(k \<mapsto> ?d),
    dir_refs := (dir_refs ?w)(k := 0)\<rparr>"
  have ld: "load_dir X k s = (Ok (), ?y)" by (rule load_dir_run [OF op h(1,2) read_dir_empty [OF h(3)]])
  have cd: "close_dirs_in_list X s = (Ok (), s)"
    using e by (simp add: close_dirs_in_list_def pop_close_dir_def ret_def bnd_def)
  have "open_dir X k s = (Ok \<lparr>dh_key = k, dh_entries = []\<rparr>, clone_dir k ?y)"
    unfolding open_dir_def bnd_Ok [of "close_dirs_in_list X", OF cd]
    using e by (simp add: bnd_def ld get_dir_def gets_def unwrap_def modify_def ret_def)
  then show thesis by (rule that) (simp_all add: clone_dir_def e)
qed

lemma idle_more: "store.more t = store.more s \<Longrightarrow> idle s \<Longrightarrow> idle t"
  by (cases s, cases t) (simp add: idle_def)

lemma blank_linked:
  "blank_inode i \<Longrightarrow> timespec_ok a \<Longrightarrow> timespec_ok b \<Longrightarrow> n < u64_limit \<Longrightarrow>
   blank_inode (i\<lparr>i_mtime := b, i_nlink := n, i_ctime := a\<rparr>)"
  by (auto simp: blank_inode_def inode_fields_ok_def)

definition self_entries :: "nat \<Rightarrow> nat omap" where
  "self_entries k = [(dot, k), (dotdot, k)]"

lemma mknod_shape: "stable dev_shape (mknod X mode uid gid nlink rdev)"
proof -
  have "stable dev_shape (now X)"
    by (auto simp: stable_def now_def dev_shape_def split: res.split)
  then show ?thesis unfolding mknod_def Let_def by (intro stable_intros store_op_shape) assumption
qed

text \<open>\<open>mkdir\<close> of the first directory: it is its own parent.\<close>

lemma mkdir_first:
  fixes s :: "'z donkey_scheme"
  assumes "store_ok X s (k # is) ds" "clock_ok X" "pcount s ^ 4 < u64_limit" "idle s" "is_directory (DIRECTORY OR mode)"
  obtains u j where "mkdir X k mode 0 0 s = (Ok k, u)" "store_ok X u is ds" "pcount u = pcount s"
    "k \<in> inode_numbers (sb u)" "k \<notin> set is" "blank_inode j" "i_ino j = k" "i_nlink j = 2" "i_mode j = DIRECTORY OR mode"
    "opened_dirs u = [k \<mapsto> \<lparr>d_fh = k, d_entries = self_entries k, d_dirty = True\<rparr>]"
    "opened_files u = [k \<mapsto> (dkfile_new j)\<lparr>f_dirty := True\<rparr>]" "file_refs u k = 1" "dir_refs u k = 0"
    "close_files u = [k]" "close_dirs u = [k, k]" "\<not> borrowed u" "dev_shape u = dev_shape s"
proof -
  have arg: "(0 :: nat) < 4294967296" "(0 :: nat) < u64_limit" by simp_all
  have nodev: "(None :: nat option) = Some v \<Longrightarrow> v < u64_limit" for v by simp
  obtain i t where t: "mknod X (DIRECTORY OR mode) 0 0 0 None s = (Ok k, t)" "store_ok X t is ds"
    "read_inode X k t = (Ok i, t)" "blank_inode i" "i_ino i = k" "i_mode i = DIRECTORY OR mode" "i_uid i = 0"
    "i_gid i = 0" "i_nlink i = 0" "inode_used is (dkfile_new i, t)" "pcount t = pcount s"
    by (rule mknod_run [OF assms(1-3) arg(1) arg(1) arg(2) nodev])
  have it: "idle t" by (rule idle_more [OF stableD [OF mknod_rest t(1)] assms(4)])
  have dir: "is_directory (i_mode i)" using assms(5) t(6) by simp
  obtain u where u: "open_dir X k t = (Ok \<lparr>dh_key = k, dh_entries = []\<rparr>, u)" "dev u = dev t" "sb u = sb t"
    "opened_dirs u = [k \<mapsto> \<lparr>d_fh = k, d_entries = [], d_dirty = False\<rparr>]" "opened_files u = [k \<mapsto> dkfile_new i]"
    "file_refs u = (\<lambda>_. 0)(k := 1)" "dir_refs u = (\<lambda>_. 0)(k := 1)" "close_files u = []" "close_dirs u = []" "\<not> borrowed u"
    by (rule open_new_dir [OF t(3,4) dir it])
  let ?dh = "\<lparr>dh_key = k, dh_entries = []\<rparr>" and ?d0 = "\<lparr>d_fh = k, d_entries = [], d_dirty = False\<rparr>"
  let ?c = "clone_dir k u"
  have c: "open_dir_at k ?d0 (dkfile_new i) ?c" "map_of (d_entries ?d0) dot = None" "dh_key ?dh = k"
    "close_files ?c = [] \<or> close_files ?c = [k]" "0 < file_refs ?c k" "Suc (i_nlink (f_inode (dkfile_new i))) < u64_limit"
    using u t(5,9) by (simp_all add: open_dir_at_def clone_dir_def dkfile_new_def)
  obtain v a b where v: "link X k ?dh dot ?c = (Ok (), v)" "dev v = dev ?c" "sb v = sb ?c"
    "opened_dirs v = (opened_dirs ?c)(k \<mapsto> ?d0\<lparr>d_entries := om_insert dot k (d_entries ?d0), d_dirty := True\<rparr>)"
    "opened_files v = (opened_files ?c)(k \<mapsto> (dkfile_new i)\<lparr>f_inode := (f_inode (dkfile_new i))\<lparr>i_mtime := b,
       i_nlink := Suc (i_nlink (f_inode (dkfile_new i))), i_ctime := a\<rparr>, f_dirty := True\<rparr>)"
    "timespec_ok a" "timespec_ok b"
    "file_refs v = file_refs ?c" "dir_refs v = (dir_refs ?c)(k := dir_refs ?c k - 1)"
    "close_files v = [k]" "close_dirs v = k # close_dirs ?c" "borrowed v = borrowed ?c"
    by (rule link_self_run [OF assms(2) c])
  define i1 where "i1 = i\<lparr>i_mtime := b, i_nlink := 1, i_ctime := a\<rparr>"
  have b1: "blank_inode i1" unfolding i1_def by (rule blank_linked [OF t(4) v(6,7)]) simp
  have i1: "i_ino i1 = k" "i_nlink i1 = 1" "i_mode i1 = DIRECTORY OR mode" using t(5,6) by (simp_all add: i1_def)
  let ?d1 = "\<lparr>d_fh = k, d_entries = [(dot, k)], d_dirty = True\<rparr>" and ?f1 = "(dkfile_new i1)\<lparr>f_dirty := True\<rparr>"
  have vd: "opened_dirs v = [k \<mapsto> ?d1]" using u(4) v(4) by (simp add: clone_dir_def)
  have vf: "opened_files v = [k \<mapsto> ?f1]" using u(5) v(5) t(9) by (simp add: clone_dir_def dkfile_new_def i1_def)
  have l1: "drop_on_err (modify (drop_dir k)) (bnd (modify (clone_dir k)) (\<lambda>_. link X k ?dh dot)) u = (Ok (), v)"
    using v(1) by (simp add: drop_on_err_def bnd_def modify_def)
  have c2: "open_dir_at k ?d1 ?f1 v" "map_of (d_entries ?d1) dotdot = None"
    "close_files v = [] \<or> close_files v = [k]" "0 < file_refs v k" "Suc (i_nlink (f_inode ?f1)) < u64_limit"
    using i1 v(8,10) u(6) by (simp_all add: open_dir_at_def vd vf clone_dir_def dkfile_new_def dot_def dotdot_def)
  obtain w a' b' where w: "link X k ?dh dotdot v = (Ok (), w)" "dev w = dev v" "sb w = sb v"
    "opened_dirs w = (opened_dirs v)(k \<mapsto> ?d1\<lparr>d_entries := om_insert dotdot k (d_entries ?d1), d_dirty := True\<rparr>)"
    "opened_files w = (opened_files v)(k \<mapsto> ?f1\<lparr>f_inode := (f_inode ?f1)\<lparr>i_mtime := b',
       i_nlink := Suc (i_nlink (f_inode ?f1)), i_ctime := a'\<rparr>, f_dirty := True\<rparr>)"
    "timespec_ok a'" "timespec_ok b'"
    "file_refs w = file_refs v" "dir_refs w = (dir_refs v)(k := dir_refs v k - 1)"
    "close_files w = [k]" "close_dirs w = k # close_dirs v" "borrowed w = borrowed v"
    by (rule link_self_run [OF assms(2) c2(1,2) c(3) c2(3-5)])
  define j where "j = i1\<lparr>i_mtime := b', i_nlink := 2, i_ctime := a'\<rparr>"
  have run: "mkdir X k mode 0 0 s = (Ok k, w)"
    unfolding mkdir_def bnd_Ok [of "mknod X (DIRECTORY OR mode) 0 0 0 None", OF t(1)] bnd_Ok [of "open_dir X k", OF u(1)]
      dir_handle.select_convs bnd_Ok [of "drop_on_err _ _", OF l1] bnd_Ok [of "link X k ?dh dotdot", OF w(1)] ret_def ..
  have dw: "dev w = dev t" "sb w = sb t" using u(2,3) v(2,3) w(2,3) by (simp_all add: clone_dir_def)
  have sh: "dev_shape w = dev_shape s" using dw stableD [OF mknod_shape t(1)] by (simp add: dev_shape_def)
  show thesis
  proof (rule that [OF run])
    show "store_ok X w is ds" using t(2) store_ok_dev [OF dw] by blast
    show "pcount w = pcount s" using t(11) dw(2) by (simp add: pcount_def)
    show "blank_inode j" unfolding j_def by (rule blank_linked [OF b1 w(6,7)]) simp
    show "opened_dirs w = [k \<mapsto> \<lparr>d_fh = k, d_entries = self_entries k, d_dirty = True\<rparr>]"
      using w(4) by (simp add: vd self_entries_def dot_def dotdot_def)
    show "opened_files w = [k \<mapsto> (dkfile_new j)\<lparr>f_dirty := True\<rparr>]"
      using w(5) i1(2) by (simp add: vf dkfile_new_def j_def numeral_2_eq_2)
    show "k \<in> inode_numbers (sb w)" "k \<notin> set is" using t(5,10) dw(2) by (simp_all add: inode_used_def dkfile_new_def)
  qed (use w(8-12) v(8-12) u(6,7,9,10) i1 sh in \<open>simp_all add: j_def clone_dir_def\<close>)
qed

section \<open>Closing the root\<close>

text \<open>What the device holds of a directory: its inode, and the bytes of its entries.\<close>

definition dir_on_device :: "ext \<Rightarrow> nat list \<Rightarrow> nat \<Rightarrow> nat omap \<Rightarrow> 'z store_scheme \<Rightarrow> bool" where
  "dir_on_device X is k es s \<longleftrightarrow> (\<exists>i V ds r. read_inode X k s = (Ok i, s) \<and> is_directory (i_mode i) \<and> i_xattr_ptr i = 0
     \<and> dense X V is ds (dkfile_new i, s) \<and> contents V (dkfile_new i, s) = dir_bytes X es @ r)"

lemma dir_on_device_dev:
  assumes "dev t = dev s" "sb t = sb s" "dir_on_device X is k es s"
  shows "dir_on_device X is k es t"
  using assms(3) read_inode_dev [OF _ assms(1)] dense_dev [OF assms(1,2)] unfolding dir_on_device_def by metis

text \<open>Both lists name the directory twice; the second time there is nothing left to close.\<close>

lemma close_dirs_twice:
  assumes "close_dirs s = [k, k]" "close_dir X k (s\<lparr>close_dirs := [k]\<rparr>) = (Ok (), t)" "close_dirs t = [k]" "opened_dirs t k = None"
  shows "close_dirs_in_list X s = (Ok (), t\<lparr>close_dirs := []\<rparr>)"
proof -
  have "close_dir X k (t\<lparr>close_dirs := []\<rparr>) = (Ok (), t\<lparr>close_dirs := []\<rparr>)"
    using assms(4) by (simp add: close_dir_def dir_unused_def bnd_def gets_def ret_def)
  then show ?thesis
    using assms(1-3) by (simp add: close_dirs_in_list_def bnd_def gets_def pop_close_dir_def ret_def)
qed

lemma close_files_twice:
  assumes "close_files s = [k, k]" "close_file X k (s\<lparr>close_files := [k]\<rparr>) = (Ok (), t)" "close_files t = [k]" "opened_files t k = None"
  shows "close_files_in_list X s = (Ok (), t\<lparr>close_files := []\<rparr>)"
proof -
  have "close_file X k (t\<lparr>close_files := []\<rparr>) = (Ok (), t\<lparr>close_files := []\<rparr>)"
    using assms(4) by (simp add: close_file_def file_unused_def bnd_def gets_def ret_def)
  then show ?thesis
    using assms(1-3) by (simp add: close_files_in_list_def bnd_def gets_def pop_close_file_def ret_def)
qed

lemma close_root_dir:
  fixes s :: "'z donkey_scheme"
  assumes "closable_dir k d f s" "close_dirs s = [k, k]" "close_files s = [k]" "dense X V is ds (f, s)" "inode_used is (f, s)"
    "clock_ok X" "codec_ok X" "dir_room X ds (d_entries d) (f, s)"
  obtains g t V' ds' where "close_dirs_in_list X s = (Ok (), t)"
    "opened_files t k = Some g" "file_refs t k = 0" "close_files t = [k, k]" "close_dirs t = []" "f_dirty g" "same_id f g"
    "dense X V' is ds' (g, t)" "inode_used is (g, t)"
    "contents V' (g, t) = overwrite 0 (dir_bytes X (d_entries d)) (contents V (f, s))" "dev_shape t = dev_shape s"
proof -
  let ?s = "s\<lparr>close_dirs := [k]\<rparr>" and ?b = "dir_bytes X (d_entries d)"
  have ds: "dev ?s = dev s" "sb ?s = sb s" by simp_all
  have de: "dense X V is ds (f, ?s)" "contents V (f, ?s) = contents V (f, s)" "dir_room X ds (d_entries d) (f, ?s)"
    using assms(4,8) dense_dev [OF ds] by (simp_all add: dir_room_def)
  have cl: "closable_dir k d f ?s" using assms(1) by (simp add: closable_dir_def)
  obtain n g t V' ds' where t: "close_dir X k ?s = (Ok (), t\<lparr>opened_files := (opened_files ?s)(k \<mapsto> g),
       opened_dirs := (opened_dirs ?s)(k := None), file_refs := (file_refs ?s)(k := 0), close_files := k # close_files ?s\<rparr>)"
    "store.more t = store.more ?s" "f_dirty g" "steps_to X is n V ds (f, ?s) V' ds' (g, t)"
    "contents V' (g, t) = overwrite 0 ?b (contents V (f, ?s))"
    by (rule close_dir_run [OF cl de(1) assms(6,7) de(3)])
  define w where "w = t\<lparr>opened_files := (opened_files ?s)(k \<mapsto> g),
       opened_dirs := (opened_dirs ?s)(k := None), file_refs := (file_refs ?s)(k := 0), close_files := k # close_files ?s\<rparr>"
  have mt: "close_dirs t = [k]" using t(2) by (cases s, cases t, simp)
  have w: "close_dirs w = [k]" "opened_dirs w k = None" "opened_files w k = Some g" "file_refs w k = 0" "close_files w = [k, k]"
    using mt assms(3) by (simp_all add: w_def)
  have run: "close_dirs_in_list X s = (Ok (), w\<lparr>close_dirs := []\<rparr>)"
    by (rule close_dirs_twice [OF assms(2) _ w(1,2)]) (simp only: w_def t(1))
  let ?w = "w\<lparr>close_dirs := []\<rparr>"
  have dw: "dev ?w = dev t" "sb ?w = sb t" by (simp_all add: w_def)
  note same = steps_D(2) [OF t(4)]
  have g: "dense X V' is ds' (g, ?w)" "contents V' (g, ?w) = overwrite 0 ?b (contents V (f, s))"
    using steps_D(1) [OF t(4)] t(5) de(2) dense_dev [OF dw] by simp_all
  have used: "inode_used is (g, ?w)"
    using assms(5) evolves_simps(4) [OF steps_D(3) [OF t(4)]] same_id_fields(2) [OF same] dw(2) by (simp add: inode_used_def)
  have sh: "dev_shape ?w = dev_shape s" using evolves_shape [OF steps_D(3) [OF t(4)]] dw by (simp add: dev_shape_def)
  show thesis
    by (rule that [OF run _ _ _ _ t(3) same g(1) used g(2) sh]) (simp_all add: w)
qed

lemma close_file_shape:
  assumes "opened_files s k = Some f" "file_refs s k = 0" "k = i_ino (f_inode f)"
    "dense X V is ds (f, s)" "inode_used is (f, s)" "no_attributes f" "f_dirty f" "0 < i_nlink (f_inode f)"
    "close_file X k s = (Ok (), u)"
  shows "dev_shape u = dev_shape s"
proof -
  let ?g = "f\<lparr>f_dirty := False\<rparr>"
  obtain t where t: "flush_file X (f, s) = (Ok (), (?g, t))"
    "evolves (footprint V ds (f, s) \<union> inode_bytes_of (i_ino (f_inode f))) s t"
    by (rule flush_run [OF assms(4-8)])
  note e = evolves_simps [OF t(2)]
  have "0 < i_nlink (f_inode ?g)" using assms(8) by simp
  from close_file_flushed [OF assms(1,2) t(1) e(6) this] assms(9)
  have "dev u = dev t" by simp
  then show ?thesis using evolves_shape [OF t(2)] by (simp add: dev_shape_def)
qed

lemma close_root_file:
  assumes "opened_files s k = Some f" "file_refs s k = 0" "close_files s = [k, k]" "close_dirs s = []" "k = i_ino (f_inode f)"
    "dense X V is ds (f, s)" "inode_used is (f, s)" "no_attributes f" "f_dirty f" "0 < i_nlink (f_inode f)"
    "is_directory (i_mode (f_inode f))" "contents V (f, s) = dir_bytes X es @ r"
  obtains u where "close_files_in_list X s = (Ok (), u)" "dir_on_device X is k es u" "close_files u = []" "close_dirs u = []"
    "dev_shape u = dev_shape s"
proof -
  let ?s = "s\<lparr>close_files := [k]\<rparr>"
  have ds: "dev ?s = dev s" "sb ?s = sb s" by simp_all
  have p: "opened_files ?s k = Some f" "file_refs ?s k = 0" "dense X V is ds (f, ?s)" "inode_used is (f, ?s)"
    "contents V (f, ?s) = dir_bytes X es @ r"
    using assms(1,2,6,7,12) dense_dev [OF ds] by (simp_all add: inode_used_def)
  obtain t where t: "close_file X k ?s = (Ok (), t\<lparr>opened_files := (opened_files ?s)(k := None)\<rparr>)"
    "store.more t = store.more ?s" "read_inode X k t = (Ok (f_inode f), t)"
    "dense X V is ds (dkfile_new (f_inode f), t)" "contents V (dkfile_new (f_inode f), t) = contents V (f, ?s)"
    by (rule close_file_run [OF p(1,2) assms(5) p(3,4) assms(8-10)])
  define w where "w = t\<lparr>opened_files := (opened_files ?s)(k := None)\<rparr>"
  have mt: "close_files t = [k]" "close_dirs t = []" using t(2) assms(4) by (cases s, cases t, simp)+
  have w: "close_files w = [k]" "opened_files w k = None" "close_dirs w = []" using mt by (simp_all add: w_def)
  let ?w = "w\<lparr>close_files := []\<rparr>"
  have run: "close_files_in_list X s = (Ok (), ?w)"
    by (rule close_files_twice [OF assms(3) _ w(1,2)]) (simp only: w_def t(1))
  have dw: "dev ?w = dev t" "sb ?w = sb t" by (simp_all add: w_def)
  have x: "i_xattr_ptr (f_inode f) = 0" using assms(8) by (simp add: no_attributes_def)
  have c: "contents V (dkfile_new (f_inode f), t) = dir_bytes X es @ r" by (rule trans [OF t(5) p(5)])
  have "dir_on_device X is k es t"
    unfolding dir_on_device_def by (intro exI conjI) (rule t(3) assms(11) x t(4) c)+
  then have "dir_on_device X is k es ?w" by (rule dir_on_device_dev [OF dw])
  moreover have "dev_shape ?w = dev_shape s"
    using close_file_shape [OF p(1,2) assms(5) p(3,4) assms(8-10) t(1)] dw by (simp add: dev_shape_def)
  ultimately show thesis using that run w by simp
qed

lemma create_root_run:
  fixes s :: "'z donkey_scheme"
  assumes "store_ok X s (ROOT_INODE # is) ds" "clock_ok X" "pcount s ^ 4 < u64_limit" "idle s"
    "length (dir_bytes X (self_entries ROOT_INODE)) \<le> file_limit s"
    "5 * blocks_for s (length (dir_bytes X (self_entries ROOT_INODE))) < length ds"
  obtains t where "create_root X s = (Ok (), t)" "dir_on_device X is ROOT_INODE (self_entries ROOT_INODE) t"
    "close_files t = []" "close_dirs t = []" "dev_shape t = dev_shape s"
proof -
  have dir: "is_directory (DIRECTORY OR root_perm)"
    by (simp add: is_directory_def DIRECTORY_def root_perm_def USER_RWX_def GROUP_READ_def GROUP_EXECUTE_def OTHERS_READ_def
        OTHERS_EXECUTE_def FILE_TYPE_MASK_def)
  obtain u j where u: "mkdir X ROOT_INODE root_perm 0 0 s = (Ok ROOT_INODE, u)" "store_ok X u is ds" "pcount u = pcount s"
    "ROOT_INODE \<in> inode_numbers (sb u)" "ROOT_INODE \<notin> set is" "blank_inode j" "i_ino j = ROOT_INODE" "i_nlink j = 2"
    "i_mode j = DIRECTORY OR root_perm"
    "opened_dirs u = [ROOT_INODE \<mapsto> \<lparr>d_fh = ROOT_INODE, d_entries = self_entries ROOT_INODE, d_dirty = True\<rparr>]"
    "opened_files u = [ROOT_INODE \<mapsto> (dkfile_new j)\<lparr>f_dirty := True\<rparr>]" "file_refs u ROOT_INODE = 1" "dir_refs u ROOT_INODE = 0"
    "close_files u = [ROOT_INODE]" "close_dirs u = [ROOT_INODE, ROOT_INODE]" "\<not> borrowed u" "dev_shape u = dev_shape s"
    by (rule mkdir_first [OF assms(1-4) dir])
  let ?f = "(dkfile_new j)\<lparr>f_dirty := True\<rparr>" and ?d = "\<lparr>d_fh = ROOT_INODE, d_entries = self_entries ROOT_INODE, d_dirty = True\<rparr>"
  have pc: "pcount u ^ 4 < u64_limit" using assms(3) u(3) by simp
  note f = fresh_file [OF u(2) pc u(6), of "\<lambda>_. []" True]
  have bs: "block_size (sb u) = block_size (sb s)"
    using store_okD(6) [OF u(2)] store_okD(6) [OF assms(1)] u(3) by metis
  have j: "i_size j = 0" "i_xattr_ptr j = 0" using u(6) by (simp_all add: blank_inode_def)
  have pre: "closable_dir ROOT_INODE ?d ?f u" "inode_used is (?f, u)" "is_directory (i_mode (f_inode ?f))" "no_attributes ?f"
    "0 < i_nlink (f_inode ?f)" "codec_ok X"
    using u dir j store_okD(1) [OF assms(1)]
    by (simp_all add: closable_dir_def inode_used_def no_attributes_def dkfile_new_def del: One_nat_def)
  have room: "dir_room X ds (d_entries ?d) (?f, u)"
    using assms(5,6) j(1) by (simp add: dir_room_def dkfile_new_def file_limit_def pcount_def blocks_for_def bs)
  obtain g v V ds' where v: "close_dirs_in_list X u = (Ok (), v)"
    "opened_files v ROOT_INODE = Some g" "file_refs v ROOT_INODE = 0" "close_files v = [ROOT_INODE, ROOT_INODE]" "close_dirs v = []"
    "f_dirty g" "same_id ?f g" "dense X V is ds' (g, v)" "inode_used is (g, v)"
    "contents V (g, v) = overwrite 0 (dir_bytes X (d_entries ?d)) (contents (\<lambda>_. []) (?f, u))" "dev_shape v = dev_shape u"
    by (rule close_root_dir [OF pre(1) u(15,14) f pre(2) assms(2) pre(6) room])
  note id = same_id_fields [OF v(7)]
  have g: "ROOT_INODE = i_ino (f_inode g)" "no_attributes g" "0 < i_nlink (f_inode g)" "is_directory (i_mode (f_inode g))"
    using id pre(3-5) u(7) by (simp_all add: no_attributes_def dkfile_new_def)
  have c: "contents V (g, v) = dir_bytes X (self_entries ROOT_INODE)
      @ drop (length (dir_bytes X (self_entries ROOT_INODE))) (contents (\<lambda>_. []) (?f, u))"
    using v(10) by (simp add: overwrite_def)
  obtain w where w: "close_files_in_list X v = (Ok (), w)" "dir_on_device X is ROOT_INODE (self_entries ROOT_INODE) w"
    "close_files w = []" "close_dirs w = []" "dev_shape w = dev_shape v"
    by (rule close_root_file [OF v(2-5) g(1) v(8,9) g(2) v(6) g(3,4) c])
  have "create_root X s = (Ok (), w)"
    unfolding create_root_def bnd_Ok [of "mkdir X _ _ _ _", OF u(1)]
    by (simp only: if_True simp_thms(6) bnd_Ok [of "close_dirs_in_list X", OF v(1)] w(1))
  then show thesis by (rule that [OF _ w(2-4)]) (simp add: w(5) v(11) u(17))
qed

section \<open>Formatting and mounting\<close>

text \<open>The device has room for the entries of the root directory beside the tables.\<close>

definition root_room :: "ext \<Rightarrow> super_block \<Rightarrow> bool" where
  "root_room X b \<longleftrightarrow> (block_size b div 8) ^ 4 < u64_limit
     \<and> (let n = length (dir_bytes X (self_entries ROOT_INODE))
        in n \<le> max_blocks (block_size b div 8) * block_size b \<and> n < u64_limit
         \<and> 5 * ((n + block_size b - 1) div block_size b) < db_count b)"

lemma mkdk_run:
  fixes s :: "'z donkey_scheme"
  assumes "dev_open opened getsize = Ok d" "formattable d bpi" "codec_ok X" "no_faults X" "clock_ok X"
    "root_room X (formatted_sb d bpi)"
  obtains t "is" where "mkdk_main X opened getsize (Some bpi) s = (Ok (), t)"
    "dir_on_device X is ROOT_INODE (self_entries ROOT_INODE) t"
    "raw_len (dev t) = raw_len d" "d_block_count (dev t) = d_block_count d" "d_block_size (dev t) = d_block_size d"
proof -
  let ?s = "s\<lparr>dev := d\<rparr>" and ?b = "formatted_sb d bpi"
  have fm: "formattable (dev ?s) bpi" using assms(2) by simp
  obtain a where a: "format_store X bpi ?s = (Ok (), a)" "sb a = formatted_sb (dev ?s) bpi"
    "store_ok X a (all_inodes (sb a)) (all_data_blocks (sb a))"
    "dev_size (dev a) = dev_size (dev ?s)" "clk a = clk ?s" "store.more a = store.more ?s"
    by (rule format_store_establishes [OF fm assms(3,4)])
  have sb: "sb a = ?b" using a(2) by simp
  obtain b where b: "donkey_new a = ((Ok () :: (dk_error, unit) res), b)" "idle b" "dev b = dev a" "sb b = sb a"
    by (simp add: donkey_new_def modify_def idle_def)
  have n: "0 < inode_count ?b" using assms(2) by (simp add: formatted_sb_def formattable_def Let_def)
  have "all_inodes ?b = ROOT_INODE # [Suc ROOT_INODE..<ROOT_INODE + inode_count ?b]"
    using n by (simp add: all_inodes_def upt_conv_Cons)
  then obtain "is" where "is": "all_inodes ?b = ROOT_INODE # is" by blast
  have ok: "store_ok X b (ROOT_INODE # is) (all_data_blocks ?b)"
    using a(3) store_ok_dev [OF b(3,4)] sb "is" by simp
  have pc: "pcount b = block_size ?b div 8" using b(4) sb by (simp add: pcount_def)
  have room: "pcount b ^ 4 < u64_limit" "length (dir_bytes X (self_entries ROOT_INODE)) \<le> file_limit b"
    "5 * blocks_for b (length (dir_bytes X (self_entries ROOT_INODE))) < length (all_data_blocks ?b)"
    using assms(6) b(4) sb
    by (simp_all add: root_room_def pc file_limit_def blocks_for_def all_data_blocks_def Let_def)
  obtain t where t: "create_root X b = (Ok (), t)" "dir_on_device X is ROOT_INODE (self_entries ROOT_INODE) t"
    "close_files t = []" "close_dirs t = []" "dev_shape t = dev_shape b"
    by (rule create_root_run [OF ok assms(5) room(1) b(2) room(2,3)])
  have "close_dirs_in_list X t = (Ok (), t)" "close_files_in_list X t = (Ok (), t)"
    using t(3,4) by (simp_all add: close_dirs_in_list_def close_files_in_list_def bnd_def gets_def pop_close_dir_def
        pop_close_file_def ret_def)
  then have dr: "drop_donkey X t = (Ok (), t)" by (simp add: drop_donkey_def attempt_def bnd_def ret_def)
  have "format X bpi ?s = (Ok (), t)"
    unfolding format_def bnd_Ok [of "format_store X bpi", OF a(1)] bnd_Ok [of donkey_new, OF b(1)] drop_on_err_def t(1) by simp
  then have run: "mkdk_main X opened getsize (Some bpi) s = (Ok (), t)"
    using dr assms(1) by (simp add: mkdk_main_def bnd_def modify_def lift_res_def)
  have "dev_shape t = dev_shape ?s" using t(5) b(3) stableD [OF format_store_shape a(1)] by (simp add: dev_shape_def)
  then show thesis using that [OF run t(2)] by (simp add: dev_shape_def)
qed

lemma root_opened:
  assumes "dir_on_device X is k es s" "idle s" "entries_ok es" "clock_ok X" "codec_ok X"
  obtains t where "h_opendir X k s = (Ok \<lparr>dh_key = k, dh_entries = es\<rparr>, t)"
proof -
  obtain i V ds r where d: "read_inode X k s = (Ok i, s)" "is_directory (i_mode i)" "i_xattr_ptr i = 0"
    "dense X V is ds (dkfile_new i, s)" "contents V (dkfile_new i, s) = dir_bytes X es @ r"
    using assms(1) unfolding dir_on_device_def by blast
  have e: "opened_files s = Map.empty" "opened_dirs s = Map.empty" "close_files s = []" "close_dirs s = []" "\<not> borrowed s"
    using assms(2) by (simp_all add: idle_def)
  let ?b = "s\<lparr>borrowed := True\<rparr>"
  let ?l = "?b\<lparr>opened_files := [k \<mapsto> dkfile_new i], file_refs := (file_refs s)(k := 0)\<rparr>"
  let ?w = "?b\<lparr>opened_files := [k \<mapsto> dkfile_new i], file_refs := (file_refs s)(k := 1)\<rparr>"
  have db: "dev ?b = dev s" "sb ?b = sb s" by simp_all
  have rd: "read_inode X k ?b = (Ok i, ?b)" by (rule read_inode_dev [OF d(1) db(1)])
  have load: "load_file X k ?b = (Ok (), ?l)" using load_file_run [OF rd d(3)] e by simp
  have rw: "READ_WRITE \<noteq> INVALID" by (simp add: READ_WRITE_def INVALID_def)
  have op: "open_file X k READ_WRITE ?b = (Ok \<lparr>fh_key = k, fh_flags = READ_WRITE\<rparr>, ?w)"
    using rw e by (simp add: open_file_def close_files_in_list_def pop_close_file_def bnd_def gets_def modify_def ret_def load clone_file_def)
  have dw: "dev ?w = dev s" "sb ?w = sb s" by simp_all
  have h: "dense X V is ds (dkfile_new i, ?w)" "contents V (dkfile_new i, ?w) = dir_bytes X es @ r" "f_pos (dkfile_new i) = 0"
    "opened_files ?w k = Some (dkfile_new i)" "is_directory (i_mode (f_inode (dkfile_new i)))"
    using dense_dev [OF dw] d by (simp_all add: dkfile_new_def)
  obtain h' x where x: "read_dir X [] (dkfile_new i, ?w) = (Ok es, (h', x))"
    by (rule read_dir_contents [OF h(1,3,2) assms(3-5)])
  let ?d = "\<lparr>d_fh = k, d_entries = es, d_dirty = False\<rparr>"
  let ?y = "x\<lparr>opened_files := (opened_files x)(k \<mapsto> h'), opened_dirs := (opened_dirs x)(k \<mapsto> ?d), dir_refs := (dir_refs x)(k := 0)\<rparr>"
  have ld: "load_dir X k ?b = (Ok (), ?y)" by (rule load_dir_run [OF op h(4,5) x])
  have cd: "close_dirs_in_list X ?b = (Ok (), ?b)"
    using e by (simp add: close_dirs_in_list_def pop_close_dir_def ret_def bnd_def)
  have "open_dir X k ?b = (Ok \<lparr>dh_key = k, dh_entries = es\<rparr>, clone_dir k ?y)"
    unfolding open_dir_def bnd_Ok [of "close_dirs_in_list X", OF cd]
    using e by (simp add: bnd_def ld get_dir_def gets_def unwrap_def modify_def ret_def)
  then show thesis using that e(5) by (simp add: h_opendir_def borrow_mut_def)
qed

lemma mount_run:
  fixes s :: "'a store_scheme" and t :: "'z fuse_scheme"
  assumes "store_ok X s is ds" "dev_open opened getsize = Ok (dev s)"
  obtains u where "mtdk_main X opened getsize t = (Ok (), u)" "dev u = dev s" "sb u = sb s" "idle u"
    "dir_fh u = Map.empty" "file_fh u = Map.empty"
proof -
  let ?t = "t\<lparr>dev := dev s\<rparr>"
  have "dev ?t = dev s" by simp
  from open_fs_run [OF assms(1) this] obtain u where u: "open_fs X ?t = (Ok (), u)" "idle u" "dev u = dev s" "sb u = sb s" by blast
  let ?u = "u\<lparr>dir_fh := Map.empty, file_fh := Map.empty\<rparr>"
  have "mtdk_main X opened getsize t = (Ok (), ?u)"
    using assms(2) u(1) by (simp add: mtdk_main_def lift_res_def bnd_def modify_def)
  moreover have "idle ?u" using u(2) by (simp add: idle_def)
  ultimately show thesis using that u(3,4) by simp
qed

lemma mtdk_run:
  fixes s :: "'a donkey_scheme" and t :: "'z fuse_scheme"
  assumes "dir_on_device X is k es s" "dev_open opened getsize = Ok (dev s)"
  obtains u where "mtdk_main X opened getsize t = (Ok (), u)" "dir_on_device X is k es u" "idle u" "dir_fh u = Map.empty"
proof -
  obtain i V ds r where "dense X V is ds (dkfile_new i, s)" using assms(1) unfolding dir_on_device_def by blast
  then have ok: "store_ok X s is ds" using file_mapD(1) [OF denseD(1)] by blast
  obtain u where u: "mtdk_main X opened getsize t = (Ok (), u)" "dev u = dev s" "sb u = sb s" "idle u" "dir_fh u = Map.empty"
    by (rule mount_run [OF ok assms(2)])
  from dir_on_device_dev [OF u(2,3) assms(1)] show thesis by (rule that [OF u(1) _ u(4,5)])
qed

lemma formattable_ratio: "formattable d bpi \<Longrightarrow> bpi < u64_limit"
proof -
  assume f: "formattable d bpi"
  then have "0 < dev_size d div bpi" "device_ok d" by (simp_all add: formattable_def)
  then have "bpi \<le> dev_size d" "dev_size d < u64_limit"
    using device_ok_size by (auto simp: div_greater_zero_iff)
  then show ?thesis by simp
qed

lemma self_entries_ok: "entries_ok (self_entries ROOT_INODE)"
  by (simp add: entries_ok_def self_entries_def om_valid_def dot_def dotdot_def)

lemma opendir_reply:
  assumes "h_opendir X (real_ino L ino) s = (Ok dh, t)"
  obtains u where "fs_opendir L X req ino fl s = (Ok (ROpened (rq_unique req) fl), u)" "dir_fh u (rq_unique req) = Some dh"
  using that assms
  by (auto simp: fs_opendir_def respond_def bnd_def modify_def ret_def insert_dir_fh_def Let_def drop_dir_def split: option.splits)

end
