(* ===== verification/Mount.thy ===== *)
theory Mount
  imports Root
begin

text \<open>
  The main function of mtdk as a whole (main.rs): the command line decides whether the file system is mounted in
  this process or in a forked child, and \<open>fuse::mount\<close> hands one request of the kernel after the other to
  the handlers until the file system is unmounted.
\<close>

section \<open>The program\<close>

text \<open>
  \<open>rs\<close> are the requests with their headers, in the order in which \<open>fuse::mount\<close> delivers them, and
  \<open>outcome\<close> is what it returns in the end.  A handler returns nothing and so has no error of its own.
\<close>

definition answered :: "('s, unit, 'a) prog \<Rightarrow> ('s, 'e, 'a) prog" where
  "answered m = (\<lambda>s. case m s of
     (Ok a, t) \<Rightarrow> (Ok a, t)
   | (Err e, t) \<Rightarrow> (Panic, t)
   | (Panic, t) \<Rightarrow> (Panic, t)
   | (Hang, t) \<Rightarrow> (Hang, t))"

primrec serve_loop ::
  "libc \<Rightarrow> ext \<Rightarrow> (dirent list \<Rightarrow> dirent \<Rightarrow> bool) \<Rightarrow> (fuse_req \<times> request) list \<Rightarrow> ('z fuse_scheme, unit, reply list) prog" where
  "serve_loop L X full [] = ret []"
| "serve_loop L X full (qr # rs) =
     bnd (serve L X full (fst qr) (snd qr)) (\<lambda>a. bnd (serve_loop L X full rs) (\<lambda>as. ret (a # as)))"

text \<open>
  Dropping \<open>DonkeyFuse\<close>: the fields go in the order of their declaration, so the file system is dropped
  before the handles.
\<close>

definition drop_fuse :: "ext \<Rightarrow> ('z fuse_scheme, dk_error, unit) prog" where
  "drop_fuse X = bnd (drop_donkey X) (\<lambda>_. modify (\<lambda>s. s\<lparr>dir_fh := Map.empty, file_fh := Map.empty\<rparr>))"

definition fuse_mount ::
  "libc \<Rightarrow> ext \<Rightarrow> (dirent list \<Rightarrow> dirent \<Rightarrow> bool) \<Rightarrow> (fuse_req \<times> request) list \<Rightarrow> io_error option
   \<Rightarrow> ('z fuse_scheme, dk_error, reply list) prog" where
  "fuse_mount L X full rs outcome =
     bnd (answered (serve_loop L X full rs)) (\<lambda>as.
     bnd (drop_fuse X) (\<lambda>_. case outcome of None \<Rightarrow> ret as | Some e \<Rightarrow> fail (dk_error_of_io e)))"

text \<open>The three arms of the match on \<open>fork()\<close>; the error of \<open>fuse::mount\<close> in the child is ignored.\<close>

datatype fork_result = Parent | Child | ForkFailed

definition mount_as_daemon ::
  "libc \<Rightarrow> ext \<Rightarrow> (dirent list \<Rightarrow> dirent \<Rightarrow> bool) \<Rightarrow> fork_result \<Rightarrow> (fuse_req \<times> request) list \<Rightarrow> io_error option
   \<Rightarrow> ('z fuse_scheme, dk_error, reply list) prog" where
  "mount_as_daemon L X full fork rs outcome = (case fork of
     Parent \<Rightarrow> bnd (drop_fuse X) (\<lambda>_. ret [])
   | Child \<Rightarrow> bnd (attempt (fuse_mount L X full rs outcome)) (\<lambda>as. ret (case as of None \<Rightarrow> [] | Some as \<Rightarrow> as))
   | ForkFailed \<Rightarrow> bnd (drop_fuse X) (\<lambda>_. ret []))"

text \<open>The result is the list of the replies that the kernel got.\<close>

definition mtdk_cli ::
  "libc \<Rightarrow> ext \<Rightarrow> (dirent list \<Rightarrow> dirent \<Rightarrow> bool) \<Rightarrow> (file_kind \<times> (nat \<Rightarrow> byte) \<times> nat) option \<Rightarrow> nat + nat \<Rightarrow> bool
   \<Rightarrow> fork_result \<Rightarrow> (fuse_req \<times> request) list \<Rightarrow> io_error option \<Rightarrow> ('z fuse_scheme, dk_error, reply list) prog" where
  "mtdk_cli L X full opened getsize daemon fork rs outcome =
     bnd (mtdk_main X opened getsize) (\<lambda>_.
     if daemon then mount_as_daemon L X full fork rs outcome else fuse_mount L X full rs outcome)"

section \<open>Flushing keeps the shape of the device\<close>

abbreviation fshape :: "dkfile \<times> 'z store_scheme \<Rightarrow> nat \<times> nat \<times> nat" where
  "fshape fs \<equiv> dev_shape (snd fs)"

lemma on_dk_shape: "stable dev_shape m \<Longrightarrow> stable fshape (on_dk m)"
  by (auto simp: stable_def on_dk_def split: prod.split) (metis snd_conv)

lemma file_shape:
  "stable fshape (get_file g)" "stable fshape (mod_file h)" "stable fshape (mod_inode h')" "stable fshape (set_dirty b)"
  by (simp_all add: stable_def get_file_def mod_file_def mod_inode_def set_dirty_def)

lemma set_db_shape: "stable dev_shape (set_db_fl_ptr p)" "stable dev_shape (set_used_db_count n)"
  by (simp_all add: dev_shape_def stable_def set_db_fl_ptr_def set_used_db_count_def)

lemma db_op_shape: "stable dev_shape (allocate_db X)" "stable dev_shape (free_db X p)"
  unfolding allocate_db_def free_db_def Let_def by (intro stable_intros free_list_shape set_db_shape write_at_shape)+

lemma flush_shape: "stable fshape (flush_file X)"
proof -
  have "stable dev_shape (write_caches X cs)" for cs
  proof (induction cs)
    case Nil
    then show ?case by (simp add: stable_def)
  next
    case (Cons c cs)
    show ?case unfolding write_caches.simps by (intro stable_intros write_at_shape Cons.IH)
  qed
  then have "stable fshape (write_ptr_cache X)"
    unfolding write_ptr_cache_def by (intro stable_intros on_dk_shape file_shape)
  moreover have "stable fshape (write_xattr X)"
    unfolding write_xattr_def inc_blocks_def by (intro stable_intros on_dk_shape file_shape db_op_shape write_at_shape)
  ultimately show ?thesis
    unfolding flush_file_def io_flush_def by (intro stable_intros on_dk_shape file_shape store_op_shape)
qed

section \<open>One request after the other\<close>

lemma serve_loop_append:
  "serve_loop L X full rs s = (Ok as, t) \<Longrightarrow> serve_loop L X full rs' t = (Ok bs, u)
   \<Longrightarrow> serve_loop L X full (rs @ rs') s = (Ok (as @ bs), u)"
proof (induction rs arbitrary: s as)
  case (Cons qr rs)
  obtain a cs v where "serve L X full (fst qr) (snd qr) s = (Ok a, v)" "serve_loop L X full rs v = (Ok cs, t)" "as = a # cs"
    using Cons.prems(1) by (auto simp: bnd_def ret_def split: prod.splits res.splits)
  then show ?case using Cons.IH [OF _ Cons.prems(2)] by (simp add: bnd_def ret_def)
qed (simp add: ret_def)

text \<open>Reading and writing do not look at the header of the request.\<close>

lemma serve_loop_all:
  "volume_requests h N M (map snd rs) \<Longrightarrow>
    (serve_loop L X full rs :: ('z fuse_scheme, unit, reply list) prog) = serve_all L X full q (map snd rs)"
proof (induction rs arbitrary: M)
  case (Cons qr rs)
  have "volume_request h N M (snd qr)" using Cons.prems by simp
  then have "(serve L X full (fst qr) (snd qr) :: 'z handler) = serve L X full q (snd qr)"
    by (cases rule: volume_request_cases) simp_all
  with Cons.IH [of "volume_after h M (snd qr)"] Cons.prems show ?case by simp
qed simp

lemma close_head:
  assumes "close_files s = i # cs" "close_file X i (s\<lparr>close_files := cs\<rparr>) = (Ok (), t)"
  shows "close_files_loop X (Suc n) s = close_files_loop X n t"
  using assms by (simp add: bnd_def pop_close_file_def)

text \<open>Files that are in use, or not in the table any more, are passed over.\<close>

lemma close_again:
  "\<forall>i \<in> set (close_files s). \<not> file_unused i s \<Longrightarrow> length (close_files s) \<le> n
   \<Longrightarrow> close_files_loop X (Suc n) s = (Ok (), s\<lparr>close_files := []\<rparr>)"
proof (induction n arbitrary: s)
  case 0
  then show ?case by (simp add: bnd_def pop_close_file_def ret_def)
next
  case (Suc n)
  show ?case
  proof (cases "close_files s")
    case Nil
    then show ?thesis by (simp add: bnd_def pop_close_file_def ret_def)
  next
    case (Cons i cs)
    let ?s = "s\<lparr>close_files := cs\<rparr>"
    have "close_file X i ?s = (Ok (), ?s)"
    proof -
      have "\<not> file_unused i ?s" using Suc.prems(1) Cons by (simp add: file_unused_def)
      then show ?thesis by (simp add: close_file_def bnd_gets ret_def)
    qed
    moreover have "close_files_loop X (Suc n) ?s = (Ok (), ?s\<lparr>close_files := []\<rparr>)"
      by (rule Suc.IH) (use Suc.prems Cons in \<open>simp_all add: file_unused_def\<close>)
    ultimately show ?thesis using close_head [OF Cons, of X ?s "Suc n"] by (simp del: close_files_loop.simps)
  qed
qed

text \<open>
  The file system is dropped while the handles of the kernel still count, so a file that the kernel has not
  released is not written back.
\<close>

lemma drop_fuse_held:
  assumes "\<forall>i \<in> set (close_files s). \<not> file_unused i s" "close_dirs s = []"
  shows "drop_fuse X s = (Ok (), s\<lparr>close_files := [], dir_fh := Map.empty, file_fh := Map.empty\<rparr>)"
proof -
  have "close_files_in_list X s = (Ok (), s\<lparr>close_files := []\<rparr>)"
    using close_again [OF assms(1) order_refl] by (simp add: close_files_in_list_def bnd_gets del: close_files_loop.simps)
  moreover have "close_dirs_in_list X s = (Ok (), s)"
    using assms(2) by (simp add: close_dirs_in_list_def bnd_def gets_def pop_close_dir_def ret_def)
  ultimately show ?thesis by (simp add: drop_fuse_def drop_donkey_def attempt_def bnd_def ret_def modify_def)
qed

text \<open>Unmounting when nothing waits to be closed, and the daemon that never comes to mount.\<close>

lemma drop_fuse_idle:
  "close_files s = [] \<Longrightarrow> close_dirs s = [] \<Longrightarrow> drop_fuse X s = (Ok (), s\<lparr>dir_fh := Map.empty, file_fh := Map.empty\<rparr>)"
  using drop_fuse_held [of s X] by (cases s) simp

lemma mtdk_cli_run:
  assumes "mtdk_main X opened getsize s = (Ok (), t)" "serve_loop L X full rs t = (Ok as, u)" "close_files u = []" "close_dirs u = []"
    "daemon \<longrightarrow> fork = Child"
  shows "mtdk_cli L X full opened getsize daemon fork rs None s = (Ok as, u\<lparr>dir_fh := Map.empty, file_fh := Map.empty\<rparr>)"
proof -
  have "fuse_mount L X full rs None t = (Ok as, u\<lparr>dir_fh := Map.empty, file_fh := Map.empty\<rparr>)"
    by (simp add: fuse_mount_def answered_def bnd_def assms(2) drop_fuse_idle [OF assms(3,4)] ret_def)
  then show ?thesis
    using assms(1,5) by (simp add: mtdk_cli_def mount_as_daemon_def attempt_def bnd_def ret_def)
qed

lemma mtdk_cli_leaves:
  assumes "mtdk_main X opened getsize s = (Ok (), t)" "idle t" "fork \<noteq> Child"
  shows "mtdk_cli L X full opened getsize True fork rs outcome s = (Ok [], t\<lparr>dir_fh := Map.empty, file_fh := Map.empty\<rparr>)"
proof -
  have "drop_fuse X t = (Ok (), t\<lparr>dir_fh := Map.empty, file_fh := Map.empty\<rparr>)"
    by (rule drop_fuse_idle) (use assms(2) in \<open>simp_all add: idle_def\<close>)
  then show ?thesis
    using assms(1,3) by (cases fork) (simp_all add: mtdk_cli_def mount_as_daemon_def bnd_def ret_def)
qed

section \<open>Opening\<close>

lemma fuse_flags_open: "open_flags L fl \<noteq> INVALID \<Longrightarrow> fuse_flags L (open_flags L fl) = Ok (fl AND O_ACCMODE L)"
  by (auto simp: open_flags_def fuse_flags_def Let_def flag_bits split: if_splits)

lemma attr_file_mode:
  assumes "attr_file X is k m C f s"
  shows "attr_file X is k m C (f\<lparr>f_inode := (f_inode f)\<lparr>i_mode := md\<rparr>, f_dirty := True\<rparr>) s"
proof -
  let ?g = "f\<lparr>f_inode := (f_inode f)\<lparr>i_mode := md\<rparr>, f_dirty := True\<rparr>" and ?h = "f\<lparr>f_inode := (f_inode f)\<lparr>i_mode := md\<rparr>\<rparr>"
  obtain V ds where f: "i_ino (f_inode f) = k" "f_xattr f = m" "0 < i_nlink (f_inode f)" "dense X V is ds (f, s)"
    "contents V (f, s) = C" "inode_used is (f, s)" "attrs_room X ds (f, s)"
    using assms unfolding attr_file_def by blast
  have map: "rows ?h = rows f" "file_map X D V is ds (?h, s) = file_map X D V is ds (f, s)" for D
    by (rule file_map_inode; simp)+
  have "dense X V is ds (?h, s)" using f(4) by (simp add: dense_def map data_ptr_def inode_fields_ok_def)
  then have "dense X V is ds (?g, s)" by simp
  moreover have "contents V (?h, s) = C" 
  proof -
    have "file_byte V (?h, s) = file_byte V (f, s)" by (simp add: file_byte_def data_ptr_def map fun_eq_iff)
    then show ?thesis using f(5) by (simp add: contents_def)
  qed
  then have "contents V (?g, s) = C" by simp
  moreover have "inode_used is (?g, s)" "attrs_room X ds (?g, s)" using f(6,7) by (simp_all add: inode_used_def attrs_room_def)
  ultimately show ?thesis using f(1-3) unfolding attr_file_def by (intro exI conjI disjI1) simp_all
qed

lemma durable_store: "durable X k m C s \<Longrightarrow> \<exists>is ds. store_ok X s is ds"
  unfolding durable_def saved_def using file_mapD(1) [OF denseD(1)] by blast

text \<open>A program run by a user other than root makes the kernel's open clear two bits of the mode.\<close>

lemma open_first:
  fixes s :: "'a store_scheme" and u :: "'z fuse_scheme"
  assumes "durable X k m C s" "idle u" "dev u = dev s" "sb u = sb s" "file_fh u = Map.empty"
    "real_ino L i = k" "open_flags L fl \<noteq> INVALID" "fuse_flags L (open_flags L fl) = (Ok out :: (unit, _) res)"
  obtains "is" f t where "fs_open L X q i fl u = (Ok (ROpened (rq_unique q) out), t)"
    "t = u\<lparr>opened_files := [k \<mapsto> f], file_refs := (file_refs u)(k := 1),
      file_fh := [rq_unique q \<mapsto> \<lparr>fh_key = k, fh_flags = open_flags L fl\<rparr>]\<rparr>"
    "attr_file X is k m C f t" "rq_req_uid q \<noteq> 0 \<longrightarrow> f_dirty f"
proof -
  let ?fl = "open_flags L fl" and ?fh = "\<lparr>fh_key = k, fh_flags = open_flags L fl\<rparr>"
  obtain V "is" ds f where f: "saved X V is ds f s" "attrs_room X ds (f, s)" "inode_used is (f, s)"
    "0 < i_nlink (f_inode f)" "k = i_ino (f_inode f)" "f_xattr f = m" "contents V (f, s) = C"
    using assms(1) unfolding durable_def by blast
  obtain g t where t: "h_open X k ?fl u = (Ok ?fh, t)" "opened_files t k = Some g" "attr_file X is k m C g t"
    "t = u\<lparr>opened_files := [k \<mapsto> g], file_refs := (file_refs u)(k := 1)\<rparr>"
    using open_saved [OF f(1-4) assms(2-4,7) f(5)] unfolding f(6,7) by metis
  define md where "md = (i_mode (f_inode g) AND NOT SET_USER_ID) AND NOT SET_GROUP_ID"
  define h where "h = (if rq_req_uid q \<noteq> 0 then g\<lparr>f_inode := (f_inode g)\<lparr>i_mode := md\<rparr>, f_dirty := True\<rparr> else g)"
  have open': "bnd (h_open X (real_ino L i) ?fl) (\<lambda>fh. if rq_req_uid q \<noteq> 0 then h_clear_set_bits fh else ret fh) u
      = (Ok ?fh, t\<lparr>opened_files := [k \<mapsto> h]\<rparr>)"
    using t(1,2) unfolding assms(6) t(4)
    by (simp add: bnd_def h_clear_set_bits_def with_file_def get_file_def mod_inode_def mod_file_def set_dirty_def
        Let_def ret_def h_def md_def)
  let ?t = "u\<lparr>opened_files := [k \<mapsto> h], file_refs := (file_refs u)(k := 1), file_fh := [rq_unique q \<mapsto> ?fh]\<rparr>"
  have "attr_file X is k m C h t" using attr_file_mode [OF t(3)] t(3) by (simp add: h_def)
  then have "attr_file X is k m C h ?t" by (rule attr_file_dev [rotated 2]) (simp_all add: t(4))
  moreover have "fs_open L X q i fl u = (Ok (ROpened (rq_unique q) out), ?t)"
    unfolding fs_open_def respond_def open'
    using assms(5,8) by (simp add: lift_res_def bnd_def modify_def insert_file_fh_def Let_def ret_def t(4))
  ultimately show thesis using that by (simp add: h_def)
qed

section \<open>Reading and writing\<close>

lemma single_file:
  assumes "volume_requests h N [k \<mapsto> C] rs"
  shows "foldl (volume_after h) [k \<mapsto> C] rs = [k \<mapsto> foldl array_after C rs]"
  using assms
proof (induction rs arbitrary: C)
  case (Cons r rs)
  have "volume_after h [k \<mapsto> C] r = [k \<mapsto> array_after C r]"
    using Cons.prems by (auto simp: volume_request_def volume_after_def split: option.splits if_splits)
  moreover have "volume_requests h N (volume_after h [k \<mapsto> C] r) rs" using Cons.prems unfolding volume_requests.simps by blast
  ultimately show ?case using Cons.IH [of "array_after C r"] by (simp only: foldl.simps)
qed simp

lemma single_room:
  assumes "length C \<le> N" "N \<le> file_limit s" "5 * (blocks_for s N - blocks_for s (length C)) < d"
  shows "room s (\<lambda>_. N) [k \<mapsto> C] d"
  using assms by (simp add: room_def grow_cost_def)

text \<open>
  What the requests between opening and releasing the file \<open>k\<close> leave: if the file has to be written back, it is
  written back with the contents \<open>C\<close>.
\<close>

definition session_step ::
  "ext \<Rightarrow> nat list \<Rightarrow> nat \<Rightarrow> byte list omap \<Rightarrow> byte list \<Rightarrow> request list \<Rightarrow> 'z fuse_scheme \<Rightarrow> 'z fuse_scheme \<Rightarrow> bool" where
  "session_step X is k m C rs s t \<longleftrightarrow> left_by (file_fh s) rs s t \<and> (\<exists>g. opened_files t k = Some g \<and> i_ino (f_inode g) = k
     \<and> 0 < i_nlink (f_inode g) \<and> (f_dirty g \<longrightarrow> attr_file X is k m C g t))"

lemma sole_volume:
  fixes s :: "'z donkey_scheme"
  assumes "opened_files s k = Some f" "attr_file X is k m C f s"
  obtains ds where "i_ino (f_inode f) = k" "f_xattr f = m" "0 < i_nlink (f_inode f)" "inode_used is (f, s)"
    "attrs_room X ds (f, s)" "volume X is [k \<mapsto> C] (length ds) s" "length ds = db_count (sb s) - used_db_count (sb s)"
proof -
  obtain V ds where f: "i_ino (f_inode f) = k" "f_xattr f = m" "0 < i_nlink (f_inode f)" "dense X V is ds (f, s)"
    "contents V (f, s) = C" "inode_used is (f, s)" "attrs_room X ds (f, s)" using assms(2) unfolding attr_file_def by blast
  have "volume_of X is [k \<mapsto> C] (\<lambda>_. V) ds (opened_files s) s"
    using assms(1) f(4,5) unfolding volume_of_def by (auto split: if_splits)
  moreover have "length ds + used_db_count (sb s) = db_count (sb s)"
    by (rule store_okD(13) [OF file_mapD(1) [OF denseD(1) [OF f(4)]]])
  ultimately show thesis using that [OF f(1-3,6,7)] unfolding volume_def by fastforce
qed

lemma kept_file:
  fixes s t :: "'z donkey_scheme"
  assumes "opened_files s k = Some f" "i_ino (f_inode f) = k" "f_xattr f = m" "0 < i_nlink (f_inode f)" "inode_used is (f, s)"
    "attrs_room X ds (f, s)" "volume X is [k \<mapsto> C] d t" "steady s t" "ds \<noteq> [] \<longrightarrow> 0 < d"
  shows "\<exists>g. opened_files t k = Some g \<and> i_ino (f_inode g) = k \<and> 0 < i_nlink (f_inode g) \<and> (f_dirty g \<longrightarrow> attr_file X is k m C g t)"
proof -
  obtain g where g: "opened_files t k = Some g" "same_id f g" by (rule steady_file [OF assms(8,1)])
  note id = same_id_fields [OF g(2)]
  obtain Vs ds' where v: "volume_of X is [k \<mapsto> C] Vs ds' (opened_files t) t" "length ds' = d" using assms(7) by (auto simp: volume_def)
  obtain g' where "opened_files t k = Some g'" "dense X (Vs k) is ds' (g', t)" "contents (Vs k) (g', t) = C"
    by (rule volume_file [OF v(1), of k]) simp_all
  then have "dense X (Vs k) is ds' (g, t)" "contents (Vs k) (g, t) = C" using g(1) by simp_all
  moreover have "inode_used is (g, t)" using assms(5,8) id(2) by (simp add: inode_used_def steady_def)
  moreover have "attrs_room X ds' (g, t)" using assms(6,8,9) id(4,5) v(2) by (auto simp: attrs_room_def steady_def)
  ultimately show ?thesis using g(1) id(2,3,5) assms(2-4) unfolding attr_file_def by auto
qed

lemma served_step:
  fixes s :: "'z fuse_scheme"
  assumes "opened_files s k = Some f" "attr_file X is k m C f s" "\<not> borrowed s" "clock_ok X" "codec_ok X"
    "volume_requests (file_fh s) (\<lambda>_. N) [k \<mapsto> C] (map snd rs)" "length C \<le> N" "N \<le> file_limit s"
    "5 * (blocks_for s N - blocks_for s (length C)) < db_count (sb s) - used_db_count (sb s)"
  obtains t where "serve_loop L X full rs s = (Ok (volume_replies (file_fh s) [k \<mapsto> C] (map snd rs)), t)"
    "session_step X is k m (foldl array_after C (map snd rs)) (map snd rs) s t"
proof -
  let ?rs = "map snd rs" and ?C = "foldl array_after C (map snd rs)"
  obtain ds where f: "i_ino (f_inode f) = k" "f_xattr f = m" "0 < i_nlink (f_inode f)" "inode_used is (f, s)"
    "attrs_room X ds (f, s)" "volume X is [k \<mapsto> C] (length ds) s" "length ds = db_count (sb s) - used_db_count (sb s)"
    by (rule sole_volume [OF assms(1,2)])
  have room: "room s (\<lambda>_. N) [k \<mapsto> C] (length ds)" using assms(7-9) f(7) by (intro single_room) simp_all
  from served_requests [OF f(6) assms(4,5,3) room assms(6), of L full undefined] obtain t d where
    t: "serve_all L X full undefined ?rs s = (Ok (volume_replies (file_fh s) [k \<mapsto> C] ?rs), t)"
    "volume X is [k \<mapsto> ?C] d t" "0 < d" "left_by (file_fh s) ?rs s t"
    unfolding single_file [OF assms(6)] by blast
  have "steady s t" using t(4) by (simp add: left_by_def)
  then have "session_step X is k m ?C ?rs s t"
    using t(4) kept_file [OF assms(1) f(1-5) t(2)] t(3) by (simp add: session_step_def)
  moreover have "serve_loop L X full rs s = (Ok (volume_replies (file_fh s) [k \<mapsto> C] ?rs), t)"
    using t(1) by (simp only: serve_loop_all [OF assms(6), of L X full undefined])
  ultimately show thesis using that by simp
qed

lemma read_step:
  fixes s :: "'z fuse_scheme"
  assumes "opened_files s k = Some f" "attr_file X is k m C f s" "\<not> borrowed s" "clock_ok X" "codec_ok X"
    "file_fh s u = Some fh" "fh_key fh = k" "off < 9223372036854775808"
  obtains t where "serve_loop L X full [(q, Read u (int off) n)] s = (Ok [RData (take n (drop off C))], t)"
    "session_step X is k m C [Read u (int off) n] s t"
proof -
  obtain ds where f: "i_ino (f_inode f) = k" "f_xattr f = m" "0 < i_nlink (f_inode f)" "inode_used is (f, s)"
    "attrs_room X ds (f, s)" "volume X is [k \<mapsto> C] (length ds) s" "length ds = db_count (sb s) - used_db_count (sb s)"
    by (rule sole_volume [OF assms(1,2)])
  have M: "[k \<mapsto> C] (fh_key fh) = Some C" using assms(7) by simp
  obtain t where t: "serve L X full q (Read u (int off) n) s = (Ok (RData (take n (drop off C))), t)"
    "volume X is [k \<mapsto> C] (length ds) t" "\<not> borrowed t" "block_size (sb t) = block_size (sb s)" "file_fh t = file_fh s"
    "steady s t" "file_refs t = file_refs s"
    by (rule served_read [OF f(6) assms(4,5,3,6) M assms(8)])
  have "left_by (file_fh s) [Read u (int off) n] s t" using t(3,5-7) by (simp add: left_by_def)
  then have "session_step X is k m C [Read u (int off) n] s t"
    using kept_file [OF assms(1) f(1-5) t(2,6)] by (simp add: session_step_def)
  moreover have "serve_loop L X full [(q, Read u (int off) n)] s = (Ok [RData (take n (drop off C))], t)"
    using t(1) by (simp add: bnd_def ret_def)
  ultimately show thesis using that by simp
qed

section \<open>Releasing\<close>

lemma release_run:
  fixes s :: "'z fuse_scheme"
  assumes "opened_files s = [k \<mapsto> g]" "file_fh s u = Some fh" "fh_key fh = k" "i_ino (f_inode g) = k" "file_refs s k = 1"
    "set (close_files s) \<subseteq> {k}" "close_dirs s = []" "\<not> borrowed s"
    and flush: "\<And>s' :: 'z fuse_scheme. dev s' = dev s \<Longrightarrow> sb s' = sb s \<Longrightarrow> \<exists>h t. flush_file X (g, s') = (Ok (), (h, t))
      \<and> store.more t = store.more s' \<and> 0 < i_nlink (f_inode h) \<and> D (dev t) (sb t)"
  obtains t where "fs_release X u s = (Ok ROk, t)" "D (dev t) (sb t)" "opened_files t = Map.empty" "close_files t = []" "close_dirs t = []"
proof -
  let ?s1 = "drop_file k (s\<lparr>file_fh := (file_fh s)(u := None)\<rparr>)"
  have s1: "opened_files ?s1 = [k \<mapsto> g]" "file_refs ?s1 k = 0" "close_files ?s1 = k # close_files s" "close_dirs ?s1 = []"
    "\<not> borrowed ?s1" "dev ?s1 = dev s" "sb ?s1 = sb s"
    using assms(1,4,5,7,8) by (simp_all add: drop_file_def)
  let ?s2 = "?s1\<lparr>borrowed := True, close_files := close_files s\<rparr>"
  obtain h t where t: "flush_file X (g, ?s2) = (Ok (), (h, t))" "store.more t = store.more ?s2" "0 < i_nlink (f_inode h)" "D (dev t) (sb t)"
    using flush [of ?s2] s1(6,7) by auto
  let ?t = "t\<lparr>opened_files := (opened_files ?s2)(k := None)\<rparr>"
  have "close_file X k ?s2 = (Ok (), ?t)"
    by (rule close_file_flushed [OF _ _ t(1-3)]) (use s1 in simp_all)
  moreover have mt: "close_files ?t = close_files s" "close_dirs ?t = []"
    using t(2) s1(4) by (cases ?s1, cases t, simp)+
  moreover have "close_files_loop X (Suc (length (close_files s))) ?t = (Ok (), ?t\<lparr>close_files := []\<rparr>)"
    by (rule close_again) (use mt(1) assms(6) in \<open>auto simp: file_unused_def\<close>)
  ultimately have cl: "close_files_in_list X (?s1\<lparr>borrowed := True\<rparr>) = (Ok (), ?t\<lparr>close_files := []\<rparr>)"
    using close_head [of "?s1\<lparr>borrowed := True\<rparr>" k "close_files s" X ?t "Suc (length (close_files s))"] s1(3)
    by (simp add: close_files_in_list_def bnd_gets del: close_files_loop.simps)
  have cd: "close_dirs_in_list X (?s1\<lparr>borrowed := True\<rparr>) = (Ok (), ?s1\<lparr>borrowed := True\<rparr>)"
    using s1(4) by (simp add: close_dirs_in_list_def bnd_def gets_def pop_close_dir_def ret_def)
  let ?u = "?t\<lparr>close_files := [], borrowed := False\<rparr>"
  have "?s1\<lparr>borrowed := False\<rparr> = ?s1" using s1(5) by (cases ?s1) simp
  then have "h_apply_releases X ?s1 = (Ok (), ?u)"
    using s1(5) by (simp add: h_apply_releases_def bnd_def borrow_mut_def cd cl)
  then have "fs_release X u s = (Ok ROk, ?u)"
    using assms(2,3) by (simp add: fs_release_def bnd_def gets_def modify_def respond_def reply_ok_def ret_def)
  then show thesis by (rule that) (use t(4) s1(1) mt in simp_all)
qed


section \<open>A whole session\<close>

lemma durable_dev: "dev t = dev s \<Longrightarrow> sb t = sb s \<Longrightarrow> durable X k m C s \<Longrightarrow> durable X k m C t"
  unfolding durable_def using saved_dev [of t s] dense_dev [of t s] by metis

text \<open>Flushing before the file is closed: a file that is not dirty stays as the device has it.\<close>

lemma flush_step:
  fixes s :: "'z donkey_scheme"
  assumes "f_dirty g \<longrightarrow> attr_file X is k m C g s" "0 < i_nlink (f_inode g)"
  obtains h t where "flush_file X (g, s) = (Ok (), (h, t))" "store.more t = store.more s" "0 < i_nlink (f_inode h)"
    "dev_shape t = dev_shape s" "f_dirty g \<longrightarrow> durable X k m C t"
proof (cases "f_dirty g")
  case True
  obtain h t V ds where t: "flush_file X (g, s) = (Ok (), (h, t))" "store.more t = store.more s"
    "block_size (sb t) = block_size (sb s)" "i_ino (f_inode h) = k" "f_xattr h = m" "0 < i_nlink (f_inode h)"
    "saved X V is ds h t" "attrs_room X ds (h, t)" "inode_used is (h, t)" "contents V (h, t) = C"
    using flush_saves assms(1) True by blast
  have "durable X k m C t" using t(4-10) unfolding durable_def by blast
  then show ?thesis using that [OF t(1,2,6)] stableD [OF flush_shape t(1)] by simp
next
  case False
  then have "flush_file X (g, s) = (Ok (), (g, s))" by (simp add: flush_file_def io_flush_def map_err_def bnd_def)
  then show ?thesis using that assms(2) False by simp
qed

lemma steady_sole:
  assumes "steady s t" "opened_files s = [k \<mapsto> f]" "i_ino (f_inode f) = k" "opened_files t k = Some g"
  shows "opened_files t = [k \<mapsto> g]" "set (close_files t) \<subseteq> set (close_files s) \<union> {k}" "f_dirty f \<longrightarrow> f_dirty g"
proof -
  show "opened_files t = [k \<mapsto> g]"
  proof
    fix j
    have "rel_option (\<lambda>f g. same_id f g \<and> (f_dirty f \<longrightarrow> f_dirty g)) (opened_files s j) (opened_files t j)"
      using assms(1) by (simp add: steady_def)
    then show "opened_files t j = [k \<mapsto> g] j" using assms(2,4) by (cases "j = k") auto
  qed
  have "file_numbers s = {k}" using assms(2,3) by (auto simp: file_numbers_def split: if_splits)
  then show "set (close_files t) \<subseteq> set (close_files s) \<union> {k}" using assms(1) by (auto simp: steady_def)
  show "f_dirty f \<longrightarrow> f_dirty g" using steady_file [OF assms(1), of k f] assms(2,4) by auto
qed

text \<open>After the requests the kernel releases the file, and then there is nothing left to be closed.\<close>

lemma session_ends:
  fixes s t :: "'z fuse_scheme"
  assumes "opened_files s = [k \<mapsto> f]" "file_refs s k = 1" "close_files s = []" "close_dirs s = []"
    "file_fh s = [u \<mapsto> fh]" "fh_key fh = k" "i_ino (f_inode f) = k" "session_step X is k m C rs s t"
  obtains w where "fs_release X u t = (Ok ROk, w)" "close_files w = []" "close_dirs w = []" "dev_shape w = dev_shape s"
    "f_dirty f \<or> list_ex (writes (file_fh s) k) rs \<Longrightarrow> durable X k m C w"
proof -
  obtain g where g: "opened_files t k = Some g" "i_ino (f_inode g) = k" "0 < i_nlink (f_inode g)" "f_dirty g \<longrightarrow> attr_file X is k m C g t"
    and left: "left_by (file_fh s) rs s t" using assms(8) unfolding session_step_def by blast
  have st: "steady s t" "\<not> borrowed t" "file_fh t = file_fh s" "file_refs t = file_refs s" using left by (simp_all add: left_by_def)
  note sole = steady_sole [OF st(1) assms(1,7) g(1)]
  have lists: "close_dirs t = []" "dev_shape t = dev_shape s" using st(1) assms(4) by (simp_all add: steady_def)
  let ?dirty = "f_dirty f \<or> list_ex (writes (file_fh s) k) rs"
  have dirty: "f_dirty g" if ?dirty
    using that sole(3) left g(1) unfolding left_by_def by (metis option.inject)
  define D where "D d b \<longleftrightarrow> (\<forall>v :: 'z fuse_scheme. dev v = d \<longrightarrow> sb v = b \<longrightarrow> dev_shape v = dev_shape s \<and> (?dirty \<longrightarrow> durable X k m C v))"
    for d b
  have flush: "\<exists>h v. flush_file X (g, s') = (Ok (), (h, v)) \<and> store.more v = store.more s' \<and> 0 < i_nlink (f_inode h) \<and> D (dev v) (sb v)"
    if s': "dev s' = dev t" "sb s' = sb t" for s' :: "'z fuse_scheme"
  proof -
    have "f_dirty g \<longrightarrow> attr_file X is k m C g s'" using attr_file_dev [OF s'] g(4) by blast
    from flush_step [OF this g(3)] obtain h v where v: "flush_file X (g, s') = (Ok (), (h, v))" "store.more v = store.more s'"
      "0 < i_nlink (f_inode h)" "dev_shape v = dev_shape s'" "f_dirty g \<longrightarrow> durable X k m C v" by blast
    have "dev_shape v = dev_shape s" using v(4) lists(2) s'(1) by (simp add: dev_shape_def)
    then have "D (dev v) (sb v)" using v(5) dirty durable_dev [of _ v] unfolding D_def by (auto simp: dev_shape_def)
    then show ?thesis using v(1-3) by blast
  qed
  obtain w where w: "fs_release X u t = (Ok ROk, w)" "D (dev w) (sb w)" "opened_files w = Map.empty" "close_files w = []" "close_dirs w = []"
    by (rule release_run [OF sole(1) _ assms(6) g(2) _ _ lists(1) st(2) flush])
      (use st(3,4) assms(2,3,5) sole(2) in simp_all)
  have "dev_shape w = dev_shape s" "?dirty \<longrightarrow> durable X k m C w" using w(2) unfolding D_def by blast+
  then show thesis using that [OF w(1,4,5)] by blast
qed

text \<open>The file system is mounted, the kernel opens the file \<open>k\<close>, uses it and releases it, and unmounts.\<close>

lemma session_run:
  fixes s :: "'a store_scheme" and s0 :: "'z fuse_scheme"
  assumes "durable X k m C s" "dev_open opened getsize = Ok (dev s)" "real_ino L i = k" "open_flags L fl \<noteq> INVALID"
    "h = [rq_unique q \<mapsto> \<lparr>fh_key = k, fh_flags = open_flags L fl\<rparr>]" "daemon \<longrightarrow> fork = Child"
    and mid: "\<And>is f (s1 :: 'z fuse_scheme). opened_files s1 k = Some f \<Longrightarrow> attr_file X is k m C f s1 \<Longrightarrow> \<not> borrowed s1
      \<Longrightarrow> file_fh s1 = h \<Longrightarrow> dev s1 = dev s \<Longrightarrow> sb s1 = sb s
      \<Longrightarrow> \<exists>t. serve_loop L X full rs s1 = (Ok as, t) \<and> session_step X is k m C' (map snd rs) s1 t"
  obtains t where "mtdk_cli L X full opened getsize daemon fork ((q, Open i fl) # rs @ [(q', Release (rq_unique q))]) None s0
      = (Ok (ROpened (rq_unique q) (fl AND O_ACCMODE L) # as @ [ROk]), t)" "dev_shape t = dev_shape s"
    "rq_req_uid q \<noteq> 0 \<or> list_ex (writes h k) (map snd rs) \<Longrightarrow> durable X k m C' t"
proof -
  let ?u = "rq_unique q" and ?rs = "(q, Open i fl) # rs @ [(q', Release (rq_unique q))]"
  let ?as = "ROpened (rq_unique q) (fl AND O_ACCMODE L) # as @ [ROk]"
  obtain "is" ds where ok: "store_ok X s is ds" using durable_store [OF assms(1)] by blast
  obtain u :: "'z fuse_scheme" where u: "mtdk_main X opened getsize s0 = (Ok (), u)" "dev u = dev s" "sb u = sb s" "idle u"
    "dir_fh u = Map.empty" "file_fh u = Map.empty" by (rule mount_run [OF ok assms(2)])
  obtain "is" f s1 where s1: "fs_open L X q i fl u = (Ok (ROpened ?u (fl AND O_ACCMODE L)), s1)"
    "s1 = u\<lparr>opened_files := [k \<mapsto> f], file_refs := (file_refs u)(k := 1), file_fh := [?u \<mapsto> \<lparr>fh_key = k, fh_flags = open_flags L fl\<rparr>]\<rparr>"
    "attr_file X is k m C f s1" "rq_req_uid q \<noteq> 0 \<longrightarrow> f_dirty f"
    by (rule open_first [OF assms(1) u(4,2,3,6) assms(3,4) fuse_flags_open [OF assms(4)]])
  have i1: "opened_files s1 = [k \<mapsto> f]" "file_refs s1 k = 1" "close_files s1 = []" "close_dirs s1 = []"
    "file_fh s1 = [?u \<mapsto> \<lparr>fh_key = k, fh_flags = open_flags L fl\<rparr>]" "\<not> borrowed s1" "dev s1 = dev s" "sb s1 = sb s"
    using u(2-4) by (simp_all add: s1(2) idle_def)
  obtain t where t: "serve_loop L X full rs s1 = (Ok as, t)" "session_step X is k m C' (map snd rs) s1 t"
    using mid [OF _ s1(3) i1(6) _ i1(7,8)] i1(1,5) assms(5) by auto
  have "i_ino (f_inode f) = k" using s1(3) unfolding attr_file_def by blast
  from session_ends [OF i1(1-5) _ this t(2)] obtain w where w: "fs_release X ?u t = (Ok ROk, w)" "close_files w = []" "close_dirs w = []"
    "dev_shape w = dev_shape s1" "f_dirty f \<or> list_ex (writes h k) (map snd rs) \<longrightarrow> durable X k m C' w"
    using i1(5) assms(5) by auto
  let ?w = "w\<lparr>dir_fh := Map.empty, file_fh := Map.empty\<rparr>"
  have "serve_loop L X full (rs @ [(q', Release ?u)]) s1 = (Ok (as @ [ROk]), w)"
    by (rule serve_loop_append [OF t(1)]) (simp add: bnd_def w(1) ret_def)
  then have "serve_loop L X full ?rs u = (Ok ?as, w)" by (simp add: bnd_def s1(1) ret_def)
  then have "mtdk_cli L X full opened getsize daemon fork ?rs None s0 = (Ok ?as, ?w)"
    by (rule mtdk_cli_run [OF u(1) _ w(2,3) assms(6)])
  moreover have "dev_shape ?w = dev_shape s" using w(4) i1(7) by (simp add: dev_shape_def)
  moreover have "durable X k m C' ?w" if "rq_req_uid q \<noteq> 0 \<or> list_ex (writes h k) (map snd rs)"
  proof -
    have "durable X k m C' w" using w(5) s1(4) that by blast
    then show ?thesis by (rule durable_dev [rotated 2]) simp_all
  qed
  ultimately show thesis by (rule that)
qed

end
