(* ===== verification/Truncate.thy ===== *)
theory Truncate
  imports Nodes
begin

text \<open>
  Truncation, and \<open>setattr\<close> as a whole.  \<open>free_file_db\<close> frees all direct blocks as soon as one of them is
  to be freed, so a file that is cut within its direct blocks loses everything.
\<close>

section \<open>What is freed\<close>

lemma clear_entries_cong:
  "(\<And>st p. start \<le> st \<Longrightarrow> r st p = r' st p) \<Longrightarrow> clear_entries X r sub start ps = clear_entries X r' sub start ps"
proof (induction ps arbitrary: start)
  case (Cons p ps)
  have "clear_entries X r sub (start + sub) ps = clear_entries X r' sub (start + sub) ps"
    by (rule Cons.IH) (use Cons.prems in simp)
  then have "bnd (ck_add start sub) (\<lambda>start'. clear_entries X r sub start' ps)
      = bnd (ck_add start sub) (\<lambda>start'. clear_entries X r' sub start' ps)"
    by (simp add: fun_eq_iff ck_add_def bnd_def ret_def panic_def)
  then show ?case using Cons.prems [of start p] by simp
qed simp

lemma clear_pointers_from:
  "from \<le> start \<Longrightarrow> (clear_pointers_rec X from l start p :: ('z, dk_error, bool) fprog) = clear_pointers_rec X 0 l start p"
proof (induction l arbitrary: start p)
  case (Suc l)
  have "(clear_entries X (\<lambda>st p. clear_pointers_rec X from l st p) sub start ps :: ('z, dk_error, unit) fprog)
      = clear_entries X (\<lambda>st p. clear_pointers_rec X 0 l st p) sub start ps" for sub ps
    by (rule clear_entries_cong) (rule Suc.IH [OF order_trans [OF Suc.prems]])
  then show ?case by (simp only: clear_pointers_rec.simps Suc.prems le0)
qed simp

lemma free_indirect_from:
  "from \<le> start \<Longrightarrow> (free_indirect X from start is' :: ('z, dk_error, unit) fprog) = free_indirect X 0 start is'"
proof (induction is' arbitrary: start)
  case (Cons i is')
  have "(bnd (ck_add start n) (\<lambda>start'. free_indirect X from start' is') :: ('z, dk_error, unit) fprog)
      = bnd (ck_add start n) (\<lambda>start'. free_indirect X 0 start' is')" for n
    using Cons.IH [OF trans_le_add1 [OF Cons.prems], of n] by (simp add: fun_eq_iff ck_add_def bnd_def ret_def panic_def)
  then show ?case by (simp add: clear_pointers_from [OF Cons.prems])
qed simp

lemma free_file_db_from: "from < 12 \<Longrightarrow> (free_file_db X from :: ('z, dk_error, unit) fprog) = free_file_db X 0"
proof -
  assume "from < 12"
  moreover from this have "(free_indirect X from 12 [1, 2, 3, 4] :: ('z, dk_error, unit) fprog) = free_indirect X 0 12 [1, 2, 3, 4]"
    by (intro free_indirect_from) simp
  ultimately show ?thesis unfolding free_file_db_def by (simp only: if_True zero_less_numeral)
qed

section \<open>The file that is left\<close>

definition bare :: "dkfile \<Rightarrow> dkfile" where
  "bare f = f\<lparr>f_inode := (f_inode f)\<lparr>i_blocks := 0, i_ptrs := default_ptrs\<rparr>\<rparr>"

definition null_root :: "nat \<times> nat \<Rightarrow> (nat \<Rightarrow> nat list) \<Rightarrow> nat \<Rightarrow> nat list" where
  "null_root r R = R(fst r := (R (fst r))[snd r := 0])"

lemma put_row_bare: "i \<le> 4 \<Longrightarrow> bare (put_row i k p f) = bare f"
  by (simp add: bare_def)

lemma bare_clear_root: "i \<le> 4 \<Longrightarrow> bare (clear_root V (i, j) f) = bare f"
  by (simp add: clear_root_def put_row_bare) (simp add: bare_def lower_blocks_def)

lemma fold_clear_root:
  assumes "distinct rs" "\<And>i j. (i, j) \<in> set rs \<Longrightarrow> i \<le> 4"
  shows "bare (fold (clear_root V) rs f) = bare f"
    "rows (fold (clear_root V) rs f) = fold null_root rs (rows f)"
    "i_blocks (f_inode (fold (clear_root V) rs f)) = i_blocks (f_inode f) - length (concat (map (hung V f) rs))"
proof -
  have "bare (fold (clear_root V) rs f) = bare f
    \<and> rows (fold (clear_root V) rs f) = fold null_root rs (rows f)
    \<and> i_blocks (f_inode (fold (clear_root V) rs f)) = i_blocks (f_inode f) - length (concat (map (hung V f) rs))"
    using assms
  proof (induction rs arbitrary: f)
    case (Cons r rs)
    obtain i j where r: "r = (i, j)" by fastforce
    have i: "i \<le> 4" by (rule Cons.prems(2) [of i j]) (simp add: r)
    note c = clear_root_fields(1,2) [OF i, of V j f]
    have "hung V (clear_root V (i, j) f) r' = hung V f r'" if r': "r' \<in> set rs" for r'
    proof -
      obtain i' j' where e: "r' = (i', j')" by fastforce
      then have "i' = i \<longrightarrow> j \<noteq> j'" using Cons.prems(1) r r' by auto
      then show ?thesis by (simp add: e hung_def c(1))
    qed
    then have m: "map (hung V (clear_root V (i, j) f)) rs = map (hung V f) rs" by simp
    have ih: "bare (fold (clear_root V) rs (clear_root V (i, j) f)) = bare (clear_root V (i, j) f)
      \<and> rows (fold (clear_root V) rs (clear_root V (i, j) f)) = fold null_root rs (rows (clear_root V (i, j) f))
      \<and> i_blocks (f_inode (fold (clear_root V) rs (clear_root V (i, j) f)))
        = i_blocks (f_inode (clear_root V (i, j) f)) - length (concat (map (hung V (clear_root V (i, j) f)) rs))"
      by (rule Cons.IH) (use Cons.prems in auto)
    show ?case using ih unfolding m r by (simp add: c bare_clear_root [OF i] null_root_def [of "(i, j)"])
  qed simp
  then show "bare (fold (clear_root V) rs f) = bare f"
    "rows (fold (clear_root V) rs f) = fold null_root rs (rows f)"
    "i_blocks (f_inode (fold (clear_root V) rs f)) = i_blocks (f_inode f) - length (concat (map (hung V f) rs))"
    by blast+
qed

lemma zero_row: "length xs = 12 \<Longrightarrow> fold (\<lambda>j xs. xs[j := 0]) [0..<12] xs = replicate 12 (0 :: nat)"
  by (rule nth_equalityI) (auto simp: upt_rec nth_list_update numeral_eq_Suc less_Suc_eq)

lemma null_roots:
  assumes "length (R 0) = 12" "\<forall>i \<in> {1..4}. length (R i) = 1"
  shows "fold null_root roots R 0 = replicate 12 0" "fold null_root roots R 1 = [0]" "fold null_root roots R 2 = [0]"
    "fold null_root roots R 3 = [0]" "fold null_root roots R 4 = [0]"
proof -
  have up: "fold null_root (map (Pair 0) js) Q = Q(0 := fold (\<lambda>j xs. xs[j := 0]) js (Q 0))" for js Q
    by (induction js arbitrary: Q) (simp_all add: null_root_def)
  have one: "xs[0 := 0] = [0 :: nat]" if "length xs = 1" for xs using that by (cases xs) simp_all
  have l: "length (R 1) = 1" "length (R 2) = 1" "length (R 3) = 1" "length (R 4) = 1" using assms(2) by simp_all
  have "fold null_root roots R = R(0 := replicate 12 0, 1 := [0], 2 := [0], 3 := [0], 4 := [0])"
    unfolding roots_def fold_append comp_def up zero_row [OF assms(1)]
    by (simp add: null_root_def one [OF l(1), simplified] one [OF l(2)] one [OF l(3)] one [OF l(4)])
  then show "fold null_root roots R 0 = replicate 12 0" "fold null_root roots R 1 = [0]" "fold null_root roots R 2 = [0]"
    "fold null_root roots R 3 = [0]" "fold null_root roots R 4 = [0]" by simp_all
qed

lemma blank_ptrs:
  assumes "rows g 0 = replicate 12 0" "rows g 1 = [0]" "rows g 2 = [0]" "rows g 3 = [0]" "rows g 4 = [0]"
  shows "i_ptrs (f_inode g) = default_ptrs"
  using assms by (cases "i_ptrs (f_inode g)") (simp add: rows_simps default_ptrs_def)

lemma bare_id: "i_ptrs (f_inode g) = default_ptrs \<Longrightarrow> i_blocks (f_inode g) = 0 \<Longrightarrow> bare g = g"
  by (cases g, cases "f_inode g") (simp add: bare_def)

lemma cleared_file:
  assumes "tree_ok pc B (rows f) V" "0 < pc" "i_blocks (f_inode f) \<le> card (all_nodes pc (rows f) V)"
  shows "fold (clear_root V) roots f = bare f"
proof -
  let ?g = "fold (clear_root V) roots f"
  note d = roots_places(2)
  have le: "i \<le> 4" if "(i, j) \<in> set roots" for i j using that by (auto simp: roots_def)
  note c = fold_clear_root [OF d le, where V = V and f = f]
  have len: "length (rows f 0) = 12" "\<forall>i \<in> {1..4}. length (rows f i) = 1" using assms(1) by (simp_all add: tree_ok_def)
  have p: "i_ptrs (f_inode ?g) = default_ptrs" by (rule blank_ptrs) (simp_all only: c(2) null_roots [OF len])
  have "length (concat (map (hung V f) roots)) = card (all_nodes pc (rows f) V)"
    using forest_blocks [OF assms(1,2)] distinct_card by metis
  then have b: "i_blocks (f_inode ?g) = 0" using assms(3) c(3) by simp
  from bare_id [OF p b] c(1) show ?thesis by simp
qed

section \<open>Truncation within the direct blocks\<close>

text \<open>What is left of \<open>f\<close>: no blocks, the new size, and two times.\<close>

definition emptied :: "nat \<Rightarrow> dk_timespec \<Rightarrow> dk_timespec \<Rightarrow> dkfile \<Rightarrow> dkfile" where
  "emptied n b a f = f\<lparr>f_inode := (f_inode f)\<lparr>i_size := n, i_blocks := 0, i_ptrs := default_ptrs, i_mtime := b, i_ctime := a\<rparr>,
     f_dirty := True\<rparr>"

lemma no_cache:
  assumes "f_cache f = [None, None, None, None]"
  shows "\<not> cached f k p pb"
proof
  assume c: "cached f k p pb"
  then have "k = 0 \<or> k = Suc 0 \<or> k = Suc (Suc 0) \<or> k = Suc (Suc (Suc 0))" by (simp add: cached_def) linarith
  then show False using c assms by (elim disjE) (simp_all add: cached_def)
qed

lemma blocks_below:
  assumes "0 < bs" "n \<le> 11 * bs"
  shows "(n + bs - 1) div bs < (12 :: nat)"
proof -
  have "n + bs - 1 < 12 * bs" using assms by simp
  then show ?thesis using assms(1) by (simp add: less_mult_imp_div_less)
qed

lemma truncate_run:
  assumes "dense X V is ds (f, s)" "f_cache f = [None, None, None, None]" "i_xattr_ptr (f_inode f) = 0"
    "n < i_size (f_inode f)" "n \<le> 11 * block_size (sb s)" "n + block_size (sb s) < u64_limit" "clock_ok X"
  obtains a b t qs where "update_size X n (f, s) = (Ok (), (emptied n b a f, t))" "store_ok X t is (rev qs @ ds)"
    "distinct qs" "set qs = all_nodes (pcount s) (rows f) V" "store.more t = store.more s"
    "block_size (sb t) = block_size (sb s)" "pcount t = pcount s" "timespec_ok a" "timespec_ok b"
    "inode_numbers (sb t) = inode_numbers (sb s)"
proof -
  note M = file_mapD [OF denseD(1) [OF assms(1)]]
  let ?f = "f\<lparr>f_dirty := True\<rparr>"
  have rf: "rows ?f = rows f" by (simp add: rows_def fun_eq_iff)
  have fl: "flushed X V (?f, s)"
    using M(5) no_cache [OF assms(2)] by (simp add: flushed_def disk_view_def rf)
  have bs: "0 < block_size (sb s)" "0 < pcount s" using store_okD(5,7) [OF M(1)] by simp_all
  have ib: "i_blocks (f_inode ?f) = card (all_nodes (pcount s) (rows ?f) V)" using M(6) assms(3) by (simp add: blocks_ok_def rf)
  have tree: "tree_ok (pcount s) (data_blocks s - set ds) (rows ?f) V" unfolding rf by (rule M(3))
  obtain g t qs where g: "free_file_db X 0 (?f, s) = (Ok (), (g, t))" "freed X is ds s qs t"
    "set qs = all_nodes (pcount s) (rows ?f) V" "same_id ?f g" "g = fold (clear_root V) roots ?f"
    by (rule free_file_db_run [OF M(1,2) tree fl eq_imp_le [OF ib [symmetric]]])
  have gb: "g = bare ?f" unfolding g(5) by (rule cleared_file [OF tree bs(2) eq_imp_le [OF ib]])
  have id: "same_id f g" using g(4) by (simp add: same_id_def stem_def)
  have upto: "free_file_db X ((n + block_size (sb s) - 1) div block_size (sb s)) (?f, s) = (Ok (), (g, t))"
    unfolding free_file_db_from [OF blocks_below [OF bs(1) assms(5)]] by (rule g(1))
  obtain a b u where u: "update_size X n (f, s) =
      (Ok (), (g\<lparr>f_inode := (f_inode g)\<lparr>i_size := n, i_mtime := b, i_ctime := a\<rparr>\<rparr>, u))"
    "freed X is ds s qs u" "timespec_ok a \<or> a = i_ctime (f_inode g)" "timespec_ok b \<or> b = i_mtime (f_inode g)"
    using update_size_shrink [OF assms(4) bs(1) assms(6) upto id g(2) assms(7)] by blast
  have e: "g\<lparr>f_inode := (f_inode g)\<lparr>i_size := n, i_mtime := b, i_ctime := a\<rparr>\<rparr> = emptied n b a f"
    unfolding gb emptied_def bare_def by simp
  have ok: "inode_fields_ok (f_inode f)" using assms(1) by (simp add: dense_def)
  have ts: "timespec_ok a" "timespec_ok b"
    using u(3,4) ok unfolding gb bare_def inode_fields_ok_def by auto
  note D = freed_D [OF u(2)]
  have ev: "evolves (sb_range \<union> block_bytes (block_size (sb s)) (set qs)) s u" using u(2) by (simp add: freed_def)
  have "distinct qs" using store_okD(9) [OF D(1)] by simp
  then show thesis
    using that [OF u(1) [unfolded e] D(1) _ g(3) [unfolded rf] evolves_simps(6) [OF ev] D(2,3) ts evolves_simps(4) [OF ev]] by blast
qed

text \<open>A block that the file does not have is read as its end.\<close>

lemma hole_read:
  assumes "file_map X {} V is ds (f, s)" "f_pos f div block_size (sb s) < max_blocks (pcount s)"
    "data_ptr V (f, s) (f_pos f div block_size (sb s)) = 0"
  obtains g t where "dk_read X m (f, s) = (Ok [], (g, t))"
proof (cases "i_size (f_inode f) \<le> f_pos f")
  case True
  then show ?thesis using that by (simp add: dk_read_def bnd_def)
next
  case False
  let ?bi = "f_pos f div block_size (sb s)"
  have bs: "0 < block_size (sb s)" using store_okD(5) [OF file_mapD(1) [OF assms(1)]] by simp
  obtain g t where "locate X ?bi (f, s) = (Ok (let p = block_ptr (pcount s) (rows f) V ?bi in if p = 0 then None else Some p), (g, t))"
    by (rule locate_Ok [OF assms(1,2)])
  then have "locate X ?bi (f, s) = (Ok None, (g, t))" using assms(3) by (simp add: data_ptr_def)
  then show ?thesis using that False bs by (simp add: dk_read_def bnd_def block_of_pos_def ret_def)
qed

lemma hole_read_all:
  assumes "file_map X {} V is ds (f, s)" "f_pos f div block_size (sb s) < max_blocks (pcount s)"
    "data_ptr V (f, s) (f_pos f div block_size (sb s)) = 0"
  obtains g t where "take_read_to_end X m (f, s) = (Ok [], (g, t))"
proof (cases "m = 0")
  case True
  then show ?thesis using that by (simp add: take_read_to_end_def ret_def)
next
  case False
  obtain g t where "dk_read X (min (rte_buf X 0) m) (f, s) = (Ok [], (g, t))"
    by (rule hole_read [OF assms])
  then show ?thesis using that False
    by (simp add: take_read_to_end_def io_read_def map_err_def bnd_def ret_def)
qed

lemma emptied_map:
  assumes "store_ok X s is ds" "pcount s ^ 4 < u64_limit" "f_cache f = [None, None, None, None]" "i_xattr_ptr (f_inode f) = 0"
    "inode_fields_ok (f_inode f)" "timespec_ok a" "timespec_ok b"
  shows "file_map X {} V is ds (emptied n b a f, s)" "k < 12 \<Longrightarrow> data_ptr V (emptied n b a f, s) k = 0"
    "dense X V is ds (emptied 0 b a f, s)" "contents V (emptied 0 b a f, s) = []"
proof -
  let ?i = "f_inode (emptied 0 b a f)"
  have bl: "blank_inode ?i"
    using assms(4-7) by (auto simp: blank_inode_def emptied_def inode_fields_ok_def default_ptrs_def ptrs_shape_def ptrs_values_def)
  note d = fresh_dense [OF assms(1,2) bl, of V]
  have fm: "file_map X {} V is ds (emptied m b a f, s)" for m
  proof -
    have "file_map X {} V is ds (emptied m b a f, s) = file_map X {} V is ds (dkfile_new ?i, s)"
      by (rule file_map_inode(2)) (simp_all add: emptied_def dkfile_new_def assms(3))
    then show ?thesis using denseD(1) [OF d(1)] by simp
  qed
  then show "file_map X {} V is ds (emptied n b a f, s)" .
  show "k < 12 \<Longrightarrow> data_ptr V (emptied n b a f, s) k = 0"
    by (simp add: data_ptr_def block_ptr_def level_of_def rows_simps emptied_def default_ptrs_def)
  show "dense X V is ds (emptied 0 b a f, s)"
    by (rule dense_cong [OF d(1) fm]) (simp_all add: dkfile_new_def)
  show "contents V (emptied 0 b a f, s) = []" by (simp add: contents_def emptied_def)
qed

section \<open>setattr\<close>

text \<open>The inode that a request asks for, apart from the size and the time of the change.\<close>

definition chosen :: "'v option \<Rightarrow> ('v \<Rightarrow> inode \<Rightarrow> inode) \<Rightarrow> inode \<Rightarrow> inode" where
  "chosen v upd i = (case v of None \<Rightarrow> i | Some x \<Rightarrow> upd x i)"

definition requested :: "attr_request \<Rightarrow> inode \<Rightarrow> inode" where
  "requested rq i =
     chosen (rq_crtime rq) (\<lambda>v i. i\<lparr>i_crtime := v\<rparr>)
      (chosen (rq_mtime rq) (\<lambda>v i. i\<lparr>i_mtime := v\<rparr>)
       (chosen (rq_atime rq) (\<lambda>v i. i\<lparr>i_atime := v\<rparr>)
        (chosen (rq_gid rq) (\<lambda>v i. i\<lparr>i_gid := v\<rparr>)
         (chosen (rq_uid rq) (\<lambda>v i. i\<lparr>i_uid := v\<rparr>)
          (chosen (rq_mode rq) (\<lambda>v i. i\<lparr>i_mode := v\<rparr>) i)))))"

lemma requested_fields [simp]:
  "i_mode (requested rq i) = (case rq_mode rq of None \<Rightarrow> i_mode i | Some v \<Rightarrow> v)"
  "i_uid (requested rq i) = (case rq_uid rq of None \<Rightarrow> i_uid i | Some v \<Rightarrow> v)"
  "i_gid (requested rq i) = (case rq_gid rq of None \<Rightarrow> i_gid i | Some v \<Rightarrow> v)"
  "i_atime (requested rq i) = (case rq_atime rq of None \<Rightarrow> i_atime i | Some v \<Rightarrow> v)"
  "i_mtime (requested rq i) = (case rq_mtime rq of None \<Rightarrow> i_mtime i | Some v \<Rightarrow> v)"
  "i_crtime (requested rq i) = (case rq_crtime rq of None \<Rightarrow> i_crtime i | Some v \<Rightarrow> v)"
  "i_ino (requested rq i) = i_ino i" "i_blocks (requested rq i) = i_blocks i" "i_size (requested rq i) = i_size i"
  "i_nlink (requested rq i) = i_nlink i" "i_ctime (requested rq i) = i_ctime i"
  by (simp_all add: requested_def chosen_def option.case_eq_if)

lemma stat_of_fields:
  "st_mode (stat_of i b) = i_mode i" "st_uid (stat_of i b) = i_uid i" "st_gid (stat_of i b) = i_gid i"
  "st_atime (stat_of i b) = i_atime i" "st_mtime (stat_of i b) = i_mtime i" "st_crtime (stat_of i b) = i_crtime i"
  "st_ctime (stat_of i b) = i_ctime i" "st_size (stat_of i b) = i_size i" "st_nlink (stat_of i b) = i_nlink i"
  "st_ino (stat_of i b) = i_ino i"
  by (simp_all add: stat_of_def)

definition asks :: "attr_request \<Rightarrow> bool" where
  "asks rq \<longleftrightarrow> rq_mode rq \<noteq> None \<or> rq_uid rq \<noteq> None \<or> rq_gid rq \<noteq> None \<or> rq_atime rq \<noteq> None
     \<or> rq_mtime rq \<noteq> None \<or> rq_crtime rq \<noteq> None"

definition enter :: "nat \<Rightarrow> dkfile \<Rightarrow> 'z donkey_scheme \<Rightarrow> 'z donkey_scheme" where
  "enter k f s = s\<lparr>opened_files := (opened_files s)(k \<mapsto> f)\<rparr>"

lemma enter_simps [simp]:
  "opened_files (enter k f s) = (opened_files s)(k \<mapsto> f)" "enter k g (enter k f s) = enter k g s"
  "dev (enter k f s) = dev s" "sb (enter k f s) = sb s" "clk (enter k f s) = clk s" "borrowed (enter k f s) = borrowed s"
  "close_files (enter k f s) = close_files s" "file_refs (enter k f s) = file_refs s"
  by (simp_all add: enter_def)

lemma with_file_enter:
  "with_file k (mod_inode u) (enter k f s) = (Ok (), enter k (f\<lparr>f_inode := u (f_inode f)\<rparr>) s)"
  "with_file k (set_dirty d) (enter k f s) = (Ok (), enter k (f\<lparr>f_dirty := d\<rparr>) s)"
  by (simp_all add: with_file_def mod_inode_def mod_file_def set_dirty_def enter_def)

lemma set_attr_run:
  "bnd (set_attr k v upd m) h (enter k f s) = h (m \<or> v \<noteq> None) (enter k (f\<lparr>f_inode := chosen v upd (f_inode f)\<rparr>) s)"
  by (cases v) (simp_all add: set_attr_def bnd_def with_file_enter chosen_def ret_def)

lemma getattr_entered:
  fixes s :: "'z donkey_scheme"
  assumes "store_ok X s is ds" "close_files s = []" "\<not> borrowed s" "i_ino (f_inode f) = k"
    "i_blocks (f_inode f) * (block_size (sb s) div 512) < u64_limit"
  shows "h_getattr X k (enter k f s) = (Ok (stat_of (f_inode f) (block_size (sb s))), (enter k f s)\<lparr>close_files := [k]\<rparr>)"
proof -
  have RO: "READ_ONLY \<noteq> INVALID" by (simp add: READ_ONLY_def INVALID_def)
  let ?v = "clone_file k (enter k f s)"
  have b: "(clone_file k ((enter k f s)\<lparr>borrowed := True\<rparr>))\<lparr>borrowed := False\<rparr> = ?v"
    using assms(3) by (cases s) (simp add: clone_file_def enter_def)
  have op: "h_open X k READ_ONLY (enter k f s) = (Ok \<lparr>fh_key = k, fh_flags = READ_ONLY\<rparr>, ?v)"
    using RO assms(2,3) b
    by (simp add: h_open_def borrow_mut_def open_file_def close_files_in_list_def pop_close_file_def bnd_def gets_def
        modify_def ret_def)
  have ds: "dev ?v = dev s" "sb ?v = sb s" by (simp_all add: clone_file_def)
  have v: "store_ok X ?v is ds" "\<not> borrowed ?v" "opened_files ?v k = Some f"
    using assms(1,3) store_ok_dev [OF ds] by (simp_all add: clone_file_def)
  have "i_blocks (f_inode f) * (block_size (sb ?v) div 512) < u64_limit" using assms(5) ds(2) by simp
  from getattr_of_opened [OF op v assms(4) this] show ?thesis
    using assms(2,4) by (simp add: ds(2)) (simp add: drop_file_def clone_file_def enter_def)
qed

text \<open>The time of the change: the one that is asked for, or the time of the call if anything else was.\<close>

definition change_time :: "ext \<Rightarrow> attr_request \<Rightarrow> 'z store_scheme \<Rightarrow> inode \<Rightarrow> dk_timespec" where
  "change_time X rq s i = (case rq_ctime rq of
     Some v \<Rightarrow> v
   | None \<Rightarrow> if asks rq \<or> rq_size rq \<noteq> None then stamp X s else i_ctime i)"

lemma ctime_run:
  assumes "clock_ok X" "m = (asks rq \<or> rq_size rq \<noteq> None)"
  obtains c where "bnd (if m \<and> rq_ctime rq = None then bnd (now X) (\<lambda>t. ret (Some t)) else ret (rq_ctime rq)) (\<lambda>ctime.
      bnd (case ctime of None \<Rightarrow> ret () | Some t \<Rightarrow> with_file k (mod_inode (\<lambda>i. i\<lparr>i_ctime := t\<rparr>))) h) (enter k g t)
    = h () (enter k (g\<lparr>f_inode := (f_inode g)\<lparr>i_ctime := change_time X rq t (f_inode g)\<rparr>\<rparr>) (t\<lparr>clk := c\<rparr>))"
proof (cases "m \<and> rq_ctime rq = None")
  case True
  have st: "stamp X (enter k g t) = stamp X t" by (simp add: stamp_def)
  have e: "(enter k g t)\<lparr>clk := c\<rparr> = enter k g (t\<lparr>clk := c\<rparr>)" for c by (simp add: enter_def)
  show ?thesis
    using that [of "Suc (clk t)"] True assms(2)
    by (simp add: bnd_def now_Ok [OF assms(1)] change_time_def ret_def st e with_file_enter)
next
  case False
  have "g\<lparr>f_inode := (f_inode g)\<lparr>i_ctime := i_ctime (f_inode g)\<rparr>\<rparr> = g" "t\<lparr>clk := clk t\<rparr> = t" by simp_all
  then show ?thesis
    using that [of "clk t"] False assms(2)
    by (cases "rq_ctime rq") (simp_all add: bnd_def change_time_def ret_def with_file_enter)
qed

lemma setattr_run:
  fixes s :: "'z donkey_scheme"
  assumes "opened_files s k = Some f" "fh_key fh = k" "clock_ok X"
    "(case rq_size rq of None \<Rightarrow> ret (asks rq) | Some n \<Rightarrow> bnd (borrow_mut (with_file k (update_size X n))) (\<lambda>_. ret True))
       (enter k (f\<lparr>f_dirty := True, f_inode := requested rq (f_inode f)\<rparr>) s) = (Ok m, enter k g t)"
    "m = (asks rq \<or> rq_size rq \<noteq> None)"
    "store_ok X t is ds" "close_files t = []" "\<not> borrowed t" "i_ino (f_inode g) = k"
    "i_blocks (f_inode g) * (block_size (sb t) div 512) < u64_limit"
  obtains u where
    "h_setattr X k (Some fh) rq s = (Ok (stat_of ((f_inode g)\<lparr>i_ctime := change_time X rq t (f_inode g)\<rparr>) (block_size (sb t))), u)"
    "opened_files u = (opened_files t)(k \<mapsto> g\<lparr>f_inode := (f_inode g)\<lparr>i_ctime := change_time X rq t (f_inode g)\<rparr>\<rparr>)"
    "dev u = dev t" "sb u = sb t" "\<not> borrowed u"
proof -
  let ?c = "change_time X rq t (f_inode g)"
  let ?h = "g\<lparr>f_inode := (f_inode g)\<lparr>i_ctime := ?c\<rparr>\<rparr>"
  have s0: "s = enter k f s" using assms(1) by (cases s) (simp add: enter_def fun_upd_idem)
  obtain c where c: "bnd (if m \<and> rq_ctime rq = None then bnd (now X) (\<lambda>t. ret (Some t)) else ret (rq_ctime rq)) (\<lambda>ctime.
      bnd (case ctime of None \<Rightarrow> ret () | Some t \<Rightarrow> with_file k (mod_inode (\<lambda>i. i\<lparr>i_ctime := t\<rparr>))) (\<lambda>_. h_getattr X k)) (enter k g t)
    = h_getattr X k (enter k ?h (t\<lparr>clk := c\<rparr>))"
    by (rule ctime_run [OF assms(3,5), where h = "\<lambda>_. h_getattr X k"])
  let ?t = "t\<lparr>clk := c\<rparr>"
  have dt: "dev ?t = dev t" "sb ?t = sb t" by simp_all
  have pre: "store_ok X ?t is ds" "close_files ?t = []" "\<not> borrowed ?t" "i_ino (f_inode ?h) = k"
    "i_blocks (f_inode ?h) * (block_size (sb ?t) div 512) < u64_limit"
    using assms(6-10) store_ok_dev [OF dt] by simp_all
  let ?v = "(enter k ?h ?t)\<lparr>close_files := [k]\<rparr>"
  have ga: "h_getattr X k (enter k ?h ?t) = (Ok (stat_of (f_inode ?h) (block_size (sb ?t))), ?v)" by (rule getattr_entered [OF pre])
  have dirty: "with_file k (set_dirty True) s = (Ok (), enter k (f\<lparr>f_dirty := True\<rparr>) s)"
    using with_file_enter(2) [of k True f s] s0 by simp
  have "bnd (with_file k (set_dirty True)) (\<lambda>_.
        bnd (set_attr k (rq_mode rq) (\<lambda>v i. i\<lparr>i_mode := v\<rparr>) False) (\<lambda>modified.
        bnd (set_attr k (rq_uid rq) (\<lambda>v i. i\<lparr>i_uid := v\<rparr>) modified) (\<lambda>modified.
        bnd (set_attr k (rq_gid rq) (\<lambda>v i. i\<lparr>i_gid := v\<rparr>) modified) (\<lambda>modified.
        bnd (set_attr k (rq_atime rq) (\<lambda>v i. i\<lparr>i_atime := v\<rparr>) modified) (\<lambda>modified.
        bnd (set_attr k (rq_mtime rq) (\<lambda>v i. i\<lparr>i_mtime := v\<rparr>) modified) (\<lambda>modified.
        bnd (set_attr k (rq_crtime rq) (\<lambda>v i. i\<lparr>i_crtime := v\<rparr>) modified) K)))))) s
      = K (asks rq) (enter k (f\<lparr>f_dirty := True, f_inode := requested rq (f_inode f)\<rparr>) s)" for K
    unfolding bnd_Ok [of "with_file k (set_dirty True)", OF dirty] set_attr_run
    by (simp add: requested_def asks_def)
  note chain = this
  have d: "drop_file k ?v = (enter k ?h ?t)\<lparr>file_refs := (file_refs t)(k := file_refs t k - 1), close_files := [k, k]\<rparr>"
    using assms(9) by (simp add: drop_file_def enter_def)
  have "h_setattr X k (Some fh) rq s = (Ok (stat_of (f_inode ?h) (block_size (sb ?t))), drop_file k ?v)"
    unfolding h_setattr_def option.case bnd_ret Let_def assms(2) dropping_def chain
      bnd_Ok [of "case rq_size rq of None \<Rightarrow> _ | Some n \<Rightarrow> _ n", OF assms(4)] c ga
    by (simp only: prod.case res.case)
  note run = this
  show thesis
    by (rule that [of "drop_file k ?v"]) (use run assms(8) d in simp_all)
qed

section \<open>Truncation through the interface\<close>

definition size_request :: "nat \<Rightarrow> attr_request" where
  "size_request n = \<lparr>rq_mode = None, rq_uid = None, rq_gid = None, rq_size = Some n, rq_atime = None, rq_mtime = None,
     rq_ctime = None, rq_crtime = None\<rparr>"

lemma size_request_simps [simp]:
  "rq_size (size_request n) = Some n" "rq_ctime (size_request n) = None" "requested (size_request n) i = i"
  by (simp_all add: size_request_def requested_def chosen_def)

lemma emptied_again: "(emptied n b a f)\<lparr>f_inode := (f_inode (emptied n b a f))\<lparr>i_ctime := c\<rparr>\<rparr> = emptied n b c f"
  by (simp add: emptied_def)

text \<open>Reading a file that has lost its blocks.\<close>

lemma emptied_read:
  fixes s :: "'z donkey_scheme"
  assumes "opened_files s (fh_key fh) = Some (emptied n b a f)" "store_ok X s is ds" "pcount s ^ 4 < u64_limit"
    "f_cache f = [None, None, None, None]" "i_xattr_ptr (f_inode f) = 0" "inode_fields_ok (f_inode f)"
    "timespec_ok a" "timespec_ok b" "\<not> borrowed s" "off < 12 * block_size (sb s)" "off < 9223372036854775808"
  obtains u where "h_read X fh off m s = (Ok [], u)"
proof -
  let ?k = "fh_key fh" and ?s = "s\<lparr>borrowed := True\<rparr>" and ?f = "f\<lparr>f_pos := off\<rparr>"
  have ds: "dev ?s = dev s" "sb ?s = sb s" by simp_all
  have pc: "pcount ?s ^ 4 < u64_limit" using assms(3) by (simp add: pcount_def)
  have ok: "store_ok X ?s is ds" using assms(2) store_ok_dev [OF ds] by blast
  have pre: "f_cache ?f = [None, None, None, None]" "i_xattr_ptr (f_inode ?f) = 0" "inode_fields_ok (f_inode ?f)"
    using assms(4-6) by simp_all
  note e = emptied_map [OF ok pc pre assms(7,8), where V = "\<lambda>_. []"]
  have bs: "0 < block_size (sb s)" using store_okD(5) [OF assms(2)] by simp
  then have q: "off div block_size (sb s) < 12" using assms(10) by (simp add: less_mult_imp_div_less)
  have pos: "f_pos (emptied n b a ?f) = off" by (simp add: emptied_def)
  have h: "f_pos (emptied n b a ?f) div block_size (sb ?s) < max_blocks (pcount ?s)"
    "data_ptr (\<lambda>_. []) (emptied n b a ?f, ?s) (f_pos (emptied n b a ?f) div block_size (sb ?s)) = 0"
    unfolding pos using q e(2) by (simp_all add: max_blocks_def)
  obtain g t where r: "take_read_to_end X m (emptied n b a ?f, ?s) = (Ok [], (g, t))"
    by (rule hole_read_all [OF e(1) h])
  have p: "(emptied n b a f)\<lparr>f_pos := off\<rparr> = emptied n b a ?f" by (simp add: emptied_def)
  have "bnd (map_err dk_error_of_io (seek (SeekStart off))) (\<lambda>_. map_err dk_error_of_io (take_read_to_end X m)) (emptied n b a f, ?s)
      = (Ok [], (g, t))"
    using r by (simp add: bnd_def map_err_def seek_start [OF assms(11)] p)
  then show thesis
    using that assms(1,9) by (simp add: h_read_def dropping_def borrow_mut_def with_file_def)
qed

lemma truncated_run:
  fixes s :: "'z donkey_scheme"
  assumes "opened_files s (fh_key fh) = Some f" "dense X V is ds (f, s)" "i_ino (f_inode f) = fh_key fh"
    "f_cache f = [None, None, None, None]" "i_xattr_ptr (f_inode f) = 0" "n < i_size (f_inode f)"
    "n \<le> 11 * block_size (sb s)" "n + block_size (sb s) < u64_limit" "clock_ok X" "close_files s = []" "\<not> borrowed s"
  obtains st t a b qs where "h_setattr X (fh_key fh) (Some fh) (size_request n) s = (Ok st, t)"
    "st_size st = n" "st_blocks st = 0" "distinct qs" "set qs = all_nodes (pcount s) (rows f) V"
    "store_ok X t is (rev qs @ ds)" "opened_files t (fh_key fh) = Some (emptied n b a f)" "\<not> borrowed t"
    "block_size (sb t) = block_size (sb s)" "pcount t = pcount s" "timespec_ok a" "timespec_ok b"
    "inode_fields_ok (f_inode f)" "pcount s ^ 4 < u64_limit"
proof -
  let ?k = "fh_key fh" and ?f = "f\<lparr>f_dirty := True\<rparr>"
  let ?e = "enter ?k ?f s"
  let ?s = "?e\<lparr>borrowed := True\<rparr>"
  note M = file_mapD [OF denseD(1) [OF assms(2)]]
  have f_ok: "inode_fields_ok (f_inode f)" using assms(2) by (simp add: dense_def)
  have ds: "dev ?s = dev s" "sb ?s = sb s" by simp_all
  have d: "dense X V is ds (f, ?s)" using assms(2) dense_dev(1) [OF ds] by blast
  have fm: "file_map X {} V is ds (?f, ?s)" using denseD(1) [OF d] by (simp add: file_map_inode(2) [of ?f f])
  have dn: "dense X V is ds (?f, ?s)" by (rule dense_cong [OF d fm]) simp_all
  have pre: "f_cache ?f = [None, None, None, None]" "i_xattr_ptr (f_inode ?f) = 0" "n < i_size (f_inode ?f)"
    "n \<le> 11 * block_size (sb ?s)" "n + block_size (sb ?s) < u64_limit"
    using assms(4-8) by simp_all
  obtain a b t qs where t: "update_size X n (?f, ?s) = (Ok (), (emptied n b a ?f, t))" "store_ok X t is (rev qs @ ds)"
    "distinct qs" "set qs = all_nodes (pcount ?s) (rows ?f) V" "store.more t = store.more ?s"
    "block_size (sb t) = block_size (sb ?s)" "pcount t = pcount ?s" "timespec_ok a" "timespec_ok b"
    by (rule truncate_run [OF dn pre assms(9)])
  have em: "emptied n b a ?f = emptied n b a f" by (simp add: emptied_def)
  let ?g = "emptied n b a f" and ?t = "t\<lparr>borrowed := False\<rparr>"
  have mt: "borrowed t" "close_files t = []" using t(5) assms(10) by (cases s, cases t, simp add: enter_def)+
  have step: "(case rq_size (size_request n) of None \<Rightarrow> ret (asks (size_request n))
      | Some n \<Rightarrow> bnd (borrow_mut (with_file ?k (update_size X n))) (\<lambda>_. ret True))
       (enter ?k (f\<lparr>f_dirty := True, f_inode := requested (size_request n) (f_inode f)\<rparr>) s) = (Ok True, enter ?k ?g ?t)"
    using assms(11) t(1) by (simp add: bnd_def borrow_mut_def with_file_def ret_def em) (simp add: enter_def)
  have m: "True = (asks (size_request n) \<or> rq_size (size_request n) \<noteq> None)" by simp
  have dt: "dev ?t = dev t" "sb ?t = sb t" by simp_all
  have ok: "store_ok X ?t is (rev qs @ ds)" using t(2) store_ok_dev [OF dt] by blast
  have fin: "close_files ?t = []" "\<not> borrowed ?t" "i_ino (f_inode ?g) = ?k" "i_blocks (f_inode ?g) * (block_size (sb ?t) div 512) < u64_limit"
    using mt assms(3) by (simp_all add: emptied_def)
  let ?c = "change_time X (size_request n) ?t (f_inode ?g)"
  obtain u where u: "h_setattr X ?k (Some fh) (size_request n) s = (Ok (stat_of ((f_inode ?g)\<lparr>i_ctime := ?c\<rparr>) (block_size (sb ?t))), u)"
    "opened_files u = (opened_files ?t)(?k \<mapsto> ?g\<lparr>f_inode := (f_inode ?g)\<lparr>i_ctime := ?c\<rparr>\<rparr>)"
    "dev u = dev ?t" "sb u = sb ?t" "\<not> borrowed u"
    by (rule setattr_run [OF assms(1) refl assms(9) step m ok fin])
  have c: "timespec_ok ?c" by (simp add: change_time_def stamp_ok)
  show thesis
  proof (rule that [OF u(1) _ _ t(3) _ _ _ u(5) _ _ c t(9) f_ok M(2)])
    show "store_ok X u is (rev qs @ ds)" using ok store_ok_dev [OF u(3,4)] by blast
    show "opened_files u ?k = Some (emptied n b ?c f)" using u(2) by (simp only: fun_upd_same emptied_again)
    show "set qs = all_nodes (pcount s) (rows f) V" using t(4) by (simp add: pcount_def rows_def)
  qed (use u(4) t(6,7) in \<open>simp_all add: stat_of_def emptied_def pcount_def\<close>)
qed

end
