(* ===== verification/DemoLife.thy ===== *)
theory DemoLife
  imports DemoFile DirLife ServedFiles FileDestroy Durability Nodes Mount Truncate
begin

text \<open>
  Instances on the demo device: a directory whose last handle has been dropped, a file served to the
  kernel, and a file without names.
\<close>

section \<open>A directory\<close>

definition demo_dir_inode :: inode where
  "demo_dir_inode = (demo_inode 114514 0)\<lparr>i_mode := DIRECTORY OR USER_RWX\<rparr>"

definition demo_entries :: "nat omap" where
  "demo_entries = [([46], 114514), ([46, 46], 114514), ([97], 114515)]"

definition demo_dkdir :: dkdir where
  "demo_dkdir = \<lparr>d_fh = 114514, d_entries = demo_entries, d_dirty = True\<rparr>"

definition dir_state :: fuse where
  "dir_state = (mounted file_store)\<lparr>opened_files := [114514 \<mapsto> dkfile_new demo_dir_inode],
     opened_dirs := [114514 \<mapsto> demo_dkdir], file_refs := (\<lambda>_. 1), dir_refs := (\<lambda>_. 0), close_dirs := [114514]\<rparr>"

lemma mounted_store: "dev (mounted s) = dev s" "sb (mounted s) = sb s"
  by (simp_all add: mounted_def)

lemma fresh_on_demo:
  assumes "dev s = dev file_store" "sb s = sb file_store" "blank_inode i"
  shows "dense plain_ext V (tl demo_inodes) demo_blocks (dkfile_new i, s)" "contents V (dkfile_new i, s) = []"
proof -
  have ok: "store_ok plain_ext s (tl demo_inodes) demo_blocks"
    using file_store_ok store_ok_dev [OF assms(1,2)] by blast
  have "pcount s ^ 4 < u64_limit" using file_store_size assms(2) by (simp add: pcount_def)
  from fresh_dense [OF ok this assms(3)] show
    "dense plain_ext V (tl demo_inodes) demo_blocks (dkfile_new i, s)" "contents V (dkfile_new i, s) = []" .
qed

lemma dir_state_store: "dev dir_state = dev file_store" "sb dir_state = sb file_store"
  by (simp_all add: dir_state_def mounted_def)

lemma demo_dir_blank: "blank_inode demo_dir_inode"
proof -
  have "inode_fields_ok (demo_inode 114514 0)" by simp
  then have "inode_fields_ok demo_dir_inode" unfolding demo_dir_inode_def by (simp add: inode_fields_ok_def)
  then show ?thesis by (simp add: blank_inode_def demo_dir_inode_def) (simp add: demo_inode_def)
qed

lemma dir_state_unused: "unused_dir 114514 demo_dkdir (dkfile_new demo_dir_inode) dir_state"
proof -
  have "is_directory (DIRECTORY OR USER_RWX)"
    by (simp add: is_directory_def DIRECTORY_def USER_RWX_def FILE_TYPE_MASK_def)
  then show ?thesis
    by (simp add: unused_dir_def dir_state_def demo_dkdir_def dkfile_new_def demo_dir_inode_def demo_inode_def
        no_attributes_def mounted_def empty_fuse_def)
qed

lemma dir_state_inode_used: "inode_used (tl demo_inodes) (dkfile_new demo_dir_inode, dir_state)"
  by (simp add: inode_used_def dir_state_store file_store_numbers demo_inodes_def dkfile_new_def demo_dir_inode_def demo_inode_def)

lemma demo_dir_bytes: "length (dir_bytes plain_ext demo_entries) = 72"
  by (simp add: dir_bytes_def demo_entries_def entry_bytes_def)

lemma dir_state_room: "dir_room plain_ext demo_blocks demo_entries (dkfile_new demo_dir_inode, dir_state)"
proof -
  have "blocks_for dir_state n = blocks_for file_store n" for n by (simp add: blocks_for_def dir_state_store)
  moreover have "file_limit dir_state = file_limit file_store" by (simp add: file_limit_def pcount_def dir_state_store)
  ultimately show ?thesis
    using demo_blocks_for [of 72] by (simp add: dir_room_def demo_dir_bytes file_store_limit demo_blocks_def)
qed

lemma demo_entries_ok: "entries_ok demo_entries"
proof -
  have "om_valid demo_entries" by (simp add: om_valid_def demo_entries_def)
  moreover have "\<forall>(name, ino) \<in> set demo_entries. ROOT_INODE \<le> ino \<and> ino < u64_limit \<and> length name < u64_limit"
    by (simp add: demo_entries_def)
  ultimately show ?thesis unfolding entries_ok_def by blast
qed

text \<open>The same directory while the kernel holds a handle of it.\<close>

definition held_dir_state :: fuse where
  "held_dir_state = dir_state\<lparr>dir_refs := (\<lambda>_. 1), close_dirs := []\<rparr>"

lemma held_dir_store: "store_ok plain_ext held_dir_state (114515 # tl (tl demo_inodes)) demo_blocks"
proof -
  have "dev held_dir_state = dev file_store" "sb held_dir_state = sb file_store"
    by (simp_all add: held_dir_state_def dir_state_store)
  then have "store_ok plain_ext held_dir_state (tl demo_inodes) demo_blocks" using file_store_ok store_ok_dev by metis
  moreover have "tl demo_inodes = 114515 # tl (tl demo_inodes)" by (simp add: demo_inodes_def)
  ultimately show ?thesis by simp
qed

lemma held_dir_ready: "ready_dir 114514 demo_dkdir (dkfile_new demo_dir_inode) held_dir_state"
proof -
  have "om_valid (d_entries demo_dkdir)" using demo_entries_ok by (simp add: entries_ok_def demo_dkdir_def)
  moreover have "open_dir_at 114514 demo_dkdir (dkfile_new demo_dir_inode) held_dir_state"
    using dir_state_unused by (simp add: open_dir_at_def unused_dir_def held_dir_state_def)
  ultimately show ?thesis
    by (simp add: ready_dir_def held_dir_state_def) (simp add: dir_state_def mounted_def empty_fuse_def)
qed

lemma held_dir_args: "node_args plain_ext 1000 100 None held_dir_state"
proof -
  have "pcount held_dir_state = 512" using file_store_size by (simp add: pcount_def held_dir_state_def dir_state_store)
  then show ?thesis by (simp add: node_args_def plain_clock_ok)
qed

lemma held_dir_names: "map_of (d_entries demo_dkdir) [98] = None" "map_of (d_entries demo_dkdir) [97] \<noteq> None"
  "opened_files held_dir_state 114515 = None"
  by (simp_all add: demo_dkdir_def demo_entries_def held_dir_state_def dir_state_def)

section \<open>Served files\<close>

definition served_state :: fuse where
  "served_state = (mounted file_store)\<lparr>opened_files := [114514 \<mapsto> demo_file, 114515 \<mapsto> dkfile_new (demo_inode 114515 0)],
     file_refs := (\<lambda>_. 1), file_fh := [7 \<mapsto> \<lparr>fh_key = 114514, fh_flags = READ_WRITE\<rparr>, 8 \<mapsto> \<lparr>fh_key = 114515, fh_flags = READ_WRITE\<rparr>]\<rparr>"

lemma served_state_simps: "\<not> borrowed served_state"
  "opened_files served_state = [114514 \<mapsto> demo_file, 114515 \<mapsto> dkfile_new (demo_inode 114515 0)]"
  "file_fh served_state = [7 \<mapsto> \<lparr>fh_key = 114514, fh_flags = READ_WRITE\<rparr>, 8 \<mapsto> \<lparr>fh_key = 114515, fh_flags = READ_WRITE\<rparr>]"
  "dev served_state = dev file_store" "sb served_state = sb file_store"
  by (simp_all add: served_state_def mounted_def empty_fuse_def)

definition empty_files :: "nat \<rightharpoonup> byte list" where
  "empty_files = [114514 \<mapsto> [], 114515 \<mapsto> []]"

lemma demo_blank_inode2: "blank_inode (demo_inode 114515 0)"
  by (simp add: blank_inode_def) (simp add: demo_inode_def)

lemma served_state_volume: "volume plain_ext (tl demo_inodes) empty_files 7 served_state"
proof -
  note d = fresh_on_demo [OF served_state_simps(4,5) demo_blank_inode, folded demo_file_def, of "\<lambda>_. []"]
    fresh_on_demo [OF served_state_simps(4,5) demo_blank_inode2, of "\<lambda>_. []"]
  have "volume_of plain_ext (tl demo_inodes) empty_files (\<lambda>_ _. []) demo_blocks (opened_files served_state) served_state"
    using d unfolding volume_of_def
    by (auto simp: served_state_simps(2) empty_files_def apart_def demo_file_def fresh_nodes(7) [OF demo_blank_inode] split: if_splits)
  moreover have "length demo_blocks = 7" by (simp add: demo_blocks_def)
  ultimately show ?thesis unfolding volume_def by blast
qed

text \<open>The first file may grow to a block, the second stays empty.\<close>

definition one_grows :: "nat \<Rightarrow> nat" where
  "one_grows k = (if k = 114514 then 4096 else 0)"

lemma served_state_room: "room served_state one_grows empty_files 7"
proof -
  have "file_limit served_state = file_limit file_store" by (simp add: file_limit_def pcount_def served_state_simps(5))
  moreover have "dom empty_files = {114514, 114515}" by (auto simp: empty_files_def)
  ultimately show ?thesis
    by (auto simp: room_def grow_cost_def empty_files_def one_grows_def file_store_limit blocks_for_def served_state_simps(5) file_store_size split: if_splits)
qed

section \<open>A file without names\<close>

lemma demo_nameless:
  obtains s :: fuse and f V ds where "opened_files s 114514 = Some f" "file_refs s 114514 = 0" "i_nlink (f_inode f) = 0"
    "i_ino (f_inode f) = 114514" "dense plain_ext V (tl demo_inodes) ds (f, s)" "flushed plain_ext V (f, s)"
    "inode_used (tl demo_inodes) (f, s)" "i_size (f_inode f) = 3"
proof -
  obtain s :: fuse and f V ds where s: "opened_files s 114514 = Some f" "file_refs s 114514 = 0"
    "114514 = i_ino (f_inode f)" "dense plain_ext V (tl demo_inodes) ds (f, s)" "inode_used (tl demo_inodes) (f, s)"
    "no_attributes f" "f_dirty f" "0 < i_nlink (f_inode f)" "contents V (f, s) = [7, 8, 9]"
    by (rule demo_table)
  let ?i = "(f_inode f)\<lparr>i_nlink := 0\<rparr>"
  obtain t where t: "dense plain_ext V (tl demo_inodes) ds (dkfile_new (f_inode f), t)"
    "evolves (footprint V ds (f, s) \<union> inode_bytes_of (i_ino (f_inode f))) s t"
    by (rule flush_run [OF s(4-8)])
  let ?t = "t\<lparr>opened_files := [114514 \<mapsto> dkfile_new ?i], file_refs := (\<lambda>_. 0)\<rparr>"
  have dt: "dev ?t = dev t" "sb ?t = sb t" by simp_all
  have "dense plain_ext V (tl demo_inodes) ds (dkfile_new ?i, t)"
  proof -
    have m: "rows (dkfile_new ?i) = rows (dkfile_new (f_inode f))"
      "file_map plain_ext {} V (tl demo_inodes) ds (dkfile_new ?i, t) = file_map plain_ext {} V (tl demo_inodes) ds (dkfile_new (f_inode f), t)"
      by (rule file_map_inode; simp add: dkfile_new_def)+
    have "inode_fields_ok ?i = True" using t(1) by (simp add: dense_def inode_fields_ok_def dkfile_new_def)
    then show ?thesis using t(1) m by (simp add: dense_def data_ptr_def) (simp add: dkfile_new_def)
  qed
  then have d: "dense plain_ext V (tl demo_inodes) ds (dkfile_new ?i, ?t)" using dense_dev(1) [OF dt] by blast
  show thesis
  proof (rule that [OF _ _ _ _ d flushed_loaded [OF d]])
    have "length (contents V (f, s)) = 3" using s(9) by simp
    then show "i_size (f_inode (dkfile_new ?i)) = 3" by (simp add: dkfile_new_def)
    show "inode_used (tl demo_inodes) (dkfile_new ?i, ?t)"
      using s(5) evolves_simps(4) [OF t(2)] by (simp add: inode_used_def dkfile_new_def)
  qed (use s(3) in \<open>simp_all add: dkfile_new_def\<close>)
qed

text \<open>A file that has just been opened, with three bytes.\<close>

lemma demo_reopened:
  obtains s :: fuse and f V ds where "opened_files s 114514 = Some f" "i_ino (f_inode f) = 114514"
    "dense plain_ext V (tl demo_inodes) ds (f, s)" "f_cache f = [None, None, None, None]" "i_xattr_ptr (f_inode f) = 0"
    "i_size (f_inode f) = 3" "block_size (sb s) = 4096" "close_files s = []" "\<not> borrowed s"
proof -
  obtain s :: fuse and f V ds where s: "opened_files s 114514 = Some f" "file_refs s 114514 = 0"
    "114514 = i_ino (f_inode f)" "dense plain_ext V (tl demo_inodes) ds (f, s)" "inode_used (tl demo_inodes) (f, s)"
    "no_attributes f" "f_dirty f" "0 < i_nlink (f_inode f)" "contents V (f, s) = [7, 8, 9]" "block_size (sb s) = 4096"
    by (rule demo_table)
  obtain t where t: "dense plain_ext V (tl demo_inodes) ds (dkfile_new (f_inode f), t)"
    "evolves (footprint V ds (f, s) \<union> inode_bytes_of (i_ino (f_inode f))) s t"
    by (rule flush_run [OF s(4-8)])
  let ?t = "t\<lparr>opened_files := [114514 \<mapsto> dkfile_new (f_inode f)], close_files := [], borrowed := False\<rparr>"
  have dt: "dev ?t = dev t" "sb ?t = sb t" by simp_all
  have d: "dense plain_ext V (tl demo_inodes) ds (dkfile_new (f_inode f), ?t)" using t(1) dense_dev(1) [OF dt] by blast
  have "length (contents V (f, s)) = 3" using s(9) by simp
  then show thesis
    by (intro that [of ?t "dkfile_new (f_inode f)", OF _ _ d])
      (use s(3,6,10) evolves_simps(1) [OF t(2)] in \<open>simp_all add: dkfile_new_def no_attributes_def\<close>)
qed

section \<open>A file with attributes\<close>

text \<open>The file is in the table without a handle, so every operation closes it and loads it again.\<close>

definition attr_demo :: fuse where
  "attr_demo = (mounted file_store)\<lparr>opened_files := [114514 \<mapsto> demo_file\<lparr>f_dirty := True\<rparr>], file_refs := (\<lambda>_. 0),
     close_files := [114514]\<rparr>"

lemma demo_block_size: "block_size (sb file_store) = 4096"
  by (rule file_store_size)

lemma no_attrs_fit: "attrs_fit_in plain_ext 4096 []"
  by (simp add: attrs_fit_in_def attrs_ok_def om_valid_def xattr_bytes_def)

lemma attr_demo_state: "attr_state plain_ext (tl demo_inodes) 114514 [] [] 4096 attr_demo"
proof -
  have st: "dev attr_demo = dev file_store" "sb attr_demo = sb file_store" by (simp_all add: attr_demo_def mounted_def)
  let ?f = "demo_file\<lparr>f_dirty := True\<rparr>"
  note d = fresh_on_demo [OF st demo_blank_inode, folded demo_file_def, of "\<lambda>_. []"]
  have "file_map plain_ext {} (\<lambda>_. []) (tl demo_inodes) demo_blocks (?f, attr_demo)"
    using denseD(1) [OF d(1)] by (simp add: file_map_inode(2) [of ?f demo_file])
  then have "dense plain_ext (\<lambda>_. []) (tl demo_inodes) demo_blocks (?f, attr_demo)"
    by (rule dense_cong [OF d(1)]) simp_all
  moreover have "contents (\<lambda>_. []) (?f, attr_demo) = []" using d(2) by (simp add: contents_inode [of ?f demo_file])
  moreover have "inode_used (tl demo_inodes) (?f, attr_demo)"
    using demo_inode_used st(2) by (simp add: inode_used_def)
  moreover have "attrs_room plain_ext demo_blocks (?f, attr_demo)"
    using no_attrs_fit st(2) demo_file_simps(5)
    by (simp add: attrs_room_def attrs_fit_in_def demo_block_size no_attributes_def demo_blocks_def)
  moreover have "i_ino (f_inode ?f) = 114514" "f_xattr ?f = []" "0 < i_nlink (f_inode ?f)" "f_dirty ?f"
    using demo_file_simps(5) by (simp_all add: no_attributes_def)
  ultimately have "attr_file plain_ext (tl demo_inodes) 114514 [] [] ?f attr_demo" unfolding attr_file_def by blast
  moreover have "\<not> borrowed attr_demo" "close_files attr_demo = [114514]" "block_size (sb attr_demo) = 4096"
    "opened_files attr_demo 114514 = Some ?f"
    by (simp_all add: attr_demo_def mounted_def empty_fuse_def demo_block_size)
  ultimately show ?thesis unfolding attr_state_def by blast
qed

text \<open>A file with contents, as a file with attributes.\<close>

lemma demo_written:
  obtains s :: fuse and f where "opened_files s 114514 = Some f" "\<not> borrowed s"
    "attr_file plain_ext (tl demo_inodes) 114514 [] [7, 8, 9] f s"
proof -
  obtain s :: fuse and f V ds where s: "opened_files s 114514 = Some f" "114514 = i_ino (f_inode f)"
    "dense plain_ext V (tl demo_inodes) ds (f, s)" "inode_used (tl demo_inodes) (f, s)"
    "no_attributes f" "f_dirty f" "0 < i_nlink (f_inode f)" "contents V (f, s) = [7, 8, 9]" "ds \<noteq> []" "\<not> borrowed s"
    using demo_table_room by metis
  have "attrs_room plain_ext ds (f, s)"
    using s(5,9) no_attrs_fit store_okD(5) [OF file_mapD(1) [OF denseD(1) [OF s(3)]]]
    by (simp add: attrs_room_def attrs_fit_in_def no_attributes_def xattr_bytes_def)
  then have "attr_file plain_ext (tl demo_inodes) 114514 [] [7, 8, 9] f s"
    using s unfolding attr_file_def no_attributes_def by metis
  then show thesis using that s(1,10) by blast
qed

section \<open>An image of eight blocks\<close>

lemma image_opened: "dev_open (Some (KRegular, \<lambda>_. 0, 32768)) (Inl 0) = Ok demo_device"
  by (simp add: dev_open_def image_file_new_def demo_device_def)

lemma decimal_4096: "decimal 4096 = [52, 48, 57, 54]"
  by (simp add: decimal.simps digit_def)

lemma demo_root_room: "root_room plain_ext (formatted_sb demo_device 4096)"
proof -
  have "length (dir_bytes plain_ext (self_entries ROOT_INODE)) = 51"
    by (simp add: dir_bytes_def self_entries_def dot_def dotdot_def entry_bytes_def)
  then show ?thesis by (simp add: root_room_def demo_sb max_blocks_def)
qed

section \<open>The device of the empty file\<close>

lemma demo_durable: "durable plain_ext 114514 [] [] file_store"
proof -
  have same: "dkfile_new (f_inode demo_file) = demo_file" "f_inode demo_file = demo_inode 114514 0" "f_xattr demo_file = []"
    by (simp_all add: demo_file_def dkfile_new_def)
  have "saved plain_ext (\<lambda>_. []) (tl demo_inodes) demo_blocks demo_file file_store"
    unfolding saved_def same(1,3) using demo_dense by (simp add: same(2) attrs_stored_def file_store_inode)
  moreover have "attrs_room plain_ext demo_blocks (demo_file, file_store)"
    using no_attrs_fit demo_file_simps(5) by (simp add: attrs_room_def attrs_fit_in_def file_store_size no_attributes_def demo_blocks_def)
  ultimately show ?thesis
    unfolding durable_def using demo_inode_used demo_dense(2) same(3) demo_file_simps(3,4) by fastforce
qed

lemma demo_free: "db_count (sb file_store) - used_db_count (sb file_store) = 7"
  using store_okD(13) [OF file_store_ok] by (simp add: demo_blocks_def)

lemma demo_image: "dev_open (Some (KRegular, disk file_store, 32768)) (Inl 0) = Ok (dev file_store)"
  by (rule dev_open_again [OF image_opened]) (use file_store_shape in \<open>simp_all add: dev_shape_def demo_device_def\<close>)

end
