(* ===== verification/Spec2Isabelle.thy ===== *)
theory Spec2Isabelle
  imports DemoLife
begin

text \<open>
  A verification development for donkey-fs, a file system in user space written in Rust: the library
  \<open>dkfs\<close> (src/dkfs), the formatter \<open>mkdk\<close> (src/mkdk) and the FUSE server \<open>mtdk\<close> (src/mtdk).

  \<^bold>\<open>The program.\<close>  A device (a file or a block device, device.rs) holds a super block at byte 1024, a
  table of inode slots of 256 bytes from byte 2048 on, and data blocks behind it (block.rs).  Free inode
  slots and free data blocks are two linked stacks on the device, whose heads are in the super block;
  \<open>Donkey\<close> (lib.rs) allocates from them, reads and writes inodes, and keeps the tables of opened files and
  directories.  A \<open>DkFile\<close> (file.rs) maps block numbers to data blocks through twelve direct pointers and
  four trees of pointer blocks, with a cache of one pointer block per level; it implements \<open>Read\<close>,
  \<open>Write\<close> and \<open>Seek\<close>.  A \<open>DkDir\<close> is an ordered map of names that is written to a \<open>DkFile\<close> through a
  \<open>BufWriter\<close>.  \<open>Handle\<close> (ops.rs) is the public interface; mtdk answers the requests of the kernel with
  it, and keeps the handles that the kernel holds.

  \<^bold>\<open>Theories and sources.\<close>
  \<^item> Prelude: outcomes (value, error, panic, hang), programs as functions on states, checked \<open>u64\<close>
    arithmetic, the collections \<open>keeps_intros\<close> and \<open>stable_intros\<close>.  Errors: \<open>DkError\<close> and its conversions
    (lib.rs).  OrdMap: the contract of \<open>im::OrdMap\<close> as a locale, and sorted association lists as its
    instance.  Blocks: the records of block.rs with their bytes.  Codec: an instance of the external
    functions.
  \<^item> Device: device.rs.  Store: the super block, inodes, and both free stacks (lib.rs).  Format: \<open>format\<close>
    and \<open>open\<close>.  SlotAllocator, RecordStore: the contracts of an allocator and of a table of records, as
    locales; Allocator and InodeTable prove the consistency of the store and interpret them.
  \<^item> Files: \<open>DkFile\<close>.  PtrTree: the block map as a forest, apart from any state.  BlockStore, BlockMap,
    BlockAlloc, LocateAlloc: \<open>locate\<close> and \<open>locate_alloc\<close> with the caches against that forest.  FileBytes,
    FileWrite: \<open>dk_read\<close> and \<open>dk_write\<close> against an array of bytes.  FileStream: the loops of \<open>std::io\<close> in the
    locale \<open>byte_stream\<close>, and its interpretation on the open file.  FileFlush, FileLife: flushing,
    creating, closing and loading a file.  FileDestroy: the release of a file's blocks.  Truncate:
    truncation and \<open>setattr\<close>.  FileAttrs: the block of the extended attributes.  Volume: several open files
    and their disjoint blocks.  Durability: what \<open>fsync\<close> leaves on the device.
  \<^item> Dirs: the buffered streams and the directory format.  DirStream: what the buffers do to the bytes.
    DirLife: closing and reopening a directory.  Names: the entries of an open directory against a finite
    map.  Nodes: making, finding, linking and removing nodes.  Mkdk: the
    option of the formatter.  Root: the root directory, from \<open>mkdk\<close> to \<open>mtdk\<close>.
    Mount: the main function of \<open>mtdk\<close> from the device to the unmount, and one run of it after another.
  \<^item> Table: the tables of opened files and directories, links and nodes (lib.rs, file.rs).  FileFrame: the
    file operations leave the tables alone.  Replies, Ops: replies.rs and ops.rs.  FuseConv, Fuse:
    dk2fuse.rs and main.rs of mtdk.  FuseHandles, Handles, Interface: the reference counts of handles in
    every reachable state.  ServedFiles: read and write requests against one array of bytes per file.
    Attributes: the operations on extended attributes against a finite map.
  \<^item> Demo, DemoFile, DemoLife: a formatted device of eight blocks, a file and a directory on it, on which
    the properties are instantiated.

  \<^bold>\<open>How the model reads.\<close>  A function of the code that takes mutable references is a program on the state
  these references reach: \<open>store\<close> (device, super block, clock), \<open>donkey\<close> (a store with the tables), \<open>fuse\<close>
  (a donkey with the kernel's handles), and for the methods of \<open>DkFile\<close> a pair of the file and the store.
  \<^item> \<open>u64\<close> and \<open>usize\<close> are natural numbers and every operation that can leave their range is checked and
    panics, as in the default and test profiles of cargo; modes, flags and bytes are words.  Casts wrap.
  \<^item> Panics end a run.  \<open>Hang\<close> stands for a loop that has used up its fuel.  The fuel is: for
    \<open>allocate_from_free\<close> the size of the device and two (C24 shows that more never helps); for \<open>write_all\<close>,
    \<open>read_exact\<close> and the flush of a buffer the number of bytes, for \<open>read_to_end\<close> one more than the limit;
    for \<open>read_fully\<close> one more round than the file has bytes; for \<open>read_xattr\<close> one more than the block has
    bytes; for the lists of handles to close their length and one.  In each of these loops a round takes at
    least a byte or an element.
  \<^item> The position of the device is not kept, because every access seeks first.  Faults of the medium are
    functions of position and length in \<open>ext\<close>; theorems about successful runs assume \<open>no_faults\<close> within
    \<open>store_ok\<close>.  The clock is a stream of times in \<open>ext\<close>.
  \<^item> bincode, byteorder, serde and the growth of the buffer of \<open>read_to_end\<close> are functions in \<open>ext\<close>; what is
    relied on is \<open>codec_ok\<close> (fixed widths, decoding inverts encoding), which \<open>plain_codec_ok\<close> shows to be
    satisfiable.  The constants of libc are the record \<open>libc\<close> with the instance \<open>linux\<close>.
  \<^item> \<open>Rc\<close> is modelled by keys of the tables and counts of live handles, \<open>RefCell\<close> of the \<open>Donkey\<close> by the flag
    \<open>borrowed\<close>, the lists of inodes to close as stacks; cloning and dropping handles are explicit.
  \<^item> \<open>fuse::mount\<close> hands the requests of the kernel to the handlers one after the other and drops the
    \<open>DonkeyFuse\<close> when the file system is unmounted: the requests and the result of the mount are parameters
    of \<open>mtdk_cli\<close>, and so is what \<open>fork\<close> returns.
  \<^item> The space of the kernel's reply to \<open>readdir\<close> is the parameter \<open>full\<close>.

  \<^bold>\<open>What is shown.\<close>
  \<^item> The contents of files (C1 to C8): the requests of the
    kernel on any number of open files refine an array of bytes per file, which rests on the same for one
    file, one \<open>dk_write\<close>, one \<open>dk_read\<close>, and on the separation of the files; and what one run of mtdk has
    written the next run reads (C2).
  \<^item> The life of files (C9 to C15): making, synchronising,
    closing, loading and deleting a file, its extended attributes, \<open>setattr\<close>, and what truncation does.
  \<^item> The store (C16 to C24): slots are neither lost nor shared,
    exhaustion and the answer of \<open>statfs\<close> are exact, formatting and opening.
  \<^item> Names (C25 to C30): from the formatter to the
    mounted root, the entries of a directory as a finite map, nodes that are made, found and removed.
  \<^item> The block map (C31 to C34): with any state of the caches, \<open>locate\<close> is
    the lookup of the forest, \<open>locate_alloc\<close> adds the block and nothing else, block numbers beyond the
    map panic, and no write leaves the device.
  \<^item> Handles and requests (C35 to C40): reference counts in every reachable
    state, requests that are refused, and the translation of modes, flags and times.

  The theorems on contents are about files without holes (\<open>dense\<close>), which is what sequential writing
  makes.  Where a file is flushed it has no extended attributes (\<open>no_attributes\<close>), except in the theorems
  of FileAttrs, Attributes and Durability, which are about files that have some.  The theorems on
  truncation are about files whose pointer cache is empty, as after opening: \<open>free_file_db\<close> does not look
  at the cache.

  \<^bold>\<open>Not modelled.\<close>  The syntax of the command lines and the mount options, which are data for clap and the fuse
  crate; the logger and the logging macros; \<open>fork\<close> and \<open>fuse::mount\<close> themselves, which are libraries; the
  integration tests; \<open>Debug\<close> and \<open>Display\<close> output.
\<close>

section \<open>The contents of files\<close>

text \<open>
  C1. Any sequence of read and write requests through the handles of several files is answered as one array
  of bytes for each file answers it, in whatever order the requests name the files and handles: a read
  returns the bytes that the writes to that file before it have left, a write is complete, and no
  request to one file changes another.  The writes begin inside the file or at its end, the file \<open>k\<close>
  stays below \<open>N\<close> \<open>k\<close> bytes, and the blocks for that are free (\<open>room\<close>).
\<close>

theorem served_files_are_byte_arrays:
  assumes "volume X is M d s" "clock_ok X" "codec_ok X" "\<not> borrowed s" "room s N M d"
    "volume_requests (file_fh s) N M rs"
  shows "\<exists>t. serve_all L X full req rs s = (Ok (volume_replies (file_fh s) M rs), t)
    \<and> (\<exists>d'. volume X is (foldl (volume_after (file_fh s)) M rs) d' t)"
  using served_requests [OF assms, of L full req] by blast

theorem served_files_are_byte_arrays_witness:
  "\<exists>t. serve_all linux plain_ext (\<lambda>_ _. False) \<lparr>rq_unique = 1, rq_req_uid = 0, rq_req_gid = 0\<rparr>
      [Write 7 0 [1, 2, 3], Read 8 0 10, Read 7 1 10, Write 7 3 [4, 5], Write 7 1 [9], Read 7 0 100, Read 7 5 1] served_state
    = (Ok [RWritten 3, RData [], RData [2, 3], RWritten 2, RWritten 1, RData [1, 9, 3, 4, 5], RData []], t)"
proof -
  let ?rs = "[Write 7 0 [1, 2, 3], Read 8 0 10, Read 7 1 10, Write 7 3 [4, 5], Write 7 1 [9], Read 7 0 100, Read 7 5 1]"
  have "volume_requests (file_fh served_state) one_grows empty_files ?rs"
    by (simp add: served_state_simps overwrite_def volume_request_def volume_after_def empty_files_def one_grows_def)
  from served_files_are_byte_arrays [OF served_state_volume plain_clock_ok plain_codec_ok served_state_simps(1)
      served_state_room this, of linux "\<lambda>_ _. False" "\<lparr>rq_unique = 1, rq_req_uid = 0, rq_req_gid = 0\<rparr>"]
  show ?thesis
    by (auto simp: overwrite_def served_state_simps volume_reply_def volume_after_def empty_files_def)
qed

text \<open>
  C2. The whole of mtdk, twice: it is started on a device that holds the file \<open>k\<close> with the bytes \<open>C\<close>, in this process
  or as a daemon; the kernel opens the file, reads and writes it in any order and releases it, every request
  is answered as one array of bytes answers it, and the file system is unmounted.  Started again on the bytes that
  are left, with everything else of the first run gone, mtdk opens the file and reads at every offset what the array
  of bytes holds.  Something must have been written, or the user not be root, whose open changes the mode.
\<close>

theorem writes_survive_a_remount:
  fixes s :: "'a store_scheme" and s0 :: "'y fuse_scheme" and s1 :: "'z fuse_scheme"
  assumes "durable X k m C s" "dev_open (Some (kind, c, len)) getsize = Ok (dev s)" "clock_ok X" "codec_ok X"
    "real_ino L i = k" "open_flags L fl \<noteq> INVALID" "daemon \<longrightarrow> fork = Child"
    "h = [rq_unique q \<mapsto> \<lparr>fh_key = k, fh_flags = open_flags L fl\<rparr>]"
    "volume_requests h (\<lambda>_. N) [k \<mapsto> C] (map snd rs)" "rq_req_uid q \<noteq> 0 \<or> list_ex (writes h k) (map snd rs)"
    "length C \<le> N" "N \<le> file_limit s" "off < 9223372036854775808"
    "5 * (blocks_for s N - blocks_for s (length C)) < db_count (sb s) - used_db_count (sb s)"
  shows "\<exists>t u. mtdk_cli L X full (Some (kind, c, len)) getsize daemon fork
      ((q, Open i fl) # rs @ [(q', Release (rq_unique q))]) None s0
      = (Ok (ROpened (rq_unique q) (fl AND O_ACCMODE L) # volume_replies h [k \<mapsto> C] (map snd rs) @ [ROk]), t)
    \<and> mtdk_cli L X full (Some (kind, content (dev t), len)) getsize daemon fork
      [(p, Open i fl), (p', Read (rq_unique p) (int off) n), (p'', Release (rq_unique p))] None s1
      = (Ok [ROpened (rq_unique p) (fl AND O_ACCMODE L), RData (take n (drop off (foldl array_after C (map snd rs)))), ROk], u)"
proof -
  let ?C = "foldl array_after C (map snd rs)" and ?read = "[(p', Read (rq_unique p) (int off) n)]"
  obtain t where t: "mtdk_cli L X full (Some (kind, c, len)) getsize daemon fork
      ((q, Open i fl) # rs @ [(q', Release (rq_unique q))]) None s0
      = (Ok (ROpened (rq_unique q) (fl AND O_ACCMODE L) # volume_replies h [k \<mapsto> C] (map snd rs) @ [ROk]), t)"
    "dev_shape t = dev_shape s" "durable X k m ?C t"
  proof (rule session_run [where s = s and k = k and h = h and C' = ?C, OF assms(1,2,5,6,8,7)])
    fix "is" f and s1 :: "'y fuse_scheme"
    assume s1: "opened_files s1 k = Some f" "attr_file X is k m C f s1" "\<not> borrowed s1" "file_fh s1 = h" "dev s1 = dev s" "sb s1 = sb s"
    have same: "N \<le> file_limit s1" "5 * (blocks_for s1 N - blocks_for s1 (length C)) < db_count (sb s1) - used_db_count (sb s1)"
      using assms(12,14) dense_dev(4,5) [OF s1(5,6)] s1(6) by simp_all
    have reqs: "volume_requests (file_fh s1) (\<lambda>_. N) [k \<mapsto> C] (map snd rs)" unfolding s1(4) by (rule assms(9))
    obtain t where "serve_loop L X full rs s1 = (Ok (volume_replies (file_fh s1) [k \<mapsto> C] (map snd rs)), t)"
      "session_step X is k m ?C (map snd rs) s1 t" by (rule served_step [OF s1(1-3) assms(3,4) reqs assms(11) same])
    then show "\<exists>t. serve_loop L X full rs s1 = (Ok (volume_replies h [k \<mapsto> C] (map snd rs)), t)
      \<and> session_step X is k m ?C (map snd rs) s1 t" unfolding s1(4) by blast
  qed (use assms(10) in blast)
  have again: "dev_open (Some (kind, content (dev t), len)) getsize = Ok (dev t)"
    by (rule dev_open_again [OF assms(2)]) (use t(2) in \<open>simp_all add: dev_shape_def\<close>)
  obtain u where "mtdk_cli L X full (Some (kind, content (dev t), len)) getsize daemon fork
      ((p, Open i fl) # ?read @ [(p'', Release (rq_unique p))]) None s1
      = (Ok (ROpened (rq_unique p) (fl AND O_ACCMODE L) # [RData (take n (drop off ?C))] @ [ROk]), u)"
  proof (rule session_run [where s = t and k = k and C' = ?C, OF t(3) again assms(5,6) refl assms(7)])
    fix "is" f and s1 :: "'z fuse_scheme"
    assume s1: "opened_files s1 k = Some f" "attr_file X is k m ?C f s1" "\<not> borrowed s1"
      "file_fh s1 = [rq_unique p \<mapsto> \<lparr>fh_key = k, fh_flags = open_flags L fl\<rparr>]"
    have "file_fh s1 (rq_unique p) = Some \<lparr>fh_key = k, fh_flags = open_flags L fl\<rparr>" by (simp add: s1(4))
    from read_step [OF s1(1-3) assms(3,4) this _ assms(13)] obtain t where
      "serve_loop L X full ?read s1 = (Ok [RData (take n (drop off ?C))], t)"
      "session_step X is k m ?C [Read (rq_unique p) (int off) n] s1 t" by (metis file_handle.select_convs(1))
    then show "\<exists>t. serve_loop L X full ?read s1 = (Ok [RData (take n (drop off ?C))], t)
      \<and> session_step X is k m ?C (map snd ?read) s1 t" by (intro exI conjI) (simp_all only: list.map snd_conv)
  qed
  then have "mtdk_cli L X full (Some (kind, content (dev t), len)) getsize daemon fork
      [(p, Open i fl), (p', Read (rq_unique p) (int off) n), (p'', Release (rq_unique p))] None s1
      = (Ok [ROpened (rq_unique p) (fl AND O_ACCMODE L), RData (take n (drop off ?C)), ROk], u)" by (simp only: append.simps)
  then show ?thesis using t(1) by blast
qed

theorem writes_survive_a_remount_witness:
  "\<exists>t u. mtdk_cli linux plain_ext (\<lambda>_ _. False) (Some (KRegular, disk file_store, 32768)) (Inl 0) True Child
      [(demo_req, Open 1 2), (demo_req, Write 7 0 [7, 8, 9]), (demo_req, Read 7 1 1), (demo_req, Write 7 2 [5, 6, 4]), (demo_req, Release 7)]
      None empty_fuse = (Ok [ROpened 7 2, RWritten 3, RData [8], RWritten 3, ROk], t)
    \<and> mtdk_cli linux plain_ext (\<lambda>_ _. False) (Some (KRegular, content (dev t), 32768)) (Inl 0) True Child
      [(demo_req, Open 1 2), (demo_req, Read 7 1 100), (demo_req, Release 7)] None empty_fuse
      = (Ok [ROpened 7 2, RData [8, 5, 6, 4], ROk], u)"
proof -
  let ?rs = "[(demo_req, Write 7 0 [7, 8, 9]), (demo_req, Read 7 1 1), (demo_req, Write 7 2 [5, 6, 4])]"
  let ?h = "[7 \<mapsto> \<lparr>fh_key = 114514, fh_flags = READ_WRITE\<rparr>]"
  have fl: "open_flags linux 2 = READ_WRITE" "READ_WRITE \<noteq> INVALID" "(2 :: 32 word) AND O_ACCMODE linux = 2"
    by (simp_all add: open_flags_def linux_def flag_bits)
  have u: "rq_unique demo_req = 7" by (simp add: demo_req_def)
  have pre: "real_ino linux 1 = 114514" "open_flags linux 2 \<noteq> INVALID" "True \<longrightarrow> Child = Child"
    "?h = [rq_unique demo_req \<mapsto> \<lparr>fh_key = 114514, fh_flags = open_flags linux 2\<rparr>]"
    "volume_requests ?h (\<lambda>_. 5) [114514 \<mapsto> []] (map snd ?rs)"
    "rq_req_uid demo_req \<noteq> 0 \<or> list_ex (writes ?h 114514) (map snd ?rs)" "length ([] :: byte list) \<le> 5" "5 \<le> file_limit file_store"
    "(1 :: nat) < 9223372036854775808"
    by (simp_all add: real_ino_def linux_root fl u volume_request_def volume_after_def overwrite_def file_store_limit)
  have room: "5 * (blocks_for file_store 5 - blocks_for file_store (length ([] :: byte list))) < db_count (sb file_store) - used_db_count (sb file_store)"
    using demo_blocks_for [of 5] by (simp add: demo_free)
  from writes_survive_a_remount [OF demo_durable demo_image plain_clock_ok plain_codec_ok pre room,
      of "\<lambda>_ _. False" demo_req empty_fuse demo_req demo_req 100 demo_req empty_fuse]
  show ?thesis by (simp add: fl u overwrite_def volume_reply_def volume_after_def)
qed

text \<open>
  C3. What \<open>write_all\<close> has written is what \<open>read_to_end\<close> returns, for a limit of as many bytes, after a seek
  back to where the writing began.
\<close>

theorem written_bytes_are_read_back:
  assumes "dense X V is ds (f, s)" "clock_ok X" "f_pos f \<le> i_size (f_inode f)"
    "f_pos f + length buf \<le> file_limit s" "f_pos f < 9223372036854775808"
    "write_all X buf (f, s) = (Ok (), (g, t))"
  shows "\<exists>h u. bnd (seek (SeekStart (f_pos f))) (\<lambda>_. take_read_to_end X (length buf)) (g, t) = (Ok buf, (h, u))"
proof -
  let ?C = "overwrite (f_pos f) buf (contents V (f, s))"
  obtain d' where "stream X is V ds (f, s) ?C (f_pos f + length buf) d' (g, t)"
    by (rule write_all_run [OF assms(1-4)]) (use assms(6) in \<open>auto split: if_splits\<close>)
  from read_back [OF this store_okD(1) [OF file_mapD(1) [OF denseD(1) [OF assms(1)]]] assms(5), of "length buf"]
  show ?thesis using assms(3) by (simp add: overwrite_def)
qed

theorem written_bytes_are_read_back_witness:
  "\<exists>g t h u. write_all plain_ext [7, 8, 9] (demo_file, file_store) = (Ok (), (g, t))
    \<and> bnd (seek (SeekStart 0)) (\<lambda>_. take_read_to_end plain_ext 3) (g, t) = (Ok [7, 8, 9], (h, u))"
proof -
  obtain g t where w: "write_all plain_ext [7, 8, 9] (demo_file, file_store) = (Ok (), (g, t))"
    using demo_write_all by blast
  have "\<exists>h u. bnd (seek (SeekStart (f_pos demo_file))) (\<lambda>_. take_read_to_end plain_ext (length [7 :: byte, 8, 9])) (g, t) =
      (Ok [7, 8, 9], (h, u))"
    by (rule written_bytes_are_read_back [OF demo_dense(1) plain_clock_ok demo_room(1,2) _ w]) simp
  moreover have "length [7 :: byte, 8, 9] = 3" by simp
  ultimately show ?thesis using w unfolding demo_file_simps(1) by metis
qed

text \<open>
  C4. Writing refines overwriting in a growable sequence of bytes: as much of the buffer as fits into the
  block replaces the bytes from the position on, or extends them at the end; the file keeps being one
  without holes that can be stored in an inode.  Or the device has no block left, then the contents are
  as before.  No byte is written that belongs to another file, to an inode or to a used block.
\<close>

theorem writes_overwrite_the_contents:
  assumes "dense X V is ds (f, s)" "clock_ok X" "f_pos f \<le> i_size (f_inode f)" "buf \<noteq> []"
    "f_pos f + length buf \<le> file_limit s" "k = chunk_len s (f_pos f) (length buf)"
  shows "\<exists>r g t V' ds'. dk_write X buf (f, s) = (r, (g, t)) \<and> dense X V' is ds' (g, t) \<and> same_id f g
    \<and> (\<forall>a. a \<notin> own V ds (f, s) \<longrightarrow> disk t a = disk s a) \<and> (\<exists>us. ds = us @ ds' \<and> length us \<le> 5)
    \<and> (r = Ok k \<and> contents V' (g, t) = overwrite (f_pos f) (take k buf) (contents V (f, s)) \<and> f_pos g = f_pos f + k
       \<or> r = Err Exhausted \<and> ds' = [] \<and> contents V' (g, t) = contents V (f, s) \<and> f_pos g = f_pos f)"
proof -
  obtain r g t V' ds' where w: "dk_write X buf (f, s) = (r, (g, t))" "steps_to X is 5 V ds (f, s) V' ds' (g, t)"
    "case r of
      Ok k \<Rightarrow> k = chunk_len s (f_pos f) (length buf) \<and> f_pos g = f_pos f + k
        \<and> contents V' (g, t) = overwrite (f_pos f) (take k buf) (contents V (f, s))
    | Err e \<Rightarrow> e = Exhausted \<and> ds' = [] \<and> f_pos g = f_pos f \<and> contents V' (g, t) = contents V (f, s)
    | _ \<Rightarrow> False" using dk_write_run [OF assms(1-5)] by blast
  have "r = Ok k \<and> contents V' (g, t) = overwrite (f_pos f) (take k buf) (contents V (f, s)) \<and> f_pos g = f_pos f + k
      \<or> r = Err Exhausted \<and> ds' = [] \<and> contents V' (g, t) = contents V (f, s) \<and> f_pos g = f_pos f"
    using w(3) assms(6) by (cases r) auto
  then show ?thesis using w(1) steps_D(1,2,7) [OF w(2)] evolves_disk [OF steps_D(3) [OF w(2)]] by blast
qed

theorem writes_overwrite_the_contents_witness:
  "\<exists>r g t V' ds'. dk_write plain_ext [1, 2, 3] (demo_file, file_store) = (r, (g, t))
    \<and> dense plain_ext V' (tl demo_inodes) ds' (g, t) \<and> same_id demo_file g
    \<and> (\<forall>a. a \<notin> own (\<lambda>_. []) demo_blocks (demo_file, file_store) \<longrightarrow> disk t a = disk file_store a)
    \<and> (\<exists>us. demo_blocks = us @ ds' \<and> length us \<le> 5)
    \<and> (r = Ok 3 \<and> contents V' (g, t) = overwrite (f_pos demo_file) (take 3 [1, 2, 3]) (contents (\<lambda>_. []) (demo_file, file_store))
         \<and> f_pos g = f_pos demo_file + 3
       \<or> r = Err Exhausted \<and> ds' = [] \<and> contents V' (g, t) = contents (\<lambda>_. []) (demo_file, file_store)
         \<and> f_pos g = f_pos demo_file)"
  by (rule writes_overwrite_the_contents [OF demo_dense(1) plain_clock_ok])
    (simp_all add: file_store_limit chunk_len_def file_store_size)

text \<open>
  C5. Reading \<open>n\<close> bytes of a file without holes returns its bytes from the position on, up to the end of the
  block at most, and moves the position behind them; the contents stay as they are and nothing outside
  the file is written.
\<close>

theorem reads_return_the_contents:
  assumes "dense X V is ds (f, s)"
  shows "\<exists>g t. dk_read X n (f, s) =
      (Ok (take (chunk_len s (f_pos f) n) (drop (f_pos f) (contents V (f, s)))), (g, t))
    \<and> dense X V is ds (g, t) \<and> contents V (g, t) = contents V (f, s)
    \<and> f_pos g = f_pos f + min (chunk_len s (f_pos f) n) (i_size (f_inode f) - f_pos f)
    \<and> (\<forall>a. a \<notin> own V ds (f, s) \<longrightarrow> disk t a = disk s a)"
proof -
  obtain g t where r: "dk_read X n (f, s) = (Ok (take (chunk_len s (f_pos f) n) (drop (f_pos f) (contents V (f, s)))), (g, t))"
    "steps_to X is 0 V ds (f, s) V ds (g, t)" "contents V (g, t) = contents V (f, s)"
    "f_pos g = f_pos f + min (chunk_len s (f_pos f) n) (i_size (f_inode f) - f_pos f)"
    using dk_read_run [OF assms, of n] unfolding chunk_len_def by blast
  then show ?thesis using steps_D(1) [OF r(2)] evolves_disk [OF steps_D(3) [OF r(2)]] by blast
qed

theorem reads_return_the_contents_witness:
  "\<exists>g t. dk_read plain_ext 100 (demo_file, file_store) =
      (Ok (take (chunk_len file_store 0 100) (drop 0 (contents (\<lambda>_. []) (demo_file, file_store)))), (g, t))"
  using reads_return_the_contents [OF demo_dense(1) [of "\<lambda>_. []"], of 100] unfolding demo_file_simps(1) by blast

text \<open>
  C6. Files do not interfere: when two files on a device have no block in common, a write to the first one,
  whether it succeeds or finds the device exhausted, leaves the contents of the second one as they were,
  and afterwards the files still have no block in common.
\<close>

theorem files_do_not_interfere:
  assumes "dense X V is ds (f, s)" "dense X W is ds (g, s)" "apart s V f W g" "clock_ok X"
    "f_pos f \<le> i_size (f_inode f)" "buf \<noteq> []" "f_pos f + length buf \<le> file_limit s"
  shows "\<exists>r f' t V' ds'. dk_write X buf (f, s) = (r, (f', t)) \<and> dense X V' is ds' (f', t) \<and> dense X W is ds' (g, t)
    \<and> contents W (g, t) = contents W (g, s) \<and> apart t V' f' W g"
proof -
  from dk_write_run [OF assms(1,4-7)] obtain r f' t V' ds' where
    w: "dk_write X buf (f, s) = (r, (f', t))" "steps_to X is 5 V ds (f, s) V' ds' (f', t)" by blast
  from steps_frame [OF w(2) assms(2,3,1)] show ?thesis using w(1) steps_D(1) [OF w(2)] by blast
qed

theorem files_do_not_interfere_witness:
  "\<exists>r f' t V' ds'. dk_write plain_ext [7, 8, 9] (demo_file, served_state) = (r, (f', t))
    \<and> dense plain_ext V' (tl demo_inodes) ds' (f', t)
    \<and> dense plain_ext (\<lambda>_. []) (tl demo_inodes) ds' (dkfile_new (demo_inode 114515 0), t)
    \<and> contents (\<lambda>_. []) (dkfile_new (demo_inode 114515 0), t) = contents (\<lambda>_. []) (dkfile_new (demo_inode 114515 0), served_state)
    \<and> apart t V' f' (\<lambda>_. []) (dkfile_new (demo_inode 114515 0))"
proof (rule files_do_not_interfere)
  show "dense plain_ext (\<lambda>_. []) (tl demo_inodes) demo_blocks (demo_file, served_state)"
    unfolding demo_file_def by (rule fresh_on_demo [OF served_state_simps(4,5) demo_blank_inode])
  show "dense plain_ext (\<lambda>_. []) (tl demo_inodes) demo_blocks (dkfile_new (demo_inode 114515 0), served_state)"
    by (rule fresh_on_demo [OF served_state_simps(4,5) demo_blank_inode2])
  show "apart served_state (\<lambda>_. []) demo_file (\<lambda>_. []) (dkfile_new (demo_inode 114515 0))"
    by (simp add: apart_def fresh_nodes(7) [OF demo_blank_inode2])
  have "file_limit served_state = file_limit file_store" by (simp add: file_limit_def pcount_def served_state_simps(5))
  then show "f_pos demo_file + length [7 :: byte, 8, 9] \<le> file_limit served_state" by (simp add: file_store_limit)
qed (simp_all add: plain_clock_ok)

text \<open>
  C7. \<open>write_all\<close> always ends, and with more than five free blocks for every block by which the file grows it
  writes all its bytes.  Otherwise it reports that the device is exhausted, after a prefix of the bytes
  has been written.
\<close>

theorem write_all_ends:
  assumes "dense X V is ds (f, s)" "clock_ok X" "f_pos f \<le> i_size (f_inode f)"
    "f_pos f + length buf \<le> file_limit s"
  shows "\<exists>m g t V' ds'. m \<le> length buf \<and> write_all X buf (f, s) =
      (if m = length buf then Ok () else Err (io_error_of_dk Exhausted), (g, t))
    \<and> dense X V' is ds' (g, t) \<and> f_pos g = f_pos f + m
    \<and> contents V' (g, t) = overwrite (f_pos f) (take m buf) (contents V (f, s))
    \<and> (5 * (blocks_for s (f_pos f + length buf) - blocks_for s (i_size (f_inode f))) < length ds \<longrightarrow> m = length buf)"
proof -
  obtain m g t d' where m: "m \<le> length buf"
    "write_all X buf (f, s) = (if m = length buf then Ok () else Err (io_error_of_dk Exhausted), (g, t))"
    "stream X is V ds (f, s) (overwrite (f_pos f) (take m buf) (contents V (f, s))) (f_pos f + m) d' (g, t)"
    "5 * (blocks_for s (f_pos f + length buf) - blocks_for s (i_size (f_inode f))) < length ds \<longrightarrow> m = length buf"
    by (rule write_all_run [OF assms])
  obtain g' t' V' ds' n where "(g, t) = (g', t')" "steps_to X is n V ds (f, s) V' ds' (g', t')"
    "contents V' (g', t') = overwrite (f_pos f) (take m buf) (contents V (f, s))" "f_pos g' = f_pos f + m"
    using m(3) by (rule streamE)
  then show ?thesis using m(1,2,4) steps_D(1) by blast
qed

theorem write_all_ends_witness:
  "\<exists>g t V' ds'. write_all plain_ext [7, 8, 9] (demo_file, file_store) = (Ok (), (g, t))
    \<and> dense plain_ext V' (tl demo_inodes) ds' (g, t)
    \<and> contents V' (g, t) = overwrite 0 [7, 8, 9] (contents (\<lambda>_. []) (demo_file, file_store))"
  using write_all_ends [OF demo_dense(1) plain_clock_ok demo_room(1,2)] demo_room(3)
  unfolding demo_file_simps(1) by fastforce

text \<open>
  C8. The inodes of the open files stay well-formed: after any such sequence of requests every field of them
  fits into the record that \<open>write_inode\<close> writes, the size is the length of the contents, and the bytes
  of the record decode to the same inode.
\<close>

theorem served_inodes_stay_encodable:
  assumes "volume X is M d s" "clock_ok X" "codec_ok X" "\<not> borrowed s" "room s N M d"
    "volume_requests (file_fh s) N M rs" "foldl (volume_after (file_fh s)) M rs k = Some C"
  shows "\<exists>t f. serve_all L X full req rs s = (Ok (volume_replies (file_fh s) M rs), t) \<and> opened_files t k = Some f
    \<and> inode_fields_ok (f_inode f) \<and> i_size (f_inode f) = length C
    \<and> inode_of_values (dec_fields X inode_layout (inode_bytes X (f_inode f))) = f_inode f"
proof -
  obtain t d' where t: "serve_all L X full req rs s = (Ok (volume_replies (file_fh s) M rs), t)"
    "volume X is (foldl (volume_after (file_fh s)) M rs) d' t"
    using served_requests [OF assms(1-6)] by blast
  then obtain Vs ds where v: "volume_of X is (foldl (volume_after (file_fh s)) M rs) Vs ds (opened_files t) t"
    by (auto simp: volume_def)
  obtain f where f: "opened_files t k = Some f" "dense X (Vs k) is ds (f, t)" "contents (Vs k) (f, t) = C"
    by (rule volume_file [OF v assms(7)])
  have "inode_fields_ok (f_inode f)" using f(2) by (simp add: dense_def)
  then show ?thesis
    using t(1) f(1) inode_round_trip [OF assms(3), of "f_inode f" "[]"] arg_cong [OF f(3), of length] by (intro exI conjI) simp_all
qed

theorem served_inodes_stay_encodable_witness:
  "\<exists>t f. serve_all linux plain_ext (\<lambda>_ _. False) \<lparr>rq_unique = 1, rq_req_uid = 0, rq_req_gid = 0\<rparr>
      [Write 7 0 [1, 2, 3]] served_state = (Ok [RWritten 3], t) \<and> opened_files t 114514 = Some f
    \<and> i_size (f_inode f) = 3 \<and> inode_of_values (dec_fields plain_ext inode_layout (inode_bytes plain_ext (f_inode f))) = f_inode f"
proof -
  let ?h = "file_fh served_state" and ?rs = "[Write 7 0 [1, 2, 3]]"
  have reqs: "volume_requests ?h one_grows empty_files ?rs"
    by (simp add: served_state_simps volume_request_def empty_files_def one_grows_def)
  have eq: "foldl (volume_after ?h) empty_files ?rs 114514 = Some [1, 2, 3]" "volume_replies ?h empty_files ?rs = [RWritten 3]"
    by (simp_all add: overwrite_def served_state_simps volume_after_def volume_reply_def empty_files_def)
  have "\<exists>t f. serve_all linux plain_ext (\<lambda>_ _. False) \<lparr>rq_unique = 1, rq_req_uid = 0, rq_req_gid = 0\<rparr>
      ?rs served_state = (Ok (volume_replies ?h empty_files ?rs), t)
    \<and> opened_files t 114514 = Some f \<and> inode_fields_ok (f_inode f) \<and> i_size (f_inode f) = length [1 :: byte, 2, 3]
    \<and> inode_of_values (dec_fields plain_ext inode_layout (inode_bytes plain_ext (f_inode f))) = f_inode f"
    by (rule served_inodes_stay_encodable [OF served_state_volume plain_clock_ok plain_codec_ok served_state_simps(1)
      served_state_room reqs eq(1)])
  then show ?thesis unfolding eq by auto
qed

section \<open>The life of files\<close>

text \<open>
  C9. What has been synchronised is durable: after a successful \<open>fsync\<close> of an open file, any file system
  that is opened on that device, with nothing of the old one but the bytes of the device, opens the file
  with the same attributes and reads the same bytes at every offset.  This composes the super block, the
  inode table, the pointer blocks behind the caches, the attributes and the data.
\<close>

theorem fsync_makes_durable:
  assumes "opened_files s (fh_key fh) = Some f" "attr_file X is (fh_key fh) m C f s" "\<not> borrowed s"
    "clock_ok X" "codec_ok X" "off < 9223372036854775808"
  shows "\<exists>t. h_fsync X fh False s = (Ok (), t) \<and> (\<forall>u :: 'z donkey_scheme. dev u = dev t \<longrightarrow>
    (\<exists>u1 h u2 u3. open_fs X u = (Ok (), u1) \<and> h_open X (fh_key fh) READ_ONLY u1 = (Ok h, u2)
      \<and> map_option f_xattr (opened_files u2 (fh_key h)) = Some m
      \<and> h_read X h off n u2 = (Ok (take n (drop off C)), u3)))"
proof -
  obtain t where t: "h_fsync X fh False s = (Ok (), t)" "durable X (fh_key fh) m C t"
    by (rule h_fsync_run [OF assms(1-3)])
  show ?thesis
  proof (rule exI [of _ t], intro conjI allI impI)
    show "h_fsync X fh False s = (Ok (), t)" by (rule t(1))
    fix u :: "'z donkey_scheme" assume "dev u = dev t"
    from durable_found [OF t(2) this assms(4-6), of n]
    show "\<exists>u1 h u2 u3. open_fs X u = (Ok (), u1) \<and> h_open X (fh_key fh) READ_ONLY u1 = (Ok h, u2)
      \<and> map_option f_xattr (opened_files u2 (fh_key h)) = Some m
      \<and> h_read X h off n u2 = (Ok (take n (drop off C)), u3)" by (metis file_handle.select_convs(1))
  qed
qed

theorem fsync_makes_durable_witness:
  "\<exists>(s :: fuse) f t u1 h u2 u3. opened_files s 114514 = Some f \<and> i_size (f_inode f) = 3
    \<and> h_fsync plain_ext \<lparr>fh_key = 114514, fh_flags = READ_WRITE\<rparr> False s = (Ok (), t)
    \<and> open_fs plain_ext (empty_fuse\<lparr>dev := dev t\<rparr>) = (Ok (), u1) \<and> h_open plain_ext 114514 READ_ONLY u1 = (Ok h, u2)
    \<and> h_read plain_ext h 1 100 u2 = (Ok [8, 9], u3)"
proof -
  obtain s :: fuse and f where s: "opened_files s 114514 = Some f" "\<not> borrowed s"
    "attr_file plain_ext (tl demo_inodes) 114514 [] [7, 8, 9] f s" by (rule demo_written)
  have size: "i_size (f_inode f) = 3" using attr_file_size [OF s(3)] by simp
  let ?h = "\<lparr>fh_key = 114514, fh_flags = READ_WRITE\<rparr>"
  have pre: "opened_files s (fh_key ?h) = Some f" "attr_file plain_ext (tl demo_inodes) (fh_key ?h) [] [7, 8, 9] f s"
    using s by simp_all
  have off: "(1 :: nat) < 9223372036854775808" by simp
  have "\<exists>t. h_fsync plain_ext ?h False s = (Ok (), t) \<and> (\<forall>u :: fuse. dev u = dev t \<longrightarrow>
    (\<exists>u1 h u2 u3. open_fs plain_ext u = (Ok (), u1) \<and> h_open plain_ext (fh_key ?h) READ_ONLY u1 = (Ok h, u2)
      \<and> map_option f_xattr (opened_files u2 (fh_key h)) = Some []
      \<and> h_read plain_ext h 1 100 u2 = (Ok (take 100 (drop 1 [7, 8, 9])), u3)))"
    by (rule fsync_makes_durable [OF pre s(2) plain_clock_ok plain_codec_ok off])
  then obtain t where t: "h_fsync plain_ext ?h False s = (Ok (), t)" and all: "\<And>u :: fuse. dev u = dev t \<Longrightarrow>
    (\<exists>u1 h u2 u3. open_fs plain_ext u = (Ok (), u1) \<and> h_open plain_ext (fh_key ?h) READ_ONLY u1 = (Ok h, u2)
      \<and> map_option f_xattr (opened_files u2 (fh_key h)) = Some []
      \<and> h_read plain_ext h 1 100 u2 = (Ok (take 100 (drop 1 [7, 8, 9])), u3))" by blast
  have "dev (empty_fuse\<lparr>dev := dev t\<rparr>) = dev t" by simp
  from all [OF this] obtain u1 h u2 u3 where "open_fs plain_ext (empty_fuse\<lparr>dev := dev t\<rparr>) = (Ok (), u1)"
    "h_open plain_ext 114514 READ_ONLY u1 = (Ok h, u2)" "h_read plain_ext h 1 100 u2 = (Ok (take 100 (drop 1 [7, 8, 9])), u3)"
    by auto
  moreover have "take 100 (drop 1 [7, 8, 9]) = [8, 9 :: byte]" by simp
  ultimately show ?thesis using s(1) size t by metis
qed

text \<open>
  C10. Closing a changed file without handles writes its pointer blocks and its inode and removes it from the
  table; loading it again, with nothing but the device to go by, gives the same inode and contents.
\<close>

theorem closed_files_are_reloaded:
  assumes "opened_files s k = Some f" "file_refs s k = 0" "k = i_ino (f_inode f)" "dense X V is ds (f, s)"
    "inode_used is (f, s)" "no_attributes f" "f_dirty f" "0 < i_nlink (f_inode f)"
  shows "\<exists>t u. close_file X k s = (Ok (), t) \<and> opened_files t k = None \<and> load_file X k t = (Ok (), u)
    \<and> opened_files u k = Some (dkfile_new (f_inode f)) \<and> dense X V is ds (dkfile_new (f_inode f), u)
    \<and> contents V (dkfile_new (f_inode f), u) = contents V (f, s)"
  by (rule close_and_load [OF assms]) blast

theorem closed_files_are_reloaded_witness:
  "\<exists>(s :: fuse) f V t u. opened_files s 114514 = Some f \<and> contents V (f, s) = [7, 8, 9]
    \<and> close_file plain_ext 114514 s = (Ok (), t) \<and> opened_files t 114514 = None
    \<and> load_file plain_ext 114514 t = (Ok (), u)
    \<and> opened_files u 114514 = Some (dkfile_new (f_inode f)) \<and> contents V (dkfile_new (f_inode f), u) = [7, 8, 9]"
proof -
  obtain s :: fuse and f V ds where s: "opened_files s 114514 = Some f" "file_refs s 114514 = 0"
    "114514 = i_ino (f_inode f)" "dense plain_ext V (tl demo_inodes) ds (f, s)" "inode_used (tl demo_inodes) (f, s)"
    "no_attributes f" "f_dirty f" "0 < i_nlink (f_inode f)" "contents V (f, s) = [7, 8, 9]"
    by (rule demo_table)
  from closed_files_are_reloaded [OF s(1-8)] show ?thesis using s(1,9) by metis
qed

text \<open>
  C11. \<open>mknod\<close> takes the first free inode number and stores an inode with the given mode, owner and link
  count; the file loaded from it is an empty file without holes whose inode is in use.
\<close>

theorem new_files_are_empty:
  assumes "store_ok X s (ino # is) ds" "clock_ok X" "pcount s ^ 4 < u64_limit" "uid < 4294967296"
    "gid < 4294967296" "nlink < u64_limit"
  shows "\<exists>i t. mknod X mode uid gid nlink None s = (Ok ino, t) \<and> read_inode X ino t = (Ok i, t)
    \<and> i_mode i = mode \<and> i_uid i = uid \<and> i_gid i = gid \<and> i_nlink i = nlink
    \<and> dense X V is ds (dkfile_new i, t) \<and> contents V (dkfile_new i, t) = [] \<and> inode_used is (dkfile_new i, t)"
proof -
  obtain i t where m: "mknod X mode uid gid nlink None s = (Ok ino, t)" "store_ok X t is ds"
    "read_inode X ino t = (Ok i, t)" "blank_inode i" "i_mode i = mode" "i_uid i = uid" "i_gid i = gid"
    "i_nlink i = nlink" "inode_used is (dkfile_new i, t)" "pcount t = pcount s"
    by (rule mknod_run [OF assms, of None]) auto
  have "pcount t ^ 4 < u64_limit" using assms(3) m(10) by simp
  from fresh_dense [OF m(2) this m(4)] show ?thesis using m by blast
qed

theorem new_files_are_empty_witness:
  "\<exists>i t. mknod plain_ext REGULAR_FILE 5 6 1 None (mounted demo_store) = (Ok 114514, t) \<and> read_inode plain_ext 114514 t = (Ok i, t)
    \<and> i_mode i = REGULAR_FILE \<and> i_uid i = 5 \<and> i_gid i = 6 \<and> i_nlink i = 1
    \<and> dense plain_ext (\<lambda>_. []) (tl demo_inodes) demo_blocks (dkfile_new i, t)
    \<and> contents (\<lambda>_. []) (dkfile_new i, t) = [] \<and> inode_used (tl demo_inodes) (dkfile_new i, t)"
proof -
  have "store_ok plain_ext (mounted demo_store) (114514 # tl demo_inodes) demo_blocks"
    using demo_ok store_ok_dev [of "mounted demo_store" demo_store] by (simp add: demo_inodes_def mounted_def)
  then show ?thesis
    by (rule new_files_are_empty [OF _ plain_clock_ok]) (simp_all add: pcount_def demo_store_sb mounted_def)
qed



text \<open>
  C13. The extended attributes of a file are a finite map: any sequence of setting, removing, reading and
  listing them gets the replies of a map from names to values (a list of names comes in order), and the
  contents of the file stay as they were.  It makes no difference whether the file stays open between
  two operations or is closed, written to the device and loaded again.  The names have 1 to 256 bytes,
  the attributes fit into one block, and the last attribute is not removed.
\<close>

theorem attributes_are_a_map:
  assumes "attr_state X is k m C bs s" "attr_ops_ok X bs m ops"
  shows "\<exists>t. run_attrs X k ops s = (Ok (map_replies (map_of m) ops), t)
    \<and> attr_state X is k (foldl omap_after m ops) C bs t"
  by (rule attr_ops_run [OF assms])

theorem attributes_are_a_map_witness:
  "\<exists>t. run_attrs plain_ext 114514
      [SetAttr [97] [1, 2], GetAttr [97], SetAttr [98] [3], ListAttrs, RemoveAttr [97], GetAttr [97], ListAttrs] attr_demo
    = (Ok [AttrDone, AttrValue (Some [1, 2]), AttrDone, AttrNames [[97], [98]], AttrDone, AttrValue None, AttrNames [[98]]], t)"
proof -
  let ?ops = "[SetAttr [97] [1, 2], GetAttr [97], SetAttr [98] [3], ListAttrs, RemoveAttr [97], GetAttr [97], ListAttrs]"
  have "attr_ops_ok plain_ext 4096 [] ?ops"
    by (simp add: attrs_fit_in_def attrs_ok_def om_valid_def xattr_bytes_def om_remove_def)
  from attributes_are_a_map [OF attr_demo_state this]
  show ?thesis by auto
qed



text \<open>
  C15. Truncation to at most eleven blocks frees every block of the file, each once, and the store stays
  consistent.  For the size 0 that is right: the file is empty and can be written again.  For any other size
  it is not what the comment promises (the first block to free is the one behind the new end): the
  answer reports the new size, but the file has no block left, and a read at any position of it finds the end.
\<close>

theorem short_truncations_lose_the_file:
  fixes s :: "'z donkey_scheme"
  assumes "opened_files s (fh_key fh) = Some f" "dense X V is ds (f, s)" "i_ino (f_inode f) = fh_key fh"
    "f_cache f = [None, None, None, None]" "i_xattr_ptr (f_inode f) = 0" "n < i_size (f_inode f)"
    "n \<le> 11 * block_size (sb s)" "n + block_size (sb s) < u64_limit" "clock_ok X" "close_files s = []" "\<not> borrowed s"
    "off < 12 * block_size (sb s)" "off < 9223372036854775808"
  shows "\<exists>st t qs g u. h_setattr X (fh_key fh) (Some fh) (size_request n) s = (Ok st, t) \<and> st_size st = n \<and> st_blocks st = 0
     \<and> distinct qs \<and> set qs = all_nodes (pcount s) (rows f) V \<and> store_ok X t is (rev qs @ ds)
     \<and> opened_files t (fh_key fh) = Some g \<and> (dense X V is (rev qs @ ds) (g, t) \<and> contents V (g, t) = [] \<or> n \<noteq> 0)
     \<and> h_read X fh off m t = (Ok [], u)"
proof -
  obtain st t a b qs where t: "h_setattr X (fh_key fh) (Some fh) (size_request n) s = (Ok st, t)"
    "st_size st = n" "st_blocks st = 0" "distinct qs" "set qs = all_nodes (pcount s) (rows f) V"
    "store_ok X t is (rev qs @ ds)" "opened_files t (fh_key fh) = Some (emptied n b a f)" "\<not> borrowed t"
    "block_size (sb t) = block_size (sb s)" "pcount t = pcount s" "timespec_ok a" "timespec_ok b"
    "inode_fields_ok (f_inode f)" "pcount s ^ 4 < u64_limit"
    by (rule truncated_run [OF assms(1-11)])
  have p: "pcount t ^ 4 < u64_limit" "off < 12 * block_size (sb t)" using t(9,10,14) assms(12) by simp_all
  obtain u where u: "h_read X fh off m t = (Ok [], u)"
    by (rule emptied_read [OF t(7,6) p(1) assms(4,5) t(13,11,12,8) p(2) assms(13)])
  have "dense X V is (rev qs @ ds) (emptied 0 b a f, t) \<and> contents V (emptied 0 b a f, t) = []"
    using emptied_map(3,4) [OF t(6) p(1) assms(4,5) t(13,11,12)] by blast
  then have e: "dense X V is (rev qs @ ds) (emptied n b a f, t) \<and> contents V (emptied n b a f, t) = [] \<or> n \<noteq> 0"
    by (cases "n = 0") simp_all
  show ?thesis by (intro exI conjI) (rule t(1-7) e u)+
qed

theorem short_truncations_lose_the_file_witness:
  "\<exists>s V f is ds st t u. dense plain_ext V is ds (f, s :: fuse) \<and> i_size (f_inode f) = 3
     \<and> h_setattr plain_ext 114514 (Some \<lparr>fh_key = 114514, fh_flags = READ_WRITE\<rparr>) (size_request 1) s = (Ok st, t) \<and> st_size st = 1
     \<and> h_read plain_ext \<lparr>fh_key = 114514, fh_flags = READ_WRITE\<rparr> 0 1 t = (Ok [], u)"
proof -
  let ?fh = "\<lparr>fh_key = 114514, fh_flags = READ_WRITE\<rparr>"
  obtain s :: fuse and f V ds where s: "opened_files s 114514 = Some f" "i_ino (f_inode f) = 114514"
    "dense plain_ext V (tl demo_inodes) ds (f, s)" "f_cache f = [None, None, None, None]" "i_xattr_ptr (f_inode f) = 0"
    "i_size (f_inode f) = 3" "block_size (sb s) = 4096" "close_files s = []" "\<not> borrowed s"
    by (rule demo_reopened)
  have p: "opened_files s (fh_key ?fh) = Some f" "i_ino (f_inode f) = fh_key ?fh" "1 < i_size (f_inode f)"
    "1 \<le> 11 * block_size (sb s)" "1 + block_size (sb s) < u64_limit" "0 < 12 * block_size (sb s)" "(0 :: nat) < 9223372036854775808"
    using s(1,2,6,7) by simp_all
  from short_truncations_lose_the_file [OF p(1) s(3) p(2) s(4,5) p(3-5) plain_clock_ok s(8,9) p(6,7), of 1]
  show ?thesis using s(3,6) unfolding file_handle.select_convs by blast
qed

section \<open>The store\<close>

text \<open>
  C16. Data blocks are never handed out twice and never lost: from a consistent store with free blocks
  \<open>ds\<close>, any sequence of \<open>allocate_db\<close> and \<open>free_db\<close> by a client that holds the blocks \<open>hs\<close> runs
  without an error other than exhaustion, keeps the store consistent, and held and free blocks stay
  disjoint and always make up the same set.
\<close>

theorem data_blocks_never_shared:
  assumes "store_ok X s is ds" "distinct hs" "set hs \<inter> set ds = {}" "set hs \<subseteq> data_blocks s"
  shows "\<exists>hs' s' is' ds'. run_slots (allocate_db X) (free_db X) ops hs s = (Ok hs', s')
     \<and> store_ok X s' is' ds' \<and> distinct hs' \<and> set hs' \<inter> set ds' = {}
     \<and> set hs' \<union> set ds' = set hs \<union> set ds"
  using db_slots.client_safe [of X s ds hs ops] assms by blast

theorem data_blocks_never_shared_witness:
  "\<exists>hs' s' is' ds'. run_slots (allocate_db plain_ext) (free_db plain_ext) [Take, Take, Give 1, Take] []
       demo_store = (Ok hs', s')
     \<and> store_ok plain_ext s' is' ds' \<and> distinct hs' \<and> set hs' \<inter> set ds' = {}
     \<and> set hs' \<union> set ds' = set [] \<union> set demo_blocks"
  by (rule data_blocks_never_shared [OF demo_ok]) simp_all

text \<open>
  C17. Inode numbers are never handed out twice and never lost (the same for \<open>allocate_inode\<close> and
  \<open>free_inode\<close>).
\<close>

theorem inodes_never_shared:
  assumes "store_ok X s is ds" "distinct hs" "set hs \<inter> set is = {}" "set hs \<subseteq> inode_numbers (sb s)"
  shows "\<exists>hs' s' is' ds'. run_slots (allocate_inode X) (free_inode X) ops hs s = (Ok hs', s')
     \<and> store_ok X s' is' ds' \<and> distinct hs' \<and> set hs' \<inter> set is' = {}
     \<and> set hs' \<union> set is' = set hs \<union> set is"
  using inode_slots.client_safe [of X s "is" hs ops] assms by blast

theorem inodes_never_shared_witness:
  "\<exists>hs' s' is' ds'. run_slots (allocate_inode plain_ext) (free_inode plain_ext) [Take, Give 0, Take] []
       demo_store = (Ok hs', s')
     \<and> store_ok plain_ext s' is' ds' \<and> distinct hs' \<and> set hs' \<inter> set is' = {}
     \<and> set hs' \<union> set is' = set [] \<union> set demo_inodes"
  by (rule inodes_never_shared [OF demo_ok]) simp_all

text \<open>
  C18. The inode table is a table: inodes with different numbers, written one after the other, can all be
  read back as they were, whatever the table held before.
\<close>

theorem inodes_survive_other_writes:
  assumes "store_ok X s is ds" "distinct (map i_ino vs)"
    "\<forall>v \<in> set vs. inode_fields_ok v \<and> i_ino v \<in> inode_numbers (sb s)"
  shows "\<exists>s'. put_all (write_inode X) vs s = (Ok (), s') \<and>
    (\<forall>v \<in> set vs. read_inode X (i_ino v) s' = (Ok v, s'))"
  using inodes.put_all_get [of vs X s] assms store_ok_table [OF assms(1)] by simp

theorem inodes_survive_other_writes_witness:
  "\<exists>s'. put_all (write_inode plain_ext) [demo_inode 114514 1, demo_inode 114520 2] demo_store = (Ok (), s') \<and>
    (\<forall>v \<in> set [demo_inode 114514 1, demo_inode 114520 2]. read_inode plain_ext (i_ino v) s' = (Ok v, s'))"
  by (rule inodes_survive_other_writes [OF demo_ok])
    (simp_all add: demo_inode_def inode_fields_ok_def timespec_ok_def ptrs_shape_def ptrs_values_def
      default_ptrs_def inode_numbers_def demo_store_sb)





text \<open>
  C21. The free counts in the answer to \<open>statfs\<close> are promises that are kept: exactly as many data blocks and
  exactly as many inodes as it names can still be allocated; one more is refused with \<open>Exhausted\<close>.
\<close>

theorem statfs_promises_are_kept:
  fixes s :: "'z fuse_scheme"
  assumes "store_ok X s is ds" "\<not> borrowed s"
  shows "\<exists>bf ff. fs_statfs s = (Ok (RStatfs (db_count (sb s)) bf bf (inode_count (sb s)) ff
       (block_size (sb s) mod 4294967296) MAX_NAMELEN (block_size (sb s) mod 4294967296)), s)
     \<and> (\<exists>t. take_slots (allocate_db X) bf s = (Ok ds, t)) \<and> (\<exists>t. take_slots (allocate_db X) (Suc bf) s = (Err Exhausted, t))
     \<and> (\<exists>t. take_slots (allocate_inode X) ff s = (Ok is, t)) \<and> (\<exists>t. take_slots (allocate_inode X) (Suc ff) s = (Err Exhausted, t))"
proof -
  have st: "fs_statfs s = (Ok (RStatfs (db_count (sb s)) (length ds) (length ds) (inode_count (sb s)) (length is)
       (block_size (sb s) mod 4294967296) MAX_NAMELEN (block_size (sb s) mod 4294967296)), s)"
    by (simp add: fs_statfs_def respond_def statfs_run [OF assms] ret_def)
  have db: "\<exists>t. take_slots (allocate_db X) (length ds) s = (Ok ds, t)" "\<exists>t. take_slots (allocate_db X) (Suc (length ds)) s = (Err Exhausted, t)"
    using db_slots.take_all [of X s ds "[]"] db_slots.take_one_too_many [of X s ds] assms(1) by auto
  have ino: "\<exists>t. take_slots (allocate_inode X) (length is) s = (Ok is, t)"
    "\<exists>t. take_slots (allocate_inode X) (Suc (length is)) s = (Err Exhausted, t)"
    using inode_slots.take_all [of X s "is" "[]"] inode_slots.take_one_too_many [of X s "is"] assms(1) by auto
  show ?thesis by (rule exI [of _ "length ds"], rule exI [of _ "length is"]) (intro conjI st db ino)
qed

theorem statfs_promises_are_kept_witness:
  "\<exists>bf ff. fs_statfs served_state = (Ok (RStatfs (db_count (sb served_state)) bf bf (inode_count (sb served_state)) ff
       (block_size (sb served_state) mod 4294967296) MAX_NAMELEN (block_size (sb served_state) mod 4294967296)), served_state)
     \<and> (\<exists>t. take_slots (allocate_db plain_ext) bf served_state = (Ok demo_blocks, t))
     \<and> (\<exists>t. take_slots (allocate_db plain_ext) (Suc bf) served_state = (Err Exhausted, t))"
proof -
  have "store_ok plain_ext served_state (tl demo_inodes) demo_blocks"
    using file_store_ok store_ok_dev [OF served_state_simps(4,5)] by blast
  from statfs_promises_are_kept [OF this served_state_simps(1)] show ?thesis by blast
qed



text \<open>
  C23. \<open>allocate_db\<close> returns the first free block and leaves every byte of the device unchanged that lies
  outside the super block and the blocks that stay free: neither the contents of files nor inodes nor
  the block that is handed out are written.
\<close>

theorem allocation_touches_free_bytes_only:
  assumes "store_ok X s is (p # ds)"
  shows "\<exists>s'. allocate_db X s = (Ok p, s') \<and> store_ok X s' is ds \<and>
    (\<forall>i. i \<notin> sb_range \<longrightarrow> i \<notin> covered (block_size (sb s)) ds \<longrightarrow> disk s' i = disk s i)"
proof -
  obtain s' where s': "allocate_db X s = (Ok p, s')" "store_ok X s' is ds"
    "same_used (free_bytes s [] ds) s s'" by (rule allocate_db_pop [OF assms])
  then show ?thesis using same_used_disk [OF s'(3)] by (auto simp: free_bytes_def)
qed

theorem allocation_touches_free_bytes_only_witness:
  "\<exists>s'. allocate_db plain_ext demo_store = (Ok 4096, s') \<and> store_ok plain_ext s' demo_inodes (tl demo_blocks) \<and>
    (\<forall>i. i \<notin> sb_range \<longrightarrow> i \<notin> covered (block_size (sb demo_store)) (tl demo_blocks) \<longrightarrow>
      disk s' i = disk demo_store i)"
  by (rule allocation_touches_free_bytes_only) (use demo_ok in \<open>simp add: demo_blocks_def\<close>)


section \<open>Names, nodes and directories\<close>

text \<open>
  C25. The two programs fit: \<open>mkdk\<close>, given the bytes per inode as a decimal number, formats a device with room for it, makes the root directory, links it in
  itself under both names and writes it back; \<open>mtdk\<close>, started on the bytes that are left, mounts it, and the
  first \<open>opendir\<close> of the kernel finds exactly these two entries.
\<close>

theorem formatted_devices_mount_with_a_root:
  fixes s :: "'a donkey_scheme" and t :: "'z fuse_scheme"
  assumes "dev_open (Some (kind, c, len)) getsize = Ok d" "formattable d bpi" "codec_ok X" "no_faults X" "clock_ok X"
    "root_room X (formatted_sb d bpi)"
  shows "\<exists>m s' u v. mkdk_cli X (Some (kind, c, len)) getsize (Some (decimal bpi)) = Some m \<and> m s = (Ok (), s')
     \<and> mtdk_main X (Some (kind, content (dev s'), len)) getsize t = (Ok (), u)
     \<and> fs_opendir L X req (FUSE_ROOT_ID L) fl u = (Ok (ROpened (rq_unique req) fl), v)
     \<and> dir_fh v (rq_unique req) = Some \<lparr>dh_key = ROOT_INODE, dh_entries = [(dot, ROOT_INODE), (dotdot, ROOT_INODE)]\<rparr>"
proof -
  obtain s' "is" where s: "mkdk_main X (Some (kind, c, len)) getsize (Some bpi) s = (Ok (), s')"
    "dir_on_device X is ROOT_INODE (self_entries ROOT_INODE) s'"
    "raw_len (dev s') = raw_len d" "d_block_count (dev s') = d_block_count d" "d_block_size (dev s') = d_block_size d"
    by (rule mkdk_run [OF assms])
  obtain u where u: "mtdk_main X (Some (kind, content (dev s'), len)) getsize t = (Ok (), u)"
    "dir_on_device X is ROOT_INODE (self_entries ROOT_INODE) u" "idle u"
    by (rule mtdk_run [OF s(2) dev_open_again [OF assms(1) s(3-5)]])
  obtain v where "h_opendir X ROOT_INODE u = (Ok \<lparr>dh_key = ROOT_INODE, dh_entries = self_entries ROOT_INODE\<rparr>, v)"
    by (rule root_opened [OF u(2,3) self_entries_ok assms(5,3)])
  then have "h_opendir X (real_ino L (FUSE_ROOT_ID L)) u = (Ok \<lparr>dh_key = ROOT_INODE, dh_entries = self_entries ROOT_INODE\<rparr>, v)"
    by (simp add: real_ino_def)
  then obtain w where "fs_opendir L X req (FUSE_ROOT_ID L) fl u = (Ok (ROpened (rq_unique req) fl), w)"
    "dir_fh w (rq_unique req) = Some \<lparr>dh_key = ROOT_INODE, dh_entries = self_entries ROOT_INODE\<rparr>"
    by (rule opendir_reply)
  moreover have "bpi < u64_limit" by (rule formattable_ratio [OF assms(2)])
  ultimately show ?thesis using s(1) u(1) mkdk_cli_decimal unfolding self_entries_def by blast
qed

theorem formatted_devices_mount_with_a_root_witness:
  "\<exists>m s' u v. mkdk_cli plain_ext (Some (KRegular, \<lambda>_. 0, 32768)) (Inl 0) (Some [52, 48, 57, 54]) = Some m \<and> m empty_fuse = (Ok (), s')
     \<and> mtdk_main plain_ext (Some (KRegular, content (dev s'), 32768)) (Inl 0) empty_fuse = (Ok (), u)
     \<and> fs_opendir linux plain_ext demo_req 1 0 u = (Ok (ROpened 7 0), v)
     \<and> dir_fh v 7 = Some \<lparr>dh_key = 114514, dh_entries = [([46], 114514), ([46, 46], 114514)]\<rparr>"
  using formatted_devices_mount_with_a_root [OF image_opened demo_formattable plain_codec_ok plain_no_faults plain_clock_ok
      demo_root_room, of empty_fuse empty_fuse linux demo_req 0]
  by (simp add: linux_def demo_req_def dot_def dotdot_def decimal_4096)

text \<open>
  C26. Making a node under a new name of an open directory succeeds: the answer has the number of the first
  free inode, the mode and owner asked for, no size and one link; looking the name up afterwards gives
  the same answer, although the node has been written to the device and loaded again in between; and the
  store stays consistent with exactly that inode taken.
\<close>

theorem created_nodes_are_found:
  assumes "store_ok X s (ino # is) ds" "node_args X uid gid rdev s" "ready_dir k d f s"
    "map_of (d_entries d) name = None" "length name \<le> MAX_NAMELEN" "opened_files s ino = None"
  shows "\<exists>st t u. h_mknod X uid gid k name mode rdev s = (Ok st, t) \<and> h_lookup X k name t = (Ok st, u)
    \<and> st_ino st = ino \<and> st_mode st = mode \<and> st_uid st = uid \<and> st_gid st = gid \<and> st_nlink st = 1 \<and> st_size st = 0
    \<and> store_ok X u is ds"
proof -
  obtain i t d' f' where t: "h_mknod X uid gid k name mode rdev s = (Ok (stat_of i (block_size (sb s))), t)"
    "node_at X is ds ino i t" "i_mode i = mode" "i_uid i = uid" "i_gid i = gid" "i_nlink i = 1"
    "open_dir_at k d' f' t" "d_entries d' = om_insert name ino (d_entries d)" "0 < dir_refs t k" "close_dirs t = [k]"
    "block_size (sb t) = block_size (sb s)"
    by (rule mknod_links [OF assms])
  have "map_of (d_entries d') name = Some ino"
    using assms(3) by (simp add: t(8) ready_dir_def om_lookup_insert)
  from lookup_node [OF t(2,7) this assms(5) t(9,10)] obtain u where
    u: "h_lookup X k name t = (Ok (stat_of i (block_size (sb s))), u)" "store_ok X u is ds" unfolding t(11) by blast
  have "i_ino i = ino" "i_size i = 0" using t(2) by (simp_all add: node_at_def blank_inode_def)
  then show ?thesis
    using t(1,3-6) u by (intro exI [of _ "stat_of i (block_size (sb s))"] exI [of _ t] exI [of _ u]) (simp add: stat_of_def)
qed

theorem created_nodes_are_found_witness:
  "\<exists>st t u. h_mknod plain_ext 1000 100 114514 [98] (REGULAR_FILE OR USER_RWX) None held_dir_state = (Ok st, t)
    \<and> h_lookup plain_ext 114514 [98] t = (Ok st, u) \<and> st_ino st = 114515 \<and> st_uid st = 1000 \<and> st_nlink st = 1"
  using created_nodes_are_found [OF held_dir_store held_dir_args held_dir_ready held_dir_names(1) _ held_dir_names(3),
      of "REGULAR_FILE OR USER_RWX"] by auto

text \<open>
  C27. A node that is made and then unlinked leaves nothing behind: the directory has its old entries, looking
  the name up fails with \<open>NotFound\<close>, and once the pending releases are applied (as after every request)
  the inode is free again, first in the list as before.
\<close>

theorem removed_nodes_leave_nothing:
  assumes "store_ok X s (ino # is) ds" "node_args X uid gid rdev s" "ready_dir k d f s"
    "map_of (d_entries d) name = None" "length name \<le> MAX_NAMELEN" "opened_files s ino = None"
  shows "\<exists>st t u v d'. h_mknod X uid gid k name mode rdev s = (Ok st, t) \<and> h_unlink X k name t = (Ok (), u)
    \<and> opened_dirs u k = Some d' \<and> d_entries d' = d_entries d \<and> fst (h_lookup X k name u) = Err NotFound
    \<and> h_apply_releases X u = (Ok (), v) \<and> store_ok X v (ino # is) ds \<and> opened_files v ino = None"
proof -
  obtain st t u v d' f' where "h_mknod X uid gid k name mode rdev s = (Ok st, t)" "h_unlink X k name t = (Ok (), u)"
    "open_dir_at k d' f' u" "d_entries d' = d_entries d" "fst (h_lookup X k name u) = Err NotFound"
    "h_apply_releases X u = (Ok (), v)" "store_ok X v (ino # is) ds" "opened_files v ino = None"
    by (rule node_life [OF assms])
  then show ?thesis unfolding open_dir_at_def by blast
qed

theorem removed_nodes_leave_nothing_witness:
  "\<exists>st t u v. h_mknod plain_ext 1000 100 114514 [98] (REGULAR_FILE OR USER_RWX) None held_dir_state = (Ok st, t)
    \<and> h_unlink plain_ext 114514 [98] t = (Ok (), u) \<and> h_apply_releases plain_ext u = (Ok (), v)
    \<and> store_ok plain_ext v (114515 # tl (tl demo_inodes)) demo_blocks"
  using removed_nodes_leave_nothing [OF held_dir_store held_dir_args held_dir_ready held_dir_names(1) _ held_dir_names(3),
      of "REGULAR_FILE OR USER_RWX"] by auto

text \<open>
  C28. The entries of an open directory are a partial map from names to inode numbers: any sequence of
  \<open>add_entry\<close> and \<open>remove_entry\<close>, the failing ones included, has the outcomes of the map.  Adding a name
  that exists fails with \<open>AlreadyExists\<close> and keeps the old number, and removing gives the number that
  the name had.
\<close>

theorem directory_entries_are_a_map:
  assumes "clock_ok X" "open_dir_at k d f s" "om_valid (d_entries d)"
  shows "\<exists>d' f' t. run_names X k ops s = (Ok (names_replies (map_of (d_entries d)) ops), t) \<and> open_dir_at k d' f' t
    \<and> om_valid (d_entries d') \<and> map_of (d_entries d') = foldl names_after (map_of (d_entries d)) ops"
  by (rule names_run [OF assms])

theorem directory_entries_are_a_map_witness:
  "\<exists>t. run_names plain_ext 114514 [AddName [98] 5, AddName [98] 6, RemoveName [98], RemoveName [98], AddName [97] 7] held_dir_state
    = (Ok [Added (Ok ()), Added (Err AlreadyExists), Removed (Ok (Some 5)), Removed (Ok None), Added (Err AlreadyExists)], t)"
proof -
  have d: "open_dir_at 114514 demo_dkdir (dkfile_new demo_dir_inode) held_dir_state" "om_valid (d_entries demo_dkdir)"
    using held_dir_ready by (simp_all add: ready_dir_def)
  let ?ops = "[AddName [98] 5, AddName [98] 6, RemoveName [98], RemoveName [98], AddName [97] 7]"
  have eq: "names_replies (map_of (d_entries demo_dkdir)) ?ops =
      [Added (Ok ()), Added (Err AlreadyExists), Removed (Ok (Some 5)), Removed (Ok None), Added (Err AlreadyExists)]"
    by (simp add: demo_dkdir_def demo_entries_def)
  show ?thesis using directory_entries_are_a_map [OF plain_clock_ok d, of ?ops] unfolding eq by blast
qed

text \<open>
  C29. A changed directory without handles is in the list of directories to close.  Opening it again writes
  its entries (through the 8192-byte buffer), drops and closes its file, loads the file from the device
  and reads the entries back (through the other buffer): they are the same entries, if their names and
  numbers can be encoded and the device has room.
\<close>

theorem closed_directories_are_reloaded:
  assumes "unused_dir k d f s" "dense X V is ds (f, s)" "inode_used is (f, s)" "clock_ok X" "codec_ok X"
    "dir_room X ds (d_entries d) (f, s)" "entries_ok (d_entries d)"
  shows "\<exists>u. open_dir X k s = (Ok \<lparr>dh_key = k, dh_entries = d_entries d\<rparr>, u)
    \<and> opened_dirs u k = Some \<lparr>d_fh = k, d_entries = d_entries d, d_dirty = False\<rparr>"
  by (rule reopen_run [OF assms]) blast

theorem closed_directories_are_reloaded_witness:
  "\<exists>u. open_dir plain_ext 114514 dir_state = (Ok \<lparr>dh_key = 114514, dh_entries = demo_entries\<rparr>, u)
    \<and> opened_dirs u 114514 = Some \<lparr>d_fh = 114514, d_entries = demo_entries, d_dirty = False\<rparr>"
proof -
  have d: "d_entries demo_dkdir = demo_entries" by (simp add: demo_dkdir_def)
  show ?thesis
    using closed_directories_are_reloaded [OF dir_state_unused fresh_on_demo(1) [OF dir_state_store demo_dir_blank]
        dir_state_inode_used plain_clock_ok plain_codec_ok] dir_state_room demo_entries_ok
    unfolding d by blast
qed

text \<open>
  C30. Making a node under an existing name fails with \<open>AlreadyExists\<close> and keeps the entries of the directory,
  but not without a trace: the inode has been allocated and written before the name is checked.  It is
  not free any more, has no links, and no name leads to it.
\<close>

theorem refused_names_leak_inodes:
  assumes "store_ok X s (ino # is) ds" "node_args X uid gid rdev s" "ready_dir k d f s"
    "map_of (d_entries d) name \<noteq> None" "length name \<le> MAX_NAMELEN"
  shows "\<exists>t i d'. h_mknod X uid gid k name mode rdev s = (Err AlreadyExists, t) \<and> store_ok X t is ds
    \<and> read_inode X ino t = (Ok i, t) \<and> i_nlink i = 0 \<and> opened_dirs t k = Some d' \<and> d_entries d' = d_entries d"
  by (rule mknod_exists [OF assms]) blast

theorem refused_names_leak_inodes_witness:
  "\<exists>t. h_mknod plain_ext 1000 100 114514 [97] (REGULAR_FILE OR USER_RWX) None held_dir_state = (Err AlreadyExists, t)
    \<and> store_ok plain_ext t (tl (tl demo_inodes)) demo_blocks"
  using refused_names_leak_inodes [OF held_dir_store held_dir_args held_dir_ready held_dir_names(2),
      of "REGULAR_FILE OR USER_RWX"] by auto

section \<open>The block map\<close>

text \<open>
  C31. Looking up a block of a file through the caches of pointer blocks gives the same pointer as the
  definition of the map, \<open>block_ptr\<close>, which follows the pointers from the inode; the map stays as it
  is, and only pointer blocks of this file are written back.
\<close>

theorem block_map_lookup:
  assumes "file_map X {} V is ds (f, s)" "bi < max_blocks (pcount s)"
  shows "\<exists>g t. locate X bi (f, s) =
      (Ok (let p = block_ptr (pcount s) (rows f) V bi in if p = 0 then None else Some p), (g, t))
    \<and> file_map X {} V is ds (g, t) \<and> f_inode g = f_inode f
    \<and> (\<forall>a. a \<notin> block_bytes (block_size (sb s)) (ptr_blocks (pcount s) (rows f) V) \<longrightarrow> disk t a = disk s a)"
proof -
  obtain g t where l: "locate X bi (f, s) =
      (Ok (let p = block_ptr (pcount s) (rows f) V bi in if p = 0 then None else Some p), (g, t))"
    and w: "walked X V is ds (f, s) (g, t)" by (rule locate_Ok [OF assms])
  have "f_inode g = f_inode f" "file_map X {} V is ds (g, t)"
    "evolves (block_bytes (block_size (sb s)) (ptr_blocks (pcount s) (rows f) V)) s t"
    using w by (auto simp: walked_def)
  then show ?thesis using l evolves_disk by blast
qed

theorem block_map_lookup_witness:
  "\<exists>g t. locate plain_ext 600 (demo_file, file_store) =
      (Ok (let p = block_ptr (pcount file_store) (rows demo_file) (\<lambda>_. []) 600 in if p = 0 then None else Some p), (g, t))
    \<and> file_map plain_ext {} (\<lambda>_. []) (tl demo_inodes) demo_blocks (g, t) \<and> f_inode g = f_inode demo_file
    \<and> (\<forall>a. a \<notin> block_bytes (block_size (sb file_store)) (ptr_blocks (pcount file_store) (rows demo_file) (\<lambda>_. []))
        \<longrightarrow> disk t a = disk file_store a)"
  by (rule block_map_lookup [OF denseD(1) [OF demo_dense(1)]]) (simp add: file_store_size max_blocks_def)

text \<open>
  C32. \<open>locate_alloc\<close> returns the block at the wanted number, after entering one if there was none, and
  changes no other entry of the map; or the free blocks run out, then the whole map is as before.  It
  takes at most five free blocks, from the front of the list, and none when the block was there.
\<close>

theorem block_map_extension:
  assumes "file_map X {} V is ds (f, s)" "bi < max_blocks (pcount s)" "M = block_ptr (pcount s) (rows f) V"
  shows "\<exists>r g t V' ds' us. locate_alloc X bi (f, s) = (r, (g, t)) \<and> file_map X {} V' is ds' (g, t)
    \<and> ds = us @ ds' \<and> length us \<le> 5
    \<and> (\<exists>M'. (\<forall>bk < max_blocks (pcount s). block_ptr (pcount s) (rows g) V' bk = M' bk)
        \<and> (if r = Err Exhausted then ds' = [] \<and> M bi = 0 \<and> M' = M
           else \<exists>v. r = Ok v \<and> v \<noteq> 0 \<and> M' = M(bi := v) \<and> (M bi \<noteq> 0 \<longrightarrow> v = M bi \<and> us = [])))"
proof -
  obtain r g t V' ds' where la: "locate_alloc X bi (f, s) = (r, (g, t))"
    "placed X is 5 V ds (f, s) M bi r V' ds' (g, t)" unfolding assms(3) by (rule locate_alloc_run [OF assms(1,2)])
  define M' where "M' = (case r of Ok v \<Rightarrow> M(bi := v) | _ \<Rightarrow> M)"
  have gr: "grown X is 5 V ds (f, s) M' V' ds' (g, t)" using la(2) by (cases r) (auto simp: placed_def M'_def)
  then obtain us where us: "ds = us @ ds'" "length us \<le> 5" by (auto simp: grown_def)
  have "if r = Err Exhausted then ds' = [] \<and> M bi = 0 \<and> M' = M
      else \<exists>v. r = Ok v \<and> v \<noteq> 0 \<and> M' = M(bi := v) \<and> (M bi \<noteq> 0 \<longrightarrow> v = M bi \<and> us = [])"
    using la(2) us(1) by (cases r) (auto simp: placed_def M'_def)
  then show ?thesis using la(1) us grown_D(1) [OF gr] grown_ptr [OF gr] grown_D(3) [OF gr] by metis
qed

theorem block_map_extension_witness:
  "\<exists>r g t V' ds' us. locate_alloc plain_ext 600 (demo_file, file_store) = (r, (g, t))
    \<and> file_map plain_ext {} V' (tl demo_inodes) ds' (g, t) \<and> demo_blocks = us @ ds' \<and> length us \<le> 5
    \<and> (\<exists>M'. (\<forall>bk < max_blocks (pcount file_store). block_ptr (pcount file_store) (rows g) V' bk = M' bk)
        \<and> (if r = Err Exhausted then ds' = [] \<and> block_ptr (pcount file_store) (rows demo_file) (\<lambda>_. []) 600 = 0
             \<and> M' = block_ptr (pcount file_store) (rows demo_file) (\<lambda>_. [])
           else \<exists>v. r = Ok v \<and> v \<noteq> 0 \<and> M' = (block_ptr (pcount file_store) (rows demo_file) (\<lambda>_. []))(600 := v)
             \<and> (block_ptr (pcount file_store) (rows demo_file) (\<lambda>_. []) 600 \<noteq> 0
                 \<longrightarrow> v = block_ptr (pcount file_store) (rows demo_file) (\<lambda>_. []) 600 \<and> us = [])))"
  by (rule block_map_extension [OF denseD(1) [OF demo_dense(1)] _ refl]) (simp add: file_store_size max_blocks_def)

text \<open>
  C33. The map of a file reaches \<open>max_blocks\<close> blocks, that is a little more than 256 TB with blocks of 4096
  bytes; \<open>locate\<close> and \<open>locate_alloc\<close> of a block beyond it panic and change nothing.
\<close>

theorem blocks_beyond_the_map_panic:
  assumes "file_map X {} V is ds (f, s)" "max_blocks (pcount s) \<le> bi"
  shows "locate X bi (f, s) = (Panic, (f, s)) \<and> locate_alloc X bi (f, s) = (Panic, (f, s))
    \<and> (block_size (sb s) = 4096 \<longrightarrow> 256 * 1024 ^ 4 < max_blocks (pcount s) * block_size (sb s))"
  using locate_alloc_beyond [OF assms] by (simp add: pcount_def max_blocks_def)

theorem blocks_beyond_the_map_panic_witness:
  "locate plain_ext 68853957132 (demo_file, file_store) = (Panic, (demo_file, file_store))
   \<and> locate_alloc plain_ext 68853957132 (demo_file, file_store) = (Panic, (demo_file, file_store))"
  using blocks_beyond_the_map_panic [OF denseD(1) [OF demo_dense(1)], of 68853957132]
  by (simp add: file_store_size max_blocks_def)

text \<open>
  C34. A write through a device changes neither its size nor a byte at or beyond it, whatever its outcome.
\<close>

theorem device_writes_stay_inside:
  assumes "dev_write_at X bs ptr d = (r, d')"
  shows "dev_size d' = dev_size d \<and> raw_len d' = raw_len d
     \<and> (\<forall>i. dev_size d \<le> i \<longrightarrow> content d' i = content d i)"
  by (rule dev_write_at_within [OF assms])

theorem device_writes_stay_inside_witness:
  "content (snd (dev_write_at plain_ext [1, 2] 32766 demo_device)) 32768 = content demo_device 32768
   \<and> dev_size (snd (dev_write_at plain_ext [1, 2] 32766 demo_device)) = dev_size demo_device"
  using device_writes_stay_inside [of plain_ext "[1, 2]" 32766 demo_device, OF prod.collapse [symmetric]]
  by simp

section \<open>Handles, requests and conversions\<close>

text \<open>
  C35. In every state of a mounted file system between two requests, the reference count of a file is the
  number of handles that the kernel holds for it, and one more when the directory of that number is
  open; the count of a directory is the number of handles that the kernel holds for it; and what a
  handle of the kernel points to is in the table.  So no handle leaks, none is dropped twice, and a file
  that the kernel has open is never closed or destroyed under it.
\<close>

theorem handles_are_counted:
  assumes "reachable L X s"
  shows "(\<forall>k. file_refs s k = card {u. \<exists>h. file_fh s u = Some h \<and> fh_key h = k}
              + (if opened_dirs s k = None then 0 else 1))
    \<and> (\<forall>k. dir_refs s k = card {u. \<exists>h. dir_fh s u = Some h \<and> dh_key h = k})
    \<and> (\<forall>u h. file_fh s u = Some h \<longrightarrow> opened_files s (fh_key h) \<noteq> None)
    \<and> (\<forall>u h. dir_fh s u = Some h \<longrightarrow> opened_dirs s (dh_key h) \<noteq> None)"
  using fuse_ok_counts [OF reachable_fuse_ok [OF assms]] by (auto simp: held_def)

theorem handles_are_counted_witness:
  "file_refs opened_demo 114514 = card {u. \<exists>h. file_fh opened_demo u = Some h \<and> fh_key h = 114514}
              + (if opened_dirs opened_demo 114514 = None then 0 else 1)
    \<and> opened_files opened_demo 114514 \<noteq> None"
  using handles_are_counted [OF opened_reachable] open_demo by fastforce



text \<open>
  C37. \<open>fsyncdir\<close> without \<open>datasync\<close> never succeeds: it fails with the error of writing the directory, or it
  panics, because the \<open>RefCell\<close> of the file system is still borrowed when the flush of the directory's
  file borrows it again.
\<close>

theorem fsyncdir_panics:
  "fst (h_fsyncdir X dh False s) =
    (if borrowed s then Panic
     else case fst (flush_dir X (dh_key dh) (s\<lparr>borrowed := True\<rparr>)) of
       Err e \<Rightarrow> Err e | Hang \<Rightarrow> Hang | _ \<Rightarrow> Panic)"
  by (cases "borrowed s") (simp_all only: fsyncdir_outcome if_False if_True not_False_eq_True, simp add: h_fsyncdir_def dropping_def borrow_mut_def)



text \<open>
  C39. The access mode of \<open>open\<close> survives the translation to the flags of dkfs and back; the combination
  that is no access mode panics on the way back.
\<close>

theorem open_flags_round_trip:
  "fuse_flags linux (open_flags linux fl) = (if fl AND 3 = 3 then Panic else Ok (fl AND 3))"
  by (rule fuse_flags_open_flags)

text \<open>
  C40. A mode that the kernel passes keeps its twelve permission bits, and the kind reported for it is the
  type in its upper four bits; only a mode without a known type makes the report panic.
\<close>

theorem modes_are_translated:
  "permission (file_mode_of linux m) = ucast m AND 0xFFF \<and>
   dk_file_type (file_mode_of linux m) =
    (if m AND 0xF000 = 0x8000 then Ok RegularFile else if m AND 0xF000 = 0xC000 then Ok Socket
     else if m AND 0xF000 = 0x4000 then Ok Directory else if m AND 0xF000 = 0xA000 then Ok Symlink
     else if m AND 0xF000 = 0x2000 then Ok CharDevice else if m AND 0xF000 = 0x6000 then Ok BlockDevice
     else if m AND 0xF000 = 0x1000 then Ok NamedPipe else Panic)"
  by (rule conjI [OF permission_file_mode dk_file_type_file_mode])

end
